(* ===== verification/Text.thy ===== *)
theory Text
  imports Prelude "HOL-Library.Word" "HOL-Library.Log_Nat"
begin

text \<open>
  JavaScript strings as the language has them, lists of 16-bit code units, with the operations
  the components use: trimming and white space, lower case, lines, decimal numbers and search.
  A file's bytes are a list of 8-bit words.
\<close>

type_synonym jtext = "16 word list"
type_synonym bytes = "8 word list"

text \<open>A literal of the source.\<close>

definition js :: "string \<Rightarrow> jtext" where
  "js s = map of_char s"

lemma js_append [simp]: "js (s @ t) = js s @ js t"
  by (simp add: js_def)

definition EM_DASH :: "16 word" where
  "EM_DASH = 0x2014"

definition EN_DASH :: "16 word" where
  "EN_DASH = 0x2013"

definition ELLIPSIS :: "16 word" where
  "ELLIPSIS = 0x2026"

definition MINUS_SIGN :: "16 word" where
  "MINUS_SIGN = 0x2212"

section \<open>White space\<close>

text \<open>The class \<open>\s\<close>, which is also what \<open>trim\<close> removes.\<close>

definition is_space :: "16 word \<Rightarrow> bool" where
  "is_space c = ((9 \<le> c \<and> c \<le> 13) \<or>
     c \<in> {32, 160, 0x1680, 0x2028, 0x2029, 0x202F, 0x205F, 0x3000, 0xFEFF} \<or>
     (0x2000 \<le> c \<and> c \<le> 0x200A))"

definition trim_left :: "jtext \<Rightarrow> jtext" where
  "trim_left t = dropWhile is_space t"

definition trim :: "jtext \<Rightarrow> jtext" where
  "trim t = rev (trim_left (rev (trim_left t)))"

text \<open>\<open>replace(/\s+/g, " ")\<close>.\<close>

fun flatten_spaces :: "jtext \<Rightarrow> jtext" where
  "flatten_spaces [] = []"
| "flatten_spaces (c # cs) =
     (if is_space c
      then (case cs of
              d # _ \<Rightarrow> if is_space d then flatten_spaces cs else 32 # flatten_spaces cs
            | [] \<Rightarrow> [32])
      else c # flatten_spaces cs)"

text \<open>
  \<open>toLowerCase\<close> on the ASCII letters. Where it is used here the result is compared with ASCII
  words only, and no other character lowers into one of their letters.
\<close>

definition ascii_lower :: "jtext \<Rightarrow> jtext" where
  "ascii_lower t = map (\<lambda>c. if 65 \<le> c \<and> c \<le> 90 then c + 32 else c) t"

section \<open>Lines\<close>

text \<open>\<open>split(/\r\n|\r|\n/)\<close>.\<close>

fun split_lines :: "'a::len word list \<Rightarrow> 'a word list list" where
  "split_lines [] = [[]]"
| "split_lines (c # cs) =
     (if c = 13 then
        (case cs of
           d # ds \<Rightarrow> if d = 10 then [] # split_lines ds else [] # split_lines cs
         | [] \<Rightarrow> [[], []])
      else if c = 10 then [] # split_lines cs
      else (case split_lines cs of l # ls \<Rightarrow> (c # l) # ls | [] \<Rightarrow> [[c]]))"

fun join_lines :: "jtext list \<Rightarrow> jtext" where
  "join_lines [] = []"
| "join_lines [l] = l"
| "join_lines (l # ls) = l @ 10 # join_lines ls"

section \<open>Numbers\<close>

definition digit :: "nat \<Rightarrow> 16 word" where
  "digit d = word_of_nat (48 + d)"

fun decimal :: "nat \<Rightarrow> jtext" where
  "decimal n = (if n < 10 then [digit n] else decimal (n div 10) @ [digit (n mod 10)])"

declare decimal.simps [simp del]

definition is_digit :: "16 word \<Rightarrow> bool" where
  "is_digit c = (48 \<le> c \<and> c \<le> 57)"

definition digits_value :: "jtext \<Rightarrow> nat" where
  "digits_value ds = foldl (\<lambda>a c. 10 * a + (unat c - 48)) 0 ds"

text \<open>
  \<open>Number(digits)\<close>: the nearest double (ties to the even mantissa); \<open>Infinity\<close> is no integer.
\<close>

definition js_integer :: "nat \<Rightarrow> nat option" where
  "js_integer n =
     (if n < 2 ^ 53 then Some n
      else let e = floorlog 2 n - 53; q = n div 2 ^ e; r = n mod 2 ^ e;
               up = (2 * r > 2 ^ e \<or> (2 * r = 2 ^ e \<and> odd q));
               v = (if up then q + 1 else q) * 2 ^ e
           in if v \<ge> 2 ^ 1024 then None else Some v)"

lemma unat_digit: "d < 10 \<Longrightarrow> unat (digit d) = 48 + d"
  unfolding digit_def unat_of_nat by simp

lemma is_digit_digit [simp]: "d < 10 \<Longrightarrow> is_digit (digit d)"
  by (simp add: is_digit_def word_le_nat_alt unat_digit)

lemma decimal_digits: "c \<in> set (decimal n) \<Longrightarrow> is_digit c"
  by (induction n rule: decimal.induct) (subst (asm) (2) decimal.simps, auto split: if_splits)

lemma decimal_nonempty [simp]: "decimal n \<noteq> []"
  by (subst decimal.simps) simp

lemma digits_value_decimal [simp]: "digits_value (decimal n) = n"
proof (induction n rule: decimal.induct)
  case (1 n)
  show ?case
  proof (cases "n < 10")
    case True
    then show ?thesis by (subst decimal.simps) (simp add: digits_value_def unat_digit)
  next
    case False
    then have "digits_value (decimal n) =
        10 * digits_value (decimal (n div 10)) + (unat (digit (n mod 10)) - 48)"
      by (subst decimal.simps) (simp add: digits_value_def)
    with 1 [OF False] show ?thesis by (simp add: unat_digit)
  qed
qed

lemma digit_not_space: "is_digit c \<Longrightarrow> \<not> is_space c"
  by (auto simp: is_digit_def is_space_def word_le_nat_alt word_less_nat_alt)

lemma digit_lower: "is_digit c \<Longrightarrow> \<not> (65 \<le> c \<and> c \<le> 90)"
  by (auto simp: is_digit_def word_le_nat_alt)

section \<open>Search\<close>

text \<open>\<open>indexOf\<close>; the empty text is found at once.\<close>

fun index_of :: "jtext \<Rightarrow> jtext \<Rightarrow> nat option" where
  "index_of p [] = (if p = [] then Some 0 else None)"
| "index_of p (c # cs) =
     (if take (length p) (c # cs) = p then Some 0 else map_option Suc (index_of p cs))"

definition contains_text :: "jtext \<Rightarrow> jtext \<Rightarrow> bool" where
  "contains_text p t = (index_of p t \<noteq> None)"

lemma index_of_Some: "index_of p t = Some i \<Longrightarrow> take (length p) (drop i t) = p \<and> i + length p \<le> length t"
proof (induction p t arbitrary: i rule: index_of.induct)
  case (2 p c cs)
  show ?case
  proof (cases "take (length p) (c # cs) = p")
    case True
    with 2 have "i = 0" by simp
    with True show ?thesis by (metis add_0 drop0 length_take min.cobounded1)
  next
    case False
    with 2 obtain j where "index_of p cs = Some j" "i = Suc j" by auto
    with 2 False show ?thesis by auto
  qed
qed (simp split: if_splits)

end
