(* ===== verification/PatchContext.thy ===== *)
theory PatchContext
  imports Text
begin

text \<open>
  Where a hunk of a patch belongs in a file: the canonical form of a line, the edit distance and
  the four passes of the search, from
  \<open>sdk/packages/core/src/extensions/tools/executors/apply-patch-parser.ts\<close>. \<open>nfc\<close> is
  \<open>normalize("NFC")\<close>, whose tables are Unicode's.

  A similarity is a rational here and a double in the code. Every quotient of two lengths below
  \<open>2 ^ 26\<close> compares with every other one, and with 0.66, as the doubles do.
\<close>

section \<open>Strings and arrays\<close>

text \<open>\<open>startsWith\<close>.\<close>

definition starts :: "jtext \<Rightarrow> jtext \<Rightarrow> bool" where
  "starts p t = (take (length p) t = p)"

text \<open>\<open>split("\n")\<close>, which \<open>join_lines\<close> undoes.\<close>

fun split_lf :: "jtext \<Rightarrow> jtext list" where
  "split_lf [] = [[]]"
| "split_lf (c # cs) =
     (if c = 10 then [] # split_lf cs
      else (case split_lf cs of l # ls \<Rightarrow> (c # l) # ls | [] \<Rightarrow> [[c]]))"

definition trim_right :: "jtext \<Rightarrow> jtext" where
  "trim_right t = rev (trim_left (rev t))"

text \<open>\<open>slice(i, j)\<close>: a negative index counts from the end.\<close>

definition slice_bound :: "nat \<Rightarrow> int \<Rightarrow> nat" where
  "slice_bound n k = (if k < 0 then nat (int n + k) else min n (nat k))"

definition js_slice :: "'a list \<Rightarrow> int \<Rightarrow> int \<Rightarrow> 'a list" where
  "js_slice xs i j =
     (let a = slice_bound (length xs) i; b = slice_bound (length xs) j in take (b - a) (drop a xs))"

lemma starts_Nil [simp]: "starts [] t"
  by (simp add: starts_def)

lemma starts_append [simp]: "starts p (p @ t)"
  by (simp add: starts_def)

lemma split_lf_not_Nil [simp]: "split_lf t \<noteq> []"
  by (induction t) (auto split: list.splits)

lemma split_lf_lines: "l \<in> set (split_lf t) \<Longrightarrow> 10 \<notin> set l"
  by (induction t arbitrary: l) (auto split: list.splits if_splits)

lemma join_split_lf [simp]: "join_lines (split_lf t) = t"
proof (induction t)
  case (Cons c cs)
  obtain l ls where s: "split_lf cs = l # ls"
    by (meson neq_Nil_conv split_lf_not_Nil)
  with Cons.IH show ?case by (cases ls) auto
qed simp

lemma split_lf_line: "10 \<notin> set l \<Longrightarrow> split_lf l = [l]"
  by (induction l) auto

lemma split_lf_append: "10 \<notin> set l \<Longrightarrow> split_lf (l @ 10 # t) = l # split_lf t"
  by (induction l) auto

lemma split_join_lf: "ls \<noteq> [] \<Longrightarrow> \<forall>l\<in>set ls. 10 \<notin> set l \<Longrightarrow> split_lf (join_lines ls) = ls"
  by (induction ls rule: join_lines.induct) (auto simp: split_lf_line split_lf_append)

lemma js_slice_nat: "i + n \<le> length xs \<Longrightarrow> js_slice xs (int i) (int i + int n) = take n (drop i xs)"
  by (simp add: js_slice_def slice_bound_def Let_def nat_add_distrib)

section \<open>Canonical lines\<close>

definition punctuation :: "16 word \<Rightarrow> 16 word" where
  "punctuation c =
     (if c \<in> {0x2010, 0x2011, 0x2012, 0x2013, 0x2014, 0x2212} then 45
      else if c \<in> {0x201C, 0x201D, 0x201E, 0xAB, 0xBB} then 34
      else if c \<in> {0x2018, 0x2019, 0x201B} then 39
      else if c \<in> {0xA0, 0x202F} then 32
      else c)"

text \<open>\<open>replace(/\\q/g, q)\<close> for one quote character.\<close>

fun unescape :: "16 word \<Rightarrow> jtext \<Rightarrow> jtext" where
  "unescape q [] = []"
| "unescape q [c] = [c]"
| "unescape q (c # d # cs) =
     (if c = 92 \<and> d = q then q # unescape q cs else c # unescape q (d # cs))"

definition canonicalize :: "(jtext \<Rightarrow> jtext) \<Rightarrow> jtext \<Rightarrow> jtext" where
  "canonicalize nfc t = unescape 34 (unescape 39 (unescape 96 (map punctuation (nfc t))))"

section \<open>Edit distance\<close>

text \<open>The matrix is one flat array; \<open>at\<close> and \<open>set\<close> of the source only see cells inside it.\<close>

definition cell_at :: "nat list \<Rightarrow> nat \<Rightarrow> nat \<Rightarrow> nat \<Rightarrow> nat" where
  "cell_at m cols r c = (let k = r * cols + c in if k < length m then m ! k else 0)"

definition set_cell :: "nat \<Rightarrow> nat \<Rightarrow> nat \<Rightarrow> nat \<Rightarrow> nat list \<Rightarrow> nat list" where
  "set_cell cols r c v m = m[r * cols + c := v]"

definition fill_cell :: "jtext \<Rightarrow> jtext \<Rightarrow> nat \<Rightarrow> nat \<Rightarrow> nat list \<Rightarrow> nat list" where
  "fill_cell str1 str2 i j m =
     (let cols = length str1 + 1
      in if str2 ! (i - 1) = str1 ! (j - 1)
         then set_cell cols i j (cell_at m cols (i - 1) (j - 1)) m
         else set_cell cols i j
                (1 + min (cell_at m cols (i - 1) (j - 1))
                       (min (cell_at m cols i (j - 1)) (cell_at m cols (i - 1) j))) m)"

definition matrix_start :: "jtext \<Rightarrow> jtext \<Rightarrow> nat list" where
  "matrix_start str1 str2 =
     (let rows = length str2 + 1; cols = length str1 + 1;
          m0 = replicate (rows * cols) 0;
          m1 = fold (\<lambda>i. set_cell cols i 0 i) [0..<length str2 + 1] m0
      in fold (\<lambda>j. set_cell cols 0 j j) [0..<length str1 + 1] m1)"

definition levenshtein_distance :: "jtext \<Rightarrow> jtext \<Rightarrow> nat" where
  "levenshtein_distance str1 str2 =
     cell_at
       (fold (\<lambda>i. fold (fill_cell str1 str2 i) [1..<length str1 + 1]) [1..<length str2 + 1]
         (matrix_start str1 str2))
       (length str1 + 1) (length str2) (length str1)"

definition calculate_similarity :: "jtext \<Rightarrow> jtext \<Rightarrow> rat" where
  "calculate_similarity str1 str2 =
     (let longer = (if length str1 > length str2 then str1 else str2);
          shorter = (if length str1 > length str2 then str2 else str1)
      in if length longer = 0 then 1
         else (of_nat (length longer) - of_nat (levenshtein_distance shorter longer))
                / of_nat (length longer))"

section \<open>The search\<close>

text \<open>A piece of the file as long as the context, each line put through \<open>f\<close>.\<close>

definition segment :: "(jtext \<Rightarrow> jtext) \<Rightarrow> (jtext \<Rightarrow> jtext) \<Rightarrow> jtext list \<Rightarrow> nat \<Rightarrow> int \<Rightarrow> jtext" where
  "segment nfc f file n i = canonicalize nfc (join_lines (map f (js_slice file i (i + int n))))"

definition target :: "(jtext \<Rightarrow> jtext) \<Rightarrow> (jtext \<Rightarrow> jtext) \<Rightarrow> jtext list \<Rightarrow> jtext" where
  "target nfc f context = canonicalize nfc (join_lines (map f context))"

definition better :: "rat \<Rightarrow> rat \<Rightarrow> rat" where
  "better best s = (if s > best then s else best)"

text \<open>The first pass, which also keeps the best similarity seen.\<close>

fun exact_pass :: "(int \<Rightarrow> jtext) \<Rightarrow> jtext \<Rightarrow> rat \<Rightarrow> int list \<Rightarrow> int option \<times> rat" where
  "exact_pass seg goal best [] = (None, best)"
| "exact_pass seg goal best (i # is) =
     (if seg i = goal then (Some i, best)
      else exact_pass seg goal (better best (calculate_similarity (seg i) goal)) is)"

text \<open>The second and third pass.\<close>

fun equal_pass :: "(int \<Rightarrow> jtext) \<Rightarrow> jtext \<Rightarrow> int list \<Rightarrow> int option" where
  "equal_pass seg goal [] = None"
| "equal_pass seg goal (i # is) = (if seg i = goal then Some i else equal_pass seg goal is)"

definition SIMILARITY_THRESHOLD :: rat where
  "SIMILARITY_THRESHOLD = 66 / 100"

text \<open>The last pass.\<close>

fun close_pass :: "(int \<Rightarrow> jtext) \<Rightarrow> jtext \<Rightarrow> rat \<Rightarrow> int list \<Rightarrow> (int \<times> rat) option \<times> rat" where
  "close_pass seg goal best [] = (None, best)"
| "close_pass seg goal best (i # is) =
     (let s = calculate_similarity (seg i) goal
      in if s \<ge> SIMILARITY_THRESHOLD then (Some (i, s), best)
         else close_pass seg goal (better best s) is)"

text \<open>
  \<open>findCore\<close>: the position, the fuzz and the similarity, and the closure's \<open>bestSimilarity\<close>
  afterwards. The position -1 says that nothing was found.
\<close>

definition find_core ::
    "(jtext \<Rightarrow> jtext) \<Rightarrow> jtext list \<Rightarrow> jtext list \<Rightarrow> rat \<Rightarrow> int \<Rightarrow> (int \<times> nat \<times> rat) \<times> rat" where
  "find_core nfc file context best start =
     (let n = length context; is = [start..int (length file) - 1] in
      case exact_pass (segment nfc id file n) (target nfc id context) best is of
        (Some i, best) \<Rightarrow> ((i, 0, 1), best)
      | (None, best) \<Rightarrow>
        (case equal_pass (segment nfc trim_right file n) (target nfc trim_right context) is of
           Some i \<Rightarrow> ((i, 1, 1), best)
         | None \<Rightarrow>
           (case equal_pass (segment nfc trim file n) (target nfc trim context) is of
              Some i \<Rightarrow> ((i, 100, 1), best)
            | None \<Rightarrow>
              (case close_pass (segment nfc id file n) (target nfc id context) best is of
                 (Some (i, s), best) \<Rightarrow> ((i, 1000, s), best)
               | (None, best) \<Rightarrow> ((-1, 0, best), best)))))"

definition find_context ::
    "(jtext \<Rightarrow> jtext) \<Rightarrow> jtext list \<Rightarrow> jtext list \<Rightarrow> int \<Rightarrow> bool \<Rightarrow> int \<times> nat \<times> rat" where
  "find_context nfc file context start eof =
     (if context = [] then (start, 0, 1)
      else if eof then
        (case find_core nfc file context 0 (int (length file) - int (length context)) of
           ((i, fuzz, s), best) \<Rightarrow>
             if i \<noteq> -1 then (i, fuzz, s)
             else (case find_core nfc file context best start of
                     ((i, fuzz, s), best) \<Rightarrow> (i, fuzz + 10000, s)))
      else fst (find_core nfc file context 0 start))"

end
