(* ===== verification/Json.thy ===== *)
theory Json
  imports Text "HOL-Library.List_Lexorder" "HOL-Library.Multiset"
begin

text \<open>
  JSON values as the language holds them, \<open>JSON.stringify\<close>, and the signature of a tool call:
  \<open>sdk/packages/core/src/runtime/safety/loop-detection.ts\<close> (\<open>sortKeys\<close>, \<open>toolCallSignature\<close>,
  \<open>describeRepeatedCall\<close>). A number is the text the language prints for it; an object is the list
  of its own members in the order they are enumerated.
\<close>

datatype json =
    JNull
  | JBool bool
  | JNum jtext
  | JStr jtext
  | JArr "json list"
  | JObj "(jtext \<times> json) list"

section \<open>JSON text\<close>

definition hex_digit :: "nat \<Rightarrow> 16 word" where
  "hex_digit d = word_of_nat (if d < 10 then 48 + d else 87 + d)"

definition unicode_escape :: "16 word \<Rightarrow> jtext" where
  "unicode_escape c =
     (let n = unat c
      in [92, 117, hex_digit (n div 4096), hex_digit (n div 256 mod 16), hex_digit (n div 16 mod 16),
          hex_digit (n mod 16)])"

definition high_surrogate :: "16 word \<Rightarrow> bool" where
  "high_surrogate c = (0xD800 \<le> c \<and> c \<le> 0xDBFF)"

definition low_surrogate :: "16 word \<Rightarrow> bool" where
  "low_surrogate c = (0xDC00 \<le> c \<and> c \<le> 0xDFFF)"

definition escape_unit :: "16 word \<Rightarrow> jtext" where
  "escape_unit c =
     (if c = 8 then [92, 98] else if c = 9 then [92, 116] else if c = 10 then [92, 110]
      else if c = 12 then [92, 102] else if c = 13 then [92, 114]
      else if c = 34 then [92, 34] else if c = 92 then [92, 92]
      else if c < 32 \<or> high_surrogate c \<or> low_surrogate c then unicode_escape c
      else [c])"

fun escape_text :: "jtext \<Rightarrow> jtext" where
  "escape_text [] = []"
| "escape_text [c] = escape_unit c"
| "escape_text (c # d # cs) =
     (if high_surrogate c \<and> low_surrogate d then c # d # escape_text cs
      else escape_unit c @ escape_text (d # cs))"

definition quote_text :: "jtext \<Rightarrow> jtext" where
  "quote_text t = 34 # escape_text t @ [34]"

fun join_with :: "jtext \<Rightarrow> jtext list \<Rightarrow> jtext" where
  "join_with sep [] = []"
| "join_with sep [t] = t"
| "join_with sep (t # ts) = t @ sep @ join_with sep ts"

text \<open>The text of a value that is neither a string, an array nor an object.\<close>

fun plain_text :: "json \<Rightarrow> jtext" where
  "plain_text (JBool b) = (if b then js ''true'' else js ''false'')"
| "plain_text (JNum t) = t"
| "plain_text _ = js ''null''"

fun stringify :: "json \<Rightarrow> jtext" where
  "stringify (JStr t) = quote_text t"
| "stringify (JArr vs) = 91 # join_with [44] (map stringify vs) @ [93]"
| "stringify (JObj ms) = 123 # join_with [44] (map (\<lambda>(k, v). quote_text k @ 58 # stringify v) ms) @ [125]"
| "stringify v = plain_text v"

section \<open>Sorted keys\<close>

text \<open>A key that is an array index: enumerated first, by value, whatever the order of insertion.\<close>

definition is_array_index :: "jtext \<Rightarrow> bool" where
  "is_array_index k =
     (k \<noteq> [] \<and> list_all is_digit k \<and> (k = [48] \<or> hd k \<noteq> 48) \<and> digits_value k \<le> 4294967294)"

definition enumeration_order :: "(jtext \<times> 'v) list \<Rightarrow> (jtext \<times> 'v) list" where
  "enumeration_order ms =
     sort_key (\<lambda>m. digits_value (fst m)) (filter (\<lambda>m. is_array_index (fst m)) ms) @
     filter (\<lambda>m. \<not> is_array_index (fst m)) ms"

text \<open>An assignment to \<open>__proto__\<close> makes no member.\<close>

definition PROTO :: jtext where
  "PROTO = js ''__proto__''"

fun sort_keys :: "json \<Rightarrow> json" where
  "sort_keys (JArr vs) = JArr (map sort_keys vs)"
| "sort_keys (JObj ms) =
     JObj (enumeration_order (filter (\<lambda>m. fst m \<noteq> PROTO)
       (sort_key fst (map (\<lambda>(k, v). (k, sort_keys v)) ms))))"
| "sort_keys v = v"

text \<open>\<open>JSON.stringify\<close> of a JSON value does not throw, so the \<open>catch\<close> is never taken.\<close>

definition tool_call_signature :: "json \<Rightarrow> jtext" where
  "tool_call_signature inp =
     (case inp of
        JStr t \<Rightarrow> t
      | JArr vs \<Rightarrow> stringify (sort_keys inp)
      | JObj ms \<Rightarrow> stringify (sort_keys inp)
      | _ \<Rightarrow> plain_text inp)"

section \<open>A repeated call, for a reader\<close>

definition REPEATED_CALL_VALUE_CHARS :: nat where
  "REPEATED_CALL_VALUE_CHARS = 48"

definition quote_flat :: "jtext \<Rightarrow> jtext" where
  "quote_flat t =
     (let flat = trim (flatten_spaces t)
      in quote_text (if length flat > REPEATED_CALL_VALUE_CHARS
                     then take (REPEATED_CALL_VALUE_CHARS - 1) flat @ [ELLIPSIS] else flat))"

fun quote_value :: "json \<Rightarrow> jtext" where
  "quote_value (JStr t) = quote_flat t"
| "quote_value (JArr vs) =
     91 # join_with (js '', '') (take 3 (map quote_value vs)) @
       (if length vs > 3 then js '', '' @ [ELLIPSIS] else []) @ [93]"
| "quote_value (JObj ms) =
     123 # join_with (js '', '') (take 6 (map (\<lambda>(k, v). k @ js '': '' @ quote_value v) ms)) @
       (if length ms > 6 then js '', '' @ [ELLIPSIS] else []) @ [125]"
| "quote_value v = plain_text v"

definition describe_repeated_call :: "jtext \<Rightarrow> json \<Rightarrow> jtext" where
  "describe_repeated_call name inp =
     js ''`'' @ name @ js ''` '' @ (if inp = JNull then js ''with no arguments'' else quote_value inp)"

section \<open>The order of keys\<close>

text \<open>Two values that differ only in the order of the members of their objects.\<close>

inductive same_json :: "json \<Rightarrow> json \<Rightarrow> bool" where
  same: "same_json v v"
| arrays: "list_all2 same_json vs ws \<Longrightarrow> same_json (JArr vs) (JArr ws)"
| objects: "distinct (map fst ms) \<Longrightarrow> list_all2 (\<lambda>m n. fst m = fst n \<and> same_json (snd m) (snd n)) ms ns \<Longrightarrow>
    mset ns = mset ns' \<Longrightarrow> same_json (JObj ms) (JObj ns')"

inductive_cases same_json_objE: "same_json (JObj ms) v"

lemma sort_key_perm:
  assumes "mset xs = mset ys" and "distinct (map fst xs)"
  shows "sort_key fst xs = sort_key fst ys"
proof (rule sort_key_inj_key_eq)
  show "mset xs = mset (sort_key fst ys)" using assms(1) by simp
  show "inj_on fst (set xs)" using assms(2) by (simp add: distinct_map)
qed simp

lemma same_json_sorted: "same_json v w \<Longrightarrow> sort_keys v = sort_keys w"
proof (induction rule: same_json.induct)
  case (arrays vs ws)
  then have "map sort_keys vs = map sort_keys ws"
    by (auto simp: list_all2_conv_all_nth intro: nth_equalityI)
  then show ?case by simp
next
  case (objects ms ns ns')
  let ?f = "\<lambda>(k, v). (k, sort_keys v)"
  have maps: "map ?f ms = map ?f ns"
    using objects.IH by (auto simp: list_all2_conv_all_nth case_prod_unfold intro: nth_equalityI)
  have "mset (map ?f ms) = mset (map ?f ns')"
    unfolding maps mset_map using objects.hyps by simp
  moreover have "distinct (map fst (map ?f ms))"
    using objects.hyps by (simp add: case_prod_unfold comp_def)
  ultimately have "sort_key fst (map ?f ms) = sort_key fst (map ?f ns')"
    by (rule sort_key_perm)
  then show ?case by (simp only: sort_keys.simps)
qed simp

text \<open>
  The signature of a call does not depend on the order of the members of its arguments, at any
  depth: a model that writes the same arguments in another order has sent the same call.
\<close>

theorem signature_ignores_key_order:
  "same_json v w \<Longrightarrow> tool_call_signature v = tool_call_signature w"
  by (frule same_json_sorted, erule same_json.cases) (simp_all add: tool_call_signature_def del: sort_keys.simps)

theorem signature_ignores_key_order_witness:
  "tool_call_signature (JObj [(js ''path'', JStr (js ''a'')), (js ''n'', JNum (js ''1''))]) =
   tool_call_signature (JObj [(js ''n'', JNum (js ''1'')), (js ''path'', JStr (js ''a''))])"
proof (rule signature_ignores_key_order)
  have "list_all2 (\<lambda>m n. fst m = fst n \<and> same_json (snd m) (snd n)) ms ms" for ms :: "(jtext \<times> json) list"
    by (simp add: list_all2_same same)
  then show "same_json (JObj [(js ''path'', JStr (js ''a'')), (js ''n'', JNum (js ''1''))])
      (JObj [(js ''n'', JNum (js ''1'')), (js ''path'', JStr (js ''a''))])"
    by (rule objects [rotated]) (simp_all add: js_def)
qed

end
