(* ===== verification/PatchParser.thy ===== *)
theory PatchParser
  imports PatchContext Json
begin

text \<open>
  The parser of the patch format:
  \<open>sdk/packages/core/src/extensions/tools/executors/apply-patch-parser.ts\<close> (\<open>PatchParser\<close>,
  \<open>peek\<close>). \<open>nfc\<close> is \<open>normalize("NFC")\<close> and \<open>fixed2\<close> prints \<open>toFixed(2)\<close>.

  The two \<open>while\<close> loops of the parser are partial functions: \<open>None\<close> says that the loop never
  returns. The loops of \<open>peek\<close> and \<open>parseAdd\<close> advance by a line each time and are recursive over
  the lines that are left.
\<close>

section \<open>Markers\<close>

definition BEGIN_PATCH :: jtext where
  "BEGIN_PATCH = js ''*** Begin Patch''"

definition END_PATCH :: jtext where
  "END_PATCH = js ''*** End Patch''"

definition ADD_FILE :: jtext where
  "ADD_FILE = js ''*** Add File: ''"

definition UPDATE_FILE :: jtext where
  "UPDATE_FILE = js ''*** Update File: ''"

definition DELETE_FILE :: jtext where
  "DELETE_FILE = js ''*** Delete File: ''"

definition MOVE_TO :: jtext where
  "MOVE_TO = js ''*** Move to: ''"

definition SECTION :: jtext where
  "SECTION = js ''@@''"

definition END_FILE :: jtext where
  "END_FILE = js ''*** End of File''"

definition STARS :: jtext where
  "STARS = js ''***''"

definition ADD_STOPS :: "jtext list" where
  "ADD_STOPS = map trim [END_PATCH, UPDATE_FILE, DELETE_FILE, ADD_FILE]"

definition UPDATE_STOPS :: "jtext list" where
  "UPDATE_STOPS = map trim [END_PATCH, UPDATE_FILE, DELETE_FILE, ADD_FILE, END_FILE]"

definition PEEK_STOPS :: "jtext list" where
  "PEEK_STOPS = map trim [SECTION, END_PATCH, UPDATE_FILE, DELETE_FILE, ADD_FILE, END_FILE]"

definition marked :: "jtext list \<Rightarrow> jtext \<Rightarrow> bool" where
  "marked markers l = list_ex (\<lambda>m. starts m l) markers"

text \<open>\<open>lines[i]\<close>, undefined past the end.\<close>

definition line_at :: "jtext list \<Rightarrow> nat \<Rightarrow> jtext option" where
  "line_at lines i = (if i < length lines then Some (lines ! i) else None)"

section \<open>Errors\<close>

datatype patch_error =
    Unknown_Line jtext
  | Duplicate jtext jtext
  | Update_Missing jtext
  | Delete_Missing jtext
  | Add_Exists jtext
  | Invalid_Add_Line jtext
  | Invalid_Hunk_Start "jtext option"
  | Invalid_Hunk_Line jtext

definition patch_error_message :: "patch_error \<Rightarrow> jtext" where
  "patch_error_message e = (case e of
     Unknown_Line l \<Rightarrow> js ''Unknown line while parsing: '' @ l
   | Duplicate operation path \<Rightarrow> js ''Duplicate '' @ operation @ js '' for file: '' @ path
   | Update_Missing path \<Rightarrow> js ''Update File Error: Missing File: '' @ path
   | Delete_Missing path \<Rightarrow> js ''Delete File Error: Missing File: '' @ path
   | Add_Exists path \<Rightarrow> js ''Add File Error: File already exists: '' @ path
   | Invalid_Add_Line l \<Rightarrow> js ''Invalid Add File line (missing '' @ 39 # 43 # 39 # js ''): '' @ l
   | Invalid_Hunk_Start l \<Rightarrow> js ''Invalid Line:'' @ 10 # opt_default (js ''undefined'') l
   | Invalid_Hunk_Line l \<Rightarrow> js ''Invalid line: '' @ l)"

section \<open>A hunk\<close>

record patch_chunk =
  orig_index :: int
  del_lines :: "jtext list"
  ins_lines :: "jtext list"

datatype peek_mode = Keep_Mode | Add_Mode | Delete_Mode

text \<open>The locals of \<open>peek\<close>.\<close>

record peek_state =
  old_lines :: "jtext list"
  del_run :: "jtext list"
  ins_run :: "jtext list"
  chunks_found :: "patch_chunk list"
  line_mode :: peek_mode

definition peek_start :: peek_state where
  "peek_start =
     \<lparr>old_lines = [], del_run = [], ins_run = [], chunks_found = [], line_mode = Keep_Mode\<rparr>"

definition flush_chunk :: "peek_state \<Rightarrow> patch_chunk list" where
  "flush_chunk s =
     (if ins_run s \<noteq> [] \<or> del_run s \<noteq> []
      then chunks_found s @
             [\<lparr>orig_index = int (length (old_lines s)) - int (length (del_run s)),
               del_lines = del_run s, ins_lines = ins_run s\<rparr>]
      else chunks_found s)"

definition classify_line :: "jtext \<Rightarrow> peek_mode \<times> jtext" where
  "classify_line l =
     (case l of
        [] \<Rightarrow> (Keep_Mode, [])
      | c # cs \<Rightarrow>
          if c = 43 then (Add_Mode, cs)
          else if c = 45 then (Delete_Mode, cs)
          else if c = 32 then (Keep_Mode, cs)
          else (Keep_Mode, l))"

definition peek_line :: "jtext \<Rightarrow> peek_state \<Rightarrow> peek_state" where
  "peek_line l s =
     (case classify_line l of (mode, t) \<Rightarrow>
        let s1 = (if mode = Keep_Mode \<and> line_mode s \<noteq> mode
                  then s\<lparr>chunks_found := flush_chunk s, del_run := [], ins_run := []\<rparr> else s);
            s2 = s1\<lparr>line_mode := mode\<rparr>
        in case mode of
             Delete_Mode \<Rightarrow> s2\<lparr>del_run := del_run s2 @ [t], old_lines := old_lines s2 @ [t]\<rparr>
           | Add_Mode \<Rightarrow> s2\<lparr>ins_run := ins_run s2 @ [t]\<rparr>
           | Keep_Mode \<Rightarrow> s2\<lparr>old_lines := old_lines s2 @ [t]\<rparr>)"

fun peek_loop :: "jtext list \<Rightarrow> nat \<Rightarrow> peek_state \<Rightarrow> patch_error + (peek_state \<times> nat)" where
  "peek_loop [] index s = Inr (s, index)"
| "peek_loop (l # ls) index s =
     (if l = [] \<or> marked PEEK_STOPS l then Inr (s, index)
      else if l = STARS then Inr (s, index)
      else if starts STARS l then Inl (Invalid_Hunk_Line l)
      else peek_loop ls (index + 1) (peek_line l s))"

definition peek :: "jtext list \<Rightarrow> nat \<Rightarrow> patch_error + (jtext list \<times> patch_chunk list \<times> nat \<times> bool)" where
  "peek lines initial =
     (case peek_loop (drop initial lines) initial peek_start of
        Inl e \<Rightarrow> Inl e
      | Inr (s, index) \<Rightarrow>
          if line_at lines index = Some END_FILE
          then Inr (old_lines s, flush_chunk s, index + 1, True)
          else Inr (old_lines s, flush_chunk s, index, False))"

section \<open>The parser's state\<close>

datatype action_type = Add_Action | Delete_Action | Update_Action

record patch_action =
  action_type :: action_type
  new_file :: "jtext option"
  chunks :: "patch_chunk list"
  move_path :: "jtext option"

record patch_warning =
  warning_path :: jtext
  chunk_index :: nat
  warning_message :: jtext
  warning_context :: jtext

text \<open>\<open>currentPath\<close> is set to the path of the update being parsed and is that path where it is read.\<close>

record parser =
  line_index :: nat
  fuzz :: nat
  actions :: "(jtext \<times> patch_action) list"
  warnings :: "patch_warning list"

definition parser_start :: parser where
  "parser_start = \<lparr>line_index = 0, fuzz = 0, actions = [], warnings = []\<rparr>"

text \<open>The locals of \<open>parseUpdateFile\<close> beside the parser.\<close>

record update_state =
  up :: parser
  file_index :: int
  found :: "patch_chunk list"

text \<open>\<open>key in object\<close> also sees what every object inherits.\<close>

definition OBJECT_MEMBERS :: "jtext list" where
  "OBJECT_MEMBERS = map js
     [''constructor'', ''__defineGetter__'', ''__defineSetter__'', ''hasOwnProperty'',
      ''__lookupGetter__'', ''__lookupSetter__'', ''isPrototypeOf'', ''propertyIsEnumerable'',
      ''toString'', ''valueOf'', ''__proto__'', ''toLocaleString'']"

definition in_object :: "jtext \<Rightarrow> (jtext \<times> 'a) list \<Rightarrow> bool" where
  "in_object k obj = (k \<in> set (map fst obj) \<or> k \<in> set OBJECT_MEMBERS)"

definition check_duplicate :: "jtext \<Rightarrow> jtext \<Rightarrow> parser \<Rightarrow> patch_error option" where
  "check_duplicate path operation p =
     (if in_object path (actions p) then Some (Duplicate operation path) else None)"

section \<open>Updates\<close>

definition at_update_stop :: "jtext list \<Rightarrow> nat \<Rightarrow> bool" where
  "at_update_stop lines i =
     (case line_at lines i of None \<Rightarrow> False | Some l \<Rightarrow> marked UPDATE_STOPS l)"

definition def_text :: "jtext option \<Rightarrow> jtext option" where
  "def_text l = (case l of None \<Rightarrow> None | Some l \<Rightarrow> if starts (js ''@@ '') l then Some (drop 3 l) else None)"

text \<open>The file line a section names: the first one at or after the index.\<close>

fun section_line :: "(jtext \<Rightarrow> jtext) \<Rightarrow> jtext \<Rightarrow> jtext list \<Rightarrow> nat list \<Rightarrow> nat option" where
  "section_line nfc goal file [] = None"
| "section_line nfc goal file (i # is) =
     (let l = file ! i
      in if l \<noteq> [] \<and> (canonicalize nfc l = goal \<or> canonicalize nfc (trim l) = goal) then Some i
         else section_line nfc goal file is)"

definition seek_section :: "(jtext \<Rightarrow> jtext) \<Rightarrow> jtext list \<Rightarrow> jtext \<Rightarrow> update_state \<Rightarrow> update_state" where
  "seek_section nfc file def u =
     (let goal = canonicalize nfc (trim def)
      in case section_line nfc goal file [nat (file_index u)..<length file] of
           None \<Rightarrow> u
         | Some i \<Rightarrow>
             u\<lparr>file_index := int i + 1,
               up := (if canonicalize nfc (trim (file ! i)) = goal \<and> canonicalize nfc (file ! i) \<noteq> goal
                      then (up u)\<lparr>fuzz := fuzz (up u) + 1\<rparr> else up u)\<rparr>)"

definition skipped_message :: "(rat \<Rightarrow> jtext) \<Rightarrow> rat \<Rightarrow> jtext" where
  "skipped_message fixed2 s =
     js ''Could not find matching context (similarity: '' @ fixed2 s @ js ''). Chunk skipped.''"

definition skipped_context :: "jtext list \<Rightarrow> jtext" where
  "skipped_context context =
     (let t = join_lines context in if length t > 200 then take 200 t @ js ''...'' else t)"

definition shift_chunk :: "int \<Rightarrow> patch_chunk \<Rightarrow> patch_chunk" where
  "shift_chunk k c = c\<lparr>orig_index := orig_index c + k\<rparr>"

text \<open>What follows \<open>findContext\<close>: the hunk is skipped with a warning, or its chunks are kept.\<close>

definition place_hunk ::
    "(rat \<Rightarrow> jtext) \<Rightarrow> jtext \<Rightarrow> jtext list \<Rightarrow> patch_chunk list \<Rightarrow> nat \<Rightarrow> int \<times> nat \<times> rat \<Rightarrow>
     update_state \<Rightarrow> update_state" where
  "place_hunk fixed2 path context cs end_index place u =
     (case place of (new_index, f, s) \<Rightarrow>
        if new_index = -1
        then u\<lparr>up := (up u)\<lparr>line_index := end_index,
                 warnings := warnings (up u) @
                   [\<lparr>warning_path = path, chunk_index = length (found u),
                     warning_message = skipped_message fixed2 s,
                     warning_context = skipped_context context\<rparr>]\<rparr>\<rparr>
        else u\<lparr>up := (up u)\<lparr>line_index := end_index, fuzz := fuzz (up u) + f\<rparr>,
               file_index := new_index + int (length context),
               found := found u @ map (shift_chunk new_index) cs\<rparr>)"

text \<open>One turn of the loop of \<open>parseUpdateFile\<close>.\<close>

definition skip_line :: "update_state \<Rightarrow> update_state" where
  "skip_line u = u\<lparr>up := (up u)\<lparr>line_index := line_index (up u) + 1\<rparr>\<rparr>"

definition hunk_header :: "jtext option \<Rightarrow> bool" where
  "hunk_header l = (def_text l \<noteq> None \<or> l = Some SECTION)"

definition update_turn ::
    "(jtext \<Rightarrow> jtext) \<Rightarrow> (rat \<Rightarrow> jtext) \<Rightarrow> jtext \<Rightarrow> jtext list \<Rightarrow> jtext list \<Rightarrow> update_state \<Rightarrow>
     patch_error + update_state" where
  "update_turn nfc fixed2 path lines file u =
     (let l = line_at lines (line_index (up u)) in
      if \<not> hunk_header l \<and> file_index u \<noteq> 0 then Inl (Invalid_Hunk_Start l)
      else
        let u1 = (if hunk_header l then skip_line u else u);
            u2 = (case def_text l of
                    Some def \<Rightarrow> if trim def \<noteq> [] then seek_section nfc file def u1 else u1
                  | None \<Rightarrow> u1)
        in case peek lines (line_index (up u2)) of
             Inl e \<Rightarrow> Inl e
           | Inr (context, cs, end_index, eof) \<Rightarrow>
               Inr (place_hunk fixed2 path context cs end_index
                      (find_context nfc file context (file_index u2) eof) u2))"

partial_function (option) update_loop ::
    "(jtext \<Rightarrow> jtext) \<Rightarrow> (rat \<Rightarrow> jtext) \<Rightarrow> jtext \<Rightarrow> jtext list \<Rightarrow> jtext list \<Rightarrow> update_state \<Rightarrow>
     (patch_error + update_state) option" where
  "update_loop nfc fixed2 path lines file u =
     (if at_update_stop lines (line_index (up u)) then Some (Inr u)
      else case update_turn nfc fixed2 path lines file u of
             Inl e \<Rightarrow> Some (Inl e)
           | Inr u' \<Rightarrow> update_loop nfc fixed2 path lines file u')"

definition parse_update_file ::
    "(jtext \<Rightarrow> jtext) \<Rightarrow> (rat \<Rightarrow> jtext) \<Rightarrow> jtext list \<Rightarrow> jtext \<Rightarrow> jtext \<Rightarrow> parser \<Rightarrow>
     (patch_error + (parser \<times> patch_chunk list)) option" where
  "parse_update_file nfc fixed2 lines body path p =
     map_option (map_sum id (\<lambda>u. (up u, found u)))
       (update_loop nfc fixed2 path lines (split_lf body) \<lparr>up = p, file_index = 0, found = []\<rparr>)"

definition parse_update ::
    "(jtext \<Rightarrow> jtext) \<Rightarrow> (rat \<Rightarrow> jtext) \<Rightarrow> jtext list \<Rightarrow> (jtext \<times> jtext) list \<Rightarrow> jtext \<Rightarrow> parser \<Rightarrow>
     (patch_error + parser) option" where
  "parse_update nfc fixed2 lines files path p =
     (case check_duplicate path (js ''update'') p of
        Some e \<Rightarrow> Some (Inl e)
      | None \<Rightarrow>
        let p1 = p\<lparr>line_index := line_index p + 1\<rparr>;
            mv = (case line_at lines (line_index p1) of
                    None \<Rightarrow> None
                  | Some l \<Rightarrow> if starts MOVE_TO l then Some (trim (drop (length MOVE_TO) l)) else None);
            p2 = (if mv = None then p1 else p1\<lparr>line_index := line_index p1 + 1\<rparr>)
        in if \<not> in_object path files then Some (Inl (Update_Missing path))
           else
             (case parse_update_file nfc fixed2 lines (opt_default [] (map_of files path)) path p2 of
                None \<Rightarrow> None
              | Some (Inl e) \<Rightarrow> Some (Inl e)
              | Some (Inr (p3, cs)) \<Rightarrow>
                  Some (Inr (p3\<lparr>actions := AList.update path
                    \<lparr>action_type = Update_Action, new_file = None, chunks = cs, move_path = mv\<rparr>
                    (actions p3)\<rparr>))))"

section \<open>Deletions and additions\<close>

definition parse_delete ::
    "(jtext \<times> jtext) list \<Rightarrow> jtext \<Rightarrow> parser \<Rightarrow> patch_error + parser" where
  "parse_delete files path p =
     (case check_duplicate path (js ''delete'') p of
        Some e \<Rightarrow> Inl e
      | None \<Rightarrow>
          if \<not> in_object path files then Inl (Delete_Missing path)
          else Inr (p\<lparr>actions := AList.update path
                       \<lparr>action_type = Delete_Action, new_file = None, chunks = [], move_path = None\<rparr>
                       (actions p),
                     line_index := line_index p + 1\<rparr>))"

fun add_loop :: "jtext list \<Rightarrow> nat \<Rightarrow> jtext list \<Rightarrow> patch_error + (jtext list \<times> nat)" where
  "add_loop [] index acc = Inr (acc, index)"
| "add_loop (l # ls) index acc =
     (if marked ADD_STOPS l then Inr (acc, index)
      else if \<not> starts (js ''+'') l then Inl (Invalid_Add_Line l)
      else add_loop ls (index + 1) (acc @ [drop 1 l]))"

definition parse_add ::
    "jtext list \<Rightarrow> (jtext \<times> jtext) list \<Rightarrow> jtext \<Rightarrow> parser \<Rightarrow> patch_error + parser" where
  "parse_add lines files path p =
     (case check_duplicate path (js ''add'') p of
        Some e \<Rightarrow> Inl e
      | None \<Rightarrow>
          if in_object path files then Inl (Add_Exists path)
          else
            (case add_loop (drop (line_index p + 1) lines) (line_index p + 1) [] of
               Inl e \<Rightarrow> Inl e
             | Inr (acc, index) \<Rightarrow>
                 Inr (p\<lparr>actions := AList.update path
                         \<lparr>action_type = Add_Action, new_file = Some (join_lines acc), chunks = [],
                          move_path = None\<rparr> (actions p),
                       line_index := index\<rparr>)))"

section \<open>The whole patch\<close>

definition after_marker :: "jtext \<Rightarrow> jtext \<Rightarrow> jtext" where
  "after_marker marker l = trim (drop (length marker) l)"

definition parse_next_action ::
    "(jtext \<Rightarrow> jtext) \<Rightarrow> (rat \<Rightarrow> jtext) \<Rightarrow> jtext list \<Rightarrow> (jtext \<times> jtext) list \<Rightarrow> jtext \<Rightarrow> parser \<Rightarrow>
     (patch_error + parser) option" where
  "parse_next_action nfc fixed2 lines files l p =
     (if starts UPDATE_FILE l then parse_update nfc fixed2 lines files (after_marker UPDATE_FILE l) p
      else if starts DELETE_FILE l then Some (parse_delete files (after_marker DELETE_FILE l) p)
      else if starts ADD_FILE l then Some (parse_add lines files (after_marker ADD_FILE l) p)
      else Some (Inl (Unknown_Line l)))"

partial_function (option) parse_loop ::
    "(jtext \<Rightarrow> jtext) \<Rightarrow> (rat \<Rightarrow> jtext) \<Rightarrow> jtext list \<Rightarrow> (jtext \<times> jtext) list \<Rightarrow> parser \<Rightarrow>
     (patch_error + parser) option" where
  "parse_loop nfc fixed2 lines files p =
     (case line_at lines (line_index p) of
        None \<Rightarrow> Some (Inr p)
      | Some l \<Rightarrow>
          if starts END_PATCH l then Some (Inr p)
          else
            (case parse_next_action nfc fixed2 lines files l p of
               None \<Rightarrow> None
             | Some (Inl e) \<Rightarrow> Some (Inl e)
             | Some (Inr p') \<Rightarrow> parse_loop nfc fixed2 lines files p'))"

definition skip_begin_sentinel :: "jtext list \<Rightarrow> parser \<Rightarrow> parser" where
  "skip_begin_sentinel lines p =
     (case line_at lines (line_index p) of
        None \<Rightarrow> p
      | Some l \<Rightarrow> if starts BEGIN_PATCH l then p\<lparr>line_index := line_index p + 1\<rparr> else p)"

text \<open>
  \<open>parse\<close>: the actions, the warnings and the fuzz are the fields of the parser at the end. An
  empty list of warnings is deleted from the result, which its reader does not distinguish.
\<close>

definition parse_patch ::
    "(jtext \<Rightarrow> jtext) \<Rightarrow> (rat \<Rightarrow> jtext) \<Rightarrow> jtext list \<Rightarrow> (jtext \<times> jtext) list \<Rightarrow>
     (patch_error + parser) option" where
  "parse_patch nfc fixed2 lines files =
     parse_loop nfc fixed2 lines files (skip_begin_sentinel lines parser_start)"

end
