(* ===== verification/ReadReceipts.thy ===== *)
theory ReadReceipts
  imports Text
begin

text \<open>
  What the model has been shown of each file:
  \<open>sdk/packages/core/src/extensions/tools/executors/read-receipts.ts\<close>. The closure's maps are the
  fields of a record; the two whose order is observed are association lists. \<open>key\<close> is
  \<open>receiptKey\<close>, whose lower case is a parameter.
\<close>

section \<open>Numbers\<close>

text \<open>Line numbers come from tool calls and may be any number of the language.\<close>

datatype line_number = Finite rat | Infinity | Minus_Infinity | NaN

fun number_le :: "line_number \<Rightarrow> line_number \<Rightarrow> bool" where
  "number_le (Finite a) (Finite b) = (a \<le> b)"
| "number_le NaN b = False"
| "number_le a NaN = False"
| "number_le Minus_Infinity b = True"
| "number_le a Infinity = True"
| "number_le a b = False"

fun whole_floor :: "line_number \<Rightarrow> line_number" where
  "whole_floor (Finite a) = Finite (of_int \<lfloor>a\<rfloor>)"
| "whole_floor n = n"

fun is_finite :: "line_number \<Rightarrow> bool" where
  "is_finite (Finite a) = True"
| "is_finite n = False"

section \<open>State\<close>

record read_span =
  first_line :: line_number
  last_line :: line_number

record line_cut =
  cut_shown :: nat
  cut_length :: nat
  cut_from :: "nat option"

record receipts =
  seen :: "jtext \<rightharpoonup> read_span list"
  retired :: "jtext set"
  stamps :: "jtext \<rightharpoonup> jtext"
  originals :: "(jtext \<times> jtext) list"
  cuts :: "jtext \<rightharpoonup> (nat \<times> line_cut) list"

definition create_read_receipts :: receipts where
  "create_read_receipts =
     \<lparr>seen = Map.empty, retired = {}, stamps = Map.empty, originals = [], cuts = Map.empty\<rparr>"

definition receipt_key :: "bool \<Rightarrow> (jtext \<Rightarrow> jtext) \<Rightarrow> jtext \<Rightarrow> jtext" where
  "receipt_key win32 lower path = (if win32 then lower path else path)"

section \<open>Reads\<close>

definition range_of :: "line_number \<Rightarrow> line_number \<Rightarrow> read_span option" where
  "range_of a b =
     (if \<not> is_finite a \<or> \<not> number_le (Finite 1) a then None
      else let rng = \<lparr>first_line = whole_floor a,
                       last_line = (if is_finite b then whole_floor b else Infinity)\<rparr>
           in if number_le (first_line rng) (last_line rng) then Some rng else None)"

definition note_read :: "(jtext \<Rightarrow> jtext) \<Rightarrow> jtext \<Rightarrow> line_number \<Rightarrow> line_number \<Rightarrow> receipts \<Rightarrow> receipts" where
  "note_read key path a b s =
     (case range_of a b of
        None \<Rightarrow> s
      | Some rng \<Rightarrow>
          s\<lparr>seen := (seen s)(key path \<mapsto> opt_default [] (seen s (key path)) @ [rng]),
            originals := AList.update (key path) path (originals s),
            retired := retired s - {key path}\<rparr>)"

definition range_covers :: "line_number \<Rightarrow> line_number \<Rightarrow> read_span \<Rightarrow> bool" where
  "range_covers a b rng = (number_le (first_line rng) a \<and> number_le b (last_line rng))"

definition covers :: "(jtext \<Rightarrow> jtext) \<Rightarrow> receipts \<Rightarrow> jtext \<Rightarrow> line_number \<Rightarrow> line_number \<Rightarrow> bool" where
  "covers key s path a b =
     (case seen s (key path) of None \<Rightarrow> False | Some spans \<Rightarrow> list_ex (range_covers a b) spans)"

definition has_any :: "(jtext \<Rightarrow> jtext) \<Rightarrow> receipts \<Rightarrow> jtext \<Rightarrow> bool" where
  "has_any key s path = (length (opt_default [] (seen s (key path))) > 0)"

definition has_ever_read :: "(jtext \<Rightarrow> jtext) \<Rightarrow> receipts \<Rightarrow> jtext \<Rightarrow> bool" where
  "has_ever_read key s path = (has_any key s path \<or> key path \<in> retired s)"

definition was_retired :: "(jtext \<Rightarrow> jtext) \<Rightarrow> receipts \<Rightarrow> jtext \<Rightarrow> bool" where
  "was_retired key s path = (key path \<in> retired s)"

definition paths :: "receipts \<Rightarrow> jtext list" where
  "paths s = map snd (originals s)"

section \<open>Writes\<close>

definition retire :: "(jtext \<Rightarrow> jtext) \<Rightarrow> jtext \<Rightarrow> receipts \<Rightarrow> receipts" where
  "retire key path s =
     s\<lparr>cuts := (cuts s)(key path := None),
       seen := (seen s)(key path := None),
       retired := (if seen s (key path) \<noteq> None then insert (key path) (retired s) else retired s)\<rparr>"

definition note_write :: "(jtext \<Rightarrow> jtext) \<Rightarrow> jtext \<Rightarrow> nat \<Rightarrow> nat \<Rightarrow> receipts \<Rightarrow> receipts" where
  "note_write key path before after s = (if before = after then s else retire key path s)"

definition note_rewrite :: "(jtext \<Rightarrow> jtext) \<Rightarrow> jtext \<Rightarrow> receipts \<Rightarrow> receipts" where
  "note_rewrite key path s =
     s\<lparr>cuts := (cuts s)(key path := None),
       stamps := (stamps s)(key path := None),
       seen := (seen s)(key path := None),
       retired := (if seen s (key path) \<noteq> None then insert (key path) (retired s) else retired s)\<rparr>"

definition forget :: "(jtext \<Rightarrow> jtext) \<Rightarrow> jtext \<Rightarrow> receipts \<Rightarrow> receipts" where
  "forget key path s =
     s\<lparr>seen := (seen s)(key path := None),
       retired := retired s - {key path},
       originals := AList.delete (key path) (originals s),
       stamps := (stamps s)(key path := None),
       cuts := (cuts s)(key path := None)\<rparr>"

definition clear :: "receipts \<Rightarrow> receipts" where
  "clear s = \<lparr>seen = Map.empty, retired = {}, stamps = Map.empty, originals = [], cuts = Map.empty\<rparr>"

section \<open>Stamps\<close>

definition note_stamp :: "(jtext \<Rightarrow> jtext) \<Rightarrow> jtext \<Rightarrow> jtext option \<Rightarrow> receipts \<Rightarrow> receipts" where
  "note_stamp key path stamp s =
     (case stamp of None \<Rightarrow> s | Some t \<Rightarrow> s\<lparr>stamps := (stamps s)(key path \<mapsto> t)\<rparr>)"

definition carry_stamp :: "(jtext \<Rightarrow> jtext) \<Rightarrow> jtext \<Rightarrow> jtext \<Rightarrow> jtext \<Rightarrow> receipts \<Rightarrow> receipts" where
  "carry_stamp key path a b s =
     (if stamps s (key path) = Some a then s\<lparr>stamps := (stamps s)(key path \<mapsto> b)\<rparr> else s)"

definition changed_since :: "(jtext \<Rightarrow> jtext) \<Rightarrow> receipts \<Rightarrow> jtext \<Rightarrow> jtext option \<Rightarrow> bool" where
  "changed_since key s path stamp =
     (case stamp of
        None \<Rightarrow> False
      | Some t \<Rightarrow> (case stamps s (key path) of None \<Rightarrow> False | Some known \<Rightarrow> known \<noteq> t))"

section \<open>Lines rec short\<close>

definition note_cut :: "(jtext \<Rightarrow> jtext) \<Rightarrow> jtext \<Rightarrow> nat \<Rightarrow> nat \<Rightarrow> nat \<Rightarrow> nat \<Rightarrow> receipts \<Rightarrow> receipts" where
  "note_cut key path line shown len col s =
     s\<lparr>cuts := (cuts s)(key path \<mapsto>
         AList.update line
           \<lparr>cut_shown = min shown len, cut_length = len,
            cut_from = (if col > 1 then Some col else None)\<rparr>
           (opt_default [] (cuts s (key path))))\<rparr>"

definition cut_lines :: "(jtext \<Rightarrow> jtext) \<Rightarrow> receipts \<Rightarrow> jtext \<Rightarrow> nat list" where
  "cut_lines key s path = map fst (opt_default [] (cuts s (key path)))"

definition cut_at :: "(jtext \<Rightarrow> jtext) \<Rightarrow> receipts \<Rightarrow> jtext \<Rightarrow> nat \<Rightarrow> line_cut option" where
  "cut_at key s path line = map_of (opt_default [] (cuts s (key path))) line"

definition is_whole :: "line_cut \<Rightarrow> bool" where
  "is_whole c = (opt_default 1 (cut_from c) \<le> 1 \<and> cut_shown c \<ge> cut_length c)"

definition merged_window :: "line_cut option \<Rightarrow> nat \<Rightarrow> nat \<Rightarrow> nat \<Rightarrow> nat \<times> nat" where
  "merged_window held col upto_col len =
     (case held of
        None \<Rightarrow> (col, upto_col)
      | Some c \<Rightarrow>
          if cut_length c = len \<and> opt_default 1 (cut_from c) \<le> upto_col + 1 \<and> col \<le> cut_shown c + 1
          then (min col (opt_default 1 (cut_from c)), max upto_col (cut_shown c))
          else (col, upto_col))"

definition note_shown :: "(jtext \<Rightarrow> jtext) \<Rightarrow> jtext \<Rightarrow> nat \<Rightarrow> nat \<Rightarrow> nat \<Rightarrow> nat \<Rightarrow> receipts \<Rightarrow> receipts" where
  "note_shown key path line col upto_col len s =
     (case merged_window (cut_at key s path line) col upto_col len of
        (a, b) \<Rightarrow> note_cut key path line b len a s)"

section \<open>Runs\<close>

datatype receipt_op =
    Note_Read jtext line_number line_number
  | Note_Write jtext nat nat
  | Retire jtext
  | Note_Rewrite jtext
  | Forget jtext
  | Clear
  | Note_Stamp jtext "jtext option"
  | Carry_Stamp jtext jtext jtext
  | Note_Cut jtext nat nat nat nat
  | Note_Shown jtext nat nat nat nat

fun receipt_step :: "(jtext \<Rightarrow> jtext) \<Rightarrow> receipt_op \<Rightarrow> receipts \<Rightarrow> receipts" where
  "receipt_step key (Note_Read path a b) = note_read key path a b"
| "receipt_step key (Note_Write path before after) = note_write key path before after"
| "receipt_step key (Retire path) = retire key path"
| "receipt_step key (Note_Rewrite path) = note_rewrite key path"
| "receipt_step key (Forget path) = forget key path"
| "receipt_step key Clear = clear"
| "receipt_step key (Note_Stamp path stamp) = note_stamp key path stamp"
| "receipt_step key (Carry_Stamp path a b) = carry_stamp key path a b"
| "receipt_step key (Note_Cut path line shown len col) = note_cut key path line shown len col"
| "receipt_step key (Note_Shown path line col upto_col len) = note_shown key path line col upto_col len"

definition receipt_run :: "(jtext \<Rightarrow> jtext) \<Rightarrow> receipt_op list \<Rightarrow> receipts" where
  "receipt_run key ops = fold (receipt_step key) ops create_read_receipts"

lemma receipt_run_snoc: "receipt_run key (ops @ [e]) = receipt_step key e (receipt_run key ops)"
  by (simp add: receipt_run_def)

lemma receipt_run_Nil: "receipt_run key [] = create_read_receipts"
  by (simp add: receipt_run_def)

section \<open>What a receipt says\<close>

text \<open>An operation that ends what the receipts hold of a file. A write counts when it changes the
  number of lines, and only then, although one that keeps the number can move lines too.\<close>

fun ends_receipts :: "(jtext \<Rightarrow> jtext) \<Rightarrow> jtext \<Rightarrow> receipt_op \<Rightarrow> bool" where
  "ends_receipts key k (Note_Write path before after) = (key path = k \<and> before \<noteq> after)"
| "ends_receipts key k (Retire path) = (key path = k)"
| "ends_receipts key k (Note_Rewrite path) = (key path = k)"
| "ends_receipts key k (Forget path) = (key path = k)"
| "ends_receipts key k Clear = True"
| "ends_receipts key k e = False"

fun shows_lines :: "(jtext \<Rightarrow> jtext) \<Rightarrow> jtext \<Rightarrow> line_number \<Rightarrow> line_number \<Rightarrow> receipt_op \<Rightarrow> bool" where
  "shows_lines key k a b (Note_Read path x y) =
     (key path = k \<and> (case range_of x y of None \<Rightarrow> False | Some rng \<Rightarrow> range_covers a b rng))"
| "shows_lines key k a b e = False"

text \<open>One read showed the whole range, and nothing has moved the lines since.\<close>

fun shown_since :: "(jtext \<Rightarrow> jtext) \<Rightarrow> jtext \<Rightarrow> line_number \<Rightarrow> line_number \<Rightarrow> receipt_op list \<Rightarrow> bool" where
  "shown_since key k a b [] = False"
| "shown_since key k a b (e # es) =
     ((shows_lines key k a b e \<and> \<not> list_ex (ends_receipts key k) es) \<or> shown_since key k a b es)"

lemma shown_since_snoc:
  "shown_since key k a b (es @ [e]) \<longleftrightarrow>
   shows_lines key k a b e \<or> (shown_since key k a b es \<and> \<not> ends_receipts key k e)"
  by (induction es) auto

lemma covers_step:
  "covers key (receipt_step key e s) path a b \<longleftrightarrow>
   shows_lines key (key path) a b e \<or> (covers key s path a b \<and> \<not> ends_receipts key (key path) e)"
proof (cases e)
  case (Note_Read p x y)
  then show ?thesis
    by (cases "range_of x y"; cases "seen s (key path)") (auto simp: covers_def note_read_def)
qed (auto simp: covers_def note_write_def retire_def note_rewrite_def forget_def clear_def note_stamp_def
    carry_stamp_def note_cut_def note_shown_def split: option.splits prod.splits)

text \<open>C25: an edit of a range of lines is let through exactly when a single read showed all of the
  range and, since that read, no write changed the file's number of lines and nothing retired,
  rewrote or forgot the file. A write that keeps the number of lines is ignored.\<close>

theorem covers_iff_shown:
  "covers key (receipt_run key ops) path a b = shown_since key (key path) a b ops"
proof (induction ops rule: rev_induct)
  case Nil
  then show ?case by (simp add: receipt_run_Nil covers_def create_read_receipts_def)
next
  case (snoc e ops)
  then show ?case by (simp add: receipt_run_snoc covers_step shown_since_snoc)
qed


theorem covers_iff_shown_witness:
  "covers id (receipt_run id [Note_Read (js ''a'') (Finite 1) (Finite 9), Note_Write (js ''a'') 9 9]) (js ''a'')
     (Finite 2) (Finite 3) \<and>
   \<not> covers id (receipt_run id [Note_Read (js ''a'') (Finite 1) (Finite 9), Note_Write (js ''a'') 9 8]) (js ''a'')
     (Finite 2) (Finite 3)"
  by (simp add: covers_iff_shown range_of_def range_covers_def)

section \<open>What a cut says\<close>

fun shows_column :: "(jtext \<Rightarrow> jtext) \<Rightarrow> jtext \<Rightarrow> nat \<Rightarrow> nat \<Rightarrow> nat \<Rightarrow> receipt_op \<Rightarrow> bool" where
  "shows_column key k line len c (Note_Cut path l shown n col) =
     (key path = k \<and> l = line \<and> n = len \<and> col \<le> c \<and> c \<le> shown)"
| "shows_column key k line len c (Note_Shown path l col upto_col n) =
     (key path = k \<and> l = line \<and> n = len \<and> col \<le> c \<and> c \<le> upto_col)"
| "shows_column key k line len c e = False"

fun column_shown :: "(jtext \<Rightarrow> jtext) \<Rightarrow> jtext \<Rightarrow> nat \<Rightarrow> nat \<Rightarrow> nat \<Rightarrow> receipt_op list \<Rightarrow> bool" where
  "column_shown key k line len c [] = False"
| "column_shown key k line len c (e # es) =
     ((shows_column key k line len c e \<and> \<not> list_ex (ends_receipts key k) es) \<or>
      column_shown key k line len c es)"

lemma column_shown_snoc:
  "column_shown key k line len c (es @ [e]) \<longleftrightarrow>
   shows_column key k line len c e \<or> (column_shown key k line len c es \<and> \<not> ends_receipts key k e)"
  by (induction es) auto

definition in_cut :: "nat \<Rightarrow> line_cut \<Rightarrow> bool" where
  "in_cut c rec = (1 \<le> c \<and> opt_default 1 (cut_from rec) \<le> c \<and> c \<le> cut_shown rec)"

lemma cut_at_note_cut:
  "cut_at key (note_cut key path line shown len col s) path' line' =
     (if key path' = key path \<and> line' = line
      then Some \<lparr>cut_shown = min shown len, cut_length = len, cut_from = (if col > 1 then Some col else None)\<rparr>
      else cut_at key s path' line')"
  by (auto simp: cut_at_def note_cut_def update_conv')

lemma cut_at_moves: "ends_receipts key (key path) e \<Longrightarrow> cut_at key (receipt_step key e s) path line = None"
  by (cases e) (auto simp: cut_at_def note_write_def retire_def note_rewrite_def forget_def clear_def)

lemma in_cut_made:
  "in_cut c \<lparr>cut_shown = min shown len, cut_length = len, cut_from = (if Suc 0 < col then Some col else None)\<rparr> \<Longrightarrow>
   col \<le> c \<and> c \<le> shown"
  by (auto simp: in_cut_def split: if_splits)

text \<open>A read merged into the record of a line adds no column that neither of the two shows.\<close>

lemma merged_window_columns:
  assumes "merged_window held col upto_col len = (a, b)" and "a \<le> c" "c \<le> b" "1 \<le> c"
  shows "col \<le> c \<and> c \<le> upto_col \<or> (\<exists>h. held = Some h \<and> cut_length h = len \<and> in_cut c h)"
proof (cases held)
  case (Some h)
  have "col \<le> c \<and> c \<le> upto_col \<or> opt_default 1 (cut_from h) \<le> c \<and> c \<le> cut_shown h \<and> cut_length h = len"
    using assms by (auto simp: merged_window_def Some min_def max_def split: if_splits)
  with assms(4) Some show ?thesis by (auto simp: in_cut_def)
qed (use assms in \<open>auto simp: merged_window_def\<close>)

lemma note_shown_columns:
  assumes shown: "cut_at key (note_shown key path line col upto_col len s) path line = Some rec" and c: "in_cut c rec"
  shows "cut_length rec = len \<and> (col \<le> c \<and> c \<le> upto_col \<or>
    (\<exists>held. cut_at key s path line = Some held \<and> cut_length held = len \<and> in_cut c held))"
proof -
  obtain a b where w: "merged_window (cut_at key s path line) col upto_col len = (a, b)"
    by fastforce
  with shown have r: "rec = \<lparr>cut_shown = min b len, cut_length = len, cut_from = (if Suc 0 < a then Some a else None)\<rparr>"
    by (simp add: note_shown_def cut_at_note_cut)
  with c have "a \<le> c" "c \<le> b" using in_cut_made by blast+
  moreover have "1 \<le> c" using c by (simp add: in_cut_def)
  ultimately show ?thesis using merged_window_columns [OF w] r by simp
qed

lemma note_shown_other:
  "key path' \<noteq> key path \<or> line' \<noteq> line \<Longrightarrow>
   cut_at key (note_shown key path line col upto_col len s) path' line' = cut_at key s path' line'"
  by (auto simp: note_shown_def cut_at_note_cut split: prod.split)

text \<open>Any other operation leaves the record of a line or drops it.\<close>

lemma cut_at_kept:
  assumes "cut_at key (receipt_step key e s) path line = Some rec"
  obtains "cut_at key s path line = Some rec" "\<not> ends_receipts key (key path) e"
  | p shown len col where "e = Note_Cut p line shown len col" "key p = key path"
  | p col upto_col len where "e = Note_Shown p line col upto_col len" "key p = key path"
proof (cases e)
  case (Note_Cut p l shown len col)
  with assms that show thesis
    by (cases "key p = key path \<and> l = line") (auto simp: cut_at_note_cut split: if_splits)
next
  case (Note_Shown p l col upto_col len)
  with assms that show thesis
    by (cases "key p = key path \<and> l = line") (auto simp: note_shown_other)
qed (use assms that cut_at_moves [of key path e] in \<open>auto simp: cut_at_def note_read_def note_write_def
    retire_def note_rewrite_def forget_def clear_def note_stamp_def carry_stamp_def
    split: option.splits if_splits\<close>)

text \<open>every column that the record of a long line counts as seen was shown by some read of that
  line at that length, with nothing since that moves the file's lines: windows that are merged
  leave no gap that no read showed.\<close>

theorem cut_columns_were_shown:
  assumes "cut_at key (receipt_run key ops) path line = Some rec" and "in_cut c rec"
  shows "column_shown key (key path) line (cut_length rec) c ops"
  using assms
proof (induction ops arbitrary: rec rule: rev_induct)
  case Nil
  then show ?case by (simp add: receipt_run_Nil cut_at_def create_read_receipts_def)
next
  case (snoc e ops)
  from snoc.prems(1) have "cut_at key (receipt_step key e (receipt_run key ops)) path line = Some rec"
    by (simp add: receipt_run_snoc)
  then show ?case
  proof (cases rule: cut_at_kept)
    case 1
    with snoc show ?thesis by (simp add: column_shown_snoc)
  next
    case (2 p shown len col)
    with snoc.prems show ?thesis
      by (auto simp: receipt_run_snoc cut_at_note_cut column_shown_snoc dest!: in_cut_made)
  next
    case (3 p col upto_col len)
    have "cut_at key (note_shown key p line col upto_col len (receipt_run key ops)) p line = Some rec"
      using snoc.prems(1) 3 by (simp add: receipt_run_snoc cut_at_def)
    from note_shown_columns [OF this snoc.prems(2)] have "cut_length rec = len \<and>
        (col \<le> c \<and> c \<le> upto_col \<or> column_shown key (key path) line len c ops)"
      using snoc.IH 3(2) by (auto simp: cut_at_def)
    with 3 show ?thesis by (auto simp: column_shown_snoc)
  qed
qed

theorem cut_columns_were_shown_witness:
  "column_shown id (js ''a'') 1 (cut_length \<lparr>cut_shown = 30, cut_length = 50, cut_from = Some 5\<rparr>) 12
     [Note_Shown (js ''a'') 1 5 20 50, Note_Shown (js ''a'') 1 21 30 50]"
  using cut_columns_were_shown [where key = id and path = "js ''a''" and line = 1 and c = 12
      and ops = "[Note_Shown (js ''a'') 1 5 20 50, Note_Shown (js ''a'') 1 21 30 50]"
      and rec = "\<lparr>cut_shown = 30, cut_length = 50, cut_from = Some 5\<rparr>"]
  by (simp add: receipt_run_def create_read_receipts_def note_shown_def merged_window_def cut_at_note_cut in_cut_def cut_at_def)

end
