(* ===== verification/PatchApply.thy ===== *)
theory PatchApply
  imports PatchParser ReadReceipts
begin

text \<open>
  The apply_patch executor: \<open>sdk/packages/core/src/extensions/tools/executors/apply-patch.ts\<close>,
  with \<open>line-endings.ts\<close> and \<open>bom.ts\<close>. The files are a map from absolute paths to their decoded
  text, and every operation on them returns the map it leaves, errors included. \<open>resolve\<close> is
  \<open>resolveFilePath\<close> (Node's \<open>path\<close>): the absolute path, or nothing when it throws.
  \<open>crlf\<close> says whether \<open>os.EOL\<close> is CRLF. \<open>stat n\<close> is what the file system answers to the executor's
  \<open>n\<close>-th question for a file's stamp, and the state says how each write and removal ends: it may
  be refused, and a write may also leave the file torn. The model is of an executor without an
  overlay, on a disk whose reads of a file that is there succeed.
\<close>

type_synonym disk = "jtext \<rightharpoonup> jtext"

section \<open>Errors\<close>

datatype apply_error =
    Parse_Error patch_error
  | Incomplete_Sentinels
  | Outside_Cwd jtext
  | File_Not_Found jtext
  | Skipped_Hunks "patch_warning list"
  | Chunk_Past_End jtext int nat
  | Chunk_Behind jtext int int
  | No_New_File
  | No_Content jtext
  | Changed_Outside jtext
  | Io_Failed jtext

section \<open>Lines of the input\<close>

text \<open>Lines in a body.\<close>

definition count_body_lines :: "jtext \<Rightarrow> nat" where
  "count_body_lines t =
     (if t = [] then 0
      else if last t = 10 then length (split_lf t) - 1
      else length (split_lf t))"

definition drop_cr :: "jtext \<Rightarrow> jtext" where
  "drop_cr l = (if l \<noteq> [] \<and> last l = 13 then butlast l else l)"

definition split_patch_input_lines :: "jtext \<Rightarrow> jtext list" where
  "split_patch_input_lines t = map drop_cr (split_lf t)"

definition BASH_WRAPPERS :: "jtext list" where
  "BASH_WRAPPERS = map js [''%%bash'', ''apply_patch'', ''EOF''] @ [[96, 96, 96]]"

definition is_wrapper_line :: "jtext \<Rightarrow> bool" where
  "is_wrapper_line l = (trim l \<noteq> [] \<and> list_ex (\<lambda>w. starts w l) BASH_WRAPPERS)"

text \<open>Two pointers moving inwards: wrapper lines at the start, then at the end of what is left.\<close>

definition trim_wrapper_lines :: "jtext list \<Rightarrow> jtext list" where
  "trim_wrapper_lines ls =
     rev (dropWhile is_wrapper_line (rev (dropWhile is_wrapper_line ls)))"

definition strip_empty :: "jtext list \<Rightarrow> jtext list" where
  "strip_empty ls = rev (dropWhile (\<lambda>l. l = []) (rev (dropWhile (\<lambda>l. l = []) ls)))"

definition begin_index :: "jtext list \<Rightarrow> nat option" where
  "begin_index ls = find_index (starts BEGIN_PATCH) ls"

definition end_index :: "jtext list \<Rightarrow> nat option" where
  "end_index ls = map_option (\<lambda>i. length ls - Suc i) (find_index (starts END_PATCH) (rev ls))"

definition normalize_patch_input :: "jtext \<Rightarrow> apply_error + jtext list" where
  "normalize_patch_input t =
     (let raw = split_patch_input_lines t in
      case (begin_index raw, end_index raw) of
        (None, None) \<Rightarrow> Inr (BEGIN_PATCH # strip_empty (trim_wrapper_lines raw) @ [END_PATCH])
      | (Some b, Some e) \<Rightarrow>
          if e < b then Inl Incomplete_Sentinels else Inr (take (e + 1 - b) (drop b raw))
      | _ \<Rightarrow> Inl Incomplete_Sentinels)"

text \<open>The paths a patch names, each once, in the order of their first line.\<close>

fun first_marker :: "jtext list \<Rightarrow> jtext \<Rightarrow> jtext option" where
  "first_marker [] l = None"
| "first_marker (m # ms) l = (if starts m l then Some (after_marker m l) else first_marker ms l)"

definition add_once :: "'a option \<Rightarrow> 'a list \<Rightarrow> 'a list" where
  "add_once x acc = (case x of None \<Rightarrow> acc | Some v \<Rightarrow> if v \<in> set acc then acc else acc @ [v])"

definition extract_files :: "jtext list \<Rightarrow> jtext list \<Rightarrow> jtext list" where
  "extract_files lines markers = fold (\<lambda>l. add_once (first_marker markers l)) lines []"

section \<open>Byte order mark and line endings\<close>

definition BOM :: jtext where
  "BOM = [0xFEFF]"

definition split_bom :: "jtext \<Rightarrow> jtext \<times> jtext" where
  "split_bom t = (if starts BOM t then (BOM, drop (length BOM) t) else ([], t))"

definition CRLF :: jtext where
  "CRLF = [13, 10]"

definition detect_line_ending :: "jtext \<Rightarrow> jtext" where
  "detect_line_ending t = (if contains_text CRLF t then CRLF else [10])"

text \<open>\<open>split(/\r\n|\n/).join(eol)\<close>.\<close>

fun normalize_line_endings :: "jtext \<Rightarrow> jtext \<Rightarrow> jtext" where
  "normalize_line_endings eol [] = []"
| "normalize_line_endings eol [c] = (if c = 10 then eol else [c])"
| "normalize_line_endings eol (c # d # cs) =
     (if c = 13 \<and> d = 10 then eol @ normalize_line_endings eol cs
      else if c = 10 then eol @ normalize_line_endings eol (d # cs)
      else c # normalize_line_endings eol (d # cs))"

text \<open>\<open>replace(/\r\n/g, "\n")\<close>.\<close>

fun drop_crs :: "jtext \<Rightarrow> jtext" where
  "drop_crs [] = []"
| "drop_crs [c] = [c]"
| "drop_crs (c # d # cs) = (if c = 13 \<and> d = 10 then 10 # drop_crs cs else c # drop_crs (d # cs))"

text \<open>\<open>replaceAll("\n", "\r\n")\<close> in a new file without a CR, on a CRLF platform.\<close>

definition normalize_new_file :: "bool \<Rightarrow> jtext \<Rightarrow> jtext" where
  "normalize_new_file crlf t =
     (if crlf \<and> 13 \<notin> set t then concat (map (\<lambda>c. if c = 10 then CRLF else [c]) t) else t)"

section \<open>Loading\<close>

record loaded_files =
  files :: "(jtext \<times> jtext) list"
  boms :: "(jtext \<times> jtext) list"
  eols :: "(jtext \<times> jtext) list"

text \<open>\<open>object[key] = text\<close>: a text assigned to \<open>__proto__\<close> is ignored.\<close>

definition assign :: "jtext \<Rightarrow> jtext \<Rightarrow> (jtext \<times> jtext) list \<Rightarrow> (jtext \<times> jtext) list" where
  "assign k v obj = (if k = PROTO then obj else AList.update k v obj)"

definition load_file :: "jtext \<Rightarrow> jtext \<Rightarrow> loaded_files \<Rightarrow> loaded_files" where
  "load_file path content s =
     (case split_bom content of (bom, body) \<Rightarrow>
        s\<lparr>boms := assign path bom (boms s),
          files := assign path (drop_crs body) (files s),
          eols := assign path (detect_line_ending body) (eols s)\<rparr>)"

fun load_existing ::
    "(jtext \<Rightarrow> jtext option) \<Rightarrow> disk \<Rightarrow> jtext list \<Rightarrow> loaded_files \<Rightarrow> apply_error + loaded_files" where
  "load_existing resolve d [] s = Inr s"
| "load_existing resolve d (path # ps) s =
     (case resolve path of
        None \<Rightarrow> Inl (Outside_Cwd path)
      | Some absp \<Rightarrow>
          (case d absp of
             None \<Rightarrow> Inl (File_Not_Found path)
           | Some content \<Rightarrow> load_existing resolve d ps (load_file path content s)))"

fun load_additions ::
    "(jtext \<Rightarrow> jtext option) \<Rightarrow> disk \<Rightarrow> jtext list \<Rightarrow> loaded_files \<Rightarrow> apply_error + loaded_files" where
  "load_additions resolve d [] s = Inr s"
| "load_additions resolve d (path # ps) s =
     (case resolve path of
        None \<Rightarrow> Inl (Outside_Cwd path)
      | Some absp \<Rightarrow>
          load_additions resolve d ps
            (case d absp of None \<Rightarrow> s | Some content \<Rightarrow> s\<lparr>files := assign path content (files s)\<rparr>))"

definition load_files :: "(jtext \<Rightarrow> jtext option) \<Rightarrow> disk \<Rightarrow> jtext list \<Rightarrow> apply_error + loaded_files" where
  "load_files resolve d lines =
     (case load_existing resolve d (extract_files lines [UPDATE_FILE, DELETE_FILE])
             \<lparr>files = [], boms = [], eols = []\<rparr> of
        Inl e \<Rightarrow> Inl e
      | Inr s \<Rightarrow> load_additions resolve d (extract_files lines [ADD_FILE]) s)"

section \<open>Chunks\<close>

fun splice_chunks ::
    "jtext \<Rightarrow> jtext list \<Rightarrow> patch_chunk list \<Rightarrow> int \<Rightarrow> jtext list \<Rightarrow> apply_error + jtext list" where
  "splice_chunks path lines [] current result =
     Inr (result @ js_slice lines current (int (length lines)))"
| "splice_chunks path lines (c # cs) current result =
     (if orig_index c > int (length lines)
      then Inl (Chunk_Past_End path (orig_index c) (length lines))
      else if current > orig_index c then Inl (Chunk_Behind path current (orig_index c))
      else splice_chunks path lines cs (orig_index c + int (length (del_lines c)))
             (result @ js_slice lines current (orig_index c) @ ins_lines c))"

definition apply_chunks :: "jtext \<Rightarrow> patch_chunk list \<Rightarrow> jtext \<Rightarrow> apply_error + jtext" where
  "apply_chunks content cs path =
     (if cs = [] then Inr content
      else map_sum id join_lines (splice_chunks path (split_lf content) cs 0 []))"

section \<open>Changes\<close>

record file_change =
  change_type :: action_type
  old_content :: "jtext option"
  new_content :: "jtext option"
  change_move :: "jtext option"

definition with_file_eol :: "loaded_files \<Rightarrow> jtext \<Rightarrow> jtext option \<Rightarrow> jtext option" where
  "with_file_eol s path content =
     map_option (\<lambda>t. opt_default [] (map_of (boms s) path) @
       normalize_line_endings (opt_default [10] (map_of (eols s) path)) t) content"

definition change_of :: "bool \<Rightarrow> loaded_files \<Rightarrow> jtext \<Rightarrow> patch_action \<Rightarrow> apply_error + file_change" where
  "change_of crlf s path a =
     (case action_type a of
        Delete_Action \<Rightarrow>
          Inr \<lparr>change_type = Delete_Action,
               old_content = with_file_eol s path (map_of (files s) path),
               new_content = None, change_move = None\<rparr>
      | Add_Action \<Rightarrow>
          (case new_file a of
             None \<Rightarrow> Inl No_New_File
           | Some t \<Rightarrow>
               Inr \<lparr>change_type = Add_Action, old_content = None,
                    new_content = Some (normalize_new_file crlf t), change_move = None\<rparr>)
      | Update_Action \<Rightarrow>
          (case apply_chunks (opt_default [] (map_of (files s) path)) (chunks a) path of
             Inl e \<Rightarrow> Inl e
           | Inr t \<Rightarrow>
               Inr \<lparr>change_type = Update_Action,
                    old_content = with_file_eol s path (map_of (files s) path),
                    new_content = with_file_eol s path (Some t),
                    change_move = move_path a\<rparr>))"

fun changes_of ::
    "bool \<Rightarrow> loaded_files \<Rightarrow> (jtext \<times> patch_action) list \<Rightarrow> apply_error + (jtext \<times> file_change) list" where
  "changes_of crlf s [] = Inr []"
| "changes_of crlf s ((path, a) # as) =
     (case change_of crlf s path a of
        Inl e \<Rightarrow> Inl e
      | Inr c \<Rightarrow> map_sum id (Cons (path, c)) (changes_of crlf s as))"

definition patch_to_changes ::
    "bool \<Rightarrow> loaded_files \<Rightarrow> (jtext \<times> patch_action) list \<Rightarrow> apply_error + (jtext \<times> file_change) list" where
  "patch_to_changes crlf s as = changes_of crlf s (enumeration_order as)"

section \<open>Skipped hunks\<close>

definition warning_lines :: "patch_warning \<Rightarrow> jtext list" where
  "warning_lines w =
     (warning_path w @ js '': hunk '' @ decimal (chunk_index w + 1) @ js '': '' @ warning_message w)
     # (if warning_context w \<noteq> [] then [js ''Context:'' @ 10 # warning_context w] else [])"

definition format_skipped_hunk_failure :: "patch_warning list \<Rightarrow> jtext" where
  "format_skipped_hunk_failure ws =
     join_lines
       ((js ''Patch could not be applied because '' @ decimal (length ws) @ js '' hunk'' @
         (if length ws = 1 then [] else js ''s'') @ js '' did not match the current file content.'')
        # concat (map warning_lines ws))"

section \<open>The changes of a patch\<close>

definition compute_patch_changes ::
    "(jtext \<Rightarrow> jtext) \<Rightarrow> (rat \<Rightarrow> jtext) \<Rightarrow> (jtext \<Rightarrow> jtext option) \<Rightarrow> bool \<Rightarrow> disk \<Rightarrow> jtext \<Rightarrow>
     (apply_error + (jtext \<times> file_change) list \<times> nat) option" where
  "compute_patch_changes nfc fixed2 resolve crlf d inp =
     (case normalize_patch_input inp of
        Inl e \<Rightarrow> Some (Inl e)
      | Inr lines \<Rightarrow>
        (case load_files resolve d lines of
           Inl e \<Rightarrow> Some (Inl e)
         | Inr s \<Rightarrow>
           (case parse_patch nfc fixed2 lines (files s) of
              None \<Rightarrow> None
            | Some (Inl e) \<Rightarrow> Some (Inl (Parse_Error e))
            | Some (Inr p) \<Rightarrow>
                if warnings p \<noteq> [] then Some (Inl (Skipped_Hunks (warnings p)))
                else Some (map_sum id (\<lambda>cs. (cs, fuzz p)) (patch_to_changes crlf s (actions p))))))"

section \<open>Writing\<close>

text \<open>How a write or a removal ends: done, refused with the file as it was (a directory in its
  place, a permission, a path through a file), or, for a write, failed half way with what the file
  then holds.\<close>

datatype io_end = Io_Done | Io_Refused | Io_Torn "jtext option"

record exec_state =
  on_disk :: disk
  held :: "receipts option"
  stats :: nat
  io_ends :: "nat \<Rightarrow> jtext \<Rightarrow> io_end"
  ios :: nat

text \<open>A write and a removal: the state they leave, and whether they succeeded or threw.\<close>

definition write_file :: "jtext \<Rightarrow> jtext \<Rightarrow> exec_state \<Rightarrow> exec_state \<times> bool" where
  "write_file absp t s =
     (case io_ends s (ios s) absp of
        Io_Done \<Rightarrow> (s\<lparr>on_disk := (on_disk s)(absp \<mapsto> t), ios := ios s + 1\<rparr>, True)
      | Io_Refused \<Rightarrow> (s\<lparr>ios := ios s + 1\<rparr>, False)
      | Io_Torn left \<Rightarrow> (s\<lparr>on_disk := (on_disk s)(absp := left), ios := ios s + 1\<rparr>, False))"

definition remove_file :: "jtext \<Rightarrow> exec_state \<Rightarrow> exec_state \<times> bool" where
  "remove_file absp s =
     (if io_ends s (ios s) absp = Io_Done
      then (s\<lparr>on_disk := (on_disk s)(absp := None), ios := ios s + 1\<rparr>, True)
      else (s\<lparr>ios := ios s + 1\<rparr>, False))"

definition forget_receipts :: "(jtext \<Rightarrow> jtext) \<Rightarrow> jtext \<Rightarrow> exec_state \<Rightarrow> exec_state" where
  "forget_receipts key absp s = s\<lparr>held := map_option (forget key absp) (held s)\<rparr>"

definition note_patch_write ::
    "(jtext \<Rightarrow> jtext) \<Rightarrow> (nat \<Rightarrow> jtext \<Rightarrow> jtext option) \<Rightarrow> jtext \<Rightarrow> jtext option \<Rightarrow> jtext \<Rightarrow> bool \<Rightarrow>
     exec_state \<Rightarrow> exec_state" where
  "note_patch_write key stat absp before after authored s =
     (case held s of
        None \<Rightarrow> s
      | Some r \<Rightarrow>
          let r1 = (case before of
                      None \<Rightarrow> r
                    | Some b \<Rightarrow> note_write key absp (count_body_lines b) (count_body_lines after) r);
              r2 = (if authored then note_read key absp (Finite 1) Infinity r1 else r1)
          in s\<lparr>held := Some (note_stamp key absp (stat (stats s) absp) r2), stats := stats s + 1\<rparr>)"

text \<open>Whether the source of a move has been read whole.\<close>

definition source_seen :: "(jtext \<Rightarrow> jtext) \<Rightarrow> jtext \<Rightarrow> file_change \<Rightarrow> exec_state \<Rightarrow> bool" where
  "source_seen key src c s =
     (case held s of
        None \<Rightarrow> False
      | Some r \<Rightarrow>
          covers key r src (Finite 1)
            (Finite (of_nat (max 1 (count_body_lines (opt_default [] (old_content c)))))))"

text \<open>The destination is written before the source is removed; the path of the operation that fails
  is the error's.\<close>

definition move_file ::
    "(jtext \<Rightarrow> jtext) \<Rightarrow> (nat \<Rightarrow> jtext \<Rightarrow> jtext option) \<Rightarrow> jtext \<Rightarrow> jtext \<Rightarrow> file_change \<Rightarrow> jtext \<Rightarrow>
     exec_state \<Rightarrow> exec_state \<times> jtext option" where
  "move_file key stat src dest c t s =
     (case write_file dest t s of
        (s1, False) \<Rightarrow> (s1, Some dest)
      | (s1, True) \<Rightarrow>
          (case remove_file src s1 of
             (s2, False) \<Rightarrow> (s2, Some src)
           | (s2, True) \<Rightarrow>
               (note_patch_write key stat dest None t (source_seen key src c s)
                  (forget_receipts key dest (forget_receipts key src s2)), None)))"

definition ARROW :: jtext where
  "ARROW = js '' -> ''"

text \<open>One change: the state it leaves, and the line reported or the error thrown.\<close>

definition apply_change ::
    "(jtext \<Rightarrow> jtext option) \<Rightarrow> (jtext \<Rightarrow> jtext) \<Rightarrow> (nat \<Rightarrow> jtext \<Rightarrow> jtext option) \<Rightarrow> jtext \<Rightarrow> file_change \<Rightarrow>
     exec_state \<Rightarrow> exec_state \<times> (apply_error + jtext)" where
  "apply_change resolve key stat path c s =
     (case resolve path of
        None \<Rightarrow> (s, Inl (Outside_Cwd path))
      | Some src \<Rightarrow>
        (case change_type c of
           Delete_Action \<Rightarrow>
             (case remove_file src s of
                (s1, False) \<Rightarrow> (s1, Inl (Io_Failed src))
              | (s1, True) \<Rightarrow> (forget_receipts key src s1, Inr (path @ js '': [deleted]'')))
         | Add_Action \<Rightarrow>
             (case new_content c of
                None \<Rightarrow> (s, Inl (No_Content path))
              | Some t \<Rightarrow>
                  (case write_file src t s of
                     (s1, False) \<Rightarrow> (s1, Inl (Io_Failed src))
                   | (s1, True) \<Rightarrow> (note_patch_write key stat src None t True s1, Inr path)))
         | Update_Action \<Rightarrow>
             (case new_content c of
                None \<Rightarrow> (s, Inl (No_Content path))
              | Some t \<Rightarrow>
                  if change_move c \<noteq> None \<and> change_move c \<noteq> Some []
                  then (case resolve (the (change_move c)) of
                          None \<Rightarrow> (s, Inl (Outside_Cwd (the (change_move c))))
                        | Some dest \<Rightarrow>
                            (case move_file key stat src dest c t s of
                               (s1, Some p) \<Rightarrow> (s1, Inl (Io_Failed p))
                             | (s1, None) \<Rightarrow> (s1, Inr (path @ ARROW @ the (change_move c)))))
                  else
                    (case write_file src t s of
                       (s1, False) \<Rightarrow> (s1, Inl (Io_Failed src))
                     | (s1, True) \<Rightarrow>
                         (note_patch_write key stat src (old_content c) t False s1, Inr path)))))"

fun apply_each ::
    "(jtext \<Rightarrow> jtext option) \<Rightarrow> (jtext \<Rightarrow> jtext) \<Rightarrow> (nat \<Rightarrow> jtext \<Rightarrow> jtext option) \<Rightarrow>
     (jtext \<times> file_change) list \<Rightarrow> jtext list \<Rightarrow> exec_state \<Rightarrow> exec_state \<times> (apply_error + jtext list)" where
  "apply_each resolve key stat [] touched s = (s, Inr touched)"
| "apply_each resolve key stat ((path, c) # cs) touched s =
     (case apply_change resolve key stat path c s of
        (s', Inl e) \<Rightarrow> (s', Inl e)
      | (s', Inr line) \<Rightarrow> apply_each resolve key stat cs (touched @ [line]) s')"

text \<open>Before anything is written: has something else written to a file that is to be updated?\<close>

fun check_unchanged ::
    "(jtext \<Rightarrow> jtext option) \<Rightarrow> (jtext \<Rightarrow> jtext) \<Rightarrow> (nat \<Rightarrow> jtext \<Rightarrow> jtext option) \<Rightarrow>
     (jtext \<times> file_change) list \<Rightarrow> receipts \<Rightarrow> nat \<Rightarrow> (receipts \<times> nat) \<times> apply_error option" where
  "check_unchanged resolve key stat [] r n = ((r, n), None)"
| "check_unchanged resolve key stat ((path, c) # cs) r n =
     (if change_type c \<noteq> Update_Action then check_unchanged resolve key stat cs r n
      else
        (case resolve path of
           None \<Rightarrow> ((r, n), Some (Outside_Cwd path))
         | Some absp \<Rightarrow>
             if changed_since key r absp (stat n absp)
             then ((retire key absp (note_stamp key absp (stat n absp) r), n + 1),
                   Some (Changed_Outside path))
             else check_unchanged resolve key stat cs r (n + 1)))"

definition apply_changes ::
    "(jtext \<Rightarrow> jtext option) \<Rightarrow> (jtext \<Rightarrow> jtext) \<Rightarrow> (nat \<Rightarrow> jtext \<Rightarrow> jtext option) \<Rightarrow>
     (jtext \<times> file_change) list \<Rightarrow> exec_state \<Rightarrow> exec_state \<times> (apply_error + jtext list)" where
  "apply_changes resolve key stat cs s =
     (case held s of
        None \<Rightarrow> apply_each resolve key stat (enumeration_order cs) [] s
      | Some r \<Rightarrow>
          (case check_unchanged resolve key stat (enumeration_order cs) r (stats s) of
             ((r', n), Some e) \<Rightarrow> (s\<lparr>held := Some r', stats := n\<rparr>, Inl e)
           | ((r', n), None) \<Rightarrow>
               apply_each resolve key stat (enumeration_order cs) [] (s\<lparr>held := Some r', stats := n\<rparr>)))"

text \<open>The executor: the state it leaves, and the response or the error; nothing if it never returns.\<close>

definition applied_response :: "jtext list \<Rightarrow> nat \<Rightarrow> jtext" where
  "applied_response touched f =
     join_lines
       ((js ''Successfully applied patch to the following files:'') # touched @
        (if f > 0 then [js ''Note: Patch applied with fuzz factor '' @ decimal f] else []))"

definition apply_patch ::
    "(jtext \<Rightarrow> jtext) \<Rightarrow> (rat \<Rightarrow> jtext) \<Rightarrow> (jtext \<Rightarrow> jtext option) \<Rightarrow> (jtext \<Rightarrow> jtext) \<Rightarrow>
     (nat \<Rightarrow> jtext \<Rightarrow> jtext option) \<Rightarrow> bool \<Rightarrow> jtext \<Rightarrow> exec_state \<Rightarrow>
     (exec_state \<times> (apply_error + jtext)) option" where
  "apply_patch nfc fixed2 resolve key stat crlf inp s =
     (case compute_patch_changes nfc fixed2 resolve crlf (on_disk s) inp of
        None \<Rightarrow> None
      | Some (Inl e) \<Rightarrow> Some (s, Inl e)
      | Some (Inr (cs, f)) \<Rightarrow>
          (case apply_changes resolve key stat cs s of
             (s', r) \<Rightarrow> Some (s', map_sum id (\<lambda>touched. applied_response touched f) r)))"

end
