(* ===== verification/PatchRuns.thy ===== *)
theory PatchRuns
  imports PatchApply
begin

text \<open>
  The patch parser returns: its loop over the hunks of an update moves forward by a line each
  turn, except on the lines called stuck here, where at the top of a file it repeats the same
  turn for ever.
\<close>

section \<open>Markers\<close>

lemma starts_both: "starts p t \<Longrightarrow> starts q t \<Longrightarrow> starts p q \<or> starts q p"
  by (auto simp: starts_def) (metis min.cobounded1 min_def nle_le take_take)+

lemma starts_trans: "starts p q \<Longrightarrow> starts q t \<Longrightarrow> starts p t"
  unfolding starts_def by (metis min.absorb1 min.cobounded2 take_take length_take)

lemma marker_texts:
  "\<not> starts END_PATCH UPDATE_FILE \<and> \<not> starts UPDATE_FILE END_PATCH"
  "\<not> starts END_PATCH DELETE_FILE \<and> \<not> starts DELETE_FILE END_PATCH"
  "\<not> starts END_PATCH ADD_FILE \<and> \<not> starts ADD_FILE END_PATCH"
  "\<not> starts END_PATCH MOVE_TO \<and> \<not> starts MOVE_TO END_PATCH"
  "\<not> starts END_PATCH BEGIN_PATCH \<and> \<not> starts BEGIN_PATCH END_PATCH"
  "\<not> starts END_PATCH END_FILE \<and> \<not> starts END_FILE END_PATCH"
  "\<not> starts END_PATCH SECTION \<and> \<not> starts SECTION END_PATCH"
  "\<not> starts UPDATE_FILE BEGIN_PATCH \<and> \<not> starts BEGIN_PATCH UPDATE_FILE"
  "\<not> starts UPDATE_FILE DELETE_FILE \<and> \<not> starts DELETE_FILE UPDATE_FILE"
  "\<not> starts UPDATE_FILE ADD_FILE \<and> \<not> starts ADD_FILE UPDATE_FILE"
  "\<not> starts MOVE_TO SECTION \<and> \<not> starts SECTION MOVE_TO"
  "\<not> starts MOVE_TO STARS"
  by code_simp+

lemma marker_differs:
  assumes "\<not> starts p q \<and> \<not> starts q p" and "starts q l"
  shows "\<not> starts p l"
  using assms starts_both by blast

lemma stops_evaluated:
  "UPDATE_STOPS = map js [''*** End Patch'', ''*** Update File:'', ''*** Delete File:'', ''*** Add File:'',
     ''*** End of File'']"
  "PEEK_STOPS = SECTION # UPDATE_STOPS"
  "ADD_STOPS = take 4 UPDATE_STOPS"
  by code_simp+

lemma end_patch_stops: "END_PATCH \<in> set PEEK_STOPS" "END_PATCH \<in> set UPDATE_STOPS" "END_PATCH \<in> set ADD_STOPS"
  by (simp_all add: stops_evaluated END_PATCH_def)

lemma marked_end:
  assumes "starts END_PATCH l"
  shows "marked PEEK_STOPS l" "marked UPDATE_STOPS l" "marked ADD_STOPS l"
  using assms end_patch_stops by (auto simp: marked_def list_ex_iff)

section \<open>Lines at which the loop stands still\<close>

text \<open>Past the end, an empty line, a bare \<open>***\<close>, or a section marker with no space after it.\<close>

definition stuck_line :: "jtext option \<Rightarrow> bool" where
  "stuck_line l =
     (case l of
        None \<Rightarrow> True
      | Some t \<Rightarrow> t = [] \<or> t = STARS \<or> (starts SECTION t \<and> \<not> hunk_header (Some t)))"

lemma stuck_texts:
  "\<not> marked UPDATE_STOPS []" "\<not> marked UPDATE_STOPS STARS"
  "\<not> hunk_header (Some [])" "\<not> hunk_header (Some STARS)" "END_FILE \<noteq> []" "END_FILE \<noteq> STARS"
  "\<not> starts SECTION END_FILE"
  by code_simp+

lemma section_not_stop: "starts SECTION t \<Longrightarrow> \<not> marked UPDATE_STOPS t"
proof
  assume t: "starts SECTION t" and "marked UPDATE_STOPS t"
  then obtain m where m: "m \<in> set UPDATE_STOPS" "starts m t"
    by (auto simp: marked_def list_ex_iff)
  have "list_all (\<lambda>m. \<not> starts SECTION m \<and> \<not> starts m SECTION) UPDATE_STOPS"
    by code_simp
  with m(1) have "\<not> starts SECTION m \<and> \<not> starts m SECTION"
    by (simp add: list_all_iff)
  with marker_differs t m(2) show False by blast
qed

lemma stuck_not_stop: "stuck_line (line_at lines i) \<Longrightarrow> \<not> at_update_stop lines i"
  by (auto simp: stuck_line_def at_update_stop_def stuck_texts section_not_stop split: option.splits)

lemma stuck_no_header: "stuck_line l \<Longrightarrow> \<not> hunk_header l"
  by (auto simp: stuck_line_def stuck_texts split: option.splits)
    (simp add: hunk_header_def def_text_def)

lemma drop_line_at:
  "line_at lines i = None \<Longrightarrow> drop i lines = []"
  "line_at lines i = Some l \<Longrightarrow> drop i lines = l # drop (Suc i) lines"
  by (auto simp: line_at_def Cons_nth_drop_Suc split: if_splits)

lemma peek_stuck:
  assumes "stuck_line (line_at lines i)"
  shows "peek lines i = Inr ([], [], i, False)"
proof -
  have "peek_loop (drop i lines) i peek_start = Inr (peek_start, i)"
  proof (cases "line_at lines i")
    case (Some l)
    with assms show ?thesis
      by (auto simp: drop_line_at stuck_line_def marked_def stops_evaluated)
  qed (simp add: drop_line_at)
  moreover have "line_at lines i \<noteq> Some END_FILE"
    using assms by (auto simp: stuck_line_def stuck_texts)
  ultimately show ?thesis
    by (simp add: peek_def flush_chunk_def peek_start_def)
qed

lemma stuck_turn:
  assumes "stuck_line (line_at lines (line_index (up u)))" and "file_index u = 0"
  shows "update_turn nfc fixed2 path lines file u = Inr u"
proof -
  have "def_text (line_at lines (line_index (up u))) = None"
    using stuck_no_header [OF assms(1)] by (simp add: hunk_header_def)
  with stuck_no_header [OF assms(1)] peek_stuck [OF assms(1)] assms(2) show ?thesis
    by (simp add: update_turn_def Let_def find_context_def place_hunk_def)
qed

lemma stuck_loop:
  assumes "stuck_line (line_at lines (line_index (up u)))" and "file_index u = 0"
  shows "update_loop nfc fixed2 path lines file u = None"
proof -
  have "\<not> (stuck_line (line_at lines (line_index (up u))) \<and> file_index u = 0)"
    if "update_loop nfc fixed2 path lines file u = Some r" for r
  proof (rule update_loop.raw_induct [OF _ that])
    fix loop nfc fixed2 path lines "file" u r
    assume IH: "\<And>nfc fixed2 path lines file u r. loop nfc fixed2 path lines file u = Some r \<Longrightarrow>
        \<not> (stuck_line (line_at lines (line_index (up u))) \<and> file_index u = 0)"
      and turn: "(if at_update_stop lines (line_index (up u)) then Some (Inr u)
        else case update_turn nfc fixed2 path lines file u of Inl e \<Rightarrow> Some (Inl e)
             | Inr u' \<Rightarrow> loop nfc fixed2 path lines file u') = Some r"
    show "\<not> (stuck_line (line_at lines (line_index (up u))) \<and> file_index u = 0)"
    proof
      assume stuck: "stuck_line (line_at lines (line_index (up u))) \<and> file_index u = 0"
      then have "loop nfc fixed2 path lines file u = Some r"
        using turn by (simp add: stuck_not_stop stuck_turn)
      from IH [OF this] stuck show False by blast
    qed
  qed
  with assms show ?thesis by (cases "update_loop nfc fixed2 path lines file u") auto
qed


section \<open>The loops move forward\<close>

text \<open>The last line of a patch is an end marker: what \<open>normalizePatchInput\<close> provides.\<close>

definition ends :: "jtext list \<Rightarrow> bool" where
  "ends lines = (lines \<noteq> [] \<and> starts END_PATCH (last lines))"

definition no_stuck_line :: "jtext list \<Rightarrow> bool" where
  "no_stuck_line lines = list_all (\<lambda>l. \<not> stuck_line (Some l)) lines"

lemma line_at_Some: "line_at lines i = Some l \<longleftrightarrow> i < length lines \<and> lines ! i = l"
  by (auto simp: line_at_def)

lemma before_end:
  assumes "ends lines" and "line_at lines i = Some l" and "\<not> starts END_PATCH l"
  shows "i + 1 < length lines"
proof (rule ccontr)
  assume "\<not> i + 1 < length lines"
  with assms(2) have "i = length lines - 1" by (auto simp: line_at_Some)
  with assms(1, 2) have "l = last lines" by (auto simp: ends_def line_at_Some last_conv_nth)
  with assms(1, 3) show False by (simp add: ends_def)
qed

lemma peek_loop_forward: "peek_loop ls i s = Inr (s', j) \<Longrightarrow> i \<le> j"
  by (induction ls i s rule: peek_loop.induct) (auto split: if_splits)

lemma peek_loop_stop:
  "peek_loop ls i s = Inr (s', j) \<Longrightarrow> k < length ls \<Longrightarrow> marked PEEK_STOPS (ls ! k) \<Longrightarrow> j \<le> i + k"
proof (induction ls i s arbitrary: k rule: peek_loop.induct)
  case (2 l ls i s)
  show ?case
  proof (cases "l = [] \<or> marked PEEK_STOPS l \<or> l = STARS")
    case False
    with 2(2, 4) obtain m where k: "k = Suc m" "peek_loop ls (i + 1) (peek_line l s) = Inr (s', j)"
      by (cases k) (auto split: if_splits)
    moreover have "\<not> starts STARS l" using False 2(2) by (auto split: if_splits)
    ultimately have "j \<le> i + 1 + m"
      using 2(1) [of m] 2(3, 4) False by auto
    with k show ?thesis by simp
  qed (use 2 in \<open>auto split: if_splits\<close>)
qed simp

lemma peek_forward:
  assumes "ends lines" and "i < length lines" and "peek lines i = Inr (context, cs, j, eof)"
  shows "i \<le> j" and "j < length lines"
proof -
  obtain s j' where loop: "peek_loop (drop i lines) i peek_start = Inr (s, j')"
    and j: "j = (if line_at lines j' = Some END_FILE then j' + 1 else j')"
    using assms(3) by (auto simp: peek_def split: sum.splits if_splits)
  from peek_loop_forward [OF loop] j show "i \<le> j" by (simp split: if_splits)
  have at_end: "drop i lines ! (length lines - 1 - i) = last lines"
    using assms(1, 2) by (simp add: ends_def last_conv_nth)
  have "j' \<le> i + (length lines - 1 - i)"
    using assms(1, 2) at_end by (intro peek_loop_stop [OF loop]) (auto simp: marked_end ends_def)
  with assms(2) have j': "j' < length lines" by arith
  show "j < length lines"
  proof (cases "line_at lines j' = Some END_FILE")
    case True
    have "\<not> starts END_PATCH END_FILE" using marker_texts(6) by blast
    from before_end [OF assms(1) True this] j True show ?thesis by simp
  qed (use j j' in simp)
qed

text \<open>Without a header the line is a hunk line, so \<open>peek\<close> takes it.\<close>

lemma peek_takes:
  assumes "line_at lines i = Some l" and "\<not> stuck_line (Some l)" and "\<not> hunk_header (Some l)"
    and "\<not> marked UPDATE_STOPS l" and "peek lines i = Inr (context, cs, j, eof)"
  shows "i < j"
proof -
  have no_stop: "l \<noteq> [] \<and> l \<noteq> STARS \<and> \<not> marked PEEK_STOPS l"
    using assms(2-4) by (auto simp: stuck_line_def marked_def stops_evaluated)
  obtain s j' where loop: "peek_loop (drop i lines) i peek_start = Inr (s, j')" and "j' \<le> j"
    using assms(5) by (auto simp: peek_def split: sum.splits if_splits)
  with no_stop have "peek_loop (drop (Suc i) lines) (i + 1) (peek_line l peek_start) = Inr (s, j')"
    unfolding drop_line_at(2) [OF assms(1)] by (auto split: if_splits)
  from peek_loop_forward [OF this] \<open>j' \<le> j\<close> show ?thesis by simp
qed

lemma seek_section_index [simp]: "line_index (up (seek_section nfc file def u)) = line_index (up u)"
  by (auto simp: seek_section_def Let_def split: option.splits)

lemma place_hunk_index [simp]: "line_index (up (place_hunk fixed2 path context cs j place u)) = j"
  by (auto simp: place_hunk_def split: prod.splits)

text \<open>What a turn does with the position in the patch.\<close>

lemma turn_peeks:
  assumes "update_turn nfc fixed2 path lines file u = Inr u'"
  obtains ctx cs eof where
    "peek lines (line_index (up u) + (if hunk_header (line_at lines (line_index (up u))) then 1 else 0)) =
       Inr (ctx, cs, line_index (up u'), eof)"
  using assms
  by (auto simp: update_turn_def Let_def skip_line_def split: if_splits sum.splits option.splits)

lemma header_section:
  assumes "hunk_header (Some l)"
  shows "starts SECTION l"
proof -
  have sections: "starts SECTION (js ''@@ '')" "starts SECTION SECTION" by code_simp+
  from assms have "starts (js ''@@ '') l \<or> l = SECTION"
    by (simp add: hunk_header_def def_text_def split: if_splits)
  with sections starts_trans show ?thesis by blast
qed

lemma header_not_end: "hunk_header (Some l) \<Longrightarrow> \<not> starts END_PATCH l"
  using header_section marker_texts(7) marker_differs by blast


lemma turn_forward:
  assumes "ends lines" "no_stuck_line lines" and "line_index (up u) < length lines"
    and "\<not> at_update_stop lines (line_index (up u))"
    and turn: "update_turn nfc fixed2 path lines file u = Inr u'"
  shows "line_index (up u) < line_index (up u')" and "line_index (up u') < length lines"
proof -
  define i where "i = line_index (up u)"
  obtain l where l: "line_at lines i = Some l"
    using assms(3) by (auto simp: line_at_def i_def)
  then have clean: "\<not> stuck_line (Some l)"
    using assms(2) by (auto simp: no_stuck_line_def list_all_iff line_at_Some)
  have no_stop: "\<not> marked UPDATE_STOPS l" using assms(4) l by (simp add: at_update_stop_def i_def)
  obtain ctx cs eof where peeked:
    "peek lines (i + (if hunk_header (Some l) then 1 else 0)) = Inr (ctx, cs, line_index (up u'), eof)"
    using turn_peeks [OF turn] l by (auto simp: i_def)
  have "i < line_index (up u') \<and> line_index (up u') < length lines"
  proof (cases "hunk_header (Some l)")
    case True
    from before_end [OF assms(1) l header_not_end [OF True]] have "i + 1 < length lines" .
    with peek_forward [OF assms(1), of "i + 1"] peeked True show ?thesis by auto
  next
    case False
    with peeked have "peek lines i = Inr (ctx, cs, line_index (up u'), eof)" by simp
    with peek_takes [OF l clean False no_stop] peek_forward [OF assms(1)] assms(3)
    show ?thesis unfolding i_def by blast
  qed
  then show "line_index (up u) < line_index (up u')" "line_index (up u') < length lines"
    by (simp_all add: i_def)
qed

text \<open>The loop of an update returns, at a line that is not past the end.\<close>

definition reaches :: "jtext list \<Rightarrow> nat \<Rightarrow> (patch_error + nat) option \<Rightarrow> bool" where
  "reaches lines i r =
     (case r of None \<Rightarrow> False | Some (Inl e) \<Rightarrow> True | Some (Inr j) \<Rightarrow> i \<le> j \<and> j < length lines)"

lemma reaches_le: "i \<le> j \<Longrightarrow> reaches lines j r \<Longrightarrow> reaches lines i r"
  by (auto simp: reaches_def split: option.splits sum.splits)

lemma reaches_cases [consumes 1, case_names error line]:
  assumes "reaches lines i (map_option (map_sum id f) r)"
  obtains e where "r = Some (Inl e)"
  | x where "r = Some (Inr x)" "i \<le> f x" "f x < length lines"
  using assms by (cases r; cases "the r") (auto simp: reaches_def)

lemma update_loop_reaches:
  assumes "ends lines" "no_stuck_line lines" and "line_index (up u) < length lines"
  shows "reaches lines (line_index (up u))
    (map_option (map_sum id (\<lambda>u. line_index (up u))) (update_loop nfc fixed2 path lines file u))"
  using assms(3)
proof (induction "length lines - line_index (up u)" arbitrary: u rule: less_induct)
  case less
  show ?case
  proof (cases "at_update_stop lines (line_index (up u))")
    case True
    with less.prems show ?thesis by (subst update_loop.simps) (simp add: reaches_def)
  next
    case False
    show ?thesis
    proof (cases "update_turn nfc fixed2 path lines file u")
      case (Inl e)
      with False show ?thesis by (subst update_loop.simps) (simp add: reaches_def)
    next
      case (Inr u')
      note forward = turn_forward [OF assms(1,2) less.prems False Inr]
      have "reaches lines (line_index (up u')) (map_option (map_sum id (\<lambda>u. line_index (up u)))
          (update_loop nfc fixed2 path lines file u'))"
        using forward by (intro less.hyps) auto
      then have "reaches lines (line_index (up u)) (map_option (map_sum id (\<lambda>u. line_index (up u)))
          (update_loop nfc fixed2 path lines file u'))"
        by (rule reaches_le [rotated]) (use forward in simp)
      with False Inr show ?thesis by (subst update_loop.simps) simp
    qed
  qed
qed

lemma parse_update_file_reaches:
  assumes "ends lines" "no_stuck_line lines" and "line_index p < length lines"
  shows "reaches lines (line_index p)
    (map_option (map_sum id (line_index \<circ> fst)) (parse_update_file nfc fixed2 lines body path p))"
  using update_loop_reaches [OF assms(1,2), of "\<lparr>up = p, file_index = 0, found = []\<rparr>"] assms(3)
  by (simp add: parse_update_file_def option.map_comp sum.map_comp comp_def id_def)

lemma add_loop_forward: "add_loop ls i acc = Inr (acc', j) \<Longrightarrow> i \<le> j"
  by (induction ls i acc rule: add_loop.induct) (auto split: if_splits)

lemma add_loop_stop:
  "add_loop ls i acc = Inr (acc', j) \<Longrightarrow> k < length ls \<Longrightarrow> marked ADD_STOPS (ls ! k) \<Longrightarrow> j \<le> i + k"
proof (induction ls i acc arbitrary: k rule: add_loop.induct)
  case (2 l ls i acc)
  show ?case
  proof (cases "marked ADD_STOPS l")
    case False
    with 2(2, 4) obtain m where k: "k = Suc m" "add_loop ls (i + 1) (acc @ [drop 1 l]) = Inr (acc', j)"
      by (cases k) (auto split: if_splits)
    moreover have "starts (js ''+'') l" using False 2(2) by (auto split: if_splits)
    ultimately have "j \<le> i + 1 + m"
      using 2(1) [of m] 2(3, 4) False by auto
    with k show ?thesis by simp
  qed (use 2 in \<open>auto split: if_splits\<close>)
qed simp

lemma add_loop_reaches:
  assumes "ends lines" and "i < length lines" and "add_loop (drop i lines) i acc = Inr (acc', j)"
  shows "i \<le> j \<and> j < length lines"
proof -
  have "drop i lines ! (length lines - 1 - i) = last lines"
    using assms(1, 2) by (simp add: ends_def last_conv_nth)
  then have "j \<le> i + (length lines - 1 - i)"
    using assms(1, 2) by (intro add_loop_stop [OF assms(3)]) (auto simp: marked_end ends_def)
  with assms(2) add_loop_forward [OF assms(3)] show ?thesis by arith
qed

lemma parse_add_reaches:
  assumes "ends lines" and "line_index p + 1 < length lines"
  shows "reaches lines (line_index p + 1)
    (map_option (map_sum id line_index) (Some (parse_add lines fs path p)))"
  using add_loop_reaches [OF assms(1), of "line_index p + 1"] assms(2)
  by (auto simp: reaches_def parse_add_def split: option.splits sum.splits)

lemma parse_delete_reaches:
  "line_index p + 1 < length lines \<Longrightarrow>
   reaches lines (line_index p + 1) (map_option (map_sum id line_index) (Some (parse_delete fs path p)))"
  by (auto simp: reaches_def parse_delete_def split: option.splits)

lemma parse_update_reaches:
  assumes "ends lines" "no_stuck_line lines" and "line_index p + 1 < length lines"
  shows "reaches lines (line_index p + 1)
    (map_option (map_sum id line_index) (parse_update nfc fixed2 lines fs path p))"
proof -
  define p1 where "p1 = p\<lparr>line_index := line_index p + 1\<rparr>"
  define mv where "mv = (case line_at lines (line_index p1) of None \<Rightarrow> None
    | Some l \<Rightarrow> if starts MOVE_TO l then Some (trim (drop (length MOVE_TO) l)) else None)"
  define p2 where "p2 = (if mv = None then p1 else p1\<lparr>line_index := line_index p1 + 1\<rparr>)"
  have p2: "line_index p + 1 \<le> line_index p2 \<and> line_index p2 < length lines"
  proof (cases "mv = None")
    case False
    then obtain l where l: "line_at lines (line_index p1) = Some l" "starts MOVE_TO l"
      by (auto simp: mv_def split: option.splits if_splits)
    then have "\<not> starts END_PATCH l" using marker_differs marker_texts(4) by blast
    from before_end [OF assms(1) l(1) this] show ?thesis by (simp add: p2_def p1_def)
  qed (use assms(3) in \<open>simp add: p2_def p1_def\<close>)
  have step: "parse_update nfc fixed2 lines fs path p =
     (if in_object path (actions p) then Some (Inl (Duplicate (js ''update'') path))
      else if \<not> in_object path fs then Some (Inl (Update_Missing path))
      else (case parse_update_file nfc fixed2 lines (opt_default [] (map_of fs path)) path p2 of
              None \<Rightarrow> None
            | Some (Inl e) \<Rightarrow> Some (Inl e)
            | Some (Inr (p3, cs)) \<Rightarrow>
                Some (Inr (p3\<lparr>actions := AList.update path
                  \<lparr>action_type = Update_Action, new_file = None, chunks = cs, move_path = mv\<rparr>
                  (actions p3)\<rparr>))))"
    unfolding parse_update_def check_duplicate_def p2_def mv_def p1_def Let_def by simp
  have "reaches lines (line_index p2) (map_option (map_sum id (line_index \<circ> fst))
      (parse_update_file nfc fixed2 lines (opt_default [] (map_of fs path)) path p2))"
    using p2 by (intro parse_update_file_reaches assms) simp
  then show ?thesis
  proof (cases rule: reaches_cases)
    case (line x)
    with p2 show ?thesis
      unfolding step by (auto simp: reaches_def split: prod.splits)
  qed (auto simp: step reaches_def)
qed

lemma parse_next_action_reaches:
  assumes "ends lines" "no_stuck_line lines" and l: "line_at lines (line_index p) = Some l"
    "\<not> starts END_PATCH l"
  shows "reaches lines (line_index p + 1)
    (map_option (map_sum id line_index) (parse_next_action nfc fixed2 lines fs l p))"
proof -
  have next_line: "line_index p + 1 < length lines" by (rule before_end [OF assms(1) l])
  then show ?thesis
    using parse_update_reaches [OF assms(1,2) next_line] parse_delete_reaches [OF next_line]
      parse_add_reaches [OF assms(1) next_line]
    unfolding parse_next_action_def by (auto simp: reaches_def)
qed

lemma parse_loop_returns:
  assumes "ends lines" "no_stuck_line lines"
  shows "parse_loop nfc fixed2 lines fs p \<noteq> None"
proof (induction "length lines - line_index p" arbitrary: p rule: less_induct)
  case less
  show ?case
  proof (cases "line_at lines (line_index p)")
    case None
    then show ?thesis by (subst parse_loop.simps) simp
  next
    case (Some l)
    show ?thesis
    proof (cases "starts END_PATCH l")
      case True
      with Some show ?thesis by (subst parse_loop.simps) simp
    next
      case False
      from parse_next_action_reaches [OF assms Some False, of nfc fixed2 fs] show ?thesis
      proof (cases rule: reaches_cases)
        case (error e)
        with Some False show ?thesis by (subst parse_loop.simps) simp
      next
        case (line p')
        then have "parse_loop nfc fixed2 lines fs p' \<noteq> None"
          by (intro less.hyps) auto
        with line Some False show ?thesis by (subst parse_loop.simps) simp
      qed
    qed
  qed
qed

section \<open>The input\<close>

lemma end_index_Some:
  assumes "end_index ls = Some e"
  shows "e < length ls \<and> starts END_PATCH (ls ! e)"
proof -
  from assms obtain i where i: "find_index (starts END_PATCH) (rev ls) = Some i" "e = length ls - Suc i"
    by (auto simp: end_index_def)
  from find_index_Some [OF i(1)] i(2) show ?thesis by (auto simp: rev_nth)
qed

lemma normalized_ends:
  assumes "normalize_patch_input inp = Inr lines"
  shows "ends lines \<and> starts BEGIN_PATCH (hd lines)"
proof -
  have self: "starts END_PATCH END_PATCH" "starts BEGIN_PATCH BEGIN_PATCH"
    by (simp_all add: starts_def)
  define raw where "raw = split_patch_input_lines inp"
  show ?thesis
  proof (cases "begin_index raw")
    case None
    with assms self show ?thesis
      by (auto simp: normalize_patch_input_def raw_def [symmetric] Let_def ends_def split: option.splits)
  next
    case (Some b)
    with assms obtain e where e: "end_index raw = Some e" "b \<le> e"
      and lines: "lines = take (e + 1 - b) (drop b raw)"
      by (auto simp: normalize_patch_input_def raw_def [symmetric] Let_def split: option.splits if_splits)
    have b: "starts BEGIN_PATCH (raw ! b)"
      using find_index_Some [of "starts BEGIN_PATCH" raw b] Some by (simp add: begin_index_def)
    from end_index_Some [OF e(1)] have e': "e < length raw" "starts END_PATCH (raw ! e)" by auto
    have "length lines = e + 1 - b" using e(2) e' by (simp add: lines)
    moreover have "lines ! (e - b) = raw ! e" "lines ! 0 = raw ! b"
      using e(2) e' by (simp_all add: lines)
    moreover have "lines \<noteq> []" "length lines - 1 = e - b"
      using calculation(1) e(2) by auto
    ultimately have "last lines = raw ! e" "hd lines = raw ! b"
      using last_conv_nth [of lines] hd_conv_nth [of lines] by simp_all
    with \<open>lines \<noteq> []\<close> e' b show ?thesis by (simp add: ends_def)
  qed
qed


text \<open>C23: the executor returns for every patch without a stuck line: whatever the files hold
  and whatever the hunks say, no loop of the parser runs for ever.\<close>

theorem patch_returns:
  assumes "normalize_patch_input inp = Inr lines" and "no_stuck_line lines"
  shows "apply_patch nfc fixed2 resolve key stat crlf inp s \<noteq> None"
proof -
  have never: "parse_patch nfc fixed2 lines fs \<noteq> None" for fs
    using parse_loop_returns assms(2) normalized_ends [OF assms(1)]
    unfolding parse_patch_def by blast
  have "compute_patch_changes nfc fixed2 resolve crlf (on_disk s) inp \<noteq> None"
  proof (cases "load_files resolve (on_disk s) lines")
    case (Inr fs)
    with never [of "files fs"] obtain r where "parse_patch nfc fixed2 lines (files fs) = Some r"
      by blast
    with assms(1) Inr show ?thesis by (cases r) (simp_all add: compute_patch_changes_def)
  qed (simp add: assms(1) compute_patch_changes_def)
  then show ?thesis
    by (auto simp: apply_patch_def split: option.splits sum.splits prod.splits)
qed

definition SAMPLE_STATE :: "jtext \<Rightarrow> exec_state" where
  "SAMPLE_STATE t = \<lparr>on_disk = [js ''a'' \<mapsto> t], held = Some create_read_receipts, stats = 0,
     io_ends = \<lambda>n p. Io_Done, ios = 0\<rparr>"

definition SAMPLE_PATCH :: "jtext list" where
  "SAMPLE_PATCH = map js
     [''*** Begin Patch'', ''*** Update File: a'', ''@@'', '' one'', ''-two'', ''+2'', ''*** End Patch'']"

lemma sample_patch:
  "normalize_patch_input (join_lines SAMPLE_PATCH) = Inr SAMPLE_PATCH" "no_stuck_line SAMPLE_PATCH"
  by code_simp+

theorem patch_returns_witness:
  "apply_patch id (\<lambda>s. []) Some id (\<lambda>n path. Some path) False (join_lines SAMPLE_PATCH)
     (SAMPLE_STATE (js ''one'')) \<noteq> None"
  by (rule patch_returns [OF sample_patch])

section \<open>The patch that never returns\<close>

lemma trim_Nil [simp]: "trim [] = []"
  by (simp add: trim_def trim_left_def)

lemma stuck_not_move: "stuck_line (Some t) \<Longrightarrow> \<not> starts MOVE_TO t"
proof -
  assume "stuck_line (Some t)"
  then have "t = [] \<or> t = STARS \<or> starts SECTION t"
    by (auto simp: stuck_line_def)
  moreover have "\<not> starts MOVE_TO []" by (simp add: starts_def MOVE_TO_def js_def)
  ultimately show ?thesis
    using marker_texts(11, 12) marker_differs by blast
qed

text \<open>C26: a stuck line right after the line that names a file to update makes the parser run for
  ever: an empty line, a bare \<open>***\<close>, or a section marker written without its space.\<close>

theorem stuck_line_never_returns:
  assumes "path \<in> set (map fst fs)" and "path \<notin> set OBJECT_MEMBERS"
    and "after_marker UPDATE_FILE (UPDATE_FILE @ path) = path"
    and "stuck_line (Some l)"
  shows "parse_patch nfc fixed2 (BEGIN_PATCH # (UPDATE_FILE @ path) # l # rest) fs = None"
proof -
  define lines where "lines = BEGIN_PATCH # (UPDATE_FILE @ path) # l # rest"
  define p where "p = parser_start\<lparr>line_index := 1\<rparr>"
  have skipped: "skip_begin_sentinel lines parser_start = p"
    by (simp add: skip_begin_sentinel_def lines_def parser_start_def p_def line_at_def starts_def)
  have l0: "line_at lines 1 = Some (UPDATE_FILE @ path)" and l1: "line_at lines 2 = Some l"
    by (simp_all add: lines_def line_at_def)
  have "parse_update_file nfc fixed2 lines body path (p\<lparr>line_index := 2\<rparr>) = None" for body
    using stuck_loop [of lines "\<lparr>up = p\<lparr>line_index := 2\<rparr>, file_index = 0, found = []\<rparr>"] l1 assms(4)
    by (simp add: parse_update_file_def)
  then have "parse_update nfc fixed2 lines fs path p = None"
    using assms(1,2) l1 stuck_not_move [OF assms(4)]
    by (simp add: parse_update_def check_duplicate_def in_object_def p_def parser_start_def numeral_2_eq_2)
  moreover have "\<not> starts END_PATCH (UPDATE_FILE @ path)" "starts UPDATE_FILE (UPDATE_FILE @ path)"
    using marker_differs [OF marker_texts(1) starts_append] by simp_all
  ultimately have "parse_loop nfc fixed2 lines fs p = None"
    using l0 assms(3) by (subst parse_loop.simps) (simp add: p_def parse_next_action_def)
  then show ?thesis by (simp add: parse_patch_def skipped flip: lines_def)
qed

theorem stuck_line_never_returns_witness:
  "parse_patch id (\<lambda>s. []) (BEGIN_PATCH # (UPDATE_FILE @ js ''a'') # [] # [END_PATCH])
     [(js ''a'', js ''one'')] = None"
proof (rule stuck_line_never_returns)
  show "js ''a'' \<notin> set OBJECT_MEMBERS" by code_simp
  show "after_marker UPDATE_FILE (UPDATE_FILE @ js ''a'') = js ''a''" by code_simp
qed (simp_all add: stuck_line_def)

end
