(* ===== verification/PatchHunks.thy ===== *)
theory PatchHunks
  imports PatchRuns
begin

text \<open>
  What a hunk does to a file. \<open>peek\<close> splits the hunk into chunks, \<open>findContext\<close> places it and
  \<open>applyChunks\<close> splices the chunks in; together they replace the lines the hunk describes by the
  lines it wants.
\<close>

section \<open>The two sides of a hunk\<close>

definition old_side :: "jtext \<Rightarrow> jtext list" where
  "old_side l = (case classify_line l of (mode, t) \<Rightarrow> if mode = Add_Mode then [] else [t])"

definition new_side :: "jtext \<Rightarrow> jtext list" where
  "new_side l = (case classify_line l of (mode, t) \<Rightarrow> if mode = Delete_Mode then [] else [t])"

definition old_block :: "jtext list \<Rightarrow> jtext list" where
  "old_block body = concat (map old_side body)"

definition new_block :: "jtext list \<Rightarrow> jtext list" where
  "new_block body = concat (map new_side body)"

text \<open>A line that \<open>peek\<close> takes into the hunk.\<close>

definition hunk_line :: "jtext \<Rightarrow> bool" where
  "hunk_line l = (l \<noteq> [] \<and> \<not> marked PEEK_STOPS l \<and> \<not> starts STARS l)"

lemma peek_loop_body:
  "list_all hunk_line body \<Longrightarrow>
   peek_loop (body @ rest) i s = peek_loop rest (i + length body) (fold peek_line body s)"
proof (induction body arbitrary: i s)
  case (Cons l body)
  moreover have "l \<noteq> STARS" using Cons.prems by (auto simp: hunk_line_def starts_def)
  ultimately show ?case by (simp add: hunk_line_def)
qed simp

lemma old_lines_body: "old_lines (fold peek_line body s) = old_lines s @ old_block body"
proof (induction body arbitrary: s)
  case (Cons l body)
  have "old_lines (peek_line l s) = old_lines s @ old_side l"
    by (auto simp: peek_line_def old_side_def Let_def split: prod.splits peek_mode.splits)
  with Cons.IH show ?case by (simp add: old_block_def)
qed (simp add: old_block_def)

section \<open>Splicing\<close>

text \<open>The loop of \<open>applyChunks\<close> up to the position and the lines it has, before the last slice.\<close>

fun splice_steps ::
    "jtext \<Rightarrow> jtext list \<Rightarrow> patch_chunk list \<Rightarrow> int \<Rightarrow> jtext list \<Rightarrow> apply_error + (int \<times> jtext list)" where
  "splice_steps path lines [] current result = Inr (current, result)"
| "splice_steps path lines (c # cs) current result =
     (if orig_index c > int (length lines)
      then Inl (Chunk_Past_End path (orig_index c) (length lines))
      else if current > orig_index c then Inl (Chunk_Behind path current (orig_index c))
      else splice_steps path lines cs (orig_index c + int (length (del_lines c)))
             (result @ js_slice lines current (orig_index c) @ ins_lines c))"

lemma splice_chunks_steps:
  "splice_chunks path lines cs current result =
     (case splice_steps path lines cs current result of
        Inl e \<Rightarrow> Inl e
      | Inr (c, r) \<Rightarrow> Inr (r @ js_slice lines c (int (length lines))))"
  by (induction cs arbitrary: current result) auto

lemma splice_steps_append:
  "splice_steps path lines (cs @ ds) current result =
     (case splice_steps path lines cs current result of
        Inl e \<Rightarrow> Inl e
      | Inr (c, r) \<Rightarrow> splice_steps path lines ds c r)"
  by (induction cs arbitrary: current result) auto

lemma slice_nats:
  "a \<le> length xs \<Longrightarrow> b \<le> length xs \<Longrightarrow> js_slice xs (int a) (int b) = take (b - a) (drop a xs)"
  by (simp add: js_slice_def slice_bound_def Let_def)

lemma slice_next:
  assumes "a \<le> b" and "b < length xs"
  shows "js_slice xs (int a) (int (Suc b)) = js_slice xs (int a) (int b) @ [xs ! b]"
proof -
  have "take (Suc b - a) (drop a xs) = take (b - a) (drop a xs) @ [drop a xs ! (b - a)]"
    using assms by (simp add: Suc_diff_le take_Suc_conv_app_nth)
  with assms show ?thesis by (simp add: slice_nats del: of_nat_Suc)
qed

text \<open>
  The invariant of \<open>peek\<close>, read through \<open>applyChunks\<close>: in any file that has the hunk's old lines
  after \<open>pre\<close>, the chunks so far, the unchanged lines up to the run that is open and the added
  lines of that run give the new lines.
\<close>

definition run_start :: "jtext list \<Rightarrow> peek_state \<Rightarrow> nat" where
  "run_start pre s = length pre + length (old_lines s) - length (del_run s)"

definition rebuilds :: "jtext list \<Rightarrow> jtext list \<Rightarrow> peek_state \<Rightarrow> bool" where
  "rebuilds pre new s =
     (length (del_run s) \<le> length (old_lines s) \<and>
      (line_mode s = Keep_Mode \<longrightarrow> del_run s = [] \<and> ins_run s = []) \<and>
      (\<forall>path post. \<exists>c r.
         splice_steps path (pre @ old_lines s @ post)
           (map (shift_chunk (int (length pre))) (chunks_found s)) 0 [] = Inr (int c, r) \<and>
         c \<le> run_start pre s \<and>
         r @ js_slice (pre @ old_lines s @ post) (int c) (int (run_start pre s)) @ ins_run s = pre @ new))"

lemma rebuildsI:
  assumes "length (del_run s) \<le> length (old_lines s)"
    and "line_mode s = Keep_Mode \<Longrightarrow> del_run s = [] \<and> ins_run s = []"
    and "\<And>path post. \<exists>c r.
         splice_steps path (pre @ old_lines s @ post)
           (map (shift_chunk (int (length pre))) (chunks_found s)) 0 [] = Inr (int c, r) \<and>
         c \<le> run_start pre s \<and>
         r @ js_slice (pre @ old_lines s @ post) (int c) (int (run_start pre s)) @ ins_run s = pre @ new"
  shows "rebuilds pre new s"
  using assms unfolding rebuilds_def by blast

lemma rebuildsD:
  assumes "rebuilds pre new s"
  obtains c r where
    "splice_steps path (pre @ old_lines s @ post)
       (map (shift_chunk (int (length pre))) (chunks_found s)) 0 [] = Inr (int c, r)"
    "c \<le> run_start pre s"
    "r @ js_slice (pre @ old_lines s @ post) (int c) (int (run_start pre s)) @ ins_run s = pre @ new"
  using assms unfolding rebuilds_def by blast

lemma rebuilds_start: "rebuilds pre [] peek_start"
proof (rule rebuildsI)
  fix path post
  show "\<exists>c r. splice_steps path (pre @ old_lines peek_start @ post)
           (map (shift_chunk (int (length pre))) (chunks_found peek_start)) 0 [] = Inr (int c, r) \<and>
         c \<le> run_start pre peek_start \<and>
         r @ js_slice (pre @ old_lines peek_start @ post) (int c) (int (run_start pre peek_start)) @
           ins_run peek_start = pre @ []"
    using slice_nats [of 0 "pre @ post" "length pre"]
    by (intro exI [of _ 0] exI [of _ "[]"]) (simp add: peek_start_def run_start_def)
qed (simp_all add: peek_start_def)

text \<open>Closing the run that is open.\<close>

lemma rebuilds_flush:
  assumes s: "rebuilds pre new s"
  obtains c r where
    "splice_steps path (pre @ old_lines s @ post)
       (map (shift_chunk (int (length pre))) (flush_chunk s)) 0 [] = Inr (int c, r)"
    "c \<le> length pre + length (old_lines s)"
    "r @ js_slice (pre @ old_lines s @ post) (int c) (int (length pre + length (old_lines s))) = pre @ new"
proof -
  obtain c r where steps: "splice_steps path (pre @ old_lines s @ post)
       (map (shift_chunk (int (length pre))) (chunks_found s)) 0 [] = Inr (int c, r)"
    and c: "c \<le> run_start pre s"
    and r: "r @ js_slice (pre @ old_lines s @ post) (int c) (int (run_start pre s)) @ ins_run s = pre @ new"
    by (rule rebuildsD [OF s])
  have del: "length (del_run s) \<le> length (old_lines s)" using s by (simp add: rebuilds_def)
  show thesis
  proof (cases "ins_run s \<noteq> [] \<or> del_run s \<noteq> []")
    case True
    define k where "k = length pre + length (old_lines s)"
    define n where "n = run_start pre s"
    have n: "n \<le> length (pre @ old_lines s @ post)" "n + length (del_run s) = k"
      using del by (simp_all add: n_def run_start_def k_def)
    have flushed: "map (shift_chunk (int (length pre))) (flush_chunk s) =
        map (shift_chunk (int (length pre))) (chunks_found s) @
          [\<lparr>orig_index = int n, del_lines = del_run s, ins_lines = ins_run s\<rparr>]"
      using True del by (auto simp: flush_chunk_def shift_chunk_def n_def run_start_def)
    have "splice_steps path (pre @ old_lines s @ post)
       (map (shift_chunk (int (length pre))) (flush_chunk s)) 0 [] = Inr (int k, pre @ new)"
      unfolding flushed splice_steps_append steps
      using c r n by (simp add: n_def [symmetric] del: length_append flip: of_nat_add)
    moreover have "js_slice (pre @ old_lines s @ post) (int k) (int k) = []"
      by (simp add: js_slice_def Let_def)
    ultimately show thesis
      by (intro that [of k "pre @ new"]) (simp_all add: k_def)
  next
    case False
    with steps c r show thesis
      by (intro that [of c r]) (simp_all add: flush_chunk_def run_start_def)
  qed
qed


text \<open>A removed line, an added line, and an unchanged line that closes a run or continues one.\<close>

lemma rebuilds_delete:
  assumes s: "rebuilds pre new s" and l: "classify_line l = (Delete_Mode, t)"
  shows "rebuilds pre new (peek_line l s)"
proof (rule rebuildsI)
  have after: "peek_line l s =
      s\<lparr>line_mode := Delete_Mode, del_run := del_run s @ [t], old_lines := old_lines s @ [t]\<rparr>"
    by (simp add: peek_line_def l)
  fix path post
  have start: "run_start pre (peek_line l s) = run_start pre s"
    by (simp add: run_start_def after)
  from rebuildsD [OF s, of path "t # post"]
  obtain c r where "splice_steps path (pre @ old_lines s @ t # post)
       (map (shift_chunk (int (length pre))) (chunks_found s)) 0 [] = Inr (int c, r)"
    "c \<le> run_start pre s"
    "r @ js_slice (pre @ old_lines s @ t # post) (int c) (int (run_start pre s)) @ ins_run s = pre @ new"
    by blast
  then show "\<exists>c r. splice_steps path (pre @ old_lines (peek_line l s) @ post)
         (map (shift_chunk (int (length pre))) (chunks_found (peek_line l s))) 0 [] = Inr (int c, r) \<and>
       c \<le> run_start pre (peek_line l s) \<and>
       r @ js_slice (pre @ old_lines (peek_line l s) @ post) (int c)
             (int (run_start pre (peek_line l s))) @ ins_run (peek_line l s) = pre @ new"
    unfolding start by (intro exI conjI) (auto simp: after)
qed (use s in \<open>auto simp: rebuilds_def peek_line_def l\<close>)

lemma rebuilds_add:
  assumes s: "rebuilds pre new s" and l: "classify_line l = (Add_Mode, t)"
  shows "rebuilds pre (new @ [t]) (peek_line l s)"
proof (rule rebuildsI)
  have after: "peek_line l s = s\<lparr>line_mode := Add_Mode, ins_run := ins_run s @ [t]\<rparr>"
    by (simp add: peek_line_def l)
  fix path post
  have start: "run_start pre (peek_line l s) = run_start pre s"
    by (simp add: run_start_def after)
  from rebuildsD [OF s, of path post]
  obtain c r where steps: "splice_steps path (pre @ old_lines s @ post)
       (map (shift_chunk (int (length pre))) (chunks_found s)) 0 [] = Inr (int c, r)"
    "c \<le> run_start pre s"
    and r: "r @ js_slice (pre @ old_lines s @ post) (int c) (int (run_start pre s)) @ ins_run s = pre @ new"
    by blast
  from arg_cong [where f = "\<lambda>x. x @ [t]", OF r] steps
  show "\<exists>c r. splice_steps path (pre @ old_lines (peek_line l s) @ post)
         (map (shift_chunk (int (length pre))) (chunks_found (peek_line l s))) 0 [] = Inr (int c, r) \<and>
       c \<le> run_start pre (peek_line l s) \<and>
       r @ js_slice (pre @ old_lines (peek_line l s) @ post) (int c)
             (int (run_start pre (peek_line l s))) @ ins_run (peek_line l s) = pre @ new @ [t]"
    unfolding start by (intro exI conjI) (auto simp: after)
qed (use s in \<open>auto simp: rebuilds_def peek_line_def l\<close>)

lemma rebuilds_keep:
  assumes s: "rebuilds pre new s" and l: "classify_line l = (Keep_Mode, t)"
  shows "rebuilds pre (new @ [t]) (peek_line l s)"
proof (rule rebuildsI)
  have same: "flush_chunk s = chunks_found s" if "line_mode s = Keep_Mode"
    using that s by (simp add: rebuilds_def flush_chunk_def)
  have after: "chunks_found (peek_line l s) = flush_chunk s" "del_run (peek_line l s) = []"
    "ins_run (peek_line l s) = []" "old_lines (peek_line l s) = old_lines s @ [t]"
    using same s by (auto simp: peek_line_def l Let_def rebuilds_def)
  fix path post
  define k where "k = length pre + length (old_lines s)"
  have start: "run_start pre (peek_line l s) = Suc k"
    by (simp add: run_start_def after k_def)
  from rebuilds_flush [OF s, of path "t # post"]
  obtain c r where steps: "splice_steps path (pre @ old_lines s @ t # post)
       (map (shift_chunk (int (length pre))) (flush_chunk s)) 0 [] = Inr (int c, r)"
    and c: "c \<le> k"
    and r: "r @ js_slice (pre @ old_lines s @ t # post) (int c) (int k) = pre @ new"
    unfolding k_def by metis
  have "(pre @ old_lines s @ t # post) ! k = t"
    by (simp add: k_def nth_append)
  then have "js_slice (pre @ old_lines s @ t # post) (int c) (int (Suc k)) =
      js_slice (pre @ old_lines s @ t # post) (int c) (int k) @ [t]"
    using slice_next [OF c, of "pre @ old_lines s @ t # post"] by (simp add: k_def)
  then have "r @ js_slice (pre @ old_lines s @ t # post) (int c) (int (Suc k)) = pre @ new @ [t]"
    using arg_cong [where f = "\<lambda>x. x @ [t]", OF r] by simp
  with steps c
  show "\<exists>c r. splice_steps path (pre @ old_lines (peek_line l s) @ post)
         (map (shift_chunk (int (length pre))) (chunks_found (peek_line l s))) 0 [] = Inr (int c, r) \<and>
       c \<le> run_start pre (peek_line l s) \<and>
       r @ js_slice (pre @ old_lines (peek_line l s) @ post) (int c)
             (int (run_start pre (peek_line l s))) @ ins_run (peek_line l s) = pre @ new @ [t]"
    unfolding start after by (intro exI [of _ c] exI [of _ r]) simp
qed (use s in \<open>auto simp: peek_line_def l Let_def rebuilds_def\<close>)

lemma rebuilds_line: "rebuilds pre new s \<Longrightarrow> rebuilds pre (new @ new_side l) (peek_line l s)"
  using rebuilds_delete rebuilds_add rebuilds_keep
  by (cases "classify_line l"; cases "fst (classify_line l)") (auto simp: new_side_def)

lemma rebuilds_body: "rebuilds pre new s \<Longrightarrow> rebuilds pre (new @ new_block body) (fold peek_line body s)"
proof (induction body arbitrary: new s)
  case (Cons l body)
  from Cons.IH [OF rebuilds_line [OF Cons.prems]] show ?case by (simp add: new_block_def)
qed (simp add: new_block_def)

definition hunk_chunks :: "jtext list \<Rightarrow> patch_chunk list" where
  "hunk_chunks body = flush_chunk (fold peek_line body peek_start)"

text \<open>The chunks of a hunk, placed where its old lines are, put its new lines there.\<close>

lemma splice_hunk:
  "splice_chunks path (pre @ old_block body @ post)
     (map (shift_chunk (int (length pre))) (hunk_chunks body)) 0 [] = Inr (pre @ new_block body @ post)"
proof -
  define s where "s = fold peek_line body peek_start"
  define xs where "xs = pre @ old_lines s @ post"
  define k where "k = length pre + length (old_lines s)"
  have "rebuilds pre (new_block body) s"
    using rebuilds_body [OF rebuilds_start, where body = body] by (simp add: s_def)
  then obtain c r where steps: "splice_steps path xs
       (map (shift_chunk (int (length pre))) (flush_chunk s)) 0 [] = Inr (int c, r)"
    and c: "c \<le> k" and r: "r @ js_slice xs (int c) (int k) = pre @ new_block body"
    unfolding k_def xs_def by (rule rebuilds_flush)
  have in_range: "c \<le> length xs" "k \<le> length xs"
    using c by (simp_all add: xs_def k_def)
  have "js_slice xs (int c) (int (length xs)) = drop c xs"
    using in_range by (simp add: slice_nats)
  also have "\<dots> = js_slice xs (int c) (int k) @ drop k xs"
    using in_range c append_take_drop_id [of "k - c" "drop c xs"] by (simp add: slice_nats)
  also have "drop k xs = post" by (simp add: xs_def k_def)
  finally have "r @ js_slice xs (int c) (int (length xs)) = pre @ new_block body @ post"
    using r by (metis append.assoc)
  moreover have "old_lines s = old_block body"
    by (simp add: s_def old_lines_body peek_start_def)
  ultimately show ?thesis
    using steps by (simp add: splice_chunks_steps hunk_chunks_def xs_def flip: s_def)
qed


lemma apply_chunks_splice:
  "apply_chunks content cs path = map_sum id join_lines (splice_chunks path (split_lf content) cs 0 [])"
  using slice_nats [of 0 "split_lf content" "length (split_lf content)"]
  by (simp add: apply_chunks_def)

section \<open>Placing the hunk\<close>

text \<open>No line before the first \<open>n\<close> of the file begins a copy of the ctx.\<close>

definition no_earlier_match :: "(jtext \<Rightarrow> jtext) \<Rightarrow> jtext list \<Rightarrow> jtext list \<Rightarrow> nat \<Rightarrow> bool" where
  "no_earlier_match nfc file ctx n =
     list_all (\<lambda>j. segment nfc id file (length ctx) (int j) \<noteq> target nfc id ctx) [0..<n]"

lemma exact_pass_first:
  "a \<le> i \<Longrightarrow> i \<le> b \<Longrightarrow> seg i = goal \<Longrightarrow> (\<And>j. a \<le> j \<Longrightarrow> j < i \<Longrightarrow> seg j \<noteq> goal) \<Longrightarrow>
   fst (exact_pass seg goal best [a..b]) = Some i"
proof (induction "nat (i - a)" arbitrary: a best)
  case 0
  then show ?case by (simp add: upto_rec1)
next
  case (Suc n)
  then have "a < i" by simp
  with Suc.prems have "seg a \<noteq> goal" by simp
  moreover have "fst (exact_pass seg goal (better best (calculate_similarity (seg a) goal)) [a + 1..b]) = Some i"
    using Suc.prems Suc.hyps(2) \<open>a < i\<close> by (intro Suc.hyps(1)) auto
  ultimately show ?case using Suc.prems \<open>a < i\<close> by (simp add: upto_rec1)
qed

lemma segment_here:
  "segment nfc id (pre @ ctx @ post) (length ctx) (int (length pre)) = target nfc id ctx"
  using js_slice_nat [of "length pre" "length ctx" "pre @ ctx @ post"]
  by (simp add: segment_def target_def)

lemma find_context_exact:
  assumes first: "no_earlier_match nfc (pre @ ctx @ post) ctx (length pre)"
  shows "find_context nfc (pre @ ctx @ post) ctx 0 False = (int (length pre), 0, 1)"
proof (cases "ctx = []")
  case True
  have "pre = []"
  proof (rule ccontr)
    assume "pre \<noteq> []"
    then have "0 \<in> set [0..<length pre]" by simp
    with first have "segment nfc id (pre @ ctx @ post) (length ctx) (int 0) \<noteq> target nfc id ctx"
      unfolding no_earlier_match_def list_all_iff by blast
    then show False by (simp add: True segment_def target_def js_slice_def slice_bound_def)
  qed
  with True show ?thesis by (simp add: find_context_def)
next
  case False
  have "fst (exact_pass (segment nfc id (pre @ ctx @ post) (length ctx)) (target nfc id ctx) 0
      [0..int (length (pre @ ctx @ post)) - 1]) = Some (int (length pre))"
  proof (rule exact_pass_first)
    fix j :: int
    assume "0 \<le> j" "j < int (length pre)"
    then have "nat j \<in> set [0..<length pre]" "int (nat j) = j" by auto
    with first show "segment nfc id (pre @ ctx @ post) (length ctx) j \<noteq> target nfc id ctx"
      unfolding no_earlier_match_def list_all_iff by metis
  next
    show "int (length pre) \<le> int (length (pre @ ctx @ post)) - 1"
      using False by (cases ctx) auto
  qed (simp_all add: segment_here)
  with False show ?thesis
    by (cases "exact_pass (segment nfc id (pre @ ctx @ post) (length ctx)) (target nfc id ctx) 0
        [0..int (length (pre @ ctx @ post)) - 1]")
      (simp add: find_context_def find_core_def Let_def)
qed

section \<open>A patch of one hunk\<close>

definition one_hunk :: "jtext \<Rightarrow> jtext list \<Rightarrow> jtext list" where
  "one_hunk path body = BEGIN_PATCH # (UPDATE_FILE @ path) # SECTION # body @ [END_PATCH]"

lemma one_hunk_lines:
  "line_at (one_hunk path body) 0 = Some BEGIN_PATCH"
  "line_at (one_hunk path body) (Suc 0) = Some (UPDATE_FILE @ path)"
  "line_at (one_hunk path body) 2 = Some SECTION"
  "line_at (one_hunk path body) (3 + length body) = Some END_PATCH"
  "drop 3 (one_hunk path body) = body @ [END_PATCH]"
  by (simp_all add: one_hunk_def line_at_def nth_append numeral_2_eq_2 numeral_3_eq_3)

lemma peek_one_hunk:
  assumes "list_all hunk_line body"
  shows "peek (one_hunk path body) 3 = Inr (old_block body, hunk_chunks body, 3 + length body, False)"
proof -
  have "peek_loop [END_PATCH] i s = Inr (s, i)" for i s
    using marked_end(1) [of END_PATCH] by (simp add: starts_def)
  then have "peek_loop (body @ [END_PATCH]) 3 peek_start =
      Inr (fold peek_line body peek_start, 3 + length body)"
    by (simp add: peek_loop_body [OF assms])
  moreover have "END_PATCH \<noteq> END_FILE" using marker_texts(6) by (auto simp: starts_def)
  ultimately show ?thesis
    by (simp add: peek_def one_hunk_lines hunk_chunks_def old_lines_body peek_start_def)
qed

lemma section_facts:
  "def_text (Some SECTION) = None" "hunk_header (Some SECTION)" "\<not> marked UPDATE_STOPS SECTION"
  "\<not> starts MOVE_TO SECTION" "marked UPDATE_STOPS END_PATCH" "starts END_PATCH END_PATCH"
  by code_simp+

lemma update_one_hunk:
  assumes body: "list_all hunk_line body"
    and split: "split_lf content = pre @ old_block body @ post"
    and first: "no_earlier_match nfc (split_lf content) (old_block body) (length pre)"
    and p: "line_index p = 2"
  shows "parse_update_file nfc fixed2 (one_hunk path body) content path p =
    Some (Inr (p\<lparr>line_index := 3 + length body\<rparr>,
      map (shift_chunk (int (length pre))) (hunk_chunks body)))"
proof -
  define u where "u = \<lparr>up = p, file_index = 0, found = []\<rparr>"
  define u' where "u' = \<lparr>up = p\<lparr>line_index := 3 + length body\<rparr>,
    file_index = int (length pre) + int (length (old_block body)),
    found = map (shift_chunk (int (length pre))) (hunk_chunks body)\<rparr>"
  have place: "find_context nfc (split_lf content) (old_block body) 0 False = (int (length pre), 0, 1)"
    using find_context_exact first unfolding split by blast
  have turn: "update_turn nfc fixed2 path (one_hunk path body) (split_lf content) u = Inr u'"
    using peek_one_hunk [OF body, of path]
    by (simp add: update_turn_def u_def u'_def p one_hunk_lines section_facts skip_line_def place
        place_hunk_def Let_def)
  have "\<not> at_update_stop (one_hunk path body) (line_index (up u))"
    by (simp add: at_update_stop_def u_def p one_hunk_lines section_facts)
  moreover have "update_loop nfc fixed2 path (one_hunk path body) (split_lf content) u' = Some (Inr u')"
    by (subst update_loop.simps) (simp add: at_update_stop_def u'_def one_hunk_lines section_facts)
  ultimately have "update_loop nfc fixed2 path (one_hunk path body) (split_lf content) u = Some (Inr u')"
    using turn by (subst update_loop.simps) simp
  then show ?thesis by (simp add: parse_update_file_def u_def u'_def)
qed


lemma parse_one_hunk:
  assumes body: "list_all hunk_line body"
    and content: "map_of fs path = Some content"
    and split: "split_lf content = pre @ old_block body @ post"
    and first: "no_earlier_match nfc (split_lf content) (old_block body) (length pre)"
    and path: "path \<notin> set OBJECT_MEMBERS" "after_marker UPDATE_FILE (UPDATE_FILE @ path) = path"
  shows "parse_patch nfc fixed2 (one_hunk path body) fs =
    Some (Inr \<lparr>line_index = 3 + length body, fuzz = 0,
      actions = [(path, \<lparr>action_type = Update_Action, new_file = None,
        chunks = map (shift_chunk (int (length pre))) (hunk_chunks body), move_path = None\<rparr>)],
      warnings = []\<rparr>)"
    (is "_ = Some (Inr ?q)")
proof -
  define lines where "lines = one_hunk path body"
  note at = one_hunk_lines [of path body, folded lines_def]
  define p where "p = parser_start\<lparr>line_index := 1\<rparr>"
  have skipped: "skip_begin_sentinel lines parser_start = p"
    by (simp add: skip_begin_sentinel_def parser_start_def p_def at starts_def)
  have own: "path \<in> set (map fst fs)"
    using content by (metis map_of_eq_None_iff option.distinct(1) image_set)
  have "parse_update_file nfc fixed2 lines content path (p\<lparr>line_index := 2\<rparr>) =
    Some (Inr (p\<lparr>line_index := 3 + length body\<rparr>,
      map (shift_chunk (int (length pre))) (hunk_chunks body)))"
    unfolding lines_def by (subst update_one_hunk [OF body split first]) simp_all
  then have "parse_update nfc fixed2 lines fs path p = Some (Inr ?q)"
    using path(1) own content at(3)
    by (simp add: parse_update_def check_duplicate_def in_object_def p_def parser_start_def
        section_facts numeral_2_eq_2)
  moreover have "\<not> starts END_PATCH (UPDATE_FILE @ path)" "starts UPDATE_FILE (UPDATE_FILE @ path)"
    using marker_differs [OF marker_texts(1) starts_append] by simp_all
  moreover have "parse_loop nfc fixed2 lines fs ?q = Some (Inr ?q)"
    by (subst parse_loop.simps) (simp add: at section_facts)
  ultimately have "parse_loop nfc fixed2 lines fs p = Some (Inr ?q)"
    using at(2) path(2) by (subst parse_loop.simps) (simp add: p_def parse_next_action_def)
  then show ?thesis by (simp add: parse_patch_def skipped flip: lines_def)
qed

section \<open>The files a patch of one hunk names\<close>

lemma trimmed_markers:
  "starts (trim UPDATE_FILE) UPDATE_FILE" "starts (trim DELETE_FILE) DELETE_FILE"
  "starts (trim ADD_FILE) ADD_FILE"
  by code_simp+

lemma hunk_line_no_file:
  assumes "hunk_line l"
  shows "\<not> starts UPDATE_FILE l" "\<not> starts DELETE_FILE l" "\<not> starts ADD_FILE l"
  using assms trimmed_markers starts_trans
  unfolding hunk_line_def marked_def PEEK_STOPS_def by (simp_all, blast+)

lemma fold_add_once_none: "(\<And>l. l \<in> set ls \<Longrightarrow> f l = None) \<Longrightarrow> fold (\<lambda>l. add_once (f l)) ls acc = acc"
  by (induction ls arbitrary: acc) (auto simp: add_once_def)

lemma no_file_lines:
  "first_marker [UPDATE_FILE, DELETE_FILE] BEGIN_PATCH = None"
  "first_marker [UPDATE_FILE, DELETE_FILE] SECTION = None"
  "first_marker [UPDATE_FILE, DELETE_FILE] END_PATCH = None"
  "first_marker [ADD_FILE] BEGIN_PATCH = None"
  "first_marker [ADD_FILE] SECTION = None"
  "first_marker [ADD_FILE] END_PATCH = None"
  by code_simp+

lemma extract_one_hunk:
  assumes body: "list_all hunk_line body"
    and path: "after_marker UPDATE_FILE (UPDATE_FILE @ path) = path"
  shows "extract_files (one_hunk path body) [UPDATE_FILE, DELETE_FILE] = [path]"
    and "extract_files (one_hunk path body) [ADD_FILE] = []"
proof -
  have none: "first_marker [UPDATE_FILE, DELETE_FILE] l = None" "first_marker [ADD_FILE] l = None"
    if "l \<in> set body" for l
    using that body hunk_line_no_file by (auto simp: list_all_iff)
  have named: "first_marker [UPDATE_FILE, DELETE_FILE] (UPDATE_FILE @ path) = Some path"
    using path by simp
  have "first_marker [ADD_FILE] (UPDATE_FILE @ path) = None"
    using marker_differs [of ADD_FILE UPDATE_FILE "UPDATE_FILE @ path"] marker_texts(10) by simp
  then show "extract_files (one_hunk path body) [ADD_FILE] = []"
    unfolding extract_files_def
    by (intro fold_add_once_none) (auto simp: one_hunk_def no_file_lines none simp del: first_marker.simps)
  show "extract_files (one_hunk path body) [UPDATE_FILE, DELETE_FILE] = [path]"
    unfolding extract_files_def one_hunk_def
    using fold_add_once_none [of body "first_marker [UPDATE_FILE, DELETE_FILE]"] none
    by (simp add: no_file_lines named add_once_def del: first_marker.simps)
qed

end
