(* ===== verification/PatchResults.thy ===== *)
theory PatchResults
  imports PatchHunks
begin

text \<open>
  What the executor leaves on the disk: a hunk found in the file replaces its old lines, a file with
  one line ending throughout keeps it, a refused patch writes nothing, and where a move goes wrong.
\<close>

section \<open>Replacing a hunk\<close>

lemma enumerate_one: "enumeration_order [m] = [m]"
  by (simp add: enumeration_order_def)

lemma object_proto: "path \<notin> set OBJECT_MEMBERS \<Longrightarrow> path \<noteq> PROTO"
  by (auto simp: OBJECT_MEMBERS_def PROTO_def)

text \<open>What the session's own write leaves in the receipts.\<close>

definition own_write ::
    "(jtext \<Rightarrow> jtext) \<Rightarrow> (nat \<Rightarrow> jtext \<Rightarrow> jtext option) \<Rightarrow> nat \<Rightarrow> jtext \<Rightarrow> jtext \<Rightarrow> jtext \<Rightarrow> receipts \<Rightarrow> receipts" where
  "own_write key stat n absp before after r =
     note_stamp key absp (stat n absp)
       (note_write key absp (count_body_lines before) (count_body_lines after) r)"

definition unchanged_outside ::
    "(jtext \<Rightarrow> jtext) \<Rightarrow> (nat \<Rightarrow> jtext \<Rightarrow> jtext option) \<Rightarrow> jtext \<Rightarrow> exec_state \<Rightarrow> bool" where
  "unchanged_outside key stat absp s =
     (case held s of None \<Rightarrow> True | Some r \<Rightarrow> \<not> changed_since key r absp (stat (stats s) absp))"

lemma apply_one_update:
  assumes "resolve path = Some absp" and "unchanged_outside key stat absp s"
    and "change_type c = Update_Action" "old_content c = Some before" "new_content c = Some after"
    and "change_move c = None" and "io_ends s (ios s) absp = Io_Done"
  shows "\<exists>s'. apply_changes resolve key stat [(path, c)] s = (s', Inr [path]) \<and>
    on_disk s' = (on_disk s)(absp \<mapsto> after) \<and>
    held s' = map_option (own_write key stat (stats s + 1) absp before after) (held s)"
  using assms
  by (cases "held s")
    (auto simp: apply_changes_def enumerate_one apply_change_def note_patch_write_def write_file_def
      unchanged_outside_def own_write_def)

lemma compute_one_hunk:
  assumes "normalize_patch_input inp = Inr (one_hunk path body)"
    and "list_all hunk_line body"
    and "path \<notin> set OBJECT_MEMBERS" and "after_marker UPDATE_FILE (UPDATE_FILE @ path) = path"
    and "resolve path = Some absp" and "d absp = Some content"
    and "split_bom content = (bom, text)"
    and "split_lf (drop_crs text) = pre @ old_block body @ post"
    and "no_earlier_match nfc (split_lf (drop_crs text)) (old_block body) (length pre)"
  shows "compute_patch_changes nfc fixed2 resolve crlf d inp =
    Some (Inr ([(path, \<lparr>change_type = Update_Action,
      old_content = Some (bom @ normalize_line_endings (detect_line_ending text) (drop_crs text)),
      new_content = Some (bom @ normalize_line_endings (detect_line_ending text)
        (join_lines (pre @ new_block body @ post))), change_move = None\<rparr>)], 0))"
proof -
  define fs where "fs = \<lparr>files = [(path, drop_crs text)], boms = [(path, bom)],
    eols = [(path, detect_line_ending text)]\<rparr>"
  have loaded: "load_files resolve d (one_hunk path body) = Inr fs"
    using assms(5-7) object_proto [OF assms(3)]
    by (simp add: load_files_def extract_one_hunk [OF assms(2,4)] load_file_def assign_def fs_def)
  define a where "a = \<lparr>action_type = Update_Action, new_file = None,
    chunks = map (shift_chunk (int (length pre))) (hunk_chunks body), move_path = None\<rparr>"
  have parsed: "parse_patch nfc fixed2 (one_hunk path body) (files fs) =
      Some (Inr \<lparr>line_index = 3 + length body, fuzz = 0, actions = [(path, a)], warnings = []\<rparr>)"
    unfolding a_def
    by (rule parse_one_hunk [OF assms(2) _ assms(8,9,3,4)]) (simp add: fs_def)
  have "apply_chunks (drop_crs text) (chunks a) path = Inr (join_lines (pre @ new_block body @ post))"
    by (simp add: apply_chunks_splice assms(8) splice_hunk a_def)
  then have "change_of crlf fs path a = Inr \<lparr>change_type = Update_Action,
      old_content = Some (bom @ normalize_line_endings (detect_line_ending text) (drop_crs text)),
      new_content = Some (bom @ normalize_line_endings (detect_line_ending text)
        (join_lines (pre @ new_block body @ post))), change_move = None\<rparr>"
    by (simp add: change_of_def with_file_eol_def fs_def a_def)
  then show ?thesis
    by (simp add: compute_patch_changes_def assms(1) loaded parsed patch_to_changes_def enumerate_one)
qed

text \<open>C22: a patch of one hunk, whose old lines stand in the file at a place before which no copy
  of them begins, writes the file with the new lines in their place, where nothing outside the
  session changed the file and the write succeeds. The lines before and after and the byte order
  mark are the file's, and every line ends as the executor detected for the whole file, so a file
  with mixed line endings, or with CR CR LF, changes elsewhere too. No other file is touched, and
  the receipts record the session's own write.\<close>

theorem patch_replaces_hunk:
  assumes "normalize_patch_input inp = Inr (one_hunk path body)"
    and "list_all hunk_line body"
    and "path \<notin> set OBJECT_MEMBERS" and "after_marker UPDATE_FILE (UPDATE_FILE @ path) = path"
    and "resolve path = Some absp" and "on_disk s absp = Some content"
    and "split_bom content = (bom, text)"
    and "split_lf (drop_crs text) = pre @ old_block body @ post"
    and "no_earlier_match nfc (split_lf (drop_crs text)) (old_block body) (length pre)"
    and "unchanged_outside key stat absp s" and "io_ends s (ios s) absp = Io_Done"
  defines "before \<equiv> bom @ normalize_line_endings (detect_line_ending text) (drop_crs text)"
    and "after \<equiv> bom @ normalize_line_endings (detect_line_ending text)
           (join_lines (pre @ new_block body @ post))"
  shows "\<exists>s'. apply_patch nfc fixed2 resolve key stat crlf inp s = Some (s', Inr (applied_response [path] 0)) \<and>
    on_disk s' = (on_disk s)(absp \<mapsto> after) \<and>
    held s' = map_option (own_write key stat (stats s + 1) absp before after) (held s)"
proof -
  define c where "c = \<lparr>change_type = Update_Action, old_content = Some before,
    new_content = Some after, change_move = None\<rparr>"
  have "compute_patch_changes nfc fixed2 resolve crlf (on_disk s) inp = Some (Inr ([(path, c)], 0))"
    unfolding c_def before_def after_def by (rule compute_one_hunk [where absp = absp and content = content]) (rule assms)+
  moreover obtain s' where "apply_changes resolve key stat [(path, c)] s = (s', Inr [path])"
    "on_disk s' = (on_disk s)(absp \<mapsto> after)"
    "held s' = map_option (own_write key stat (stats s + 1) absp before after) (held s)"
    using apply_one_update [where resolve = resolve and key = key and c = c and before = before and after = after, OF assms(5) assms(10)] assms(11)
    by (auto simp: c_def)
  ultimately show ?thesis by (simp add: apply_patch_def)
qed

definition SAMPLE_BODY :: "jtext list" where
  "SAMPLE_BODY = map js ['' one'', ''-two'', ''+2'']"

definition SAMPLE_FILE :: jtext where
  "SAMPLE_FILE = join_lines (map js [''zero'', ''one'', ''two'', ''three''])"

lemma sample_hunk:
  "list_all hunk_line SAMPLE_BODY"
  "split_lf SAMPLE_FILE = [js ''zero''] @ old_block SAMPLE_BODY @ [js ''three'']"
  "no_earlier_match id (split_lf SAMPLE_FILE) (old_block SAMPLE_BODY) (length [js ''zero''])"
  "drop_crs SAMPLE_FILE = SAMPLE_FILE"
  by code_simp+

lemma sample_inputs:
  "normalize_patch_input (join_lines SAMPLE_PATCH) = Inr (one_hunk (js ''a'') SAMPLE_BODY)"
  "js ''a'' \<notin> set OBJECT_MEMBERS" "after_marker UPDATE_FILE (UPDATE_FILE @ js ''a'') = js ''a''"
  "on_disk (SAMPLE_STATE SAMPLE_FILE) (js ''a'') = Some SAMPLE_FILE"
  "split_bom SAMPLE_FILE = ([], SAMPLE_FILE)"
proof -
  have "SAMPLE_PATCH = one_hunk (js ''a'') SAMPLE_BODY" by code_simp
  with sample_patch(1)
  show "normalize_patch_input (join_lines SAMPLE_PATCH) = Inr (one_hunk (js ''a'') SAMPLE_BODY)"
    by simp
  show "js ''a'' \<notin> set OBJECT_MEMBERS" by code_simp
  show "after_marker UPDATE_FILE (UPDATE_FILE @ js ''a'') = js ''a''" by code_simp
  show "on_disk (SAMPLE_STATE SAMPLE_FILE) (js ''a'') = Some SAMPLE_FILE"
    by (simp add: SAMPLE_STATE_def)
  show "split_bom SAMPLE_FILE = ([], SAMPLE_FILE)" by code_simp
qed

lemma sample_computed:
  "\<exists>c. compute_patch_changes id fixed2 Some crlf (on_disk (SAMPLE_STATE SAMPLE_FILE)) (join_lines SAMPLE_PATCH) =
     Some (Inr ([(js ''a'', c)], 0)) \<and> change_type c = Update_Action"
proof (intro exI conjI)
  show "compute_patch_changes id fixed2 Some crlf (on_disk (SAMPLE_STATE SAMPLE_FILE)) (join_lines SAMPLE_PATCH) =
    Some (Inr ([(js ''a'', \<lparr>change_type = Update_Action,
      old_content = Some ([] @ normalize_line_endings (detect_line_ending SAMPLE_FILE) (drop_crs SAMPLE_FILE)),
      new_content = Some ([] @ normalize_line_endings (detect_line_ending SAMPLE_FILE)
        (join_lines ([js ''zero''] @ new_block SAMPLE_BODY @ [js ''three'']))), change_move = None\<rparr>)], 0))"
  proof (rule compute_one_hunk)
    show "split_lf (drop_crs SAMPLE_FILE) = [js ''zero''] @ old_block SAMPLE_BODY @ [js ''three'']"
      by (simp only: sample_hunk)
    show "no_earlier_match id (split_lf (drop_crs SAMPLE_FILE)) (old_block SAMPLE_BODY) (length [js ''zero''])"
      using sample_hunk(3) by (simp only: sample_hunk(4))
  qed (rule sample_inputs sample_hunk refl)+
qed simp

definition SAMPLE_RESULT :: jtext where
  "SAMPLE_RESULT = join_lines ([js ''zero''] @ new_block SAMPLE_BODY @ [js ''three''])"

theorem patch_replaces_hunk_witness:
  "\<exists>s'. apply_patch id (\<lambda>s. []) Some id (\<lambda>n path. Some path) False (join_lines SAMPLE_PATCH)
       (SAMPLE_STATE SAMPLE_FILE) = Some (s', Inr (applied_response [js ''a''] 0)) \<and>
     on_disk s' = (on_disk (SAMPLE_STATE SAMPLE_FILE))(js ''a'' \<mapsto>
       [] @ normalize_line_endings (detect_line_ending SAMPLE_FILE) SAMPLE_RESULT) \<and>
     held s' = map_option (own_write id (\<lambda>n path. Some path) (stats (SAMPLE_STATE SAMPLE_FILE) + 1) (js ''a'')
       ([] @ normalize_line_endings (detect_line_ending SAMPLE_FILE) (drop_crs SAMPLE_FILE))
       ([] @ normalize_line_endings (detect_line_ending SAMPLE_FILE) SAMPLE_RESULT))
       (held (SAMPLE_STATE SAMPLE_FILE))"
  unfolding SAMPLE_RESULT_def
proof (rule patch_replaces_hunk)
  show "split_lf (drop_crs SAMPLE_FILE) = [js ''zero''] @ old_block SAMPLE_BODY @ [js ''three'']"
    by (simp only: sample_hunk)
  show "no_earlier_match id (split_lf (drop_crs SAMPLE_FILE)) (old_block SAMPLE_BODY) (length [js ''zero''])"
    using sample_hunk(3) by (simp only: sample_hunk(4))
  show "unchanged_outside id (\<lambda>n path. Some path) (js ''a'') (SAMPLE_STATE SAMPLE_FILE)"
    by (simp add: unchanged_outside_def SAMPLE_STATE_def changed_since_def create_read_receipts_def)
  show "io_ends (SAMPLE_STATE SAMPLE_FILE) (ios (SAMPLE_STATE SAMPLE_FILE)) (js ''a'') = Io_Done"
    by (simp add: SAMPLE_STATE_def)
qed (rule sample_inputs sample_hunk refl)+

section \<open>Line endings\<close>

lemma drop_crs_plain: "13 \<notin> set t \<Longrightarrow> drop_crs t = t"
  by (induction t rule: drop_crs.induct) auto

lemma normalize_lf: "13 \<notin> set t \<Longrightarrow> normalize_line_endings [10] t = t"
  by (induction "[10] :: jtext" t rule: normalize_line_endings.induct) auto

lemma normalize_no_lf: "10 \<notin> set t \<Longrightarrow> normalize_line_endings eol t = t"
  by (induction eol t rule: normalize_line_endings.induct) auto

lemma contains_CRLF: "contains_text CRLF t \<Longrightarrow> 13 \<in> set t"
proof -
  assume "contains_text CRLF t"
  then obtain i where "index_of CRLF t = Some i" by (auto simp: contains_text_def)
  from index_of_Some [OF this] have "CRLF = take (length CRLF) (drop i t)" by simp
  then have "set CRLF \<subseteq> set t" by (metis in_set_dropD in_set_takeD subsetI)
  then show ?thesis by (simp add: CRLF_def)
qed

lemma drop_crs_step: "c \<noteq> 13 \<Longrightarrow> drop_crs (c # cs) = c # drop_crs cs"
  by (cases cs) auto

lemma normalize_step: "c \<noteq> 13 \<Longrightarrow> c \<noteq> 10 \<Longrightarrow> normalize_line_endings eol (c # cs) = c # normalize_line_endings eol cs"
  by (cases cs) auto

lemma drop_crs_crlf: "13 \<notin> set t \<Longrightarrow> drop_crs (normalize_line_endings CRLF t) = t"
  by (induction CRLF t rule: normalize_line_endings.induct) (auto simp: CRLF_def drop_crs_step)

lemma normalize_crlf_lf: "13 \<notin> set t \<Longrightarrow>
  normalize_line_endings CRLF (10 # t) = 13 # 10 # normalize_line_endings CRLF t"
  by (cases t) (auto simp: CRLF_def)

lemma crlf_detected: "13 \<notin> set t \<Longrightarrow> 10 \<in> set t \<Longrightarrow> contains_text CRLF (normalize_line_endings CRLF t)"
proof (induction t)
  case (Cons c t)
  show ?case
  proof (cases "c = 10")
    case True
    with Cons.prems have "normalize_line_endings CRLF (c # t) = 13 # 10 # normalize_line_endings CRLF t"
      by (simp add: normalize_crlf_lf)
    then show ?thesis by (simp add: contains_text_def CRLF_def)
  next
    case False
    with Cons have "contains_text CRLF (normalize_line_endings CRLF t)" by simp
    with False Cons.prems show ?thesis by (simp add: normalize_step contains_text_def)
  qed
qed simp

text \<open>a file written with one line ending throughout, and no other carriage return, comes
  back unchanged from the executor's conversion to LF and back.\<close>

theorem line_endings_round_trip:
  assumes "13 \<notin> set t" and "eol \<in> {CRLF, [10]}" and "text = normalize_line_endings eol t"
  shows "normalize_line_endings (detect_line_ending text) (drop_crs text) = text"
proof (cases "eol = CRLF \<and> 10 \<in> set t")
  case True
  with assms have crlf_text: "text = normalize_line_endings CRLF t" by simp
  then have "detect_line_ending text = CRLF"
    using crlf_detected assms(1) True by (simp add: detect_line_ending_def)
  with crlf_text assms(1) show ?thesis by (simp add: drop_crs_crlf)
next
  case False
  with assms have "text = t" using normalize_lf normalize_no_lf by auto
  with assms(1) show ?thesis
    using contains_CRLF by (auto simp: detect_line_ending_def drop_crs_plain normalize_lf)
qed

theorem line_endings_round_trip_witness:
  "normalize_line_endings (detect_line_ending (js ''a'' @ [13, 10] @ js ''b''))
     (drop_crs (js ''a'' @ [13, 10] @ js ''b'')) = js ''a'' @ [13, 10] @ js ''b''"
proof (rule line_endings_round_trip [where t = "js ''a'' @ [10] @ js ''b''" and eol = CRLF])
  show "13 \<notin> set (js ''a'' @ [10] @ js ''b'')" by code_simp
  show "js ''a'' @ [13, 10] @ js ''b'' = normalize_line_endings CRLF (js ''a'' @ [10] @ js ''b'')"
    by code_simp
qed simp

text \<open>A carriage return before a CRLF does not survive, on whatever line it stands.\<close>

lemma doubled_cr_lost:
  "normalize_line_endings (detect_line_ending [97, 13, 13, 10]) (drop_crs [97, 13, 13, 10]) = [97, 13, 10]"
  by code_simp

section \<open>Moves\<close>

lemma note_patch_write_disk [simp]: "on_disk (note_patch_write key stat absp before after authored s) = on_disk s"
  by (auto simp: note_patch_write_def Let_def split: option.splits)

lemma forget_receipts_disk [simp]: "on_disk (forget_receipts key absp s) = on_disk s"
  by (simp add: forget_receipts_def)

text \<open>A move to the path it comes from writes the file and then removes it.\<close>

lemma move_onto_itself_deletes:
  assumes "resolve path = Some absp" and "resolve dest = Some absp" and "dest \<noteq> []"
    and "change_type c = Update_Action" and "new_content c = Some t" and "change_move c = Some dest"
    and "io_ends s (ios s) absp = Io_Done" and "io_ends s (ios s + 1) absp = Io_Done"
  shows "on_disk (fst (apply_change resolve key stat path c s)) = (on_disk s)(absp := None)"
    and "snd (apply_change resolve key stat path c s) = Inr (path @ ARROW @ dest)"
  using assms by (simp_all add: apply_change_def move_file_def remove_file_def write_file_def)

text \<open>A move out of the working directory is refused after the changes before it are written.\<close>

lemma refused_move_leaves_half:
  assumes "apply_change resolve key stat p1 c1 s = (s1, Inr line)" and "resolve p2 = Some src"
    and "change_type c2 = Update_Action" and "new_content c2 = Some t"
    and "change_move c2 = Some dest" and "dest \<noteq> []" and "resolve dest = None"
  shows "apply_each resolve key stat [(p1, c1), (p2, c2)] touched s = (s1, Inl (Outside_Cwd dest))"
  using assms by (simp add: apply_change_def)

text \<open>A patch that adds a line above a line and removes one below it moves that line and keeps the
  count, so the receipts go on naming the old numbers.\<close>

lemma same_count_keeps_receipts:
  "count_body_lines before = count_body_lines after \<Longrightarrow>
   covers key (own_write key stat n absp before after r) absp a b = covers key r absp a b"
  by (simp add: own_write_def note_write_def note_stamp_def covers_def split: option.split)

section \<open>A patch that fails\<close>

text \<open>Every change that writes has its content.\<close>

definition has_content :: "file_change \<Rightarrow> bool" where
  "has_content c = (change_type c = Delete_Action \<or> new_content c \<noteq> None)"

lemma changes_have_content: "changes_of crlf fs as = Inr cs \<Longrightarrow> list_all (\<lambda>pc. has_content (snd pc)) cs"
proof (induction crlf fs as arbitrary: cs rule: changes_of.induct)
  case (2 crlf fs path a as)
  then obtain c cs' where c: "change_of crlf fs path a = Inr c" and cs: "changes_of crlf fs as = Inr cs'" "cs = (path, c) # cs'"
    by (cases "change_of crlf fs path a"; cases "changes_of crlf fs as") auto
  have "has_content c"
    using c by (auto simp: change_of_def has_content_def with_file_eol_def split: action_type.splits option.splits sum.splits)
  with 2(1) [OF c cs(1)] cs(2) show ?case by simp
qed simp

lemma list_all_enumeration: "list_all P as \<Longrightarrow> list_all P (enumeration_order as)"
  by (auto simp: enumeration_order_def list_all_iff)

lemma apply_change_error:
  assumes "apply_change resolve key stat path c s = (s', Inl e)" and "has_content c"
  shows "\<exists>p. e = Outside_Cwd p \<or> e = Io_Failed p"
  using assms
  by (auto simp: apply_change_def has_content_def
      split: option.splits action_type.splits if_splits prod.splits bool.splits)

lemma apply_each_error:
  assumes "apply_each resolve key stat cs touched s = (s', Inl e)" and "list_all (\<lambda>pc. has_content (snd pc)) cs"
  shows "\<exists>p. e = Outside_Cwd p \<or> e = Io_Failed p"
  using assms
proof (induction cs arbitrary: touched s)
  case (Cons pc cs)
  obtain path c where pc: "pc = (path, c)" by fastforce
  obtain s1 r where one: "apply_change resolve key stat path c s = (s1, r)" by fastforce
  show ?case
  proof (cases r)
    case (Inl e')
    with one Cons.prems(2) have "\<exists>p. e' = Outside_Cwd p \<or> e' = Io_Failed p"
      by (auto simp: pc intro: apply_change_error)
    with Cons.prems(1) Inl one show ?thesis by (simp add: pc)
  next
    case (Inr line)
    with Cons one show ?thesis by (simp add: pc)
  qed
qed simp

text \<open>C24: a patch refused for its text, a file that is missing, a hunk that does not match or a
  write from outside the session has changed no file. Two errors may come after files are
  written, and are excepted: a path that leaves the working directory (that of a move is only
  resolved when its change is written) and a write or removal that itself fails.\<close>

theorem failed_patch_writes_nothing:
  assumes "apply_patch nfc fixed2 resolve key stat crlf inp s = Some (s', Inl e)"
    and "\<nexists>p. e = Outside_Cwd p \<or> e = Io_Failed p"
  shows "on_disk s' = on_disk s"
proof (cases "compute_patch_changes nfc fixed2 resolve crlf (on_disk s) inp")
  case (Some r)
  show ?thesis
  proof (cases r)
    case (Inr csf)
    obtain cs f where csf: "csf = (cs, f)" by fastforce
    have "\<exists>fs as. changes_of crlf fs (enumeration_order as) = Inr cs"
      using Some Inr csf
      by (auto simp: compute_patch_changes_def patch_to_changes_def map_sum_def
          split: sum.splits option.splits if_splits)
    then have content: "list_all (\<lambda>pc. has_content (snd pc)) (enumeration_order cs)"
      using changes_have_content list_all_enumeration by blast
    have applied: "apply_changes resolve key stat cs s = (s', Inl e)"
      using assms(1) Some Inr csf by (cases "apply_changes resolve key stat cs s"; cases "snd (apply_changes resolve key stat cs s)")
        (auto simp: apply_patch_def)
    show ?thesis
    proof (cases "held s")
      case None
      with applied apply_each_error [OF _ content] assms(2) show ?thesis
        by (auto simp: apply_changes_def)
    next
      case (Some r)
      obtain r' n eo where checked: "check_unchanged resolve key stat (enumeration_order cs) r (stats s) = ((r', n), eo)"
        by (metis prod.collapse)
      show ?thesis
      proof (cases eo)
        case None
        with Some checked applied have "apply_each resolve key stat (enumeration_order cs) []
            (s\<lparr>held := Some r', stats := n\<rparr>) = (s', Inl e)"
          by (simp add: apply_changes_def)
        from apply_each_error [OF this content] assms(2) show ?thesis by blast
      next
        case (Some e')
        with \<open>held s = Some r\<close> checked applied show ?thesis
          by (auto simp: apply_changes_def)
      qed
    qed
  qed (use assms Some in \<open>simp add: apply_patch_def\<close>)
qed (use assms in \<open>simp add: apply_patch_def\<close>)

definition CHANGED_STATE :: exec_state where
  "CHANGED_STATE = (SAMPLE_STATE SAMPLE_FILE)\<lparr>held :=
     Some (note_stamp id (js ''a'') (Some (js ''earlier'')) create_read_receipts)\<rparr>"

lemma changed_state_refused:
  "apply_patch id (\<lambda>s. []) Some id (\<lambda>n path. Some path) False (join_lines SAMPLE_PATCH) CHANGED_STATE =
   Some (CHANGED_STATE\<lparr>held := Some (retire id (js ''a'') (note_stamp id (js ''a'') (Some (js ''a''))
     (the (held CHANGED_STATE)))), stats := 1\<rparr>, Inl (Changed_Outside (js ''a'')))"
proof -
  have "js ''earlier'' \<noteq> js ''a''" by code_simp
  then have changed: "changed_since id (the (held CHANGED_STATE)) (js ''a'') (Some (js ''a''))"
    by (simp add: changed_since_def CHANGED_STATE_def note_stamp_def)
  have state: "on_disk CHANGED_STATE = on_disk (SAMPLE_STATE SAMPLE_FILE)" "stats CHANGED_STATE = 0"
    "held CHANGED_STATE = Some (the (held CHANGED_STATE))"
    by (simp_all add: CHANGED_STATE_def SAMPLE_STATE_def)
  obtain c where computed: "compute_patch_changes id (\<lambda>s. []) Some False (on_disk CHANGED_STATE)
      (join_lines SAMPLE_PATCH) = Some (Inr ([(js ''a'', c)], 0))" "change_type c = Update_Action"
    using sample_computed unfolding state(1) by blast
  have "apply_changes Some id (\<lambda>n path. Some path) [(js ''a'', c)] CHANGED_STATE =
      (CHANGED_STATE\<lparr>held := Some (retire id (js ''a'') (note_stamp id (js ''a'') (Some (js ''a''))
        (the (held CHANGED_STATE)))), stats := 1\<rparr>, Inl (Changed_Outside (js ''a'')))"
    unfolding apply_changes_def enumerate_one
    by (subst state(3)) (simp add: computed(2) changed state(2))
  then show ?thesis by (simp add: apply_patch_def computed(1))
qed

theorem failed_patch_writes_nothing_witness:
  "on_disk (CHANGED_STATE\<lparr>held := Some (retire id (js ''a'') (note_stamp id (js ''a'') (Some (js ''a''))
     (the (held CHANGED_STATE)))), stats := 1\<rparr>) = on_disk CHANGED_STATE"
  using failed_patch_writes_nothing [OF changed_state_refused] by blast

section \<open>Inherited names\<close>

text \<open>No operation accepts a file whose path is the name of a member every object inherits.\<close>

lemma inherited_name_refused:
  "path \<in> set OBJECT_MEMBERS \<Longrightarrow> parse_update nfc fixed2 lines fs path p = Some (Inl (Duplicate (js ''update'') path))"
  "path \<in> set OBJECT_MEMBERS \<Longrightarrow> parse_delete fs path p = Inl (Duplicate (js ''delete'') path)"
  "path \<in> set OBJECT_MEMBERS \<Longrightarrow> parse_add lines fs path p = Inl (Duplicate (js ''add'') path)"
  by (simp_all add: parse_update_def parse_delete_def parse_add_def check_duplicate_def in_object_def)

end
