(* ===== verification/PatchOrder.thy ===== *)
theory PatchOrder
  imports PatchResults
begin

text \<open>
  The chunks of an update stand in the order of the file and do not overlap, unless a hunk ends
  with the marker of the end of the file, whose search starts over at the end.
\<close>

section \<open>Ordered chunks\<close>

fun ordered_from :: "int \<Rightarrow> patch_chunk list \<Rightarrow> bool" where
  "ordered_from a [] = True"
| "ordered_from a (c # cs) =
     (a \<le> orig_index c \<and> ordered_from (orig_index c + int (length (del_lines c))) cs)"

fun chunks_end :: "int \<Rightarrow> patch_chunk list \<Rightarrow> int" where
  "chunks_end a [] = a"
| "chunks_end a (c # cs) = chunks_end (orig_index c + int (length (del_lines c))) cs"

lemma ordered_append: "ordered_from a (cs @ ds) \<longleftrightarrow> ordered_from a cs \<and> ordered_from (chunks_end a cs) ds"
  by (induction cs arbitrary: a) auto

lemma chunks_end_append: "chunks_end a (cs @ ds) = chunks_end (chunks_end a cs) ds"
  by (induction cs arbitrary: a) auto

lemma ordered_shift: "ordered_from (a + k) (map (shift_chunk k) cs) = ordered_from a cs"
proof (induction cs arbitrary: a)
  case (Cons c cs)
  from Cons.IH [of "orig_index c + int (length (del_lines c))"] show ?case
    by (simp add: shift_chunk_def ac_simps)
qed simp

lemma chunks_end_shift: "chunks_end (a + k) (map (shift_chunk k) cs) = chunks_end a cs + k"
proof (induction cs arbitrary: a)
  case (Cons c cs)
  from Cons.IH [of "orig_index c + int (length (del_lines c))"] show ?case
    by (simp add: shift_chunk_def ac_simps)
qed simp

lemma ordered_lower: "ordered_from a cs \<Longrightarrow> b \<le> a \<Longrightarrow> ordered_from b cs"
  by (cases cs) auto

lemma chunks_end_lower: "b \<le> a \<Longrightarrow> chunks_end b cs \<le> chunks_end a cs"
  by (cases cs) auto

section \<open>One hunk\<close>

definition peek_ordered :: "peek_state \<Rightarrow> bool" where
  "peek_ordered s =
     (ordered_from 0 (chunks_found s) \<and>
      chunks_end 0 (chunks_found s) \<le> int (length (old_lines s)) - int (length (del_run s)))"

lemma flush_ordered:
  "peek_ordered s \<Longrightarrow> ordered_from 0 (flush_chunk s) \<and> chunks_end 0 (flush_chunk s) \<le> int (length (old_lines s))"
  by (auto simp: peek_ordered_def flush_chunk_def ordered_append chunks_end_append)

lemma peek_line_ordered: "peek_ordered s \<Longrightarrow> peek_ordered (peek_line l s)"
  using flush_ordered [of s]
  by (auto simp: peek_ordered_def peek_line_def Let_def split: prod.splits peek_mode.splits)

lemma peek_loop_ordered: "peek_loop ls i s = Inr (s', j) \<Longrightarrow> peek_ordered s \<Longrightarrow> peek_ordered s'"
  by (induction ls i s rule: peek_loop.induct) (auto split: if_splits intro: peek_line_ordered)

lemma peek_result:
  assumes "peek lines i = Inr (ctx, cs, j, eof)"
  shows "ordered_from 0 cs" and "chunks_end 0 cs \<le> int (length ctx)" and "eof \<Longrightarrow> END_FILE \<in> set lines"
proof -
  obtain s j' where loop: "peek_loop (drop i lines) i peek_start = Inr (s, j')"
    and r: "ctx = old_lines s" "cs = flush_chunk s" "eof = (line_at lines j' = Some END_FILE)"
    using assms by (auto simp: peek_def split: sum.splits if_splits)
  have "peek_ordered s"
    by (rule peek_loop_ordered [OF loop]) (simp add: peek_ordered_def peek_start_def)
  from flush_ordered [OF this] r show "ordered_from 0 cs" "chunks_end 0 cs \<le> int (length ctx)" by auto
  show "eof \<Longrightarrow> END_FILE \<in> set lines" using r(3) by (metis line_at_Some nth_mem)
qed

section \<open>The search does not go back\<close>

lemma exact_pass_in: "exact_pass seg goal best is = (Some i, b) \<Longrightarrow> i \<in> set is"
  by (induction seg goal best "is" rule: exact_pass.induct) (auto split: if_splits)

lemma equal_pass_in: "equal_pass seg goal is = Some i \<Longrightarrow> i \<in> set is"
  by (induction seg goal "is" rule: equal_pass.induct) (auto split: if_splits)

lemma close_pass_in: "close_pass seg goal best is = (Some (i, s), b) \<Longrightarrow> i \<in> set is"
  by (induction seg goal best "is" rule: close_pass.induct) (auto simp: Let_def split: if_splits)

lemma find_core_forward:
  "find_core nfc file ctx best start = ((i, f, s), b) \<Longrightarrow> i = -1 \<or> start \<le> i"
  by (auto simp: find_core_def Let_def split: prod.splits option.splits
      dest!: exact_pass_in equal_pass_in close_pass_in)

lemma find_context_forward:
  assumes "find_context nfc file ctx start False = (i, f, s)"
  shows "i = -1 \<or> start \<le> i"
proof (cases "ctx = []")
  case False
  with assms have "fst (find_core nfc file ctx 0 start) = (i, f, s)"
    by (simp add: find_context_def)
  then show ?thesis using find_core_forward by (metis prod.collapse)
qed (use assms in \<open>simp add: find_context_def\<close>)

section \<open>The whole update\<close>

definition update_ordered :: "update_state \<Rightarrow> bool" where
  "update_ordered u = (ordered_from 0 (found u) \<and> chunks_end 0 (found u) \<le> file_index u)"

lemma section_line_in: "section_line nfc goal file is = Some i \<Longrightarrow> i \<in> set is"
  by (induction nfc goal "file" "is" rule: section_line.induct) (auto simp: Let_def split: if_splits)

lemma seek_section_ordered: "update_ordered u \<Longrightarrow> update_ordered (seek_section nfc file def u)"
  by (auto simp: seek_section_def Let_def update_ordered_def split: option.splits
      dest!: section_line_in)

lemma place_hunk_ordered:
  assumes u: "update_ordered u" and cs: "ordered_from 0 cs" "chunks_end 0 cs \<le> int (length ctx)"
    and i: "i = -1 \<or> file_index u \<le> i"
  shows "update_ordered (place_hunk fixed2 path ctx cs j (i, f, s) u)"
proof (cases "i = -1")
  case False
  with i u have low: "chunks_end 0 (found u) \<le> i" by (simp add: update_ordered_def)
  have "ordered_from i (map (shift_chunk i) cs)" "chunks_end i (map (shift_chunk i) cs) = chunks_end 0 cs + i"
    using ordered_shift [of 0 i cs] chunks_end_shift [of 0 i cs] cs by simp_all
  then have "ordered_from (chunks_end 0 (found u)) (map (shift_chunk i) cs)"
    "chunks_end (chunks_end 0 (found u)) (map (shift_chunk i) cs) \<le> i + int (length ctx)"
    using low cs(2) ordered_lower chunks_end_lower [OF low, of "map (shift_chunk i) cs"] by auto
  with False u show ?thesis
    by (simp add: place_hunk_def update_ordered_def ordered_append chunks_end_append)
qed (use u in \<open>simp add: place_hunk_def update_ordered_def\<close>)

lemma update_turn_ordered:
  assumes "END_FILE \<notin> set lines" and "update_ordered u"
    and turn: "update_turn nfc fixed2 path lines file u = Inr u'"
  shows "update_ordered u'"
proof -
  define l where "l = line_at lines (line_index (up u))"
  define u1 where "u1 = (if hunk_header l then skip_line u else u)"
  define u2 where "u2 = (case def_text l of Some def \<Rightarrow>
      if trim def \<noteq> [] then seek_section nfc file def u1 else u1 | None \<Rightarrow> u1)"
  have "update_ordered u1" using assms(2) by (simp add: u1_def skip_line_def update_ordered_def)
  then have u2: "update_ordered u2" by (simp add: u2_def seek_section_ordered split: option.split)
  obtain ctx cs j eof where peeked: "peek lines (line_index (up u2)) = Inr (ctx, cs, j, eof)"
    and u': "u' = place_hunk fixed2 path ctx cs j (find_context nfc file ctx (file_index u2) eof) u2"
    using turn unfolding update_turn_def Let_def l_def [symmetric] u1_def [symmetric] u2_def [symmetric]
    by (auto split: if_splits sum.splits)
  obtain i f s where place: "find_context nfc file ctx (file_index u2) eof = (i, f, s)"
    by (metis prod_cases3)
  have "eof = False" using peek_result(3) [OF peeked] assms(1) by blast
  with place have "i = -1 \<or> file_index u2 \<le> i" using find_context_forward by simp
  from place_hunk_ordered [OF u2 peek_result(1,2) [OF peeked] this] show ?thesis
    by (simp add: u' place)
qed

lemma update_loop_ordered:
  assumes "update_loop nfc fixed2 path lines file u = Some r"
  shows "END_FILE \<notin> set lines \<and> update_ordered u \<longrightarrow> (\<forall>u'. r = Inr u' \<longrightarrow> update_ordered u')"
proof (rule update_loop.raw_induct [OF _ assms])
  fix loop nfc fixed2 path lines "file" u r
  assume IH: "\<And>nfc fixed2 path lines file u r. loop nfc fixed2 path lines file u = Some r \<Longrightarrow>
      END_FILE \<notin> set lines \<and> update_ordered u \<longrightarrow> (\<forall>u'. r = Inr u' \<longrightarrow> update_ordered u')"
    and turn: "(if at_update_stop lines (line_index (up u)) then Some (Inr u)
      else case update_turn nfc fixed2 path lines file u of Inl e \<Rightarrow> Some (Inl e)
           | Inr u' \<Rightarrow> loop nfc fixed2 path lines file u') = Some r"
  show "END_FILE \<notin> set lines \<and> update_ordered u \<longrightarrow> (\<forall>u'. r = Inr u' \<longrightarrow> update_ordered u')"
  proof (intro impI allI)
    fix u'
    assume u: "END_FILE \<notin> set lines \<and> update_ordered u" and r: "r = Inr u'"
    show "update_ordered u'"
    proof (cases "at_update_stop lines (line_index (up u))")
      case True
      with turn r u show ?thesis by simp
    next
      case False
      with turn r obtain u1 where u1: "update_turn nfc fixed2 path lines file u = Inr u1"
        and rest: "loop nfc fixed2 path lines file u1 = Some r"
        by (auto split: sum.splits)
      from update_turn_ordered [OF _ _ u1] u have "update_ordered u1" by blast
      with IH [OF rest] u r show ?thesis by blast
    qed
  qed
qed

section \<open>Applying ordered chunks\<close>

lemma splice_ordered:
  "ordered_from current cs \<Longrightarrow>
   (\<exists>ls. splice_chunks path lines cs current result = Inr ls) \<or>
   (\<exists>k. splice_chunks path lines cs current result = Inl (Chunk_Past_End path k (length lines)))"
  by (induction cs arbitrary: current result) auto

lemma parse_update_file_loop:
  assumes "parse_update_file nfc fixed2 lines content path p = Some (Inr (p', cs))"
  shows "\<exists>u'. update_loop nfc fixed2 path lines (split_lf content)
    \<lparr>up = p, file_index = 0, found = []\<rparr> = Some (Inr u') \<and> cs = found u'"
proof (cases "update_loop nfc fixed2 path lines (split_lf content) \<lparr>up = p, file_index = 0, found = []\<rparr>")
  case (Some r)
  with assms show ?thesis by (cases r) (auto simp: parse_update_file_def)
qed (use assms in \<open>simp add: parse_update_file_def\<close>)

text \<open>C27: where no hunk is tied to the end of the file, the chunks of a parsed update never
  overlap and never go backwards, whatever passes of the search placed them: applying them to any
  text either gives a text or fails because a chunk lies past the end.\<close>

theorem chunks_never_overlap:
  assumes "END_FILE \<notin> set lines"
    and "parse_update_file nfc fixed2 lines content path p = Some (Inr (p', cs))"
  shows "(\<exists>t. apply_chunks text cs path = Inr t) \<or>
    (\<exists>k. apply_chunks text cs path = Inl (Chunk_Past_End path k (length (split_lf text))))"
proof -
  obtain u' where "update_loop nfc fixed2 path lines (split_lf content)
      \<lparr>up = p, file_index = 0, found = []\<rparr> = Some (Inr u')" and cs: "cs = found u'"
    using parse_update_file_loop [OF assms(2)] by blast
  from update_loop_ordered [OF this(1)] assms(1) have "ordered_from 0 cs"
    by (simp add: update_ordered_def cs)
  from splice_ordered [OF this, of path "split_lf text" "[]"] show ?thesis
    by (auto simp: apply_chunks_splice)
qed

theorem chunks_never_overlap_witness:
  "(\<exists>t. apply_chunks SAMPLE_FILE (map (shift_chunk 1) (hunk_chunks SAMPLE_BODY)) (js ''a'') = Inr t) \<or>
   (\<exists>k. apply_chunks SAMPLE_FILE (map (shift_chunk 1) (hunk_chunks SAMPLE_BODY)) (js ''a'') =
      Inl (Chunk_Past_End (js ''a'') k (length (split_lf SAMPLE_FILE))))"
proof (rule chunks_never_overlap)
  show "END_FILE \<notin> set (one_hunk (js ''a'') SAMPLE_BODY)" by code_simp
  show "parse_update_file id (\<lambda>s. []) (one_hunk (js ''a'') SAMPLE_BODY) SAMPLE_FILE (js ''a'')
      (parser_start\<lparr>line_index := 2\<rparr>) =
    Some (Inr ((parser_start\<lparr>line_index := 2\<rparr>)\<lparr>line_index := 3 + length SAMPLE_BODY\<rparr>,
      map (shift_chunk 1) (hunk_chunks SAMPLE_BODY)))"
    using update_one_hunk [OF sample_hunk(1) sample_hunk(2) sample_hunk(3)] by simp
qed

end
