(* ===== verification/PatchDistance.thy ===== *)
theory PatchDistance
  imports PatchContext
begin

text \<open>
  The matrix of \<open>levenshteinDistance\<close> holds the edit distance. An alignment (\<open>edits\<close>) is the
  specification, the recursion \<open>dist\<close> is proved to be its least length, and the loops of the
  source are proved to fill the matrix with \<open>dist\<close> of the prefixes.
\<close>

section \<open>Alignments\<close>

text \<open>\<open>edits n xs ys\<close>: \<open>n\<close> replaced, removed or added units turn \<open>xs\<close> into \<open>ys\<close>.\<close>

inductive edits :: "nat \<Rightarrow> 'a list \<Rightarrow> 'a list \<Rightarrow> bool" where
  edits_end: "edits 0 [] []"
| edits_keep: "edits n xs ys \<Longrightarrow> edits n (a # xs) (a # ys)"
| edits_replace: "edits n xs ys \<Longrightarrow> edits (Suc n) (a # xs) (b # ys)"
| edits_remove: "edits n xs ys \<Longrightarrow> edits (Suc n) (a # xs) ys"
| edits_add: "edits n xs ys \<Longrightarrow> edits (Suc n) xs (b # ys)"

lemma edits_swap: "edits n xs ys \<Longrightarrow> edits n ys xs"
  by (induction rule: edits.induct) (auto intro: edits.intros)

lemma edits_from_Nil: "edits (length ys) [] ys"
  by (induction ys) (auto intro: edits.intros)

lemma edits_to_Nil: "edits (length xs) xs []"
  by (rule edits_swap [OF edits_from_Nil])

lemma edits_keep_end: "edits n xs ys \<Longrightarrow> edits n (xs @ [a]) (ys @ [a])"
  by (induction rule: edits.induct) (auto intro: edits.intros)

lemma edits_replace_end: "edits n xs ys \<Longrightarrow> edits (Suc n) (xs @ [a]) (ys @ [b])"
  by (induction rule: edits.induct) (auto intro: edits.intros)

lemma edits_remove_end: "edits n xs ys \<Longrightarrow> edits (Suc n) (xs @ [a]) ys"
  by (induction rule: edits.induct) (auto intro: edits.intros)

lemma edits_add_end: "edits n xs ys \<Longrightarrow> edits (Suc n) xs (ys @ [b])"
  by (induction rule: edits.induct) (auto intro: edits.intros)

lemma edits_rev: "edits n xs ys \<Longrightarrow> edits n (rev xs) (rev ys)"
  by (induction rule: edits.induct)
    (auto intro: edits.intros edits_keep_end edits_replace_end edits_remove_end edits_add_end)

section \<open>The least alignment\<close>

fun dist :: "'a list \<Rightarrow> 'a list \<Rightarrow> nat" where
  "dist [] ys = length ys"
| "dist xs [] = length xs"
| "dist (x # xs) (y # ys) =
     (if x = y then dist xs ys else 1 + min (dist xs ys) (min (dist xs (y # ys)) (dist (x # xs) ys)))"

lemma dist_Nil2 [simp]: "dist xs [] = length xs"
  by (cases xs) auto

lemma dist_swap: "dist xs ys = dist ys xs"
  by (induction xs ys rule: dist.induct) auto

lemma dist_edits: "edits (dist xs ys) xs ys"
proof (induction xs ys rule: dist.induct)
  case (3 x xs y ys)
  show ?case
  proof (cases "x = y")
    case True
    with 3 show ?thesis by (auto intro: edits.intros)
  next
    case False
    then have "dist (x # xs) (y # ys) \<in>
        {Suc (dist xs ys), Suc (dist xs (y # ys)), Suc (dist (x # xs) ys)}"
      by (auto simp: min_def)
    with 3 [of] False show ?thesis by (auto intro: edits.intros simp del: dist.simps(3))
  qed
qed (use edits_from_Nil edits_to_Nil [of "_ # _"] in auto)

text \<open>One unit more on one side moves the distance by one at most.\<close>

lemma dist_step: "dist (a # xs) ys \<le> Suc (dist xs ys) \<and> dist xs ys \<le> Suc (dist (a # xs) ys)"
proof (induction "length xs + length ys" arbitrary: a xs ys rule: less_induct)
  case less
  show ?case
  proof (cases ys)
    case (Cons b ys')
    have up: "dist xs (b # ys') \<le> Suc (dist xs ys')" "dist xs ys' \<le> Suc (dist xs (b # ys'))"
    proof -
      have "dist (b # ys') xs \<le> Suc (dist ys' xs) \<and> dist ys' xs \<le> Suc (dist (b # ys') xs)"
        by (rule less.hyps) (simp add: Cons)
      then show "dist xs (b # ys') \<le> Suc (dist xs ys')" "dist xs ys' \<le> Suc (dist xs (b # ys'))"
        by (simp_all only: dist_swap [of xs])
    qed
    have "dist xs ys' \<le> Suc (dist (a # xs) ys')"
      using less.hyps [of xs ys' a] Cons by simp
    with up show ?thesis by (auto simp: Cons)
  qed simp
qed

lemma dist_least: "edits n xs ys \<Longrightarrow> dist xs ys \<le> n"
proof (induction rule: edits.induct)
  case (edits_replace n xs ys a b)
  then show ?case by auto
next
  case (edits_remove n xs ys a)
  with dist_step [of a xs ys] show ?case by simp
next
  case (edits_add n xs ys b)
  with dist_step [of b ys xs] show ?case by (simp add: dist_swap [of xs])
qed auto

lemma dist_rev: "dist (rev xs) (rev ys) = dist xs ys"
  by (metis antisym dist_edits dist_least edits_rev rev_rev_ident)

lemma dist_is_least: "(LEAST n. edits n xs ys) = dist xs ys"
  by (rule Least_equality) (auto intro: dist_edits dist_least)

lemma dist_bound: "dist xs ys \<le> max (length xs) (length ys)"
  by (induction xs ys rule: dist.induct) auto

lemma dist_0 [simp]: "dist xs ys = 0 \<longleftrightarrow> xs = ys"
  by (induction xs ys rule: dist.induct) auto

section \<open>Cells\<close>

lemma cell_index_eq: "c < cols \<Longrightarrow> c' < cols \<Longrightarrow> r * cols + c = r' * cols + c' \<longleftrightarrow> r = r' \<and> c = (c'::nat)"
  by (metis div_mult_self3 div_less add_0_right mod_less mod_mult_self3 less_nat_zero_code
      bot_nat_0.not_eq_extremum add.commute)

lemma length_set_cell [simp]: "length (set_cell cols r c v m) = length m"
  by (simp add: set_cell_def)

lemma cell_index_less: "r < rows \<Longrightarrow> c < cols \<Longrightarrow> r * cols + c < rows * (cols::nat)"
proof -
  assume "r < rows" "c < cols"
  then have "r * cols + c < Suc r * cols" by simp
  also have "\<dots> \<le> rows * cols" using \<open>r < rows\<close> by (intro mult_le_mono1) simp
  finally show ?thesis .
qed

lemma cell_at_set_cell:
  "length m = rows * cols \<Longrightarrow> r < rows \<Longrightarrow> c < cols \<Longrightarrow> r' < rows \<Longrightarrow> c' < cols \<Longrightarrow>
   cell_at (set_cell cols r c v m) cols r' c' = (if r = r' \<and> c = c' then v else cell_at m cols r' c')"
  using cell_index_less [of r rows c cols] cell_index_less [of r' rows c' cols]
    cell_index_eq [of c cols c' r r']
  by (auto simp: cell_at_def set_cell_def Let_def nth_list_update)


section \<open>The loops\<close>

lemma fold_range:
  assumes "P a s" "a \<le> b" "\<And>i s. a \<le> i \<Longrightarrow> i < b \<Longrightarrow> P i s \<Longrightarrow> P (Suc i) (f i s)"
  shows "P b (fold f [a..<b] s)"
  using assms(2, 3)
proof (induction b rule: dec_induct)
  case (step n)
  then show ?case by simp
qed (use assms(1) in simp)

definition prefix_dist :: "jtext \<Rightarrow> jtext \<Rightarrow> nat \<Rightarrow> nat \<Rightarrow> nat" where
  "prefix_dist str1 str2 i j = dist (rev (take i str2)) (rev (take j str1))"

lemma prefix_dist_0 [simp]:
  "j \<le> length str1 \<Longrightarrow> prefix_dist str1 str2 0 j = j"
  "i \<le> length str2 \<Longrightarrow> prefix_dist str1 str2 i 0 = i"
  by (simp_all add: prefix_dist_def)

lemma prefix_dist_Suc:
  "i < length str2 \<Longrightarrow> j < length str1 \<Longrightarrow>
   prefix_dist str1 str2 (Suc i) (Suc j) =
     (if str2 ! i = str1 ! j then prefix_dist str1 str2 i j
      else 1 + min (prefix_dist str1 str2 i j)
                 (min (prefix_dist str1 str2 (Suc i) j) (prefix_dist str1 str2 i (Suc j))))"
  by (auto simp: prefix_dist_def take_Suc_conv_app_nth min.commute)

text \<open>Everything before row \<open>i\<close>, column \<open>j\<close> is filled, and so are the two borders.\<close>

definition filled :: "jtext \<Rightarrow> jtext \<Rightarrow> nat \<Rightarrow> nat \<Rightarrow> nat list \<Rightarrow> bool" where
  "filled str1 str2 i j m =
     (length m = (length str2 + 1) * (length str1 + 1) \<and>
      (\<forall>r \<le> length str2. \<forall>c \<le> length str1.
         r < i \<or> (r = i \<and> c < j) \<or> r = 0 \<or> c = 0 \<longrightarrow>
           cell_at m (length str1 + 1) r c = prefix_dist str1 str2 r c))"

lemma filledD:
  "filled str1 str2 i j m \<Longrightarrow> r \<le> length str2 \<Longrightarrow> c \<le> length str1 \<Longrightarrow>
   r < i \<or> (r = i \<and> c < j) \<or> r = 0 \<or> c = 0 \<Longrightarrow>
   cell_at m (length str1 + 1) r c = prefix_dist str1 str2 r c"
  unfolding filled_def by blast

lemma filled_set:
  assumes m: "filled str1 str2 i j m" and i: "i \<le> length str2" and j: "j \<le> length str1"
    and v: "v = prefix_dist str1 str2 i j"
  shows "filled str1 str2 i (Suc j) (set_cell (length str1 + 1) i j v m)"
  unfolding filled_def
proof (intro conjI allI impI)
  show "length (set_cell (length str1 + 1) i j v m) = (length str2 + 1) * (length str1 + 1)"
    using m by (simp add: filled_def)
  fix r c
  assume r: "r \<le> length str2" and c: "c \<le> length str1"
    and rc: "r < i \<or> r = i \<and> c < Suc j \<or> r = 0 \<or> c = 0"
  have "cell_at (set_cell (length str1 + 1) i j v m) (length str1 + 1) r c =
      (if i = r \<and> j = c then v else cell_at m (length str1 + 1) r c)"
    using m i j r c by (intro cell_at_set_cell [where rows = "length str2 + 1"]) (auto simp: filled_def)
  moreover have "cell_at m (length str1 + 1) r c = prefix_dist str1 str2 r c" if "\<not> (i = r \<and> j = c)"
    using that rc by (intro filledD [OF m r c]) auto
  ultimately show "cell_at (set_cell (length str1 + 1) i j v m) (length str1 + 1) r c =
      prefix_dist str1 str2 r c"
    using v by auto
qed

lemma fill_cell_filled:
  assumes m: "filled str1 str2 i j m" and i: "1 \<le> i" "i \<le> length str2"
    and j: "1 \<le> j" "j \<le> length str1"
  shows "filled str1 str2 i (Suc j) (fill_cell str1 str2 i j m)"
proof -
  have cells: "cell_at m (length str1 + 1) (i - 1) (j - 1) = prefix_dist str1 str2 (i - 1) (j - 1)"
    "cell_at m (length str1 + 1) i (j - 1) = prefix_dist str1 str2 i (j - 1)"
    "cell_at m (length str1 + 1) (i - 1) j = prefix_dist str1 str2 (i - 1) j"
    by (rule filledD [OF m], use i j in simp, use i j in simp, use i j in arith)+
  have "prefix_dist str1 str2 i j =
     (if str2 ! (i - 1) = str1 ! (j - 1) then prefix_dist str1 str2 (i - 1) (j - 1)
      else 1 + min (prefix_dist str1 str2 (i - 1) (j - 1))
                 (min (prefix_dist str1 str2 i (j - 1)) (prefix_dist str1 str2 (i - 1) j)))"
    using prefix_dist_Suc [of "i - 1" str2 "j - 1" str1] i j by simp
  then have "fill_cell str1 str2 i j m =
      set_cell (length str1 + 1) i j (prefix_dist str1 str2 i j) m"
    unfolding fill_cell_def Let_def cells by simp
  with filled_set [OF m i(2) j(2)] show ?thesis by simp
qed

lemma filled_next_row:
  "filled str1 str2 i (length str1 + 1) m \<Longrightarrow> filled str1 str2 (Suc i) 1 m"
  unfolding filled_def
proof (elim conjE, intro conjI allI impI)
  fix r c
  assume cells: "\<forall>r\<le>length str2. \<forall>c\<le>length str1.
      r < i \<or> r = i \<and> c < length str1 + 1 \<or> r = 0 \<or> c = 0 \<longrightarrow>
        cell_at m (length str1 + 1) r c = prefix_dist str1 str2 r c"
    and r: "r \<le> length str2" and c: "c \<le> length str1"
    and rc: "r < Suc i \<or> r = Suc i \<and> c < 1 \<or> r = 0 \<or> c = 0"
  have "r < i \<or> r = i \<and> c < length str1 + 1 \<or> r = 0 \<or> c = 0"
    using rc c by arith
  with cells r c show "cell_at m (length str1 + 1) r c = prefix_dist str1 str2 r c" by blast
qed

lemma fill_row:
  "filled str1 str2 i 1 m \<Longrightarrow> 1 \<le> i \<Longrightarrow> i \<le> length str2 \<Longrightarrow>
   filled str1 str2 (Suc i) 1 (fold (fill_cell str1 str2 i) [1..<length str1 + 1] m)"
  by (intro filled_next_row fold_range [where P = "filled str1 str2 i"]) (auto intro: fill_cell_filled)

text \<open>The first loop fills the first column, the second the first row.\<close>

lemma first_column:
  "length m = (length str2 + 1) * (length str1 + 1) \<Longrightarrow> k \<le> length str2 + 1 \<Longrightarrow>
   length (fold (\<lambda>i. set_cell (length str1 + 1) i 0 i) [0..<k] m) = length m \<and>
   (\<forall>r<k. cell_at (fold (\<lambda>i. set_cell (length str1 + 1) i 0 i) [0..<k] m) (length str1 + 1) r 0 = r)"
proof (induction k)
  case (Suc k)
  let ?m = "fold (\<lambda>i. set_cell (length str1 + 1) i 0 i) [0..<k] m"
  have "cell_at (set_cell (length str1 + 1) k 0 k ?m) (length str1 + 1) r 0 = r" if "r < Suc k" for r
    using that Suc
    by (subst cell_at_set_cell [where rows = "length str2 + 1"]) (auto simp: less_Suc_eq)
  with Suc show ?case by auto
qed simp

lemma first_row:
  assumes "length m = (length str2 + 1) * (length str1 + 1)"
    and "\<forall>r<length str2 + 1. cell_at m (length str1 + 1) r 0 = r" and "k \<le> length str1 + 1"
  defines "m' \<equiv> fold (\<lambda>j. set_cell (length str1 + 1) 0 j j) [0..<k] m"
  shows "length m' = length m \<and> (\<forall>c<k. cell_at m' (length str1 + 1) 0 c = c) \<and>
    (\<forall>r<length str2 + 1. cell_at m' (length str1 + 1) r 0 = r)"
  using assms(3) unfolding m'_def
proof (induction k)
  case (Suc k)
  let ?m = "fold (\<lambda>j. set_cell (length str1 + 1) 0 j j) [0..<k] m"
  have "cell_at (set_cell (length str1 + 1) 0 k k ?m) (length str1 + 1) 0 c = c" if "c < Suc k" for c
    using that Suc assms(1)
    by (subst cell_at_set_cell [where rows = "length str2 + 1"]) (auto simp: less_Suc_eq)
  moreover have "cell_at (set_cell (length str1 + 1) 0 k k ?m) (length str1 + 1) r 0 = r"
    if "r < length str2 + 1" for r
    using that Suc assms(1)
    by (subst cell_at_set_cell [where rows = "length str2 + 1"]) auto
  ultimately show ?case using Suc by auto
qed (use assms(2) in simp)

lemma matrix_start_filled: "filled str1 str2 1 1 (matrix_start str1 str2)"
proof -
  define m1 where "m1 = fold (\<lambda>i. set_cell (length str1 + 1) i 0 i) [0..<length str2 + 1]
    (replicate ((length str2 + 1) * (length str1 + 1)) 0)"
  have column: "length m1 = (length str2 + 1) * (length str1 + 1)"
    "\<forall>r<length str2 + 1. cell_at m1 (length str1 + 1) r 0 = r"
    using first_column [of "replicate ((length str2 + 1) * (length str1 + 1)) 0" str2 str1 "length str2 + 1"]
    by (auto simp: m1_def)
  have start: "matrix_start str1 str2 = fold (\<lambda>j. set_cell (length str1 + 1) 0 j j) [0..<length str1 + 1] m1"
    by (simp only: matrix_start_def m1_def Let_def)
  show ?thesis
    using first_row [OF column order_refl] column(1)
    unfolding start filled_def by (auto simp: less_Suc_eq_le simp del: upt_Suc)
qed

lemma levenshtein_dist: "levenshtein_distance str1 str2 = dist str1 str2"
proof -
  have "filled str1 str2 (length str2 + 1) 1
      (fold (\<lambda>i. fold (fill_cell str1 str2 i) [1..<length str1 + 1]) [1..<length str2 + 1]
        (matrix_start str1 str2))"
    by (rule fold_range [where P = "\<lambda>i. filled str1 str2 i 1"])
      (use matrix_start_filled fill_row in \<open>auto simp del: upt_Suc\<close>)
  from filledD [OF this, of "length str2" "length str1"]
  show ?thesis
    by (simp add: levenshtein_distance_def prefix_dist_def dist_rev dist_swap del: upt_Suc)
qed

section \<open>Similarity\<close>

text \<open>C28: the matrix of the edit distance returns the least number of replaced, removed or added
  code units that turn one text into the other.\<close>

theorem distance_is_least: "levenshtein_distance str1 str2 = (LEAST n. edits n str1 str2)"
  by (simp only: dist_is_least levenshtein_dist)

lemma similarity_range: "0 \<le> calculate_similarity s t \<and> calculate_similarity s t \<le> 1"
  using dist_bound [of s t] dist_bound [of t s]
  by (auto simp: calculate_similarity_def levenshtein_dist Let_def max_def split: if_splits)

lemma similarity_same: "calculate_similarity s t = 1 \<longleftrightarrow> s = t"
  using dist_0 [of s t] dist_0 [of t s]
  by (auto simp: calculate_similarity_def levenshtein_dist Let_def field_simps)

end
