(* ===== verification/Placement.thy ===== *)
theory Placement
  imports Prelude
begin

text \<open>
  Where the next delegated agent runs: the pure decision of
  \<open>sdk/packages/core/src/extensions/tools/team/agent-placement.ts\<close>. A node has a priority
  (a rank, 1 highest, 0 for the lead session's own sub-pools) and a capacity; the decision
  walks the tiers in rank order, and round-robin inside a tier.
\<close>

section \<open>Nodes\<close>

text \<open>
  A capacity is a JavaScript number that counts agents: \<open>NaN\<close>, \<open>Infinity\<close> (the endpoint
  decides its own admission) or a count, where a negative count reads like zero.
\<close>

datatype capacity = NaN | Unbounded | Slots int

record agent_node =
  node_id :: string
  priority :: int
  node_capacity :: capacity
  paced_admission :: bool

text \<open>\<open>capacity > k\<close> and \<open>running < capacity\<close>: both are false of \<open>NaN\<close>.\<close>

fun cap_gt :: "capacity \<Rightarrow> int \<Rightarrow> bool" where
  "cap_gt NaN k = False"
| "cap_gt Unbounded k = True"
| "cap_gt (Slots n) k = (n > k)"

definition has_capacity :: "agent_node \<Rightarrow> bool" where
  "has_capacity n = cap_gt (node_capacity n) 0"

definition LEAD_PRIORITY :: int where
  "LEAD_PRIORITY = 0"

definition LEAD_SUBPOOL_CAPACITY :: int where
  "LEAD_SUBPOOL_CAPACITY = 8"

definition cap_lead_tier :: "agent_node \<Rightarrow> agent_node" where
  "cap_lead_tier n =
     (if priority n \<noteq> LEAD_PRIORITY \<or> \<not> cap_gt (node_capacity n) 0 then n
      else if cap_gt (node_capacity n) LEAD_SUBPOOL_CAPACITY
        then n\<lparr>node_capacity := Slots LEAD_SUBPOOL_CAPACITY\<rparr>
      else n)"

section \<open>The decision\<close>

datatype placement = OnNode string | Queued

type_synonym placement_state = "int \<rightharpoonup> nat"
type_synonym occupancy = "string \<rightharpoonup> nat"
type_synonym deadlines = "string \<rightharpoonup> nat"

definition empty_placement_state :: placement_state where
  "empty_placement_state = Map.empty"

definition node_is_down :: "deadlines \<Rightarrow> nat \<Rightarrow> agent_node \<Rightarrow> bool" where
  "node_is_down down now n = (case down (node_id n) of None \<Rightarrow> False | Some t \<Rightarrow> t > now)"

definition occupied :: "occupancy \<Rightarrow> string \<Rightarrow> nat" where
  "occupied occ nid = opt_default 0 (occ nid)"

definition has_room :: "occupancy \<Rightarrow> agent_node \<Rightarrow> bool" where
  "has_room occ n = cap_gt (node_capacity n) (int (occupied occ (node_id n)))"

text \<open>
  Whether the cool-off marks count at all: only while some node that could take an agent is
  not cooling off.
\<close>

definition honour_down :: "agent_node list \<Rightarrow> deadlines \<Rightarrow> nat \<Rightarrow> bool" where
  "honour_down nodes down now =
     (\<exists>n \<in> set (filter has_capacity nodes). \<not> node_is_down down now n)"

text \<open>The \<open>byPriority\<close> map, filled in configuration order.\<close>

fun group_by_priority ::
  "(agent_node \<Rightarrow> bool) \<Rightarrow> agent_node list \<Rightarrow> (int \<times> agent_node list) list
    \<Rightarrow> (int \<times> agent_node list) list" where
  "group_by_priority skip [] tiers = tiers"
| "group_by_priority skip (n # ns) tiers =
     (if skip n \<or> \<not> has_capacity n then group_by_priority skip ns tiers
      else group_by_priority skip ns
        (case map_of tiers (priority n) of
           Some tier \<Rightarrow> AList.update (priority n) (tier @ [n]) tiers
         | None \<Rightarrow> AList.update (priority n) [n] tiers))"

definition probe_index :: "int \<Rightarrow> nat \<Rightarrow> nat \<Rightarrow> nat" where
  "probe_index start len step = nat ((start + int step) mod int len)"

text \<open>The inner loop: the first step of the lap whose node has room.\<close>

definition scan_tier :: "occupancy \<Rightarrow> agent_node list \<Rightarrow> int \<Rightarrow> nat option" where
  "scan_tier occ tier start =
     map_option (probe_index start (length tier))
       (find (\<lambda>step. has_room occ (tier ! probe_index start (length tier) step))
         [1..<Suc (length tier)])"

definition cursor_start :: "placement_state \<Rightarrow> int \<Rightarrow> int" where
  "cursor_start st p = (case st p of None \<Rightarrow> -1 | Some c \<Rightarrow> int c)"

fun place_in_tiers ::
  "(int \<times> agent_node list) list \<Rightarrow> occupancy \<Rightarrow> placement_state \<Rightarrow> int list
    \<Rightarrow> placement \<times> placement_state" where
  "place_in_tiers tiers occ st [] = (Queued, st)"
| "place_in_tiers tiers occ st (p # ps) =
     (let tier = opt_default [] (map_of tiers p)
      in case scan_tier occ tier (cursor_start st p) of
           Some i \<Rightarrow> (OnNode (node_id (tier ! i)), st(p \<mapsto> i))
         | None \<Rightarrow> place_in_tiers tiers occ st ps)"

definition place_agent ::
  "agent_node list \<Rightarrow> occupancy \<Rightarrow> placement_state \<Rightarrow> deadlines \<Rightarrow> nat
    \<Rightarrow> placement \<times> placement_state" where
  "place_agent nodes occ st down now =
     (let honour = honour_down nodes down now;
          tiers = group_by_priority (\<lambda>n. honour \<and> node_is_down down now n) nodes []
      in place_in_tiers tiers occ st (sort (map fst tiers)))"

section \<open>The tiers\<close>

abbreviation tier_nodes :: "(agent_node \<Rightarrow> bool) \<Rightarrow> agent_node list \<Rightarrow> int \<Rightarrow> agent_node list" where
  "tier_nodes skip ns p \<equiv> filter (\<lambda>n. \<not> skip n \<and> has_capacity n \<and> priority n = p) ns"

lemma group_by_priority_lookup:
  "map_of (group_by_priority skip ns tiers) p =
     (case map_of tiers p of
        Some t \<Rightarrow> Some (t @ tier_nodes skip ns p)
      | None \<Rightarrow> if tier_nodes skip ns p = [] then None else Some (tier_nodes skip ns p))"
  by (induction skip ns tiers rule: group_by_priority.induct)
     (auto simp: AList.update_conv' split: option.splits)

lemma group_by_priority_tier:
  "map_of (group_by_priority skip ns []) p = Some tier \<Longrightarrow> tier = tier_nodes skip ns p"
  by (auto simp: group_by_priority_lookup split: if_splits)

lemma group_by_priority_keys:
  "p \<in> set (map fst (group_by_priority skip ns [])) \<longleftrightarrow> tier_nodes skip ns p \<noteq> []"
proof -
  have "p \<in> set (map fst (group_by_priority skip ns [])) \<longleftrightarrow>
      map_of (group_by_priority skip ns []) p \<noteq> None"
    by (simp add: map_of_eq_None_iff)
  also have "\<dots> \<longleftrightarrow> tier_nodes skip ns p \<noteq> []"
    by (simp add: group_by_priority_lookup)
  finally show ?thesis .
qed

section \<open>One lap of a tier\<close>

lemma probe_index_less: "0 < len \<Longrightarrow> probe_index start len step < len"
  by (simp add: probe_index_def nat_less_iff)

lemma probe_index_surj:
  assumes "j < len"
  shows "\<exists>step \<in> {1..len}. probe_index start len step = j"
proof
  define d where "d = (int j - start - 1) mod int len"
  have d: "0 \<le> d" "d < int len" using assms by (simp_all add: d_def)
  then show "Suc (nat d) \<in> {1..len}" by auto
  have "(start + int (Suc (nat d))) mod int len = (start + 1 + d) mod int len"
    using d by (simp add: algebra_simps)
  also have "\<dots> = int j mod int len"
    by (simp add: d_def mod_simps)
  finally show "probe_index start len (Suc (nat d)) = j"
    using assms by (simp add: probe_index_def)
qed

lemma scan_tier_Some:
  assumes "scan_tier occ tier start = Some i"
  shows "i < length tier \<and> has_room occ (tier ! i)"
proof -
  from assms obtain step where
      "find (\<lambda>step. has_room occ (tier ! probe_index start (length tier) step))
         [1..<Suc (length tier)] = Some step" and i: "i = probe_index start (length tier) step"
    by (auto simp: scan_tier_def)
  then have "has_room occ (tier ! i)" "1 \<le> step" "step \<le> length tier"
    by (auto simp: find_Some_iff nth_append split: if_splits)
  with i show ?thesis by (auto intro: probe_index_less)
qed

lemma scan_tier_None:
  assumes "scan_tier occ tier start = None" and "n \<in> set tier"
  shows "\<not> has_room occ n"
proof -
  from assms(2) obtain j where "j < length tier" "n = tier ! j"
    by (auto simp: in_set_conv_nth)
  moreover from \<open>j < length tier\<close> obtain step
    where "step \<in> {1..length tier}" "probe_index start (length tier) step = j"
    using probe_index_surj by blast
  moreover from assms(1) have
    "\<forall>step \<in> {1..length tier}. \<not> has_room occ (tier ! probe_index start (length tier) step)"
    by (auto simp: scan_tier_def find_None_iff)
  ultimately show ?thesis by auto
qed

lemma scan_tier_first:
  assumes "has_room occ (tier ! probe_index start (length tier) 1)" and "tier \<noteq> []"
  shows "scan_tier occ tier start = Some (probe_index start (length tier) 1)"
proof -
  have "[1..<Suc (length tier)] = 1 # [2..<Suc (length tier)]"
    using assms(2) by (subst upt_conv_Cons) (auto simp: numeral_2_eq_2)
  with assms(1) show ?thesis by (simp add: scan_tier_def)
qed

section \<open>All tiers\<close>

lemma place_in_tiers_OnNode:
  assumes "place_in_tiers tiers occ st ps = (OnNode nid, st')" and "sorted ps"
    and "\<And>p. p \<in> set ps \<Longrightarrow> map_of tiers p \<noteq> None"
  shows "\<exists>p \<in> set ps. \<exists>tier i. map_of tiers p = Some tier \<and> i < length tier \<and>
    nid = node_id (tier ! i) \<and> has_room occ (tier ! i) \<and> st' = st(p \<mapsto> i) \<and>
    (\<forall>q \<in> set ps. q < p \<longrightarrow> (\<forall>n \<in> set (the (map_of tiers q)). \<not> has_room occ n))"
  using assms
proof (induction ps)
  case (Cons p ps)
  then obtain tier where tier: "map_of tiers p = Some tier" by fastforce
  show ?case
  proof (cases "scan_tier occ tier (cursor_start st p)")
    case None
    from None Cons.prems(1) tier have "place_in_tiers tiers occ st ps = (OnNode nid, st')"
      by simp
    moreover have "sorted ps" and "\<And>q. q \<in> set ps \<Longrightarrow> map_of tiers q \<noteq> None"
      using Cons.prems(2,3) by auto
    ultimately obtain q where q: "q \<in> set ps"
      and rest: "\<exists>tier i. map_of tiers q = Some tier \<and> i < length tier \<and>
        nid = node_id (tier ! i) \<and> has_room occ (tier ! i) \<and> st' = st(q \<mapsto> i) \<and>
        (\<forall>r \<in> set ps. r < q \<longrightarrow> (\<forall>n \<in> set (the (map_of tiers r)). \<not> has_room occ n))"
      using Cons.IH by blast
    from rest obtain tier' i where "map_of tiers q = Some tier' \<and> i < length tier' \<and>
        nid = node_id (tier' ! i) \<and> has_room occ (tier' ! i) \<and> st' = st(q \<mapsto> i)"
      and lower: "\<forall>r \<in> set ps. r < q \<longrightarrow> (\<forall>n \<in> set (the (map_of tiers r)). \<not> has_room occ n)"
      by blast
    moreover have "\<forall>r \<in> set (p # ps). r < q \<longrightarrow> (\<forall>n \<in> set (the (map_of tiers r)). \<not> has_room occ n)"
      using lower scan_tier_None [OF None] tier by auto
    ultimately show ?thesis using q
      by (intro bexI [of _ q] exI [of _ tier'] exI [of _ i]) simp_all
  next
    case (Some i)
    have "nid = node_id (tier ! i)" "st' = st(p \<mapsto> i)" "\<forall>q \<in> set ps. p \<le> q"
      using Some Cons.prems(1,2) tier by auto
    with tier scan_tier_Some [OF Some] show ?thesis
      by (intro bexI [of _ p] exI [of _ tier] exI [of _ i]) auto
  qed
qed simp

lemma place_in_tiers_Queued:
  assumes "place_in_tiers tiers occ st ps = (Queued, st')"
  shows "st' = st \<and> (\<forall>p \<in> set ps. \<forall>n \<in> set (opt_default [] (map_of tiers p)). \<not> has_room occ n)"
  using assms by (induction ps) (auto split: option.splits dest: scan_tier_None simp: Let_def)

text \<open>A node the decision may use: it has capacity and is not skipped for cooling off.\<close>

definition in_play :: "agent_node list \<Rightarrow> deadlines \<Rightarrow> nat \<Rightarrow> agent_node \<Rightarrow> bool" where
  "in_play nodes down now n \<longleftrightarrow>
     has_capacity n \<and> (honour_down nodes down now \<longrightarrow> \<not> node_is_down down now n)"

lemma tier_nodes_in_play:
  "n \<in> set (tier_nodes (\<lambda>n. honour_down nodes down now \<and> node_is_down down now n) nodes p) \<longleftrightarrow>
     n \<in> set nodes \<and> in_play nodes down now n \<and> priority n = p"
  by (auto simp: in_play_def)

lemma place_agent_OnNode:
  assumes "place_agent nodes occ st down now = (OnNode nid, st')"
  shows "\<exists>n \<in> set nodes. node_id n = nid \<and> in_play nodes down now n \<and> has_room occ n \<and>
    (\<forall>m \<in> set nodes. in_play nodes down now m \<and> has_room occ m \<longrightarrow> priority n \<le> priority m)"
proof -
  let ?skip = "\<lambda>n. honour_down nodes down now \<and> node_is_down down now n"
  let ?tiers = "group_by_priority ?skip nodes []"
  have mem: "map_of ?tiers p \<noteq> None" if "p \<in> set (sort (map fst ?tiers))" for p
    using that by (simp add: map_of_eq_None_iff)
  from assms have "place_in_tiers ?tiers occ st (sort (map fst ?tiers)) = (OnNode nid, st')"
    by (simp add: place_agent_def Let_def)
  from place_in_tiers_OnNode [OF this sorted_sort mem] obtain p tier i where
      tier: "map_of ?tiers p = Some tier" "i < length tier"
      and placed: "nid = node_id (tier ! i)" "has_room occ (tier ! i)"
      and lower: "\<forall>q \<in> set (map fst ?tiers). q < p \<longrightarrow>
        (\<forall>n \<in> set (the (map_of ?tiers q)). \<not> has_room occ n)"
    by auto
  have t: "tier = tier_nodes ?skip nodes p" using tier(1) by (rule group_by_priority_tier)
  have n: "tier ! i \<in> set tier" using tier(2) by simp
  have best: "p \<le> priority m"
    if m: "m \<in> set nodes" "in_play nodes down now m" "has_room occ m" for m
  proof (rule ccontr)
    assume "\<not> p \<le> priority m"
    moreover have ne: "m \<in> set (tier_nodes ?skip nodes (priority m))"
      using m by (simp only: tier_nodes_in_play)
    then have "priority m \<in> set (map fst ?tiers)"
      unfolding group_by_priority_keys by (metis empty_iff list.set(1))
    moreover have "the (map_of ?tiers (priority m)) = tier_nodes ?skip nodes (priority m)"
      using ne by (auto simp: group_by_priority_lookup filter_empty_conv)
    ultimately show False using lower m(3) ne by (metis not_le)
  qed
  from n have "tier ! i \<in> set nodes \<and> in_play nodes down now (tier ! i) \<and> priority (tier ! i) = p"
    unfolding t tier_nodes_in_play .
  with placed best show ?thesis by (intro bexI [of _ "tier ! i"]) auto
qed

lemma place_agent_Queued:
  assumes "place_agent nodes occ st down now = (Queued, st')"
  shows "st' = st \<and> (\<forall>n \<in> set nodes. in_play nodes down now n \<longrightarrow> \<not> has_room occ n)"
proof -
  let ?skip = "\<lambda>n. honour_down nodes down now \<and> node_is_down down now n"
  let ?tiers = "group_by_priority ?skip nodes []"
  from assms have q: "place_in_tiers ?tiers occ st (sort (map fst ?tiers)) = (Queued, st')"
    by (simp add: place_agent_def Let_def)
  have "\<not> has_room occ n" if n: "n \<in> set nodes" "in_play nodes down now n" for n
  proof -
    have ne: "n \<in> set (tier_nodes ?skip nodes (priority n))"
      using n by (simp only: tier_nodes_in_play)
    then have "priority n \<in> set (map fst ?tiers)"
      unfolding group_by_priority_keys by (metis empty_iff list.set(1))
    moreover have "map_of ?tiers (priority n) = Some (tier_nodes ?skip nodes (priority n))"
      using ne by (auto simp: group_by_priority_lookup filter_empty_conv)
    ultimately show ?thesis using place_in_tiers_Queued [OF q] ne by fastforce
  qed
  with place_in_tiers_Queued [OF q] show ?thesis by auto
qed

section \<open>The interface the placement queue relies on\<close>

text \<open>
  What the queue in front of the decision needs of it: a node it names has room, and it says
  \<open>queued\<close> only when nothing in play has.
\<close>

locale placement_policy =
  fixes place :: "agent_node list \<Rightarrow> occupancy \<Rightarrow> placement_state \<Rightarrow> deadlines \<Rightarrow> nat
    \<Rightarrow> placement \<times> placement_state"
  assumes placed_has_room: "place nodes occ st down now = (OnNode nid, st') \<Longrightarrow>
      \<exists>n \<in> set nodes. node_id n = nid \<and> has_capacity n \<and> has_room occ n"
    and queued_full: "place nodes occ st down now = (Queued, st') \<Longrightarrow> n \<in> set nodes \<Longrightarrow>
      in_play nodes down now n \<Longrightarrow> \<not> has_room occ n"
begin

lemma room_is_used:
  assumes "n \<in> set nodes" and "in_play nodes down now n" and "has_room occ n"
  obtains nid st' where "place nodes occ st down now = (OnNode nid, st')"
  using assms queued_full by (metis placement.exhaust prod.collapse)

end

interpretation agent_policy: placement_policy place_agent
proof
  show "\<exists>n \<in> set nodes. node_id n = nid \<and> has_capacity n \<and> has_room occ n"
    if "place_agent nodes occ st down now = (OnNode nid, st')" for nodes occ st down now nid st'
    using place_agent_OnNode [OF that] by (auto simp: in_play_def)
  show "\<not> has_room occ n"
    if "place_agent nodes occ st down now = (Queued, st')" "n \<in> set nodes"
      "in_play nodes down now n" for nodes occ st down now st' n
    using place_agent_Queued [OF that(1)] that(2,3) by blast
qed

section \<open>Fairness inside a tier\<close>

text \<open>A run of decisions against one view of the occupancy, as for uncapped nodes.\<close>

fun place_n ::
  "agent_node list \<Rightarrow> occupancy \<Rightarrow> placement_state \<Rightarrow> nat \<Rightarrow> nat \<Rightarrow> placement list" where
  "place_n nodes occ st now 0 = []"
| "place_n nodes occ st now (Suc k) =
     (let (pl, st') = place_agent nodes occ st Map.empty now
      in pl # place_n nodes occ st' now k)"

lemma probe_index_shift:
  assumes "0 < len"
  shows "probe_index (int (probe_index s len 1)) len (Suc j) = probe_index s len (Suc (Suc j))"
proof -
  have "int (probe_index s len 1) = (s + 1) mod int len"
    using assms by (simp add: probe_index_def)
  then have "(int (probe_index s len 1) + int (Suc j)) mod int len = (s + 1 + int (Suc j)) mod int len"
    by (simp only: mod_add_left_eq)
  also have "s + 1 + int (Suc j) = s + int (Suc (Suc j))" by simp
  finally show ?thesis by (simp only: probe_index_def)
qed

lemma one_tier:
  assumes "\<forall>n \<in> set nodes. has_capacity n \<and> priority n = p" and "nodes \<noteq> []"
  shows "group_by_priority (\<lambda>n. honour_down nodes Map.empty now \<and> node_is_down Map.empty now n)
      nodes [] = [(p, nodes)]"
proof -
  have "group_by_priority (\<lambda>n. False) ns [(p, t)] = [(p, t @ ns)]"
    if "\<forall>n \<in> set ns. has_capacity n \<and> priority n = p" for ns t
    using that by (induction ns arbitrary: t) auto
  moreover obtain n ns where "nodes = n # ns" using assms(2) by (cases nodes) auto
  ultimately show ?thesis using assms(1) by (simp add: node_is_down_def)
qed

lemma place_agent_next_in_tier:
  assumes "\<forall>n \<in> set nodes. has_capacity n \<and> has_room occ n \<and> priority n = p" and "nodes \<noteq> []"
  shows "place_agent nodes occ st Map.empty now =
    (OnNode (node_id (nodes ! probe_index (cursor_start st p) (length nodes) 1)),
     st(p \<mapsto> probe_index (cursor_start st p) (length nodes) 1))"
proof -
  have "has_room occ (nodes ! probe_index (cursor_start st p) (length nodes) 1)"
    using assms probe_index_less [of "length nodes"] by simp
  from scan_tier_first [OF this assms(2)] show ?thesis
    using one_tier [of nodes p now] assms by (simp add: place_agent_def)
qed

lemma place_n_rotates:
  assumes "\<forall>n \<in> set nodes. has_capacity n \<and> has_room occ n \<and> priority n = p" and "nodes \<noteq> []"
  shows "place_n nodes occ st now k =
    map (\<lambda>j. OnNode (node_id (nodes ! probe_index (cursor_start st p) (length nodes) (Suc j)))) [0..<k]"
proof (induction k arbitrary: st)
  case (Suc k)
  define c where "c = probe_index (cursor_start st p) (length nodes) 1"
  have start: "cursor_start (st(p \<mapsto> c)) p = int c" by (simp add: cursor_start_def)
  have shift: "probe_index (int c) (length nodes) (Suc j) =
      probe_index (cursor_start st p) (length nodes) (Suc (Suc j))" for j
    unfolding c_def using assms(2) by (intro probe_index_shift) simp
  have "place_n nodes occ st now (Suc k) = OnNode (node_id (nodes ! c)) #
      map (\<lambda>j. OnNode (node_id (nodes ! probe_index (cursor_start st p) (length nodes) (Suc (Suc j)))))
        [0..<k]"
  proof -
    have "place_n nodes occ st now (Suc k) =
        OnNode (node_id (nodes ! c)) # place_n nodes occ (st(p \<mapsto> c)) now k"
      by (simp only: place_n.simps place_agent_next_in_tier [OF assms] c_def Let_def prod.case)
    also have "place_n nodes occ (st(p \<mapsto> c)) now k = map (\<lambda>j. OnNode (node_id (nodes !
        probe_index (cursor_start st p) (length nodes) (Suc (Suc j))))) [0..<k]"
      unfolding Suc.IH start shift ..
    finally show ?thesis .
  qed
  also have "\<dots> = map (\<lambda>j. OnNode (node_id (nodes !
      probe_index (cursor_start st p) (length nodes) (Suc j)))) (0 # map Suc [0..<k])"
    by (simp add: c_def)
  also have "0 # map Suc [0..<k] = [0..<Suc k]"
    by (simp only: map_Suc_upt upt_conv_Cons [OF zero_less_Suc])
  finally show ?case .
qed simp

section \<open>Properties\<close>

text \<open>
  the decision. A node it picks belongs to the configuration, has capacity and a free slot,
  is not cooling off while another usable node is available, and no usable node of a lower
  (better) rank had a free slot. It answers \<open>queued\<close> exactly when no usable node has a free slot,
  and then leaves every round-robin cursor where it was.
\<close>

theorem place_agent_decides:
  "case place_agent nodes occ st down now of
     (OnNode nid, st') \<Rightarrow> \<exists>n \<in> set nodes. node_id n = nid \<and> in_play nodes down now n \<and>
        has_room occ n \<and>
        (\<forall>m \<in> set nodes. in_play nodes down now m \<and> has_room occ m \<longrightarrow> priority n \<le> priority m)
   | (Queued, st') \<Rightarrow> st' = st \<and> (\<forall>n \<in> set nodes. in_play nodes down now n \<longrightarrow> \<not> has_room occ n)"
  using place_agent_OnNode [of nodes occ st down now] place_agent_Queued [of nodes occ st down now]
  by (auto split: prod.split placement.split)

abbreviation slots_node :: "string \<Rightarrow> int \<Rightarrow> int \<Rightarrow> agent_node" where
  "slots_node nid p k \<equiv>
     \<lparr>node_id = nid, priority = p, node_capacity = Slots k, paced_admission = False\<rparr>"

lemma place_agent_decides_witness:
  "case place_agent [slots_node ''b'' 2 1, slots_node ''a'' 1 1] Map.empty Map.empty Map.empty 0 of
     (OnNode nid, _) \<Rightarrow> nid = ''a'' | (Queued, _) \<Rightarrow> False"
proof -
  let ?n = "[slots_node ''b'' 2 1, slots_node ''a'' 1 1]"
  have play: "in_play ?n Map.empty 0 m \<and> has_room Map.empty m" if "m \<in> set ?n" for m
    using that by (auto simp: in_play_def node_is_down_def has_room_def occupied_def has_capacity_def)
  show ?thesis
    using place_agent_decides [where nodes = ?n and occ = Map.empty and st = Map.empty
        and down = Map.empty and now = 0] play
    by (auto split: prod.splits placement.splits)
qed

text \<open>
  round-robin is fair. In a tier whose nodes all have room (endpoints that decide their own
  admission), one lap of decisions gives every node exactly one agent: the lap is the tier's
  configuration order rotated to start after the node used last.
\<close>

theorem round_robin_lap:
  assumes "\<forall>n \<in> set nodes. has_capacity n \<and> has_room occ n \<and> priority n = p" and "nodes \<noteq> []"
  shows "place_n nodes occ st now (length nodes) =
    map (\<lambda>n. OnNode (node_id n)) (rotate (probe_index (cursor_start st p) (length nodes) 1) nodes)"
proof (rule nth_equalityI)
  let ?len = "length nodes" and ?s = "cursor_start st p"
  show "length (place_n nodes occ st now ?len) =
      length (map (\<lambda>n. OnNode (node_id n)) (rotate (probe_index ?s ?len 1) nodes))"
    by (simp add: place_n_rotates [OF assms])
  fix j assume "j < length (place_n nodes occ st now ?len)"
  then have j: "j < ?len" by (simp add: place_n_rotates [OF assms])
  have "int ((probe_index ?s ?len 1 + j) mod ?len) = ((?s + 1) mod int ?len + int j) mod int ?len"
    using assms(2) by (simp add: probe_index_def zmod_int)
  also have "\<dots> = int (probe_index ?s ?len (Suc j))"
    using assms(2) by (simp add: probe_index_def mod_simps algebra_simps)
  finally have "(probe_index ?s ?len 1 + j) mod ?len = probe_index ?s ?len (Suc j)" by simp
  then show "place_n nodes occ st now ?len ! j =
      map (\<lambda>n. OnNode (node_id n)) (rotate (probe_index ?s ?len 1) nodes) ! j"
    using j by (simp add: place_n_rotates [OF assms] nth_rotate)
qed

lemma round_robin_lap_witness:
  "place_n [slots_node ''a'' 1 9, slots_node ''b'' 1 9, slots_node ''c'' 1 9] Map.empty [1 \<mapsto> 0] 0 3 =
     [OnNode ''b'', OnNode ''c'', OnNode ''a'']"
  using round_robin_lap [where nodes = "[slots_node ''a'' 1 9, slots_node ''b'' 1 9, slots_node ''c'' 1 9]"
      and occ = Map.empty and p = 1 and st = "[1 \<mapsto> 0]" and now = 0]
  by (simp add: has_capacity_def has_room_def occupied_def cursor_start_def probe_index_def
      numeral_3_eq_3)

end
