(* ===== verification/PlacementQueue.thy ===== *)
theory PlacementQueue
  imports Placement
begin

text \<open>
  The queue in front of the placement decision:
  \<open>sdk/packages/core/src/extensions/tools/team/agent-placement-queue.ts\<close>. Its closure state is
  a record; \<open>acquire\<close>, the three methods of a lease, \<open>markUnreachable\<close>, the probe loop and the
  timers are functions on it. A promise is a number the caller chooses: \<open>q_resolved\<close> and
  \<open>q_rejected\<close> say how each settled. The time is an argument, in milliseconds.

  The decision \<open>place\<close> is an argument too, under the laws of \<open>placement_policy\<close>; the model of
  the code is the instance with \<open>place_agent\<close>.
\<close>

section \<open>State\<close>

definition NODE_REFUSED_HOLD_MS :: nat where
  "NODE_REFUSED_HOLD_MS = 5000"

definition NODE_COOL_OFF_MS :: nat where
  "NODE_COOL_OFF_MS = 30000"

definition NODE_PROBE_INTERVAL_MS :: nat where
  "NODE_PROBE_INTERVAL_MS = 5000"

type_synonym policy =
  "agent_node list \<Rightarrow> occupancy \<Rightarrow> placement_state \<Rightarrow> deadlines \<Rightarrow> nat \<Rightarrow> placement \<times> placement_state"

record placement_lease =
  lease_node :: string
  lease_released :: bool
  lease_pending :: bool

record acquire_options =
  opt_front :: bool
  opt_avoid :: "string option"
  opt_only :: "string option"

record waiter =
  waiter_id :: nat
  waiter_avoid :: "string option"
  waiter_only :: "string option"

datatype rejection = NoAgentCapacity | Cancelled

datatype timer = DrainAt nat | ProbeTickAt string nat

record placement_queue =
  q_nodes :: "agent_node list"
  q_occupancy :: occupancy
  q_down :: deadlines
  q_waiters :: "waiter list"
  q_placement :: placement_state
  q_unadmitted :: occupancy
  q_held :: deadlines
  q_probing :: "string set"
  q_asked :: "string list"
  q_can_probe :: bool
  q_probe_interval :: nat
  q_timers :: "timer list"
  q_leases :: "placement_lease list"
  q_resolved :: "(nat \<times> nat) list"
  q_rejected :: "(nat \<times> rejection) list"

definition create_agent_placement_queue ::
  "agent_node list \<Rightarrow> bool \<Rightarrow> nat option \<Rightarrow> placement_queue" where
  "create_agent_placement_queue configured can_probe interval =
     \<lparr>q_nodes = map cap_lead_tier configured, q_occupancy = Map.empty, q_down = Map.empty,
      q_waiters = [], q_placement = empty_placement_state, q_unadmitted = Map.empty,
      q_held = Map.empty, q_probing = {}, q_asked = [], q_can_probe = can_probe,
      q_probe_interval = opt_default NODE_PROBE_INTERVAL_MS interval, q_timers = [],
      q_leases = [], q_resolved = [], q_rejected = []\<rparr>"

section \<open>Views\<close>

text \<open>An id option in a JavaScript condition: absent and empty are both false.\<close>

definition given :: "string option \<Rightarrow> bool" where
  "given x = (case x of None \<Rightarrow> False | Some s \<Rightarrow> s \<noteq> [])"

definition is_down :: "placement_queue \<Rightarrow> nat \<Rightarrow> string \<Rightarrow> bool" where
  "is_down q now nid = (opt_default 0 (q_down q nid) > now)"

definition is_held :: "placement_queue \<Rightarrow> nat \<Rightarrow> string \<Rightarrow> bool" where
  "is_held q now nid = (opt_default 0 (q_held q nid) > now)"

definition is_paced :: "agent_node \<Rightarrow> bool" where
  "is_paced n = (node_capacity n = Unbounded \<and> paced_admission n)"

text \<open>\<open>Math.min(capacity, running)\<close>.\<close>

fun cap_min :: "capacity \<Rightarrow> nat \<Rightarrow> capacity" where
  "cap_min NaN k = NaN"
| "cap_min Unbounded k = Slots (int k)"
| "cap_min (Slots n) k = Slots (min n (int k))"

definition view_node :: "placement_queue \<Rightarrow> nat \<Rightarrow> agent_node \<Rightarrow> agent_node" where
  "view_node q now n =
     (let running = occupied (q_occupancy q) (node_id n); held = is_held q now (node_id n)
      in if \<not> is_paced n
         then (if held then n\<lparr>node_capacity := cap_min (node_capacity n) running\<rparr> else n)
         else (let pending = occupied (q_unadmitted q) (node_id n) > 0
               in n\<lparr>node_capacity :=
                      Slots (if held \<or> pending then int running else int running + 1)\<rparr>))"

definition queue_view :: "placement_queue \<Rightarrow> nat \<Rightarrow> agent_node list" where
  "queue_view q now = map (view_node q now) (q_nodes q)"

text \<open>A node that reads as full: \<open>{ ...node, capacity: occupancy.get(node.id) ?? 0 }\<close>.\<close>

definition read_full :: "placement_queue \<Rightarrow> agent_node \<Rightarrow> agent_node" where
  "read_full q n = n\<lparr>node_capacity := Slots (int (occupied (q_occupancy q) (node_id n)))\<rparr>"

definition pinned_view :: "placement_queue \<Rightarrow> nat \<Rightarrow> string option \<Rightarrow> agent_node list" where
  "pinned_view q now only =
     map (\<lambda>n. if Some (node_id n) = only then n else read_full q n) (queue_view q now)"

definition avoiding_view :: "placement_queue \<Rightarrow> nat \<Rightarrow> string option \<Rightarrow> agent_node list" where
  "avoiding_view q now avoid =
     map (\<lambda>n. if Some (node_id n) = avoid then read_full q n else n) (queue_view q now)"

definition any_capacity :: "placement_queue \<Rightarrow> bool" where
  "any_capacity q = (\<exists>n \<in> set (q_nodes q). has_capacity n)"

section \<open>Placing and draining\<close>

definition run_place :: "policy \<Rightarrow> nat \<Rightarrow> placement_queue \<Rightarrow> agent_node list \<Rightarrow> placement \<times> placement_state" where
  "run_place place now q nodes = place nodes (q_occupancy q) (q_placement q) (q_down q) now"

definition choose_node ::
  "policy \<Rightarrow> nat \<Rightarrow> placement_queue \<Rightarrow> string option \<Rightarrow> string option \<Rightarrow> placement \<times> placement_state" where
  "choose_node place now q avoid only =
     (let first = (if given only then run_place place now q (pinned_view q now only)
                   else if given avoid then run_place place now q (avoiding_view q now avoid)
                   else run_place place now q (queue_view q now))
      in if \<not> given only \<and> given avoid \<and> fst first = Queued
         then run_place place now q (queue_view q now) else first)"

definition paced_id :: "placement_queue \<Rightarrow> string \<Rightarrow> bool" where
  "paced_id q nid = (\<exists>n \<in> set (q_nodes q). node_id n = nid \<and> is_paced n)"

definition bump :: "string \<Rightarrow> occupancy \<Rightarrow> occupancy" where
  "bump nid m = m(nid \<mapsto> Suc (occupied m nid))"

text \<open>\<open>Math.max(0, count - 1)\<close>: subtraction on naturals.\<close>

definition drop_one :: "string \<Rightarrow> occupancy \<Rightarrow> occupancy" where
  "drop_one nid m = m(nid \<mapsto> occupied m nid - 1)"

definition take_lease :: "string \<Rightarrow> placement_queue \<Rightarrow> placement_queue" where
  "take_lease nid q =
     q\<lparr>q_occupancy := bump nid (q_occupancy q),
       q_unadmitted := (if paced_id q nid then bump nid (q_unadmitted q) else q_unadmitted q),
       q_leases := q_leases q @
         [\<lparr>lease_node = nid, lease_released = False, lease_pending = paced_id q nid\<rparr>]\<rparr>"

definition try_place ::
  "policy \<Rightarrow> nat \<Rightarrow> placement_queue \<Rightarrow> string option \<Rightarrow> string option \<Rightarrow> nat option \<times> placement_queue" where
  "try_place place now q avoid only =
     (let (pl, st) = choose_node place now q avoid only; q' = q\<lparr>q_placement := st\<rparr>
      in case pl of
           Queued \<Rightarrow> (None, q')
         | OnNode nid \<Rightarrow> (Some (length (q_leases q)), take_lease nid q'))"

definition resolve_waiter :: "nat \<Rightarrow> nat \<Rightarrow> placement_queue \<Rightarrow> placement_queue" where
  "resolve_waiter i lid q =
     q\<lparr>q_waiters := remove_at i (q_waiters q),
       q_resolved := q_resolved q @ [(waiter_id (q_waiters q ! i), lid)]\<rparr>"

lemma try_place_waiters [simp]: "q_waiters (snd (try_place place now q avoid only)) = q_waiters q"
  by (simp add: try_place_def take_lease_def Let_def split: prod.split placement.split)

function drain_from :: "policy \<Rightarrow> nat \<Rightarrow> nat \<Rightarrow> placement_queue \<Rightarrow> placement_queue" where
  "drain_from place now i q =
     (if i < length (q_waiters q)
      then (let w = q_waiters q ! i;
                r = try_place place now q (waiter_avoid w) (waiter_only w)
            in case fst r of
                 None \<Rightarrow> if given (waiter_only w) then drain_from place now (Suc i) (snd r)
                         else snd r
               | Some lid \<Rightarrow> drain_from place now i (resolve_waiter i lid (snd r)))
      else q)"
  by pat_completeness auto
termination
  by (relation "measure (\<lambda>(place, now, i, q). length (q_waiters q) - i)")
     (auto simp: resolve_waiter_def)

declare drain_from.simps [simp del]

definition drain :: "policy \<Rightarrow> nat \<Rightarrow> placement_queue \<Rightarrow> placement_queue" where
  "drain place now q = drain_from place now 0 q"

section \<open>The operations\<close>

definition acquire ::
  "policy \<Rightarrow> nat \<Rightarrow> nat \<Rightarrow> bool \<Rightarrow> acquire_options \<Rightarrow> placement_queue \<Rightarrow> placement_queue" where
  "acquire place now pid aborted opts q =
     (if \<not> any_capacity q then q\<lparr>q_rejected := q_rejected q @ [(pid, NoAgentCapacity)]\<rparr>
      else if aborted then q\<lparr>q_rejected := q_rejected q @ [(pid, Cancelled)]\<rparr>
      else
        (let ahead_free = (\<forall>w \<in> set (q_waiters q). given (waiter_only w));
             r = (if ahead_free \<or> opt_front opts \<or> given (opt_only opts)
                  then try_place place now q (opt_avoid opts) (opt_only opts) else (None, q));
             q' = snd r;
             w = \<lparr>waiter_id = pid,
                  waiter_avoid = (if given (opt_avoid opts) then opt_avoid opts else None),
                  waiter_only = (if given (opt_only opts) then opt_only opts else None)\<rparr>
         in case fst r of
              Some lid \<Rightarrow> q'\<lparr>q_resolved := q_resolved q' @ [(pid, lid)]\<rparr>
            | None \<Rightarrow> if opt_front opts then q'\<lparr>q_waiters := w # q_waiters q'\<rparr>
                      else q'\<lparr>q_waiters := q_waiters q' @ [w]\<rparr>))"

text \<open>The abort listener of a waiter that is still waiting.\<close>

definition abort_waiter :: "nat \<Rightarrow> placement_queue \<Rightarrow> placement_queue" where
  "abort_waiter pid q =
     (case find_index (\<lambda>w. waiter_id w = pid) (q_waiters q) of
        None \<Rightarrow> q
      | Some i \<Rightarrow> q\<lparr>q_waiters := remove_at i (q_waiters q),
                    q_rejected := q_rejected q @ [(pid, Cancelled)]\<rparr>)"

definition settle_lease :: "nat \<Rightarrow> placement_queue \<Rightarrow> placement_queue" where
  "settle_lease lid q =
     (let l = q_leases q ! lid
      in if lease_pending l
         then q\<lparr>q_leases := (q_leases q)[lid := l\<lparr>lease_pending := False\<rparr>],
                q_unadmitted := drop_one (lease_node l) (q_unadmitted q)\<rparr>
         else q)"

text \<open>What \<open>release\<close> and \<open>refused\<close> share: mark the lease, settle it, free the slot.\<close>

definition mark_released :: "nat \<Rightarrow> placement_queue \<Rightarrow> placement_queue" where
  "mark_released lid q =
     q\<lparr>q_leases := (q_leases q)[lid := (q_leases q ! lid)\<lparr>lease_released := True\<rparr>]\<rparr>"

definition end_lease :: "nat \<Rightarrow> placement_queue \<Rightarrow> placement_queue" where
  "end_lease lid q =
     (let q1 = settle_lease lid (mark_released lid q)
      in q1\<lparr>q_occupancy := drop_one (lease_node (q_leases q ! lid)) (q_occupancy q1)\<rparr>)"

definition live :: "nat \<Rightarrow> placement_queue \<Rightarrow> bool" where
  "live lid q = (lid < length (q_leases q) \<and> \<not> lease_released (q_leases q ! lid))"

definition release :: "policy \<Rightarrow> nat \<Rightarrow> nat \<Rightarrow> placement_queue \<Rightarrow> placement_queue" where
  "release place now lid q =
     (if \<not> live lid q then q
      else let q1 = end_lease lid q
           in drain place now (q1\<lparr>q_held := (q_held q1)(lease_node (q_leases q ! lid) := None)\<rparr>))"

definition admitted :: "policy \<Rightarrow> nat \<Rightarrow> nat \<Rightarrow> placement_queue \<Rightarrow> placement_queue" where
  "admitted place now lid q =
     (if \<not> live lid q \<or> \<not> lease_pending (q_leases q ! lid) then q
      else drain place now (settle_lease lid q))"

definition refused :: "policy \<Rightarrow> nat \<Rightarrow> nat option \<Rightarrow> nat \<Rightarrow> placement_queue \<Rightarrow> placement_queue" where
  "refused place now hold lid q =
     (if \<not> live lid q then q
      else let until = now + opt_default NODE_REFUSED_HOLD_MS hold; q1 = end_lease lid q
           in drain place now
                (q1\<lparr>q_held := (q_held q1)(lease_node (q_leases q ! lid) \<mapsto> until),
                    q_timers := q_timers q1 @ [DrainAt until]\<rparr>))"

definition probe_while_down :: "nat \<Rightarrow> string \<Rightarrow> placement_queue \<Rightarrow> placement_queue" where
  "probe_while_down now nid q =
     (if \<not> q_can_probe q \<or> nid \<in> q_probing q then q
      else q\<lparr>q_probing := insert nid (q_probing q),
             q_timers := q_timers q @ [ProbeTickAt nid (now + q_probe_interval q)]\<rparr>)"

definition probe_tick :: "nat \<Rightarrow> string \<Rightarrow> placement_queue \<Rightarrow> placement_queue" where
  "probe_tick now nid q =
     (if \<not> is_down q now nid then q\<lparr>q_probing := q_probing q - {nid}\<rparr>
      else q\<lparr>q_asked := q_asked q @ [nid]\<rparr>)"

definition probe_answer :: "policy \<Rightarrow> nat \<Rightarrow> string \<Rightarrow> bool \<Rightarrow> placement_queue \<Rightarrow> placement_queue" where
  "probe_answer place now nid up q =
     (if nid \<notin> set (q_asked q) then q
      else let q1 = q\<lparr>q_asked := remove1 nid (q_asked q)\<rparr>
           in if \<not> is_down q1 now nid then q1\<lparr>q_probing := q_probing q1 - {nid}\<rparr>
              else if up
                then drain place now
                  (q1\<lparr>q_probing := q_probing q1 - {nid}, q_down := (q_down q1)(nid := None)\<rparr>)
              else q1\<lparr>q_timers := q_timers q1 @ [ProbeTickAt nid (now + q_probe_interval q1)]\<rparr>)"

definition mark_unreachable :: "nat \<Rightarrow> string \<Rightarrow> nat option \<Rightarrow> placement_queue \<Rightarrow> placement_queue" where
  "mark_unreachable now nid cool q =
     (if \<not> (\<exists>n \<in> set (q_nodes q). node_id n = nid) then q
      else let until = now + opt_default NODE_COOL_OFF_MS cool;
               q1 = q\<lparr>q_down := (q_down q)(nid \<mapsto> until)\<rparr>;
               q2 = (if cool = None then probe_while_down now nid q1 else q1)
           in q2\<lparr>q_timers := q_timers q2 @ [DrainAt until]\<rparr>)"

text \<open>A timer runs once its time has come.\<close>

definition fire_timer :: "policy \<Rightarrow> nat \<Rightarrow> nat \<Rightarrow> placement_queue \<Rightarrow> placement_queue" where
  "fire_timer place now i q =
     (if \<not> i < length (q_timers q) then q
      else let q1 = q\<lparr>q_timers := remove_at i (q_timers q)\<rparr>
           in case q_timers q ! i of
                DrainAt t \<Rightarrow> if t \<le> now then drain place now q1 else q
              | ProbeTickAt nid t \<Rightarrow> if t \<le> now then probe_tick now nid q1 else q)"

definition has_room_elsewhere :: "policy \<Rightarrow> nat \<Rightarrow> string \<Rightarrow> placement_queue \<Rightarrow> bool" where
  "has_room_elsewhere place now nid q =
     (if \<not> (\<exists>n \<in> set (q_nodes q). node_id n \<noteq> nid) then False
      else case fst (run_place place now q (avoiding_view q now (Some nid))) of
             Queued \<Rightarrow> False
           | OnNode nid' \<Rightarrow> nid' \<noteq> nid \<and> \<not> is_down q now nid')"

record node_state =
  ns_node :: string
  ns_capacity :: capacity
  ns_running :: nat
  ns_down_until :: "nat option"
  ns_held_until :: "nat option"

definition node_states :: "nat \<Rightarrow> placement_queue \<Rightarrow> node_state list" where
  "node_states now q =
     map (\<lambda>n. let down = opt_default 0 (q_down q (node_id n));
                  held = opt_default 0 (q_held q (node_id n))
              in \<lparr>ns_node = node_id n, ns_capacity = node_capacity n,
                  ns_running = occupied (q_occupancy q) (node_id n),
                  ns_down_until = (if down > now then Some down else None),
                  ns_held_until = (if held > now then Some held else None)\<rparr>) (q_nodes q)"

datatype queue_event =
    Acquire nat bool acquire_options
  | AbortWaiter nat
  | Release nat
  | Admitted nat
  | Refused nat "nat option"
  | MarkUnreachable string "nat option"
  | ProbeAnswer string bool
  | FireTimer nat

fun queue_step :: "policy \<Rightarrow> nat \<times> queue_event \<Rightarrow> placement_queue \<Rightarrow> placement_queue" where
  "queue_step place (now, Acquire pid aborted opts) q = acquire place now pid aborted opts q"
| "queue_step place (now, AbortWaiter pid) q = abort_waiter pid q"
| "queue_step place (now, Release lid) q = release place now lid q"
| "queue_step place (now, Admitted lid) q = admitted place now lid q"
| "queue_step place (now, Refused lid hold) q = refused place now hold lid q"
| "queue_step place (now, MarkUnreachable nid cool) q = mark_unreachable now nid cool q"
| "queue_step place (now, ProbeAnswer nid up) q = probe_answer place now nid up q"
| "queue_step place (now, FireTimer i) q = fire_timer place now i q"

section \<open>The ledger\<close>

text \<open>
  The occupancy the queue keeps is a count of leases, and the bound of each node is respected:
  its capacity where it has one, one agent between placement and admission where it is paced.
\<close>

definition live_on :: "placement_queue \<Rightarrow> string \<Rightarrow> nat" where
  "live_on q nid =
     length (filter (\<lambda>l. lease_node l = nid \<and> \<not> lease_released l) (q_leases q))"

definition pending_on :: "placement_queue \<Rightarrow> string \<Rightarrow> nat" where
  "pending_on q nid =
     length (filter (\<lambda>l. lease_node l = nid \<and> lease_pending l) (q_leases q))"

definition within_bound :: "placement_queue \<Rightarrow> agent_node \<Rightarrow> bool" where
  "within_bound q n =
     (if is_paced n then pending_on q (node_id n) \<le> 1
      else case node_capacity n of
             NaN \<Rightarrow> live_on q (node_id n) = 0
           | Unbounded \<Rightarrow> True
           | Slots k \<Rightarrow> int (live_on q (node_id n)) \<le> max 0 k)"

definition ledger_ok :: "placement_queue \<Rightarrow> bool" where
  "ledger_ok q \<longleftrightarrow>
     distinct (map node_id (q_nodes q)) \<and>
     (\<forall>nid. occupied (q_occupancy q) nid = live_on q nid) \<and>
     (\<forall>nid. occupied (q_unadmitted q) nid = pending_on q nid) \<and>
     (\<forall>l \<in> set (q_leases q). lease_pending l \<longrightarrow> \<not> lease_released l) \<and>
     (\<forall>n \<in> set (q_nodes q). within_bound q n)"

lemma ledger_okI:
  assumes "distinct (map node_id (q_nodes q))"
    and "\<And>nid. occupied (q_occupancy q) nid = live_on q nid"
    and "\<And>nid. occupied (q_unadmitted q) nid = pending_on q nid"
    and "\<And>l. l \<in> set (q_leases q) \<Longrightarrow> lease_pending l \<Longrightarrow> \<not> lease_released l"
    and "\<And>n. n \<in> set (q_nodes q) \<Longrightarrow> within_bound q n"
  shows "ledger_ok q"
  using assms by (simp add: ledger_ok_def)

lemma ledger_okD:
  assumes "ledger_ok q"
  shows "distinct (map node_id (q_nodes q))"
    and "occupied (q_occupancy q) nid = live_on q nid"
    and "occupied (q_unadmitted q) nid = pending_on q nid"
    and "l \<in> set (q_leases q) \<Longrightarrow> lease_pending l \<Longrightarrow> \<not> lease_released l"
    and "n \<in> set (q_nodes q) \<Longrightarrow> within_bound q n"
  using assms by (simp_all add: ledger_ok_def)

lemma occupied_bump [simp]:
  "occupied (bump nid m) x = (if x = nid then Suc (occupied m x) else occupied m x)"
  by (simp add: bump_def occupied_def)

lemma occupied_drop_one [simp]:
  "occupied (drop_one nid m) x = (if x = nid then occupied m x - 1 else occupied m x)"
  by (simp add: drop_one_def occupied_def)

lemma live_on_take [simp]:
  "live_on (take_lease nid q) x = (if x = nid then Suc (live_on q x) else live_on q x)"
  by (simp add: live_on_def take_lease_def)

lemma pending_on_take [simp]:
  "pending_on (take_lease nid q) x =
     (if x = nid \<and> paced_id q nid then Suc (pending_on q x) else pending_on q x)"
  by (auto simp: pending_on_def take_lease_def)

lemma live_on_settle [simp]: "lid < length (q_leases q) \<Longrightarrow> live_on (settle_lease lid q) x = live_on q x"
  using length_filter_update [of lid "q_leases q" "\<lambda>l. lease_node l = x \<and> \<not> lease_released l"
      "(q_leases q ! lid)\<lparr>lease_pending := False\<rparr>"]
  by (simp add: live_on_def settle_lease_def Let_def split: if_splits)

lemma pending_on_settle:
  "lid < length (q_leases q) \<Longrightarrow> pending_on (settle_lease lid q) x =
     (if lease_pending (q_leases q ! lid) \<and> x = lease_node (q_leases q ! lid)
      then pending_on q x - 1 else pending_on q x)"
  using length_filter_update [of lid "q_leases q" "\<lambda>l. lease_node l = x \<and> lease_pending l"
      "(q_leases q ! lid)\<lparr>lease_pending := False\<rparr>"]
  by (auto simp: pending_on_def settle_lease_def Let_def split: if_splits)

lemma live_on_mark:
  "live lid q \<Longrightarrow> live_on (mark_released lid q) x =
     (if x = lease_node (q_leases q ! lid) then live_on q x - 1 else live_on q x)"
  using length_filter_update [of lid "q_leases q" "\<lambda>l. lease_node l = x \<and> \<not> lease_released l"
      "(q_leases q ! lid)\<lparr>lease_released := True\<rparr>"]
  by (auto simp: live_on_def live_def mark_released_def split: if_splits)

lemma pending_on_mark:
  "live lid q \<Longrightarrow> pending_on (mark_released lid q) x = pending_on q x"
  using length_filter_update [of lid "q_leases q" "\<lambda>l. lease_node l = x \<and> lease_pending l"
      "(q_leases q ! lid)\<lparr>lease_released := True\<rparr>"]
  by (auto simp: pending_on_def live_def mark_released_def split: if_splits)

lemma mark_released_frame [simp]:
  "q_nodes (mark_released lid q) = q_nodes q" "q_waiters (mark_released lid q) = q_waiters q"
  "q_timers (mark_released lid q) = q_timers q" "q_held (mark_released lid q) = q_held q"
  "q_occupancy (mark_released lid q) = q_occupancy q"
  "q_unadmitted (mark_released lid q) = q_unadmitted q"
  "length (q_leases (mark_released lid q)) = length (q_leases q)"
  "lid < length (q_leases q) \<Longrightarrow>
     q_leases (mark_released lid q) ! lid = (q_leases q ! lid)\<lparr>lease_released := True\<rparr>"
  by (simp_all add: mark_released_def)

lemma live_on_cong [simp]: "live_on (q\<lparr>q_occupancy := a\<rparr>) x = live_on q x"
  by (simp add: live_on_def)

lemma pending_on_cong [simp]: "pending_on (q\<lparr>q_occupancy := a\<rparr>) x = pending_on q x"
  by (simp add: pending_on_def)

lemma live_lid: "live lid q \<Longrightarrow> lid < length (q_leases q)"
  by (simp add: live_def)

lemma live_on_end:
  "live lid q \<Longrightarrow> live_on (end_lease lid q) x =
     (if x = lease_node (q_leases q ! lid) then live_on q x - 1 else live_on q x)"
  using live_lid [of lid q] by (simp add: end_lease_def Let_def live_on_mark)

lemma pending_on_end:
  "live lid q \<Longrightarrow> pending_on (end_lease lid q) x =
     (if lease_pending (q_leases q ! lid) \<and> x = lease_node (q_leases q ! lid)
      then pending_on q x - 1 else pending_on q x)"
  using live_lid [of lid q] by (simp add: end_lease_def Let_def pending_on_settle pending_on_mark)

lemma settle_lease_frame [simp]:
  "q_nodes (settle_lease lid q) = q_nodes q" "q_waiters (settle_lease lid q) = q_waiters q"
  "q_timers (settle_lease lid q) = q_timers q" "q_held (settle_lease lid q) = q_held q"
  "q_occupancy (settle_lease lid q) = q_occupancy q"
  by (simp_all add: settle_lease_def Let_def)

lemma end_lease_frame [simp]:
  "q_nodes (end_lease lid q) = q_nodes q" "q_waiters (end_lease lid q) = q_waiters q"
  "q_timers (end_lease lid q) = q_timers q" "q_held (end_lease lid q) = q_held q"
  by (simp_all add: end_lease_def Let_def)

lemma within_bound_mono:
  "within_bound q n \<Longrightarrow> live_on q' (node_id n) \<le> live_on q (node_id n) \<Longrightarrow>
     pending_on q' (node_id n) \<le> pending_on q (node_id n) \<Longrightarrow> within_bound q' n"
  by (auto simp: within_bound_def split: capacity.splits if_splits)

lemma occupied_settle:
  "lid < length (q_leases q) \<Longrightarrow> occupied (q_unadmitted (settle_lease lid q)) x =
     (if lease_pending (q_leases q ! lid) \<and> x = lease_node (q_leases q ! lid)
      then occupied (q_unadmitted q) x - 1 else occupied (q_unadmitted q) x)"
  by (simp add: settle_lease_def Let_def)

lemma occupied_end:
  "lid < length (q_leases q) \<Longrightarrow> occupied (q_unadmitted (end_lease lid q)) x =
     (if lease_pending (q_leases q ! lid) \<and> x = lease_node (q_leases q ! lid)
      then occupied (q_unadmitted q) x - 1 else occupied (q_unadmitted q) x)"
  "occupied (q_occupancy (end_lease lid q)) x =
     (if x = lease_node (q_leases q ! lid) then occupied (q_occupancy q) x - 1
      else occupied (q_occupancy q) x)"
  by (simp_all add: end_lease_def Let_def occupied_settle)

lemma settle_lease_pending:
  assumes "l \<in> set (q_leases (settle_lease lid q))" and "lease_pending l"
  shows "l \<in> set (q_leases q)"
  using assms by (auto simp: settle_lease_def Let_def split: if_splits
      dest!: set_update_subset_insert [THEN subsetD])

lemma settle_lease_other:
  assumes "l \<in> set (q_leases (settle_lease lid (mark_released lid q)))" and "lease_pending l"
    and "lid < length (q_leases q)"
  shows "l \<in> set (q_leases q)"
proof -
  have "l \<in> insert ((q_leases q ! lid)\<lparr>lease_released := True, lease_pending := False\<rparr>)
      (if lease_pending (q_leases q ! lid) then set (q_leases q)
       else insert ((q_leases q ! lid)\<lparr>lease_released := True\<rparr>) (set (q_leases q)))"
    using assms(1,3)
    by (auto simp: settle_lease_def mark_released_def Let_def split: if_splits
        dest!: set_update_subset_insert [THEN subsetD])
  with assms(2) show ?thesis by (auto split: if_splits)
qed

lemma ledger_ok_settle:
  assumes "ledger_ok q" and lid: "lid < length (q_leases q)"
  shows "ledger_ok (settle_lease lid q)"
proof (rule ledger_okI)
  show "within_bound (settle_lease lid q) n" if "n \<in> set (q_nodes (settle_lease lid q))" for n
    by (rule within_bound_mono [of q])
      (use that lid ledger_okD(5) [OF assms(1)] in \<open>simp_all add: pending_on_settle\<close>)
  show "\<not> lease_released l"
    if "l \<in> set (q_leases (settle_lease lid q))" "lease_pending l" for l
    using settle_lease_pending [OF that] that(2) ledger_okD(4) [OF assms(1)] by blast
qed (use lid in \<open>simp_all add: occupied_settle pending_on_settle ledger_okD [OF assms(1)]\<close>)

lemma ledger_ok_end:
  assumes "ledger_ok q" and "live lid q"
  shows "ledger_ok (end_lease lid q)"
proof (rule ledger_okI)
  have lid: "lid < length (q_leases q)" using assms(2) by (rule live_lid)
  show "within_bound (end_lease lid q) n" if "n \<in> set (q_nodes (end_lease lid q))" for n
    by (rule within_bound_mono [of q])
      (use that assms(2) ledger_okD(5) [OF assms(1)] in
        \<open>simp_all add: pending_on_end live_on_end\<close>)
  show "\<not> lease_released l"
    if "l \<in> set (q_leases (end_lease lid q))" "lease_pending l" for l
    using settle_lease_other [OF _ that(2) lid] that ledger_okD(4) [OF assms(1)]
    by (auto simp: end_lease_def Let_def)
qed (use assms(2) live_lid in
    \<open>simp_all add: occupied_end pending_on_end live_on_end ledger_okD [OF assms(1)]\<close>)

lemma ledger_ok_frame:
  assumes "ledger_ok q" and "q_nodes q' = q_nodes q" and "q_occupancy q' = q_occupancy q"
    and "q_unadmitted q' = q_unadmitted q" and "q_leases q' = q_leases q"
  shows "ledger_ok q'"
proof -
  have "live_on q' = live_on q" "pending_on q' = pending_on q"
    using assms(5) by (simp_all add: fun_eq_iff live_on_def pending_on_def)
  then have "within_bound q' = within_bound q"
    by (intro ext) (simp only: within_bound_def)
  with assms \<open>live_on q' = live_on q\<close> \<open>pending_on q' = pending_on q\<close> show ?thesis
    by (simp add: ledger_ok_def)
qed

text \<open>The frame of the operations that only touch the waiters, the timers and the marks.\<close>

lemma ledger_ok_updates [simp]:
  "ledger_ok (q\<lparr>q_waiters := a\<rparr>) = ledger_ok q"
  "ledger_ok (q\<lparr>q_resolved := b\<rparr>) = ledger_ok q"
  "ledger_ok (q\<lparr>q_rejected := c\<rparr>) = ledger_ok q"
  "ledger_ok (q\<lparr>q_timers := d\<rparr>) = ledger_ok q"
  "ledger_ok (q\<lparr>q_held := e\<rparr>) = ledger_ok q"
  "ledger_ok (q\<lparr>q_down := e\<rparr>) = ledger_ok q"
  "ledger_ok (q\<lparr>q_probing := f\<rparr>) = ledger_ok q"
  "ledger_ok (q\<lparr>q_asked := g\<rparr>) = ledger_ok q"
  "ledger_ok (q\<lparr>q_placement := h\<rparr>) = ledger_ok q"
  by (auto intro: ledger_ok_frame)

lemma take_lease_sel [simp]:
  "q_nodes (take_lease nid q) = q_nodes q" "q_waiters (take_lease nid q) = q_waiters q"
  "q_timers (take_lease nid q) = q_timers q" "q_held (take_lease nid q) = q_held q"
  "q_resolved (take_lease nid q) = q_resolved q"
  "q_occupancy (take_lease nid q) = bump nid (q_occupancy q)"
  "q_unadmitted (take_lease nid q) =
     (if paced_id q nid then bump nid (q_unadmitted q) else q_unadmitted q)"
  "q_leases (take_lease nid q) = q_leases q @
     [\<lparr>lease_node = nid, lease_released = False, lease_pending = paced_id q nid\<rparr>]"
  by (simp_all add: take_lease_def)

text \<open>The room a placement needs: what the view grants a node of the queue.\<close>

definition grants :: "placement_queue \<Rightarrow> agent_node \<Rightarrow> bool" where
  "grants q n \<longleftrightarrow>
     (if is_paced n then occupied (q_unadmitted q) (node_id n) = 0
      else has_room (q_occupancy q) n)"

lemma read_full_no_room [simp]: "\<not> has_room (q_occupancy q) (read_full q n)"
  by (simp add: has_room_def read_full_def)

lemma read_full_id [simp]: "node_id (read_full q n) = node_id n"
  by (simp add: read_full_def)

lemma view_node_id [simp]: "node_id (view_node q now n) = node_id n"
  by (simp add: view_node_def Let_def)

lemma view_node_room:
  "has_room (q_occupancy q) (view_node q now n) \<Longrightarrow> grants q n"
  by (cases "node_capacity n")
     (auto simp: has_room_def view_node_def grants_def Let_def split: if_splits)

lemma ledger_ok_take:
  assumes "ledger_ok q" and n: "n \<in> set (q_nodes q)" and "grants q n" and nid: "nid = node_id n"
  shows "ledger_ok (take_lease nid q)"
proof (rule ledger_okI)
  have uniq: "m = n" if "m \<in> set (q_nodes q)" "node_id m = node_id n" for m
    using ledger_okD(1) [OF assms(1)] n that by (auto simp: distinct_map inj_on_def)
  then have paced: "paced_id q nid \<longleftrightarrow> is_paced n" using n nid by (auto simp: paced_id_def)
  show "within_bound (take_lease nid q) m" if "m \<in> set (q_nodes (take_lease nid q))" for m
  proof (cases "m = n")
    case True
    have "within_bound q n" using n by (rule ledger_okD(5) [OF assms(1)])
    moreover have counts: "occupied (q_occupancy q) (node_id n) = live_on q (node_id n)"
        "occupied (q_unadmitted q) (node_id n) = pending_on q (node_id n)"
      by (rule ledger_okD(2,3) [OF assms(1)])+
    ultimately have "within_bound (take_lease nid q) n"
    proof (cases "is_paced n")
      case True
      with assms(3) counts(2) show ?thesis by (auto simp: within_bound_def grants_def)
    next
      case False
      with assms(3) counts(1) show ?thesis
        by (cases "node_capacity n") (simp_all add: within_bound_def grants_def has_room_def nid)
    qed
    with True show ?thesis by simp
  next
    case False
    from that have m: "m \<in> set (q_nodes q)" by (simp add: take_lease_def)
    with uniq False nid have "node_id m \<noteq> nid" by blast
    with ledger_okD(5) [OF assms(1) m] show ?thesis
      by (elim within_bound_mono) simp_all
  qed
  show "\<not> lease_released l" if "l \<in> set (q_leases (take_lease nid q))" "lease_pending l" for l
    using that ledger_okD(4) [OF assms(1)] by auto
qed (simp_all add: ledger_okD [OF assms(1)])

lemma try_place_None:
  "fst (try_place place now q avoid only) = None \<longleftrightarrow>
     fst (choose_node place now q avoid only) = Queued"
  by (auto simp: try_place_def Let_def split: prod.split placement.split)

lemma try_place_cases:
  obtains (full) st where "try_place place now q avoid only = (None, q\<lparr>q_placement := st\<rparr>)"
      "fst (choose_node place now q avoid only) = Queued"
  | (placed) nid st where "choose_node place now q avoid only = (OnNode nid, st)"
      "try_place place now q avoid only =
         (Some (length (q_leases q)), take_lease nid (q\<lparr>q_placement := st\<rparr>))"
proof (cases "choose_node place now q avoid only")
  case (Pair pl st)
  show ?thesis
  proof (cases pl)
    case (OnNode nid)
    with Pair show ?thesis by (intro placed) (simp_all add: try_place_def Let_def)
  next
    case Queued
    with Pair show ?thesis by (intro full [of st]) (simp_all add: try_place_def Let_def)
  qed
qed

lemma grants_placement [simp]: "grants (q\<lparr>q_placement := st\<rparr>) n = grants q n"
  by (simp add: grants_def)

text \<open>
  The loop as a relation between the state it starts from and the one it ends in, with one rule
  per way an iteration can go; every fact about a drain is an induction over it.
\<close>

lemma drain_from_rule [case_names finish skip stop serve]:
  assumes finish: "\<And>i q. \<not> i < length (q_waiters q) \<Longrightarrow> P i q q"
    and skip: "\<And>i q q1 r. i < length (q_waiters q) \<Longrightarrow>
      try_place place now q (waiter_avoid (q_waiters q ! i)) (waiter_only (q_waiters q ! i)) = (None, q1) \<Longrightarrow>
      given (waiter_only (q_waiters q ! i)) \<Longrightarrow> P (Suc i) q1 r \<Longrightarrow> P i q r"
    and stop: "\<And>i q q1. i < length (q_waiters q) \<Longrightarrow>
      try_place place now q (waiter_avoid (q_waiters q ! i)) (waiter_only (q_waiters q ! i)) = (None, q1) \<Longrightarrow>
      \<not> given (waiter_only (q_waiters q ! i)) \<Longrightarrow> P i q q1"
    and serve: "\<And>i q q1 lid r. i < length (q_waiters q) \<Longrightarrow>
      try_place place now q (waiter_avoid (q_waiters q ! i)) (waiter_only (q_waiters q ! i)) = (Some lid, q1) \<Longrightarrow>
      P i (resolve_waiter i lid q1) r \<Longrightarrow> P i q r"
  shows "P i q (drain_from place now i q)"
proof -
  have "P i q (drain_from pl t i q)" if "pl = place" "t = now" for pl t
    using that
  proof (induction pl t i q rule: drain_from.induct)
    case (1 pl t i q)
    let ?w = "q_waiters q ! i"
    obtain o1 q1 where tp: "try_place place now q (waiter_avoid ?w) (waiter_only ?w) = (o1, q1)"
      by (cases "try_place place now q (waiter_avoid ?w) (waiter_only ?w)")
    show ?case
    proof (cases "i < length (q_waiters q)")
      case False
      with finish show ?thesis by (simp add: drain_from.simps)
    next
      case True
      note unfold = drain_from.simps [of pl t i q] "1.prems" tp True
      show ?thesis
      proof (cases o1)
        case None
        show ?thesis
        proof (cases "given (waiter_only ?w)")
          case True
          with None unfold have "drain_from pl t i q = drain_from pl t (Suc i) q1" by simp
          moreover have "P (Suc i) q1 (drain_from pl t (Suc i) q1)"
            using "1.IH"(1) [OF \<open>i < _\<close> refl refl] None True tp "1.prems" by simp
          ultimately show ?thesis using skip [OF \<open>i < _\<close> _ True] tp None by simp
        next
          case False
          with None unfold have "drain_from pl t i q = q1" by simp
          with stop [OF \<open>i < _\<close> _ False] tp None show ?thesis by simp
        qed
      next
        case (Some lid)
        with unfold have "drain_from pl t i q = drain_from pl t i (resolve_waiter i lid q1)" by simp
        moreover have "P i (resolve_waiter i lid q1) (drain_from pl t i (resolve_waiter i lid q1))"
          using "1.IH"(2) [OF \<open>i < _\<close> refl refl] Some tp "1.prems" by simp
        ultimately show ?thesis using serve [OF \<open>i < _\<close>] tp Some by simp
      qed
    qed
  qed
  then show ?thesis by simp
qed

text \<open>Any invariant of the primitive steps survives a drain.\<close>

lemma drain_from_inv:
  assumes place: "\<And>q avoid only. P q \<Longrightarrow> P (snd (try_place place now q avoid only))"
    and resolve: "\<And>i lid q. P q \<Longrightarrow> P (resolve_waiter i lid q)"
  shows "P q \<Longrightarrow> P (drain_from place now i q)"
proof (rule drain_from_rule [of "\<lambda>i q r. P q \<longrightarrow> P r", THEN mp], goal_cases)
  case (3 i q q1) then show ?case using place [of q] by (metis snd_conv)
next
  case (2 i q q1 r) then show ?case using place [of q] by (metis snd_conv)
next
  case (4 i q q1 lid r) then show ?case using place [of q] resolve by (metis snd_conv)
qed simp_all

context placement_policy
begin

lemma run_place_grants:
  assumes "run_place place now q vs = (OnNode nid, st)"
    and "\<forall>v \<in> set vs. has_room (q_occupancy q) v \<longrightarrow>
      (\<exists>n \<in> set (q_nodes q). node_id n = node_id v \<and> grants q n)"
  shows "\<exists>n \<in> set (q_nodes q). node_id n = nid \<and> grants q n"
  using placed_has_room [of vs "q_occupancy q" "q_placement q" "q_down q" now nid st] assms
  by (auto simp: run_place_def)

lemma choose_node_grants:
  assumes "choose_node place now q avoid only = (OnNode nid, st)"
  shows "\<exists>n \<in> set (q_nodes q). node_id n = nid \<and> grants q n"
proof -
  have "\<exists>n \<in> set (q_nodes q). node_id n = nid \<and> grants q n"
    if "run_place place now q vs = (OnNode nid, st)"
      "vs \<in> {pinned_view q now only, avoiding_view q now avoid, queue_view q now}" for vs
  proof (rule run_place_grants [OF that(1)], intro ballI impI)
    fix v assume v: "v \<in> set vs" and room: "has_room (q_occupancy q) v"
    from v that(2) obtain n where "n \<in> set (q_nodes q)" "v = view_node q now n \<or> v = read_full q (view_node q now n)"
      by (auto simp: pinned_view_def avoiding_view_def queue_view_def split: if_splits)
    with room show "\<exists>n \<in> set (q_nodes q). node_id n = node_id v \<and> grants q n"
      using view_node_room by fastforce
  qed
  with assms show ?thesis
    unfolding choose_node_def Let_def by (simp split: if_splits)
qed

lemma ledger_ok_try_place:
  assumes "ledger_ok q"
  shows "ledger_ok (snd (try_place place now q avoid only))"
proof (cases rule: try_place_cases [of place now q avoid only])
  case (full st)
  with assms show ?thesis by simp
next
  case (placed nid st)
  from choose_node_grants [OF placed(1)] obtain n
    where "n \<in> set (q_nodes q)" "node_id n = nid" "grants q n" by blast
  with assms placed(2) show ?thesis
    using ledger_ok_take [of "q\<lparr>q_placement := st\<rparr>" n nid] by simp
qed

lemma ledger_ok_drain: "ledger_ok q \<Longrightarrow> ledger_ok (drain place now q)"
  unfolding drain_def
  by (rule drain_from_inv) (simp_all add: ledger_ok_try_place resolve_waiter_def)

theorem ledger_ok_step:
  assumes "ledger_ok q"
  shows "ledger_ok (queue_step place te q)"
proof -
  obtain now e where te: "te = (now, e)" by (cases te)
  show ?thesis
  proof (cases e)
    case (Acquire pid aborted opts)
    with assms te show ?thesis
      by (simp add: acquire_def Let_def ledger_ok_try_place split: option.split)
  next
    case (AbortWaiter pid)
    with assms te show ?thesis by (simp add: abort_waiter_def split: option.split)
  next
    case (Release lid)
    with assms te show ?thesis
      by (simp add: release_def Let_def ledger_ok_drain ledger_ok_end)
  next
    case (Admitted lid)
    with assms te show ?thesis
      by (simp add: admitted_def ledger_ok_drain ledger_ok_settle live_lid)
  next
    case (Refused lid hold)
    with assms te show ?thesis
      by (simp add: refused_def Let_def ledger_ok_drain ledger_ok_end)
  next
    case (MarkUnreachable nid cool)
    with assms te show ?thesis
      by (simp add: mark_unreachable_def probe_while_down_def Let_def)
  next
    case (ProbeAnswer nid up)
    with assms te show ?thesis by (simp add: probe_answer_def Let_def ledger_ok_drain)
  next
    case (FireTimer i)
    with assms te show ?thesis
      by (simp add: fire_timer_def probe_tick_def Let_def ledger_ok_drain split: timer.split)
  qed
qed

end

section \<open>No waiter is stranded\<close>

text \<open>
  An agent that may go anywhere waits only while something is coming that will look at the
  queue again: an agent that is running and will release its slot, or a scheduled drain. The
  second half needs each refusal that still holds a node to have its drain on the timers.
\<close>

definition open_waiter :: "waiter \<Rightarrow> bool" where
  "open_waiter w = (\<not> given (waiter_only w))"

definition wake_up_coming :: "placement_queue \<Rightarrow> bool" where
  "wake_up_coming q \<longleftrightarrow>
     (\<exists>lid < length (q_leases q). live lid q) \<or> (\<exists>t \<in> set (q_timers q). case t of DrainAt _ \<Rightarrow> True | _ \<Rightarrow> False)"

definition holds_covered :: "nat \<Rightarrow> placement_queue \<Rightarrow> bool" where
  "holds_covered now q \<longleftrightarrow>
     (\<forall>nid t. q_held q nid = Some t \<and> now < t \<longrightarrow> DrainAt t \<in> set (q_timers q))"

definition not_stranded :: "placement_queue \<Rightarrow> bool" where
  "not_stranded q \<longleftrightarrow>
     (q_waiters q \<noteq> [] \<longrightarrow> any_capacity q) \<and>
     ((\<exists>w \<in> set (q_waiters q). open_waiter w) \<longrightarrow> wake_up_coming q)"

lemma no_live_no_count:
  assumes "ledger_ok q" and "\<not> (\<exists>lid < length (q_leases q). live lid q)"
  shows "occupied (q_occupancy q) nid = 0" and "occupied (q_unadmitted q) nid = 0"
proof -
  have rel: "lease_released l" if "l \<in> set (q_leases q)" for l
    using that assms(2) by (auto simp: live_def in_set_conv_nth)
  then show "occupied (q_occupancy q) nid = 0"
    by (simp add: ledger_okD(2) [OF assms(1)] live_on_def filter_empty_conv)
  from rel show "occupied (q_unadmitted q) nid = 0"
    using ledger_okD(4) [OF assms(1)]
    by (auto simp: ledger_okD(3) [OF assms(1)] pending_on_def filter_empty_conv)
qed

text \<open>In an empty queue a node reads as room exactly when it has capacity and is not held.\<close>

lemma empty_view:
  assumes "occupied (q_occupancy q) (node_id n) = 0" and "occupied (q_unadmitted q) (node_id n) = 0"
  shows "has_capacity (view_node q now n) \<longleftrightarrow> has_capacity n \<and> \<not> is_held q now (node_id n)"
    and "has_room (q_occupancy q) (view_node q now n) \<longleftrightarrow> has_capacity n \<and> \<not> is_held q now (node_id n)"
proof -
  show "has_capacity (view_node q now n) \<longleftrightarrow> has_capacity n \<and> \<not> is_held q now (node_id n)"
    by (cases "node_capacity n")
       (simp_all add: assms view_node_def has_capacity_def is_paced_def Let_def)
  then show "has_room (q_occupancy q) (view_node q now n) \<longleftrightarrow> has_capacity n \<and> \<not> is_held q now (node_id n)"
    by (simp add: has_capacity_def has_room_def assms(1))
qed

lemma is_held_covered:
  "holds_covered now q \<Longrightarrow> is_held q now nid \<Longrightarrow> wake_up_coming q"
  by (cases "q_held q nid")
     (auto simp: holds_covered_def is_held_def wake_up_coming_def split: timer.splits intro!: bexI)

lemma is_down_view [simp]:
  "node_is_down d now (view_node q now' n) = node_is_down d now n"
  by (simp add: node_is_down_def)

lemma wake_up_coming_placement [simp]:
  "wake_up_coming (q\<lparr>q_placement := st\<rparr>) = wake_up_coming q"
  by (simp add: wake_up_coming_def live_def)

lemma any_capacity_cong: "q_nodes q' = q_nodes q \<Longrightarrow> any_capacity q' = any_capacity q"
  by (simp add: any_capacity_def)

context placement_policy
begin

lemma open_waiter_blocked:
  assumes ok: "ledger_ok q" and cover: "holds_covered now q" and cap: "any_capacity q"
    and full: "try_place place now q avoid only = (None, q1)" and "\<not> given only"
  shows "wake_up_coming q"
proof (rule ccontr)
  assume no: "\<not> wake_up_coming q"
  then have none: "\<not> (\<exists>lid < length (q_leases q). live lid q)"
    by (auto simp: wake_up_coming_def)
  note zero = no_live_no_count [OF ok none]
  have free: "\<not> is_held q now nid" for nid
    using is_held_covered [OF cover] no by blast
  have "fst (run_place place now q (queue_view q now)) = Queued"
    using full assms(5) try_place_None [of place now q avoid only]
    by (auto simp: choose_node_def Let_def split: if_splits)
  then obtain st where q: "place (queue_view q now) (q_occupancy q) (q_placement q) (q_down q) now
      = (Queued, st)"
    by (metis prod.collapse run_place_def)
  have skip: "\<not> in_play (queue_view q now) (q_down q) now (view_node q now n)"
    if "n \<in> set (q_nodes q)" "has_capacity n" for n
    using queued_full [OF q, of "view_node q now n"] that empty_view(2) [OF zero] free
    by (auto simp: queue_view_def)
  from cap obtain n where n: "n \<in> set (q_nodes q)" "has_capacity n"
    by (auto simp: any_capacity_def)
  then have "honour_down (queue_view q now) (q_down q) now"
    using skip [OF n] empty_view(1) [OF zero] free by (auto simp: in_play_def)
  then obtain m where "m \<in> set (q_nodes q)" "has_capacity (view_node q now m)"
      "\<not> node_is_down (q_down q) now (view_node q now m)"
    by (auto simp: honour_down_def queue_view_def)
  with skip [of m] empty_view(1) [OF zero] show False by (auto simp: in_play_def)
qed

lemma try_place_frame:
  assumes "try_place place now q avoid only = (r, q1)"
  shows "q_nodes q1 = q_nodes q" and "q_timers q1 = q_timers q" and "q_held q1 = q_held q"
    and "q_waiters q1 = q_waiters q" and "q_resolved q1 = q_resolved q"
  using assms
  by (auto simp: try_place_def Let_def take_lease_def split: prod.splits placement.splits)

lemma try_place_Some_live:
  assumes "try_place place now q avoid only = (Some lid, q1)"
  shows "live lid q1"
  using assms by (auto simp: try_place_def Let_def live_def split: prod.splits placement.splits)

lemma try_place_None_wake:
  assumes "try_place place now q avoid only = (None, q1)"
  shows "wake_up_coming q1 = wake_up_coming q"
  using assms by (auto simp: try_place_def Let_def split: prod.splits placement.splits)

lemma drain_not_stranded:
  assumes "ledger_ok q" and "holds_covered now q" and "q_waiters q \<noteq> [] \<longrightarrow> any_capacity q"
  shows "not_stranded (drain place now q) \<and> holds_covered now (drain place now q)"
proof -
  have "ledger_ok q \<and> holds_covered now q \<and> (q_waiters q \<noteq> [] \<longrightarrow> any_capacity q) \<and>
      (\<forall>j < i. j < length (q_waiters q) \<longrightarrow> \<not> open_waiter (q_waiters q ! j)) \<longrightarrow>
      not_stranded (drain_from place now i q) \<and> holds_covered now (drain_from place now i q)" for i
  proof (rule drain_from_rule [of "\<lambda>i q r. ledger_ok q \<and> holds_covered now q \<and>
        (q_waiters q \<noteq> [] \<longrightarrow> any_capacity q) \<and>
        (\<forall>j < i. j < length (q_waiters q) \<longrightarrow> \<not> open_waiter (q_waiters q ! j)) \<longrightarrow>
        not_stranded r \<and> holds_covered now r"], goal_cases)
    case (1 i q)
    then show ?case by (auto simp: not_stranded_def in_set_conv_nth)
  next
    case (2 i q q1 r)
    have "ledger_ok q1" if "ledger_ok q" using ledger_ok_try_place [OF that] 2(2) by (metis snd_conv)
    with 2 show ?case
      by (auto simp: try_place_frame [OF 2(2)] holds_covered_def any_capacity_def open_waiter_def
          less_Suc_eq)
  next
    case (3 i q q1)
    then show ?case
      using open_waiter_blocked [OF _ _ _ 3(2,3)] try_place_None_wake [OF 3(2)]
      by (auto simp: try_place_frame [OF 3(2)] holds_covered_def not_stranded_def
          any_capacity_def)
  next
    case (4 i q q1 lid r)
    have "ledger_ok q1" if "ledger_ok q" using ledger_ok_try_place [OF that] 4(2) by (metis snd_conv)
    with 4 show ?case
      by (auto simp: try_place_frame [OF 4(2)] holds_covered_def any_capacity_def resolve_waiter_def
          remove_at_def nth_append)
  qed
  from this [of 0] assms show ?thesis by (simp add: drain_def)
qed

lemma not_stranded_acquire:
  assumes "ledger_ok q" and "holds_covered now q" and "not_stranded q"
  shows "not_stranded (acquire place now pid aborted opts q)"
proof -
  let ?tp = "try_place place now q (opt_avoid opts) (opt_only opts)"
  let ?tries = "(\<forall>w \<in> set (q_waiters q). given (waiter_only w)) \<or> opt_front opts \<or> given (opt_only opts)"
  obtain r q1 where tp: "?tp = (r, q1)" by (cases ?tp)
  note frame = try_place_frame [OF tp]
  show ?thesis
  proof (cases "any_capacity q \<and> \<not> aborted")
    case False
    with assms(3) show ?thesis
      by (auto simp: acquire_def not_stranded_def any_capacity_def wake_up_coming_def live_def)
  next
    case go: True
    show ?thesis
    proof (cases ?tries)
      case tries: True
      show ?thesis
      proof (cases r)
        case None
        have "wake_up_coming q" if "\<not> given (opt_only opts) \<or> (\<exists>w \<in> set (q_waiters q). open_waiter w)"
          using that open_waiter_blocked [OF assms(1,2) _ tp [unfolded None]] go assms(3)
          by (auto simp: not_stranded_def)
        then show ?thesis
          using go tries tp None frame try_place_None_wake [OF tp [unfolded None]]
          by (auto simp: acquire_def Let_def not_stranded_def any_capacity_def wake_up_coming_def
              live_def open_waiter_def given_def)
      next
        case (Some lid)
        with try_place_Some_live [OF tp [unfolded Some]]
        have "wake_up_coming q1" by (auto simp: wake_up_coming_def live_def)
        then show ?thesis
          using go tries tp Some frame
          by (auto simp: acquire_def Let_def not_stranded_def any_capacity_def wake_up_coming_def live_def)
      qed
    next
      case False
      with assms(3) go show ?thesis
        by (auto simp: acquire_def Let_def not_stranded_def any_capacity_def wake_up_coming_def
            live_def open_waiter_def)
    qed
  qed
qed

lemma holds_covered_acquire:
  assumes "holds_covered now q"
  shows "holds_covered now (acquire place now pid aborted opts q)"
proof -
  obtain r q1 where tp: "try_place place now q (opt_avoid opts) (opt_only opts) = (r, q1)"
    by (cases "try_place place now q (opt_avoid opts) (opt_only opts)")
  have "q_held (acquire place now pid aborted opts q) = q_held q"
      "q_timers (acquire place now pid aborted opts q) = q_timers q"
    by (simp_all add: acquire_def Let_def tp try_place_frame(2,3) [OF tp] split: option.split)
  with assms show ?thesis by (simp add: holds_covered_def)
qed

text \<open>Removing a waiter, or adding a drain, cannot strand anyone.\<close>

lemma not_stranded_abort:
  "not_stranded q \<Longrightarrow> not_stranded (abort_waiter pid q)"
  using set_remove_at_subset [of _ "q_waiters q"]
  by (auto simp: abort_waiter_def not_stranded_def any_capacity_def wake_up_coming_def live_def
      split: option.split)

lemma holds_covered_abort:
  "holds_covered now q \<Longrightarrow> holds_covered now (abort_waiter pid q)"
  by (auto simp: abort_waiter_def holds_covered_def split: option.split)

lemma mark_unreachable_progress:
  assumes "not_stranded q" and "holds_covered now q"
  shows "not_stranded (mark_unreachable now nid cool q)"
    and "holds_covered now (mark_unreachable now nid cool q)"
  using assms
  by (auto simp: mark_unreachable_def probe_while_down_def Let_def not_stranded_def
      any_capacity_def wake_up_coming_def live_def holds_covered_def)

lemma drain_ready:
  assumes "not_stranded q" and "q_nodes q' = q_nodes q" and "q_waiters q' = q_waiters q"
  shows "q_waiters q' \<noteq> [] \<longrightarrow> any_capacity q'"
  using assms by (auto simp: not_stranded_def any_capacity_def)

lemma fire_timer_progress:
  assumes ok: "ledger_ok q" and ns: "not_stranded q" and cover: "holds_covered now q"
  shows "not_stranded (fire_timer place now i q) \<and> holds_covered now (fire_timer place now i q)"
proof (cases "i < length (q_timers q)")
  case False
  with ns cover show ?thesis by (simp add: fire_timer_def)
next
  case i: True
  have keep: "t \<in> set (remove_at i (q_timers q))"
    if "t \<in> set (q_timers q)" "t \<noteq> q_timers q ! i" for t
    using that i remove_at_nth_split [of i "q_timers q"] by (auto simp: remove_at_def) (metis Un_iff insertE list.simps(15) set_append)
  show ?thesis
  proof (cases "q_timers q ! i")
    case (DrainAt t)
    show ?thesis
    proof (cases "t \<le> now")
      case True
      let ?q1 = "q\<lparr>q_timers := remove_at i (q_timers q)\<rparr>"
      have "holds_covered now ?q1"
        using cover keep DrainAt True by (force simp: holds_covered_def)
      then show ?thesis
        using drain_not_stranded [of ?q1 now] drain_ready [OF ns, of ?q1] ok i DrainAt True
        by (simp add: fire_timer_def)
    qed (use ns cover i DrainAt in \<open>simp add: fire_timer_def\<close>)
  next
    case (ProbeTickAt nid t)
    have "\<exists>t \<in> set (remove_at i (q_timers q)). case t of DrainAt _ \<Rightarrow> True | _ \<Rightarrow> False"
      if "\<exists>t \<in> set (q_timers q). case t of DrainAt _ \<Rightarrow> True | _ \<Rightarrow> False"
      using that keep ProbeTickAt by (metis timer.simps(6))
    then show ?thesis
      using ns cover i ProbeTickAt keep
      by (auto simp: fire_timer_def probe_tick_def Let_def not_stranded_def any_capacity_def
          wake_up_coming_def live_def holds_covered_def)
  qed
qed

theorem progress_step:
  assumes ok: "ledger_ok q" and ns: "not_stranded q" and cover: "holds_covered now q"
  shows "not_stranded (queue_step place (now, e) q) \<and> holds_covered now (queue_step place (now, e) q)"
proof (cases e)
  case (Acquire pid aborted opts)
  with assms show ?thesis by (simp add: not_stranded_acquire holds_covered_acquire)
next
  case (AbortWaiter pid)
  with assms show ?thesis by (simp add: not_stranded_abort holds_covered_abort)
next
  case (Release lid)
  let ?q1 = "(end_lease lid q)\<lparr>q_held := (q_held q)(lease_node (q_leases q ! lid) := None)\<rparr>"
  have "holds_covered now ?q1" using cover unfolding holds_covered_def by auto
  moreover have "ledger_ok ?q1" if "live lid q" using ledger_ok_end [OF ok that] by simp
  ultimately show ?thesis
    using Release assms drain_not_stranded [of ?q1 now] drain_ready [OF ns, of ?q1]
    by (simp add: release_def Let_def)
next
  case (Admitted lid)
  have "holds_covered now (settle_lease lid q)" using cover by (simp add: holds_covered_def)
  then show ?thesis
    using Admitted assms drain_not_stranded [of "settle_lease lid q" now]
      drain_ready [OF ns, of "settle_lease lid q"] ledger_ok_settle [OF ok] live_lid
    by (auto simp: admitted_def)
next
  case (Refused lid hold)
  let ?until = "now + opt_default NODE_REFUSED_HOLD_MS hold"
  let ?q1 = "(end_lease lid q)\<lparr>q_held := (q_held q)(lease_node (q_leases q ! lid) \<mapsto> ?until),
      q_timers := q_timers q @ [DrainAt ?until]\<rparr>"
  have "holds_covered now ?q1" using cover unfolding holds_covered_def by auto
  moreover have "ledger_ok ?q1" if "live lid q" using ledger_ok_end [OF ok that] by simp
  ultimately show ?thesis
    using Refused assms drain_not_stranded [of ?q1 now] drain_ready [OF ns, of ?q1]
    by (simp add: refused_def Let_def)
next
  case (MarkUnreachable nid cool)
  with mark_unreachable_progress [OF ns cover] show ?thesis by simp
next
  case (ProbeAnswer nid up)
  let ?q1 = "q\<lparr>q_asked := remove1 nid (q_asked q), q_probing := q_probing q - {nid},
      q_down := (q_down q)(nid := None)\<rparr>"
  have "holds_covered now ?q1" using cover by (simp add: holds_covered_def)
  then have "not_stranded (drain place now ?q1) \<and> holds_covered now (drain place now ?q1)"
    using drain_not_stranded [of ?q1 now] drain_ready [OF ns, of ?q1] ok by simp
  with ProbeAnswer ns cover show ?thesis
    by (auto simp: probe_answer_def Let_def not_stranded_def any_capacity_def wake_up_coming_def
        live_def holds_covered_def)
next
  case (FireTimer i)
  with fire_timer_progress [OF assms] show ?thesis by simp
qed

end

section \<open>Arrival order\<close>

definition open_ids :: "placement_queue \<Rightarrow> nat list" where
  "open_ids q = map waiter_id (filter open_waiter (q_waiters q))"

lemma try_place_open_ids:
  assumes "try_place place now q avoid only = (r, q1)"
  shows "q_waiters q1 = q_waiters q" and "q_resolved q1 = q_resolved q"
  using assms
  by (auto simp: try_place_def Let_def take_lease_def split: prod.splits placement.splits)

lemma open_ids_serve:
  assumes "i < length ws" and "\<forall>j < i. \<not> open_waiter (ws ! j)" and "distinct (map waiter_id ws)"
  shows "map waiter_id (filter open_waiter ws) =
      filter (\<lambda>p. p \<in> set (map waiter_id (filter open_waiter ws))) [waiter_id (ws ! i)] @
      map waiter_id (filter open_waiter (remove_at i ws))"
proof -
  have split: "ws = take i ws @ ws ! i # drop (Suc i) ws" using assms(1) by (rule id_take_nth_drop)
  have none: "filter open_waiter (take i ws) = []"
    using assms(1,2) by (auto simp: filter_empty_conv in_set_conv_nth)
  have fs: "filter open_waiter ws =
      (if open_waiter (ws ! i) then [ws ! i] else []) @ filter open_waiter (drop (Suc i) ws)"
    by (subst split) (simp add: none)
  have "waiter_id (ws ! i) \<notin> waiter_id ` set (drop (Suc i) ws)"
    using assms(3) by (subst (asm) split) simp
  then have "waiter_id (ws ! i) \<notin> set (map waiter_id (filter open_waiter (drop (Suc i) ws)))" by auto
  with fs none show ?thesis by (simp add: remove_at_def)
qed

lemma serve_compose:
  assumes "xs = filter (\<lambda>p. p \<in> set xs) [w] @ ys" and "ys = filter (\<lambda>p. p \<in> set ys) ss @ zs"
    and "w \<notin> set ss"
  shows "xs = filter (\<lambda>p. p \<in> set xs) (w # ss) @ zs"
proof (cases "w \<in> set xs")
  case True
  with assms(1) have xs: "xs = w # ys" by simp
  have "filter (\<lambda>p. p \<in> set xs) ss = filter (\<lambda>p. p \<in> set ys) ss"
    using assms(3) xs by (intro filter_cong) auto
  with True assms(2) xs show ?thesis by simp
next
  case False
  with assms(1) have "xs = ys" by simp
  with False assms(2) show ?thesis by simp
qed

lemma removed_key:
  assumes "distinct (map f xs)" and "i < length xs"
  shows "f (xs ! i) \<notin> f ` set (remove_at i xs)"
proof -
  have "map f xs = map f (take i xs) @ f (xs ! i) # map f (drop (Suc i) xs)"
    by (subst id_take_nth_drop [OF assms(2)]) simp
  with assms(1) show ?thesis by (auto simp: remove_at_def)
qed

lemma drain_fifo:
  assumes "distinct (map waiter_id (q_waiters q))"
  shows "\<exists>served. q_resolved (drain place now q) = q_resolved q @ served \<and>
    open_ids q = filter (\<lambda>p. p \<in> set (open_ids q)) (map fst served) @ open_ids (drain place now q)"
proof -
  let ?P = "\<lambda>q r. \<exists>served. q_resolved r = q_resolved q @ served \<and>
    set (map fst served) \<subseteq> set (map waiter_id (q_waiters q)) \<and>
    open_ids q = filter (\<lambda>p. p \<in> set (open_ids q)) (map fst served) @ open_ids r"
  have "distinct (map waiter_id (q_waiters q)) \<and>
      (\<forall>j < i. j < length (q_waiters q) \<longrightarrow> \<not> open_waiter (q_waiters q ! j)) \<longrightarrow>
      ?P q (drain_from place now i q)" for i
  proof (rule drain_from_rule [of "\<lambda>i q r. distinct (map waiter_id (q_waiters q)) \<and>
        (\<forall>j < i. j < length (q_waiters q) \<longrightarrow> \<not> open_waiter (q_waiters q ! j)) \<longrightarrow> ?P q r"],
      goal_cases)
    case (2 i q q1 r)
    then show ?case
      using try_place_open_ids [OF 2(2)] by (auto simp: open_ids_def open_waiter_def less_Suc_eq)
  next
    case (3 i q q1)
    then show ?case using try_place_open_ids [OF 3(2)] by (auto simp: open_ids_def)
  next
    case (4 i q q1 lid r)
    let ?q2 = "resolve_waiter i lid q1" and ?w = "waiter_id (q_waiters q ! i)"
    note same = try_place_open_ids [OF 4(2)]
    show ?case
    proof
      assume pre: "distinct (map waiter_id (q_waiters q)) \<and>
        (\<forall>j < i. j < length (q_waiters q) \<longrightarrow> \<not> open_waiter (q_waiters q ! j))"
      have "distinct (map waiter_id (q_waiters ?q2))"
        using pre distinct_remove_at [of "map waiter_id (q_waiters q)" i]
        by (simp add: resolve_waiter_def same remove_at_def take_map drop_map)
      moreover have "\<forall>j < i. j < length (q_waiters ?q2) \<longrightarrow> \<not> open_waiter (q_waiters ?q2 ! j)"
        using pre 4(1) by (auto simp: resolve_waiter_def same remove_at_def nth_append)
      ultimately obtain served where served: "q_resolved r = q_resolved ?q2 @ served"
          "set (map fst served) \<subseteq> set (map waiter_id (q_waiters ?q2))"
          "open_ids ?q2 = filter (\<lambda>p. p \<in> set (open_ids ?q2)) (map fst served) @ open_ids r"
        using 4(3) by blast
      have step: "open_ids q = filter (\<lambda>p. p \<in> set (open_ids q)) [?w] @ open_ids ?q2"
      proof -
        have ws: "q_waiters ?q2 = remove_at i (q_waiters q)" by (simp add: resolve_waiter_def same)
        have "\<forall>j < i. \<not> open_waiter (q_waiters q ! j)" using pre 4(1) by (meson order_less_trans)
        from open_ids_serve [OF 4(1) this conjunct1 [OF pre]] show ?thesis
          unfolding open_ids_def ws .
      qed
      have sub: "set (map waiter_id (q_waiters ?q2)) \<subseteq> set (map waiter_id (q_waiters q))"
        using set_remove_at_subset by (fastforce simp: resolve_waiter_def same)
      have "?w \<notin> set (map waiter_id (q_waiters ?q2))"
        using removed_key [OF conjunct1 [OF pre] 4(1)] by (simp add: resolve_waiter_def same)
      with served(2) have "?w \<notin> set (map fst served)" by blast
      from serve_compose [OF step served(3) this]
      have "open_ids q = filter (\<lambda>p. p \<in> set (open_ids q)) (map fst ((?w, lid) # served)) @ open_ids r"
        by (simp only: list.map fst_conv)
      moreover have "?w \<in> set (map waiter_id (q_waiters q))" using 4(1) by simp
      moreover have "q_resolved r = q_resolved q @ (?w, lid) # served"
        using served(1) by (simp add: resolve_waiter_def same)
      ultimately show "?P q r"
        using served(2) sub by (intro exI [of _ "(?w, lid) # served"] conjI) (assumption, simp, blast, assumption?)
    qed
  qed (auto simp: open_ids_def)
  from this [of 0] assms show ?thesis by (auto simp: drain_def)
qed

end
