(* ===== verification/PlacementRuns.thy ===== *)
theory PlacementRuns
  imports PlacementQueue "HOL-Library.Multiset"
begin

text \<open>
  What the placement queue of \<open>agent-placement-queue.ts\<close> promises over any run of its
  operations: the bounds of every node, the fate of every request and of every lease, and that
  nobody waits without a wake-up coming. The runs are those of \<open>queue_step place_agent\<close>.
\<close>

section \<open>Any run\<close>

interpretation agent_queue: invariant_machine "queue_step place_agent" ledger_ok
  by unfold_locales (rule agent_policy.ledger_ok_step)

lemma cap_lead_tier_id [simp]: "node_id (cap_lead_tier n) = node_id n"
  by (simp add: cap_lead_tier_def)

lemma ledger_ok_create:
  "distinct (map node_id configured) \<Longrightarrow> ledger_ok (create_agent_placement_queue configured cp iv)"
  by (rule ledger_okI)
     (auto simp: create_agent_placement_queue_def occupied_def live_on_def pending_on_def
       within_bound_def cap_lead_tier_id comp_def split: capacity.splits if_splits)

section \<open>The fate of a request\<close>

definition accounts :: "placement_queue \<Rightarrow> nat multiset" where
  "accounts q = mset (map waiter_id (q_waiters q)) + mset (map fst (q_resolved q)) +
     mset (map fst (q_rejected q))"

text \<open>The requests an operation brings in.\<close>

fun requested :: "nat \<times> queue_event \<Rightarrow> nat list" where
  "requested (now, Acquire pid aborted opts) = [pid]"
| "requested (now, e) = []"

lemma mset_remove_at: "i < length xs \<Longrightarrow> add_mset (xs ! i) (mset (remove_at i xs)) = mset xs"
  unfolding remove_at_def
  by (metis Cons_nth_drop_Suc add_mset_add_single append_take_drop_id mset.simps(2) mset_append
      union_mset_add_mset_right)

lemma accounts_cong:
  assumes "q_waiters q' = q_waiters q" "q_resolved q' = q_resolved q" "q_rejected q' = q_rejected q"
  shows "accounts q' = accounts q"
  using assms by (simp add: accounts_def)

lemma accounts_updates [simp]:
  "accounts (q\<lparr>q_held := a\<rparr>) = accounts q" "accounts (q\<lparr>q_timers := b\<rparr>) = accounts q"
  "accounts (q\<lparr>q_down := a\<rparr>) = accounts q" "accounts (q\<lparr>q_probing := c\<rparr>) = accounts q"
  "accounts (q\<lparr>q_asked := d\<rparr>) = accounts q" "accounts (q\<lparr>q_occupancy := f\<rparr>) = accounts q"
  "accounts (q\<lparr>q_placement := g\<rparr>) = accounts q" "accounts (q\<lparr>q_leases := h\<rparr>) = accounts q"
  "accounts (q\<lparr>q_unadmitted := f\<rparr>) = accounts q"
  by (simp_all add: accounts_def)

lemma accounts_settles [simp]:
  "accounts (settle_lease lid q) = accounts q" "accounts (end_lease lid q) = accounts q"
  "accounts (take_lease nid q) = accounts q"
  by (simp_all add: settle_lease_def end_lease_def mark_released_def Let_def take_lease_def)

lemma accounts_try_place [simp]: "accounts (snd (try_place place now q avoid only)) = accounts q"
  by (simp add: try_place_def Let_def split: prod.split placement.split)

lemma accounts_resolve:
  "i < length (q_waiters q) \<Longrightarrow> accounts (resolve_waiter i lid q) = accounts q"
  using mset_remove_at [of i "map waiter_id (q_waiters q)"]
  by (simp add: accounts_def resolve_waiter_def remove_at_def take_map drop_map)

lemma accounts_drain [simp]: "accounts (drain place now q) = accounts q"
  unfolding drain_def
proof (rule drain_from_rule [of "\<lambda>i q r. accounts r = accounts q"], goal_cases)
  case (2 i q q1 r) then show ?case by (metis accounts_try_place snd_conv)
next
  case (3 i q q1) then show ?case by (metis accounts_try_place snd_conv)
next
  case (4 i q q1 lid r)
  have "accounts q1 = accounts q" using 4(2) by (metis accounts_try_place snd_conv)
  moreover have "i < length (q_waiters q1)" using 4(1,2) by (simp add: try_place_open_ids [OF 4(2)])
  ultimately show ?case using 4(3) by (simp add: accounts_resolve)
qed simp

lemma accounts_step:
  "accounts (queue_step place te q) = accounts q + mset (requested te)"
proof -
  obtain now e where te: "te = (now, e)" by (cases te)
  show ?thesis
  proof (cases e)
    case (Acquire pid aborted opts)
    let ?r = "try_place place now q (opt_avoid opts) (opt_only opts)"
    have "accounts (snd ?r) = accounts q" by simp
    then show ?thesis unfolding te Acquire
      by (simp add: acquire_def Let_def accounts_def split: option.split)
  next
    case (AbortWaiter pid)
    show ?thesis
    proof (cases "find_index (\<lambda>w. waiter_id w = pid) (q_waiters q)")
      case (Some i)
      then have "i < length (q_waiters q)" "waiter_id (q_waiters q ! i) = pid"
        by (auto dest: find_index_Some)
      with Some te AbortWaiter mset_remove_at [of i "map waiter_id (q_waiters q)"] show ?thesis
        by (simp add: abort_waiter_def accounts_def remove_at_def take_map drop_map)
    next
      case None
      then show ?thesis by (simp only: te AbortWaiter queue_step.simps abort_waiter_def option.case) simp
    qed
  qed (simp_all add: te release_def admitted_def refused_def mark_unreachable_def
      probe_while_down_def probe_answer_def fire_timer_def probe_tick_def Let_def split: timer.split)
qed

lemma accounts_run:
  "accounts (fold (queue_step place) tes q) = accounts q + mset (concat (map requested tes))"
  by (induction tes arbitrary: q) (simp_all add: accounts_step)

section \<open>The life of a lease\<close>

definition lease_after :: "placement_lease \<Rightarrow> placement_lease \<Rightarrow> bool" where
  "lease_after l l' \<longleftrightarrow> lease_node l' = lease_node l \<and> (lease_released l \<longrightarrow> lease_released l') \<and>
     (lease_pending l' \<longrightarrow> lease_pending l)"

definition leases_after :: "placement_queue \<Rightarrow> placement_queue \<Rightarrow> bool" where
  "leases_after q q' \<longleftrightarrow> length (q_leases q) \<le> length (q_leases q') \<and>
     (\<forall>i < length (q_leases q). lease_after (q_leases q ! i) (q_leases q' ! i))"

lemma lease_after_refl [simp]: "lease_after l l"
  by (simp add: lease_after_def)

lemma lease_after_trans: "lease_after a b \<Longrightarrow> lease_after b c \<Longrightarrow> lease_after a c"
  by (simp add: lease_after_def)

lemma leases_after_trans: "leases_after q q1 \<Longrightarrow> leases_after q1 q2 \<Longrightarrow> leases_after q q2"
  unfolding leases_after_def using lease_after_trans by (meson le_trans less_le_trans)

lemma leases_after_same: "q_leases q' = q_leases q \<Longrightarrow> leases_after q q'"
  by (simp add: leases_after_def)

lemma leases_after_frame: "leases_after q q' \<Longrightarrow> q_leases q'' = q_leases q' \<Longrightarrow> leases_after q q''"
  by (simp add: leases_after_def)

lemma leases_after_take: "leases_after q (take_lease nid q)"
  by (simp add: leases_after_def nth_append)

lemma leases_after_try_place: "leases_after q (snd (try_place place now q avoid only))"
  by (auto simp: try_place_def Let_def leases_after_def nth_append split: prod.split placement.split)

lemma leases_after_settle: "lid < length (q_leases q) \<Longrightarrow> leases_after q (settle_lease lid q)"
  by (simp add: leases_after_def settle_lease_def Let_def nth_list_update lease_after_def)

lemma leases_after_end: "lid < length (q_leases q) \<Longrightarrow> leases_after q (end_lease lid q)"
  by (simp add: leases_after_def end_lease_def settle_lease_def mark_released_def Let_def
      nth_list_update lease_after_def)

lemma leases_after_drain: "leases_after q q' \<Longrightarrow> leases_after q (drain place now q')"
  unfolding drain_def
  by (rule drain_from_inv [of "leases_after q"])
     (auto intro: leases_after_trans leases_after_try_place leases_after_frame simp: resolve_waiter_def)

lemma leases_after_step: "leases_after q (queue_step place te q)"
proof -
  obtain now e where te: "te = (now, e)" by (cases te)
  show ?thesis
  proof (cases e)
    case (Acquire pid aborted opts)
    show ?thesis unfolding te Acquire
      by (auto simp: acquire_def Let_def split: option.split
          intro: leases_after_same leases_after_frame [OF leases_after_try_place])
  next
    case (AbortWaiter pid)
    show ?thesis unfolding te AbortWaiter
      by (auto simp: abort_waiter_def intro: leases_after_same split: option.split)
  next
    case (Release lid)
    then show ?thesis unfolding te
      by (cases "live lid q") (auto simp: release_def Let_def live_lid intro!: leases_after_drain
          leases_after_frame [OF leases_after_end [of lid q]] leases_after_same [of q q])
  next
    case (Admitted lid)
    then show ?thesis unfolding te
      by (auto simp: admitted_def live_def intro!: leases_after_drain leases_after_settle
          intro: leases_after_same)
  next
    case (Refused lid hold)
    then show ?thesis unfolding te
      by (cases "live lid q") (auto simp: refused_def Let_def live_lid intro!: leases_after_drain
          leases_after_frame [OF leases_after_end [of lid q]] leases_after_same [of q q])
  next
    case (MarkUnreachable nid cool)
    then show ?thesis unfolding te
      by (auto simp: mark_unreachable_def probe_while_down_def Let_def intro: leases_after_same)
  next
    case (ProbeAnswer nid up)
    then show ?thesis unfolding te
      by (auto simp: probe_answer_def Let_def intro!: leases_after_drain intro: leases_after_same)
  next
    case (FireTimer i)
    then show ?thesis unfolding te
      by (auto simp: fire_timer_def probe_tick_def Let_def intro!: leases_after_drain
          intro: leases_after_same split: timer.split)
  qed
qed

lemma leases_after_run: "leases_after q (fold (queue_step place) tes q)"
  by (induction tes rule: rev_induct)
     (auto intro: leases_after_same leases_after_trans leases_after_step)

section \<open>Runs on a clock\<close>

text \<open>The runs whose operations come with a clock that does not go back.\<close>

inductive queue_reach :: "policy \<Rightarrow> placement_queue \<Rightarrow> nat \<Rightarrow> placement_queue \<Rightarrow> bool"
  for place q0 where
  start: "queue_reach place q0 0 q0"
| step: "queue_reach place q0 t q \<Longrightarrow> t \<le> now \<Longrightarrow> queue_reach place q0 now (queue_step place (now, e) q)"

lemma holds_covered_later: "holds_covered t q \<Longrightarrow> t \<le> now \<Longrightarrow> holds_covered now q"
  by (auto simp: holds_covered_def)

lemma queue_reach_progress:
  assumes "queue_reach place_agent (create_agent_placement_queue configured cp iv) t q"
    and "distinct (map node_id configured)"
  shows "ledger_ok q \<and> not_stranded q \<and> holds_covered t q"
  using assms(1)
proof (induction rule: queue_reach.induct)
  case start
  show ?case using ledger_ok_create [OF assms(2)]
    by (simp add: not_stranded_def holds_covered_def create_agent_placement_queue_def)
next
  case (step t q now e)
  then have "holds_covered now q" by (blast intro: holds_covered_later)
  with step.IH show ?case
    using agent_policy.progress_step [of q now e] agent_policy.ledger_ok_step [of q "(now, e)"] by blast
qed

section \<open>The nodes of a queue\<close>

lemma nodes_try_place [simp]: "q_nodes (snd (try_place place now q avoid only)) = q_nodes q"
  by (simp add: try_place_def Let_def split: prod.split placement.split)

lemma nodes_drain [simp]: "q_nodes (drain place now q) = q_nodes q"
  unfolding drain_def
  by (rule drain_from_inv [of "\<lambda>r. q_nodes r = q_nodes q"]) (simp_all add: resolve_waiter_def)

lemma nodes_step [simp]: "q_nodes (queue_step place te q) = q_nodes q"
  by (induction place te q rule: queue_step.induct)
     (simp_all add: acquire_def abort_waiter_def release_def admitted_def refused_def Let_def
       mark_unreachable_def probe_while_down_def probe_answer_def fire_timer_def probe_tick_def
       split: option.split timer.split)

lemma nodes_run: "q_nodes (fold (queue_step place) tes q) = q_nodes q"
  by (induction tes arbitrary: q) simp_all

section \<open>Properties\<close>

abbreviation placement_run ::
  "agent_node list \<Rightarrow> bool \<Rightarrow> nat option \<Rightarrow> (nat \<times> queue_event) list \<Rightarrow> placement_queue" where
  "placement_run configured cp iv tes \<equiv>
     fold (queue_step place_agent) tes (create_agent_placement_queue configured cp iv)"

abbreviation one_slot :: agent_node where
  "one_slot \<equiv> \<lparr>node_id = ''a'', priority = 1, node_capacity = Slots 1, paced_admission = False\<rparr>"

abbreviation anywhere :: acquire_options where
  "anywhere \<equiv> \<lparr>opt_front = False, opt_avoid = None, opt_only = None\<rparr>"

abbreviation two_requests :: "(nat \<times> queue_event) list" where
  "two_requests \<equiv> [(0, Acquire 1 False anywhere), (5, Acquire 2 False anywhere)]"

lemmas queue_eval = create_agent_placement_queue_def cap_lead_tier_def LEAD_PRIORITY_def
  empty_placement_state_def acquire_def any_capacity_def has_capacity_def try_place_def
  choose_node_def run_place_def place_agent_def honour_down_def node_is_down_def has_room_def
  occupied_def scan_tier_def probe_index_def cursor_start_def take_lease_def bump_def paced_id_def
  is_paced_def given_def queue_view_def view_node_def is_held_def Let_def

lemma two_requests_state:
  "q_waiters (placement_run [one_slot] False None two_requests) =
     [\<lparr>waiter_id = 2, waiter_avoid = None, waiter_only = None\<rparr>]"
  "q_leases (placement_run [one_slot] False None two_requests) =
     [\<lparr>lease_node = ''a'', lease_released = False, lease_pending = False\<rparr>]"
  by (simp_all add: queue_eval)

text \<open>
  C1: the bound of every node. After any sequence of acquires, releases, admissions, refusals,
  aborts, cool-offs, probe answers and timers, at any times, the occupancy the queue keeps for a
  node is the number of agents it has placed there that have not ended, and it never exceeds the
  node's capacity (with the lead tier cut to eight); on a node whose endpoint decides its own
  admission, at most one placed agent is not yet admitted.
\<close>

theorem node_bounds:
  assumes "distinct (map node_id configured)" and "n \<in> set (map cap_lead_tier configured)"
  shows "let q = placement_run configured cp iv tes
    in occupied (q_occupancy q) (node_id n) = live_on q (node_id n) \<and>
       (if is_paced n then pending_on q (node_id n) \<le> 1
        else case node_capacity n of
               NaN \<Rightarrow> live_on q (node_id n) = 0
             | Unbounded \<Rightarrow> True
             | Slots k \<Rightarrow> int (live_on q (node_id n)) \<le> max 0 k)"
proof -
  let ?q = "placement_run configured cp iv tes"
  have "ledger_ok ?q" by (rule agent_queue.run_inv [OF ledger_ok_create [OF assms(1)]])
  moreover have "n \<in> set (q_nodes ?q)"
    using assms(2) by (simp only: nodes_run create_agent_placement_queue_def placement_queue.simps)
  ultimately show ?thesis
    using ledger_okD(2) [of ?q "node_id n"] ledger_okD(5) [of ?q n]
    unfolding Let_def within_bound_def by blast
qed

lemma node_bounds_witness:
  "let q = placement_run [one_slot] False None two_requests
   in occupied (q_occupancy q) ''a'' = live_on q ''a'' \<and> int (live_on q ''a'') \<le> max 0 1"
  using node_bounds [where configured = "[one_slot]" and n = one_slot and tes = two_requests
      and cp = False and iv = None]
  by (simp only: Let_def agent_node.simps) (simp add: cap_lead_tier_def LEAD_PRIORITY_def is_paced_def)

text \<open>
  no request is lost or answered twice. After any sequence of operations, every call of
  \<open>acquire\<close> is exactly one of: still waiting, resolved with a lease, or rejected.
\<close>

theorem every_request_accounted:
  "let q = placement_run configured cp iv tes
   in mset (map waiter_id (q_waiters q)) + mset (map fst (q_resolved q)) + mset (map fst (q_rejected q))
      = mset (concat (map requested tes))"
proof -
  have "accounts (create_agent_placement_queue configured cp iv) = {#}"
    by (simp add: accounts_def create_agent_placement_queue_def)
  then show ?thesis
    using accounts_run [of place_agent tes "create_agent_placement_queue configured cp iv"]
    by (simp only: Let_def accounts_def add_0)
qed

text \<open>
  a lease ends once. A lease that has been released or refused stays ended on the same node
  whatever runs afterwards, and then its three methods change nothing: a slot is not freed twice.
\<close>

theorem lease_ends_once:
  assumes "lid < length (q_leases q)" and "lease_released (q_leases q ! lid)"
  shows "let q' = fold (queue_step place_agent) tes q
    in lease_released (q_leases q' ! lid) \<and> lease_node (q_leases q' ! lid) = lease_node (q_leases q ! lid) \<and>
       queue_step place_agent (now, Release lid) q' = q' \<and>
       queue_step place_agent (now, Refused lid hold) q' = q' \<and>
       queue_step place_agent (now, Admitted lid) q' = q'"
  using leases_after_run [of q place_agent tes] assms
  by (simp add: Let_def leases_after_def lease_after_def live_def release_def refused_def admitted_def)

lemma lease_ends_once_witness:
  "let q = placement_run [one_slot] False None (two_requests @ [(9, Release 0)]);
       q' = queue_step place_agent (10, Acquire 3 False anywhere) q
   in lease_released (q_leases q' ! 0) \<and> queue_step place_agent (11, Release 0) q' = q'"
proof -
  let ?q = "placement_run [one_slot] False None (two_requests @ [(9, Release 0)])"
  have "0 < length (q_leases ?q) \<and> lease_released (q_leases ?q ! 0)"
    by code_simp
  then show ?thesis
    using lease_ends_once [of 0 ?q "[(10, Acquire 3 False anywhere)]" 11] by (simp only: Let_def fold_simps)
qed

text \<open>
  C10: nobody is stranded. On any run whose clock does not go back, while an agent that may run
  anywhere waits, some placed agent has not ended yet (and its end drains the queue) or a drain
  of the queue is scheduled.
\<close>

theorem no_stranded_waiter:
  assumes "queue_reach place_agent (create_agent_placement_queue configured cp iv) t q"
    and "distinct (map node_id configured)"
    and "w \<in> set (q_waiters q)" and "\<not> given (waiter_only w)"
  shows "(\<exists>lid < length (q_leases q). live lid q) \<or> (\<exists>until. DrainAt until \<in> set (q_timers q))"
proof -
  have "wake_up_coming q"
    using queue_reach_progress [OF assms(1,2)] assms(3,4) by (auto simp: not_stranded_def open_waiter_def)
  then show ?thesis unfolding wake_up_coming_def by (metis timer.exhaust timer.simps(6))
qed

lemma no_stranded_waiter_witness:
  "let q = placement_run [one_slot] False None two_requests
   in (\<exists>lid < length (q_leases q). live lid q) \<or> (\<exists>until. DrainAt until \<in> set (q_timers q))"
proof -
  let ?q0 = "create_agent_placement_queue [one_slot] False None"
  let ?q1 = "queue_step place_agent (0, Acquire 1 False anywhere) ?q0"
  have "queue_reach place_agent ?q0 0 ?q1" by (rule step [OF start]) simp
  then have "queue_reach place_agent ?q0 5 (queue_step place_agent (5, Acquire 2 False anywhere) ?q1)"
    by (rule step) simp
  then have "queue_reach place_agent ?q0 5 (placement_run [one_slot] False None two_requests)" by simp
  then show ?thesis
    unfolding Let_def
    by (rule no_stranded_waiter [where w = "\<lparr>waiter_id = 2, waiter_avoid = None, waiter_only = None\<rparr>"])
       (simp_all only: two_requests_state list.simps waiter.simps, simp_all add: given_def)
qed

text \<open>
  first come, first served. What one drain serves of the waiters that may run anywhere is a
  front segment of their line, in the order of the line; the ones it leaves keep theirs. Waiters
  pinned to one node do not hold the line up.
\<close>

theorem drain_serves_in_order:
  assumes "distinct (map waiter_id (q_waiters q))"
  shows "\<exists>served. q_resolved (drain place_agent now q) = q_resolved q @ served \<and>
    open_ids q = filter (\<lambda>p. p \<in> set (open_ids q)) (map fst served) @ open_ids (drain place_agent now q)"
  using assms by (rule drain_fifo)

lemma drain_serves_in_order_witness:
  "\<exists>served. q_resolved (drain place_agent 9 (placement_run [one_slot] False None two_requests)) =
      q_resolved (placement_run [one_slot] False None two_requests) @ served"
  using drain_serves_in_order [where q = "placement_run [one_slot] False None two_requests" and now = 9]
  by (simp only: two_requests_state) (simp, blast)

end
