(* ===== verification/Revisions.thy ===== *)
theory Revisions
  imports Text
begin

text \<open>
  The per-file history of
  \<open>sdk/packages/core/src/runtime/atomic/file-revisions.ts\<close>: an append-only list of revisions
  per path, one reference-counted copy of each distinct content, two byte caps that release
  content, and the retention rule of a compaction. The SHA-256 function is an argument, \<open>sha\<close>;
  where a theorem needs it, its freedom from collisions is a hypothesis.
\<close>

section \<open>Notes\<close>

datatype note_source = FromModel | Derived

record revision_note =
  note_intent :: "jtext option"
  note_summary :: "jtext option"
  note_check :: "jtext option"
  note_held :: bool

definition MAX_NOTE_CHARS :: nat where
  "MAX_NOTE_CHARS = 120"

definition tidy :: "jtext option \<Rightarrow> jtext option" where
  "tidy t = (case t of
       None \<Rightarrow> None
     | Some s \<Rightarrow>
         if s = [] then None
         else let flat = trim (flatten_spaces s)
              in if flat = [] then None
                 else if length flat \<le> MAX_NOTE_CHARS then Some flat
                 else Some (take (MAX_NOTE_CHARS - 1) flat @ [ELLIPSIS]))"

definition or_else :: "'a option \<Rightarrow> 'a option \<Rightarrow> 'a option" where
  "or_else x y = (case x of None \<Rightarrow> y | Some v \<Rightarrow> Some v)"

fun join_dash :: "jtext list \<Rightarrow> jtext" where
  "join_dash [] = []"
| "join_dash [p] = p"
| "join_dash (p # ps) = p @ [32, EM_DASH, 32] @ join_dash ps"

definition line_delta :: "nat \<Rightarrow> nat option \<Rightarrow> bool \<Rightarrow> jtext option" where
  "line_delta lines previous existed =
     (case previous of
        None \<Rightarrow> None
      | Some p \<Rightarrow>
          if \<not> existed then None
          else if lines = p then Some (js ''same length'')
          else Some ((if lines > p then js ''+'' else [MINUS_SIGN]) @
                 decimal (if lines > p then lines - p else p - lines) @ js '' lines''))"

definition derive_note ::
  "revision_note option \<Rightarrow> nat \<Rightarrow> nat option \<Rightarrow> bool \<Rightarrow> jtext \<times> note_source" where
  "derive_note note lines previous existed =
     (let intent = tidy (Option.bind note note_intent);
          summary = tidy (Option.bind note note_summary);
          check = tidy (Option.bind note note_check);
          head = opt_default (if existed then js ''written'' else js ''deleted'')
            (or_else intent (or_else summary (line_delta lines previous existed)));
          parts = [head] @
            (case (intent, summary) of (Some _, Some s) \<Rightarrow> [s] | _ \<Rightarrow> []) @
            (case check of Some c \<Rightarrow> [js ''check: '' @ c] | None \<Rightarrow> [])
      in (opt_default head (tidy (Some (join_dash parts))),
          if intent \<noteq> None then FromModel else Derived))"

section \<open>Content\<close>

definition ABSENT_HASH :: jtext where
  "ABSENT_HASH = js ''absent''"

definition hash_of :: "(bytes \<Rightarrow> jtext) \<Rightarrow> bytes option \<Rightarrow> jtext" where
  "hash_of sha body = (case body of Some b \<Rightarrow> sha b | None \<Rightarrow> ABSENT_HASH)"

text \<open>
  The count looks for CR and LF only, which UTF-8 decoding leaves alone, so it reads the bytes.
\<close>

definition count_lines :: "bytes option \<Rightarrow> nat" where
  "count_lines body =
     (case body of
        None \<Rightarrow> 0
      | Some b \<Rightarrow>
          if b = [] then 0
          else let lines = split_lines b
               in if last lines = [] then length lines - 1 else length lines)"

record blob =
  blob_body :: bytes
  blob_refs :: nat

record mutable_revision =
  m_index :: nat
  m_hash :: jtext
  m_by :: jtext
  m_note :: jtext
  m_source :: note_source
  m_lines :: nat
  m_bytes :: nat
  m_dropped :: bool
  m_existed :: bool
  m_same_as :: "nat option"
  m_held :: bool

record file_revision =
  r_index :: nat
  r_body :: "bytes option"
  r_hash :: jtext
  r_by :: jtext
  r_note :: jtext
  r_source :: note_source
  r_lines :: nat
  r_bytes :: nat
  r_dropped :: bool
  r_held :: bool
  r_same_as :: "nat option"

type_synonym logs = "(string \<times> mutable_revision list) list"
type_synonym blobs = "(jtext \<times> blob) list"

record revision_log =
  rl_logs :: logs
  rl_blobs :: blobs
  rl_last_span :: "string \<rightharpoonup> nat"
  rl_span :: nat
  rl_max_file :: nat
  rl_max_total :: nat

definition DEFAULT_MAX_REVISION_BYTES_PER_FILE :: nat where
  "DEFAULT_MAX_REVISION_BYTES_PER_FILE = 32 * 1024 * 1024"

definition DEFAULT_MAX_REVISION_BYTES_TOTAL :: nat where
  "DEFAULT_MAX_REVISION_BYTES_TOTAL = 128 * 1024 * 1024"

definition KEEP_NEWEST :: nat where
  "KEEP_NEWEST = 5"

definition create_revision_log :: "nat option \<Rightarrow> nat option \<Rightarrow> revision_log" where
  "create_revision_log per_file across =
     \<lparr>rl_logs = [], rl_blobs = [], rl_last_span = Map.empty, rl_span = 0,
      rl_max_file = opt_default DEFAULT_MAX_REVISION_BYTES_PER_FILE per_file,
      rl_max_total = opt_default DEFAULT_MAX_REVISION_BYTES_TOTAL across\<rparr>"

definition entries_of :: "revision_log \<Rightarrow> string \<Rightarrow> mutable_revision list" where
  "entries_of st path = opt_default [] (map_of (rl_logs st) path)"

definition live_entry :: "mutable_revision \<Rightarrow> bool" where
  "live_entry e = (\<not> m_dropped e \<and> m_existed e)"

definition body_of :: "blobs \<Rightarrow> mutable_revision \<Rightarrow> bytes option" where
  "body_of bs e =
     (if m_dropped e \<or> \<not> m_existed e then None else map_option blob_body (map_of bs (m_hash e)))"

definition frozen :: "blobs \<Rightarrow> mutable_revision \<Rightarrow> file_revision" where
  "frozen bs e =
     \<lparr>r_index = m_index e, r_body = body_of bs e, r_hash = m_hash e, r_by = m_by e,
      r_note = m_note e, r_source = m_source e, r_lines = m_lines e, r_bytes = m_bytes e,
      r_dropped = m_dropped e, r_held = m_held e, r_same_as = m_same_as e\<rparr>"

section \<open>Releasing content\<close>

definition refs_of :: "blobs \<Rightarrow> jtext \<Rightarrow> nat" where
  "refs_of bs h = (case map_of bs h of None \<Rightarrow> 0 | Some b \<Rightarrow> blob_refs b)"

definition release_blob :: "jtext \<Rightarrow> blobs \<Rightarrow> blobs" where
  "release_blob h bs =
     (case map_of bs h of
        None \<Rightarrow> bs
      | Some b \<Rightarrow> if blob_refs b \<le> 1 then AList.delete h bs
                  else AList.update h (b\<lparr>blob_refs := blob_refs b - 1\<rparr>) bs)"

definition hold_blob :: "jtext \<Rightarrow> bytes \<Rightarrow> blobs \<Rightarrow> blobs" where
  "hold_blob h body bs =
     (case map_of bs h of
        Some b \<Rightarrow> AList.update h (b\<lparr>blob_refs := Suc (blob_refs b)\<rparr>) bs
      | None \<Rightarrow> AList.update h \<lparr>blob_body = body, blob_refs = 1\<rparr> bs)"

fun held_bytes_from :: "jtext list \<Rightarrow> mutable_revision list \<Rightarrow> nat" where
  "held_bytes_from seen [] = 0"
| "held_bytes_from seen (e # es) =
     (if m_dropped e \<or> \<not> m_existed e \<or> m_hash e \<in> set seen then held_bytes_from seen es
      else m_bytes e + held_bytes_from (m_hash e # seen) es)"

definition held_bytes_of :: "mutable_revision list \<Rightarrow> nat" where
  "held_bytes_of es = held_bytes_from [] es"

definition droppable :: "mutable_revision list \<Rightarrow> nat \<Rightarrow> bool" where
  "droppable es i = (0 < i \<and> i + KEEP_NEWEST < length es)"

definition cap_candidates :: "mutable_revision list \<Rightarrow> blobs \<Rightarrow> nat list" where
  "cap_candidates es bs =
     filter (\<lambda>i. live_entry (es ! i) \<and> droppable es i \<and> \<not> refs_of bs (m_hash (es ! i)) > 1)
       [0..<length es]"

definition mark_dropped :: "nat \<Rightarrow> mutable_revision list \<Rightarrow> mutable_revision list" where
  "mark_dropped i es = es[i := (es ! i)\<lparr>m_dropped := True\<rparr>]"

definition middle :: "nat list \<Rightarrow> nat" where
  "middle cs = cs ! (length cs div 2)"

lemma middle_in: "cs \<noteq> [] \<Longrightarrow> middle cs \<in> set cs"
  by (simp add: middle_def)

lemma cap_candidatesD:
  "i \<in> set (cap_candidates es bs) \<Longrightarrow>
     i < length es \<and> live_entry (es ! i) \<and> droppable es i \<and> refs_of bs (m_hash (es ! i)) \<le> 1"
  by (auto simp: cap_candidates_def)

lemma live_mark_dropped:
  "i < length es \<Longrightarrow> live_entry (es ! i) \<Longrightarrow>
     length (filter live_entry (mark_dropped i es)) < length (filter live_entry es)"
  using length_filter_update [of i es live_entry "(es ! i)\<lparr>m_dropped := True\<rparr>"]
  by (simp add: mark_dropped_def live_entry_def)

function enforce_cap ::
  "nat \<Rightarrow> mutable_revision list \<Rightarrow> blobs \<Rightarrow> mutable_revision list \<times> blobs" where
  "enforce_cap limit es bs =
     (if held_bytes_of es \<le> limit then (es, bs)
      else let cs = cap_candidates es bs
           in if cs = [] then (es, bs)
              else enforce_cap limit (mark_dropped (middle cs) es)
                     (release_blob (m_hash (es ! middle cs)) bs))"
  by pat_completeness auto
termination
proof (relation "measure (\<lambda>(limit, es, bs). length (filter live_entry es))")
  show "((limit, mark_dropped (middle x) es, release_blob (m_hash (es ! middle x)) bs), (limit, es, bs))
      \<in> measure (\<lambda>(limit, es, bs). length (filter live_entry es))"
    if "x = cap_candidates es bs" "x \<noteq> []" for limit es bs x
    using live_mark_dropped cap_candidatesD [of "middle x" es bs] middle_in [OF that(2)] that(1) by simp
qed simp

declare enforce_cap.simps [simp del]

definition held_bytes_total :: "blobs \<Rightarrow> nat" where
  "held_bytes_total bs = sum_list (map (\<lambda>(h, b). length (blob_body b)) bs)"

definition drop_entry :: "string \<Rightarrow> nat \<Rightarrow> revision_log \<Rightarrow> revision_log" where
  "drop_entry path i st =
     st\<lparr>rl_logs := AList.update path (mark_dropped i (entries_of st path)) (rl_logs st),
        rl_blobs := release_blob (m_hash (entries_of st path ! i)) (rl_blobs st)\<rparr>"

definition releasable :: "string \<Rightarrow> nat \<Rightarrow> revision_log \<Rightarrow> bool" where
  "releasable path i st =
     (live_entry (entries_of st path ! i) \<and>
      \<not> refs_of (rl_blobs st) (m_hash (entries_of st path ! i)) > 1)"

text \<open>The places the two passes visit, in order, computed from the lengths of the logs.\<close>

definition walk_file :: "bool \<Rightarrow> string \<times> mutable_revision list \<Rightarrow> (string \<times> nat) list" where
  "walk_file pass pe =
     map (Pair (fst pe)) (filter (\<lambda>i. i \<noteq> 0 \<or> pass) (rev [0..<length (snd pe)]))"

definition walk_order :: "logs \<Rightarrow> (string \<times> nat) list" where
  "walk_order ls = concat (map (walk_file False) ls) @ concat (map (walk_file True) ls)"

fun total_walk :: "(string \<times> nat) list \<Rightarrow> revision_log \<Rightarrow> revision_log" where
  "total_walk [] st = st"
| "total_walk ((path, i) # ws) st =
     (if \<not> releasable path i st then total_walk ws st
      else let st' = drop_entry path i st
           in if held_bytes_total (rl_blobs st') \<le> rl_max_total st' then st'
              else total_walk ws st')"

definition enforce_total_cap :: "revision_log \<Rightarrow> revision_log" where
  "enforce_total_cap st =
     (if held_bytes_total (rl_blobs st) \<le> rl_max_total st then st
      else total_walk (walk_order (rl_logs st)) st)"

section \<open>Operations\<close>

definition new_entry ::
  "(bytes \<Rightarrow> jtext) \<Rightarrow> mutable_revision list \<Rightarrow> bytes option \<Rightarrow> jtext \<Rightarrow> revision_note option
    \<Rightarrow> mutable_revision" where
  "new_entry sha es body writer note =
     (let h = hash_of sha body;
          earlier = find (\<lambda>c. m_existed c \<and> m_hash c = h) es;
          lines = count_lines body;
          labelled = derive_note note lines (if es = [] then None else Some (m_lines (last es)))
            (body \<noteq> None)
      in \<lparr>m_index = length es + 1, m_hash = h, m_by = writer, m_note = fst labelled,
          m_source = snd labelled, m_lines = lines,
          m_bytes = (case body of Some b \<Rightarrow> length b | None \<Rightarrow> 0), m_dropped = False,
          m_existed = (body \<noteq> None), m_same_as = map_option m_index earlier,
          m_held = (case note of Some n \<Rightarrow> note_held n | None \<Rightarrow> False)\<rparr>)"

text \<open>Deleted first, so that the file moves to the end of the map.\<close>

definition set_last :: "string \<Rightarrow> 'a \<Rightarrow> (string \<times> 'a) list \<Rightarrow> (string \<times> 'a) list" where
  "set_last k v m = AList.update k v (AList.delete k m)"

definition append_revision ::
  "(bytes \<Rightarrow> jtext) \<Rightarrow> string \<Rightarrow> bytes option \<Rightarrow> jtext \<Rightarrow> revision_note option \<Rightarrow> revision_log
    \<Rightarrow> file_revision \<times> revision_log" where
  "append_revision sha path body writer note st =
     (let es = entries_of st path;
          e = new_entry sha es body writer note;
          bs = (case body of Some b \<Rightarrow> hold_blob (m_hash e) b (rl_blobs st) | None \<Rightarrow> rl_blobs st);
          (es', bs') = enforce_cap (rl_max_file st) (es @ [e]) bs;
          st' = enforce_total_cap
            (st\<lparr>rl_logs := set_last path es' (rl_logs st), rl_blobs := bs',
                rl_last_span := (rl_last_span st)(path \<mapsto> rl_span st)\<rparr>)
      in (frozen (rl_blobs st') (entries_of st' path ! length es), st'))"

definition on_disk :: "mutable_revision list \<Rightarrow> mutable_revision option" where
  "on_disk es = find (\<lambda>e. \<not> m_held e) (rev es)"

datatype revision_origin = OfTransaction | OfSession

fun origin_by :: "revision_origin \<Rightarrow> jtext" where
  "origin_by OfTransaction = js ''transaction open''"
| "origin_by OfSession = js ''first seen''"

fun origin_existed :: "revision_origin \<Rightarrow> jtext" where
  "origin_existed OfTransaction = js ''the file as this transaction found it''"
| "origin_existed OfSession = js ''the file as it stood before this session first wrote to it''"

fun origin_absent :: "revision_origin \<Rightarrow> jtext" where
  "origin_absent OfTransaction = js ''did not exist when this transaction opened''"
| "origin_absent OfSession = js ''did not exist when this session first wrote to it''"

definition summary_note :: "jtext \<Rightarrow> revision_note" where
  "summary_note s = \<lparr>note_intent = None, note_summary = Some s, note_check = None, note_held = False\<rparr>"

definition seed ::
  "(bytes \<Rightarrow> jtext) \<Rightarrow> string \<Rightarrow> bytes option \<Rightarrow> revision_origin \<Rightarrow> revision_log \<Rightarrow> revision_log" where
  "seed sha path body origin st =
     (if map_of (rl_logs st) path \<noteq> None then st
      else snd (append_revision sha path body (origin_by origin)
             (Some (summary_note
               (if body = None then origin_absent origin else origin_existed origin))) st))"

definition ensure_seeded :: "(bytes \<Rightarrow> jtext) \<Rightarrow> string \<Rightarrow> revision_log \<Rightarrow> revision_log" where
  "ensure_seeded sha path st =
     (if entries_of st path = []
      then snd (append_revision sha path None (origin_by OfTransaction)
             (Some (summary_note (origin_absent OfTransaction))) st)
      else st)"

text \<open>
  A write is compared with what is on disk; a held version, which never reaches the disk, with
  the entry before it.
\<close>

definition compared_with ::
  "revision_note option \<Rightarrow> mutable_revision list \<Rightarrow> mutable_revision option" where
  "compared_with nt current =
     (if (case nt of Some n \<Rightarrow> note_held n | None \<Rightarrow> False)
      then (if current = [] then None else Some (last current))
      else on_disk current)"

definition unchanged_write ::
  "(bytes \<Rightarrow> jtext) \<Rightarrow> bytes option \<Rightarrow> revision_note option \<Rightarrow> mutable_revision list \<Rightarrow> bool" where
  "unchanged_write sha body nt current =
     (case compared_with nt current of Some e \<Rightarrow> m_hash e = hash_of sha body | None \<Rightarrow> False)"

definition record_write ::
  "(bytes \<Rightarrow> jtext) \<Rightarrow> string \<Rightarrow> bytes option \<Rightarrow> jtext \<Rightarrow> revision_note option \<Rightarrow> revision_log
    \<Rightarrow> file_revision option \<times> revision_log" where
  "record_write sha path body writer nt st =
     (let st1 = ensure_seeded sha path st
      in if unchanged_write sha body nt (entries_of st1 path) then (None, st1)
         else apfst Some (append_revision sha path body writer nt st1))"

definition revisions :: "revision_log \<Rightarrow> string \<Rightarrow> file_revision list" where
  "revisions st path = map (frozen (rl_blobs st)) (entries_of st path)"

datatype revision_request = Original | LastChange | Numbered nat | Unreadable

definition strip_prefix :: "jtext \<Rightarrow> jtext \<Rightarrow> jtext option" where
  "strip_prefix p t = (if take (length p) t = p then Some (drop (length p) t) else None)"

text \<open>The optional prefix of \<open>/^(?:#|v|rev(?:ision)?\s*#?\s*)?(\d+)$/\<close>.\<close>

definition strip_revision_prefix :: "jtext \<Rightarrow> jtext" where
  "strip_revision_prefix t =
     (case strip_prefix (js ''#'') t of
        Some r \<Rightarrow> r
      | None \<Rightarrow>
          (case strip_prefix (js ''v'') t of
             Some r \<Rightarrow> r
           | None \<Rightarrow>
               (case strip_prefix (js ''rev'') t of
                  None \<Rightarrow> t
                | Some r \<Rightarrow>
                    (let r1 = trim_left (opt_default r (strip_prefix (js ''ision'') r))
                     in trim_left (opt_default r1 (strip_prefix (js ''#'') r1))))))"

definition parse_revision :: "jtext \<Rightarrow> revision_request" where
  "parse_revision requested =
     (let t = ascii_lower (trim requested)
      in if t = [] then Unreadable
         else if t \<in> {js ''original'', js ''base'', js ''first''} then Original
         else if t \<in> {js ''last'', js ''previous'', js ''undo''} then LastChange
         else let d = strip_revision_prefix t
              in if d = [] \<or> (\<exists>c \<in> set d. \<not> is_digit c) then Unreadable
                 else case js_integer (digits_value d) of
                        Some v \<Rightarrow> if v > 0 then Numbered v else Unreadable
                      | None \<Rightarrow> Unreadable)"

datatype restore_target = ToOriginal | ToLast | ToNumbered nat | ToUnreadable jtext

definition describe_restore_target :: "jtext option \<Rightarrow> restore_target" where
  "describe_restore_target requested =
     (let t = (case requested of Some s \<Rightarrow> trim s | None \<Rightarrow> [])
      in if t = [] then ToOriginal
         else case parse_revision t of
                Unreadable \<Rightarrow> ToUnreadable t
              | Original \<Rightarrow> ToOriginal
              | LastChange \<Rightarrow> ToLast
              | Numbered n \<Rightarrow> ToNumbered n)"

datatype revision_lookup =
    Found file_revision
  | Untracked
  | DroppedContent nat
  | UnknownRevision jtext "nat list"

definition last_index :: "mutable_revision list \<Rightarrow> nat" where
  "last_index es =
     (let written = filter (\<lambda>e. \<not> m_held e) es
      in if length written - 2 < length written then m_index (written ! (length written - 2)) else 1)"

definition lookup_index :: "revision_log \<Rightarrow> string \<Rightarrow> jtext \<Rightarrow> nat \<Rightarrow> revision_lookup" where
  "lookup_index st path requested index =
     (let es = entries_of st path
      in if index = 0 \<or> length es < index then UnknownRevision requested (map m_index es)
         else let e = es ! (index - 1)
              in if m_dropped e then DroppedContent (m_index e)
                 else Found (frozen (rl_blobs st) e))"

definition resolve :: "revision_log \<Rightarrow> string \<Rightarrow> jtext \<Rightarrow> revision_lookup" where
  "resolve st path requested =
     (let es = entries_of st path
      in if es = [] then Untracked
         else case parse_revision requested of
                Unreadable \<Rightarrow> UnknownRevision requested (map m_index es)
              | Original \<Rightarrow> lookup_index st path requested 1
              | LastChange \<Rightarrow> lookup_index st path requested (last_index es)
              | Numbered n \<Rightarrow> lookup_index st path requested n)"

definition tracked :: "revision_log \<Rightarrow> string list" where
  "tracked st = map fst (rl_logs st)"

definition held_bytes :: "revision_log \<Rightarrow> string \<Rightarrow> nat" where
  "held_bytes st path = held_bytes_of (entries_of st path)"

definition reset_log :: "revision_log \<Rightarrow> revision_log" where
  "reset_log st = st\<lparr>rl_logs := [], rl_blobs := [], rl_last_span := Map.empty\<rparr>"

definition forget_file :: "string \<times> mutable_revision list \<Rightarrow> revision_log \<Rightarrow> revision_log" where
  "forget_file pe st =
     st\<lparr>rl_blobs := fold (\<lambda>e. release_blob (m_hash e)) (filter live_entry (snd pe)) (rl_blobs st),
        rl_logs := AList.delete (fst pe) (rl_logs st),
        rl_last_span := (rl_last_span st)(fst pe := None)\<rparr>"

definition retained :: "string list \<Rightarrow> nat \<Rightarrow> (string \<rightharpoonup> nat) \<Rightarrow> string \<Rightarrow> bool" where
  "retained keep now written path =
     (path \<in> set keep \<or> opt_default now (written path) \<ge> now - 2)"

fun compact_files ::
  "string list \<Rightarrow> (string \<times> mutable_revision list) list \<Rightarrow> revision_log \<Rightarrow> nat \<times> revision_log" where
  "compact_files keep [] st = (0, st)"
| "compact_files keep (pe # pes) st =
     (if retained keep (rl_span st) (rl_last_span st) (fst pe) then compact_files keep pes st
      else apfst Suc (compact_files keep pes (forget_file pe st)))"

definition note_compaction :: "string list \<Rightarrow> revision_log \<Rightarrow> nat \<times> revision_log" where
  "note_compaction keep st =
     (let st1 = st\<lparr>rl_span := Suc (rl_span st)\<rparr>
      in if rl_span st1 < 2 then (0, st1) else compact_files keep (rl_logs st1) st1)"

datatype revision_event =
    SeedFile string "bytes option" revision_origin
  | RecordWrite string "bytes option" jtext "revision_note option"
  | NoteCompaction "string list"
  | ResetLog

fun revision_step :: "(bytes \<Rightarrow> jtext) \<Rightarrow> revision_event \<Rightarrow> revision_log \<Rightarrow> revision_log" where
  "revision_step sha (SeedFile path body origin) st = seed sha path body origin st"
| "revision_step sha (RecordWrite path body writer note) st = snd (record_write sha path body writer note st)"
| "revision_step sha (NoteCompaction keep) st = snd (note_compaction keep st)"
| "revision_step sha ResetLog st = reset_log st"

section \<open>The history in words\<close>

definition DEFAULT_REVISION_LIST_LIMIT :: nat where
  "DEFAULT_REVISION_LIST_LIMIT = 10"

definition SEARCH_RESULT_LIMIT :: nat where
  "SEARCH_RESULT_LIMIT = 8"

definition MATCH_EXCERPT_CHARS :: nat where
  "MATCH_EXCERPT_CHARS = 120"

definition revision_span :: "file_revision list \<Rightarrow> jtext option" where
  "revision_span rs =
     (if rs = [] then None
      else let i = r_index (hd rs); j = r_index (last rs)
           in if j > i then Some (js ''#'' @ decimal i @ [EN_DASH] @ js ''#'' @ decimal j)
              else Some (js ''#'' @ decimal j))"

definition plural :: "nat \<Rightarrow> jtext \<Rightarrow> jtext \<Rightarrow> jtext" where
  "plural n one many = (if n = 1 then one else many)"

definition ticked :: "jtext \<Rightarrow> jtext" where
  "ticked t = js ''`'' @ t @ js ''`''"

definition quoted :: "jtext \<Rightarrow> jtext" where
  "quoted t = [34] @ t @ [34]"

fun join_comma :: "jtext list \<Rightarrow> jtext" where
  "join_comma [] = []"
| "join_comma [p] = p"
| "join_comma (p # ps) = p @ js '', '' @ join_comma ps"

text \<open>A shown line is a revision or the gap.\<close>

definition shown_revisions :: "nat \<Rightarrow> file_revision list \<Rightarrow> file_revision option list" where
  "shown_revisions limit rs =
     (if length rs \<le> limit then map Some (rev rs)
      else map Some (if limit = 0 then butlast (rev rs) else take (limit - 1) (rev rs)) @
             [None, Some (hd rs)])"

definition revision_size :: "file_revision \<Rightarrow> jtext" where
  "revision_size r =
     (if r_body r \<noteq> None then decimal (r_lines r) @ plural (r_lines r) (js '' line'') (js '' lines'')
      else if r_index r = 1 then js ''did not exist'' else js ''deleted'')"

definition revision_line :: "nat option \<Rightarrow> file_revision \<Rightarrow> jtext" where
  "revision_line disk r =
     (let what = (if r_index r = 1 then js ''original ('' @ r_by r @ js '')'' else r_by r);
          notes = [revision_size r] @
            (case r_same_as r of Some i \<Rightarrow> [js ''identical to #'' @ decimal i] | None \<Rightarrow> []) @
            (if r_dropped r
             then [js ''content released to save memory '' @ [EM_DASH] @ js '' it cannot be restored'']
             else []) @
            (if disk = Some (r_index r) then [js ''on disk now''] else [])
      in js ''  #'' @ decimal (r_index r) @ js ''  '' @ what @ [32, EM_DASH, 32] @ join_comma notes @
         10 # js ''        '' @ r_note r)"

definition gap_line :: "nat \<Rightarrow> nat \<Rightarrow> jtext" where
  "gap_line limit n =
     js ''  '' @ [ELLIPSIS] @ js ''  '' @ decimal (n - limit + 1) @
     (if n - limit = 0 then js '' older revision'' else js '' older revisions'') @
     js '' not listed '' @ [EM_DASH] @ js '' ask for one by number''"

definition describe_revisions ::
  "jtext \<Rightarrow> file_revision list \<Rightarrow> nat option \<Rightarrow> jtext option \<Rightarrow> jtext" where
  "describe_revisions display rs limit scope =
     (let of_what = opt_default (js ''this transaction'') scope
      in if rs = []
         then js ''No revisions of '' @ ticked display @ js '' have been recorded in '' @ of_what @ js ''.''
         else let lim = opt_default DEFAULT_REVISION_LIST_LIMIT limit;
                  disk = map_option r_index (find (\<lambda>r. \<not> r_held r) (rev rs));
                  lines = map (\<lambda>r. case r of None \<Rightarrow> gap_line lim (length rs)
                                      | Some v \<Rightarrow> revision_line disk v) (shown_revisions lim rs)
              in join_lines ([js ''Revisions of '' @ ticked display @ js '' in '' @ of_what @ js '':''] @
                   lines @
                   [[],
                    js ''Restore any of them with `restore_file` and `revision`: a number, `'' @
                    quoted (js ''original'') @ js ''` for #1, or `'' @ quoted (js ''last'') @
                    js ''` to undo just the most recent change.'']))"

text \<open>
  The search takes Node's UTF-8 decoder and the full \<open>toLowerCase\<close> as arguments.
\<close>

definition search_hit ::
  "(bytes \<Rightarrow> jtext) \<Rightarrow> (jtext \<Rightarrow> jtext) \<Rightarrow> jtext \<Rightarrow> file_revision \<Rightarrow> (file_revision \<times> jtext) option" where
  "search_hit decode lower needle r =
     (if contains_text needle (lower (r_note r)) then Some (r, js ''in its note'')
      else case r_body r of
             None \<Rightarrow> None
           | Some b \<Rightarrow>
               (case index_of needle (lower (decode b)) of
                  None \<Rightarrow> None
                | Some at_char \<Rightarrow>
                    let t = decode b;
                        line = length (split_lines (take at_char t));
                        ls = split_lines t;
                        source = trim (if line - 1 < length ls then ls ! (line - 1) else []);
                        excerpt = (if length source > MATCH_EXCERPT_CHARS
                          then take (MATCH_EXCERPT_CHARS - 1) source @ [ELLIPSIS] else source)
                    in Some (r, js ''line '' @ decimal line @ js '': '' @ excerpt)))"

definition search_revisions ::
  "(bytes \<Rightarrow> jtext) \<Rightarrow> (jtext \<Rightarrow> jtext) \<Rightarrow> jtext \<Rightarrow> file_revision list \<Rightarrow> jtext \<Rightarrow> jtext" where
  "search_revisions decode lower display rs query =
     (let needle = trim query
      in if needle = []
         then js ''Say what to look for. `find` takes the text you want to locate among the revisions of '' @
              ticked display @ js ''.''
         else let hits = List.map_filter (search_hit decode lower (lower needle)) rs
              in if hits = []
                 then let released = length (filter r_dropped rs);
                          caveat = (if released = 0 then []
                            else js '' '' @ decimal released @ js '' revision'' @
                                 plural released (js '' has'') (js ''s have'') @
                                 js '' had its content released and could not be searched.'')
                      in js ''No revision of '' @ ticked display @ js '' in this transaction contains '' @
                         ticked needle @ js ''.'' @ caveat @ js '' The history is below.'' @ [10, 10] @
                         describe_revisions display rs None None
                 else let ordered = take SEARCH_RESULT_LIMIT (rev hits);
                          lines = map (\<lambda>(r, found). js ''  #'' @ decimal (r_index r) @ js ''  '' @ r_by r @
                            [32, EM_DASH, 32] @ decimal (r_lines r) @ js '' line'' @
                            plural (r_lines r) [] (js ''s'') @ 10 # js ''        '' @ r_note r @
                            10 # js ''        '' @ found) ordered;
                          more = (if length hits > length ordered
                            then [js ''  '' @ [ELLIPSIS] @ js ''  '' @
                                  decimal (length hits - length ordered) @ js '' older match(es) not listed'']
                            else [])
                      in join_lines ([decimal (length hits) @ js '' of '' @ decimal (length rs) @
                             js '' revision'' @ plural (length rs) [] (js ''s'') @ js '' of '' @ ticked display @
                             js '' contain '' @ ticked needle @ js '':''] @ lines @ more @
                           [[], js ''Go back to one with `restore_file` and `revision`, e.g. `revision: '' @
                            quoted (js ''#'' @ decimal (r_index (fst (hd ordered)))) @ js ''`.'']))"

section \<open>Reference counts\<close>

definition live_refs :: "mutable_revision list \<Rightarrow> jtext \<Rightarrow> nat" where
  "live_refs es h = length (filter (\<lambda>e. live_entry e \<and> m_hash e = h) es)"

definition live_total :: "logs \<Rightarrow> jtext \<Rightarrow> nat" where
  "live_total ls h = sum_list (map (\<lambda>pe. live_refs (snd pe) h) ls)"

definition blobs_ok :: "(bytes \<Rightarrow> jtext) \<Rightarrow> (jtext \<Rightarrow> nat) \<Rightarrow> blobs \<Rightarrow> bool" where
  "blobs_ok sha refs bs \<longleftrightarrow> distinct (map fst bs) \<and>
     (\<forall>h b. map_of bs h = Some b \<longrightarrow> 0 < blob_refs b \<and> sha (blob_body b) = h) \<and>
     (\<forall>h. refs_of bs h = refs h)"

lemma refs_release:
  "refs_of (release_blob h bs) h' = (if h' = h then refs_of bs h - 1 else refs_of bs h')"
  by (auto simp: release_blob_def refs_of_def AList.update_conv' AList.delete_conv'
      split: option.splits)

lemma refs_hold:
  "refs_of (hold_blob h body bs) h' = (if h' = h then Suc (refs_of bs h) else refs_of bs h')"
  by (auto simp: hold_blob_def refs_of_def AList.update_conv' split: option.splits)

lemma distinct_release: "distinct (map fst bs) \<Longrightarrow> distinct (map fst (release_blob h bs))"
  by (simp add: release_blob_def AList.distinct_delete AList.distinct_update split: option.split)

lemma distinct_hold: "distinct (map fst bs) \<Longrightarrow> distinct (map fst (hold_blob h body bs))"
  by (simp add: hold_blob_def AList.distinct_update split: option.split)

lemma blobs_ok_release:
  assumes "blobs_ok sha refs bs" and "\<And>x. refs' x = (if x = h then refs h - 1 else refs x)"
  shows "blobs_ok sha refs' (release_blob h bs)"
proof -
  have "0 < blob_refs b \<and> sha (blob_body b) = k" if "map_of (release_blob h bs) k = Some b" for k b
    using that assms(1)
    by (auto simp: blobs_ok_def release_blob_def AList.update_conv' AList.delete_conv'
        split: option.splits if_splits)
  with assms show ?thesis by (simp add: blobs_ok_def refs_release distinct_release)
qed

lemma blobs_ok_hold:
  assumes "blobs_ok sha refs bs" and "\<And>x. refs' x = (if x = sha body then Suc (refs x) else refs x)"
  shows "blobs_ok sha refs' (hold_blob (sha body) body bs)"
proof -
  have "0 < blob_refs b \<and> sha (blob_body b) = k"
    if "map_of (hold_blob (sha body) body bs) k = Some b" for k b
    using that assms(1)
    by (auto simp: blobs_ok_def hold_blob_def AList.update_conv' split: option.splits if_splits)
  with assms show ?thesis by (simp add: blobs_ok_def refs_hold distinct_hold)
qed

lemma length_mark_dropped [simp]: "length (mark_dropped i es) = length es"
  by (simp add: mark_dropped_def)

lemma live_refs_mark:
  assumes "i < length es" and "live_entry (es ! i)"
  shows "live_refs (mark_dropped i es) h =
    (if h = m_hash (es ! i) then live_refs es h - 1 else live_refs es h)"
  using length_filter_update [OF assms(1), of "\<lambda>e. live_entry e \<and> m_hash e = h"
      "(es ! i)\<lparr>m_dropped := True\<rparr>"] assms(2)
  by (auto simp: live_refs_def mark_dropped_def live_entry_def split: if_splits)

lemma live_refs_pos:
  "e \<in> set es \<Longrightarrow> live_entry e \<Longrightarrow> 0 < live_refs es (m_hash e)"
  by (auto simp: live_refs_def filter_empty_conv)

lemma live_total_split:
  "distinct (map fst ls) \<Longrightarrow>
     live_total ls h = live_total (AList.delete p ls) h + live_refs (opt_default [] (map_of ls p)) h"
proof (induction ls)
  case (Cons a ls)
  show ?case
  proof (cases "fst a = p")
    case True
    with Cons.prems have "map_of ls p = None" by (auto simp: map_of_eq_None_iff)
    then have "AList.delete p ls = ls" by (auto simp: map_of_eq_None_iff intro: AList.delete_id)
    with True show ?thesis by (cases a) (simp add: live_total_def)
  next
    case False
    with Cons show ?thesis by (cases a) (simp add: live_total_def)
  qed
qed (simp add: live_total_def live_refs_def)

lemma live_total_update:
  assumes "distinct (map fst ls)"
  shows "live_total (AList.update p es ls) h = live_total (AList.delete p ls) h + live_refs es h"
  using live_total_split [OF AList.distinct_update [OF assms, of p es], of h p]
  by (simp add: AList.update_conv' AList.delete_update_same)

lemma live_total_set_last:
  assumes "distinct (map fst ls)"
  shows "live_total (set_last p es ls) h = live_total (AList.delete p ls) h + live_refs es h"
  using live_total_update [OF AList.distinct_delete [OF assms], of p es]
  by (simp add: set_last_def AList.delete_idem)

section \<open>The cap of one file\<close>

lemma enforce_cap_rule:
  assumes "P es bs"
    and "\<And>es bs i. P es bs \<Longrightarrow> i \<in> set (cap_candidates es bs) \<Longrightarrow>
      P (mark_dropped i es) (release_blob (m_hash (es ! i)) bs)"
  shows "case enforce_cap limit es bs of (es', bs') \<Rightarrow> P es' bs'"
  using assms(1)
proof (induction limit es bs rule: enforce_cap.induct)
  case (1 limit es bs)
  show ?case
    using 1 assms(2) [of es bs "middle (cap_candidates es bs)"] middle_in [of "cap_candidates es bs"]
    by (subst enforce_cap.simps) (auto simp: Let_def)
qed

text \<open>What releasing content may do to an entry, and to a history.\<close>

definition drops_only :: "mutable_revision \<Rightarrow> mutable_revision \<Rightarrow> bool" where
  "drops_only e e' \<longleftrightarrow> e' = e \<or> e' = e\<lparr>m_dropped := True\<rparr>"

definition thinned :: "mutable_revision list \<Rightarrow> mutable_revision list \<Rightarrow> bool" where
  "thinned es es' \<longleftrightarrow> length es' = length es \<and> (\<forall>i < length es. drops_only (es ! i) (es' ! i))"

lemma drops_only_refl [simp]: "drops_only e e"
  by (simp add: drops_only_def)

lemma drops_only_trans: "drops_only a b \<Longrightarrow> drops_only b c \<Longrightarrow> drops_only a c"
  by (auto simp: drops_only_def)

lemma drops_only_sel:
  assumes "drops_only e e'"
  shows "m_index e' = m_index e" "m_hash e' = m_hash e" "m_existed e' = m_existed e"
    "m_held e' = m_held e" "m_note e' = m_note e" "m_bytes e' = m_bytes e"
  using assms by (auto simp: drops_only_def)

lemma thinned_refl [simp]: "thinned es es"
  by (simp add: thinned_def)

lemma thinned_trans: "thinned a b \<Longrightarrow> thinned b c \<Longrightarrow> thinned a c"
  unfolding thinned_def using drops_only_trans by metis

lemma mark_dropped_nth:
  "j < length es \<Longrightarrow>
     mark_dropped i es ! j = (if j = i then (es ! j)\<lparr>m_dropped := True\<rparr> else es ! j)"
  by (simp add: mark_dropped_def nth_list_update)

lemma thinned_mark: "thinned es (mark_dropped i es)"
  by (simp add: thinned_def mark_dropped_nth drops_only_def)

lemma enforce_cap_thinned: "thinned es (fst (enforce_cap limit es bs))"
proof -
  have "case enforce_cap limit es bs of (es', bs') \<Rightarrow> thinned es es'"
    by (rule enforce_cap_rule) (auto intro: thinned_trans thinned_mark)
  then show ?thesis by (simp add: case_prod_unfold)
qed

lemma enforce_cap_keeps_ends:
  assumes "i < length es" and "\<not> droppable es i"
  shows "fst (enforce_cap limit es bs) ! i = es ! i"
proof -
  have "case enforce_cap limit es bs of (es', bs') \<Rightarrow> length es' = length es \<and> es' ! i = es ! i"
    by (rule enforce_cap_rule)
      (use assms in \<open>auto simp: mark_dropped_def nth_list_update droppable_def dest: cap_candidatesD\<close>)
  then show ?thesis by (simp add: case_prod_unfold)
qed

lemma enforce_cap_post:
  "case enforce_cap limit es bs of (es', bs') \<Rightarrow>
     held_bytes_of es' \<le> limit \<or> cap_candidates es' bs' = []"
proof (induction limit es bs rule: enforce_cap.induct)
  case (1 limit es bs)
  then show ?case by (subst enforce_cap.simps) (auto simp: Let_def)
qed

lemma enforce_cap_blobs:
  assumes "blobs_ok sha (\<lambda>h. rest h + live_refs es h) bs"
  shows "case enforce_cap limit es bs of (es', bs') \<Rightarrow> blobs_ok sha (\<lambda>h. rest h + live_refs es' h) bs'"
proof (rule enforce_cap_rule [of "\<lambda>es bs. blobs_ok sha (\<lambda>h. rest h + live_refs es h) bs", OF assms])
  fix es bs i
  assume ok: "blobs_ok sha (\<lambda>h. rest h + live_refs es h) bs" and i: "i \<in> set (cap_candidates es bs)"
  note c = cap_candidatesD [OF i]
  show "blobs_ok sha (\<lambda>h. rest h + live_refs (mark_dropped i es) h) (release_blob (m_hash (es ! i)) bs)"
    using live_refs_pos [of "es ! i" es] c
    by (intro blobs_ok_release [OF ok]) (auto simp: live_refs_mark)
qed

section \<open>The invariant of the log\<close>

definition numbered :: "mutable_revision list \<Rightarrow> bool" where
  "numbered es \<longleftrightarrow> (\<forall>i < length es. m_index (es ! i) = Suc i)"

definition log_ok :: "(bytes \<Rightarrow> jtext) \<Rightarrow> revision_log \<Rightarrow> bool" where
  "log_ok sha st \<longleftrightarrow> distinct (map fst (rl_logs st)) \<and>
     (\<forall>path. numbered (entries_of st path)) \<and>
     (\<forall>path es. map_of (rl_logs st) path = Some es \<longrightarrow> es \<noteq> []) \<and>
     blobs_ok sha (live_total (rl_logs st)) (rl_blobs st)"

lemma numbered_thinned: "thinned es es' \<Longrightarrow> numbered es \<Longrightarrow> numbered es'"
  by (auto simp: thinned_def numbered_def drops_only_sel)

lemma entries_of_drop [simp]:
  "entries_of (drop_entry path i st) p =
     (if p = path then mark_dropped i (entries_of st path) else entries_of st p)"
  by (simp add: entries_of_def drop_entry_def AList.update_conv')

lemma drop_entry_frame [simp]:
  "rl_max_total (drop_entry path i st) = rl_max_total st"
  "rl_max_file (drop_entry path i st) = rl_max_file st"
  "rl_span (drop_entry path i st) = rl_span st"
  "rl_last_span (drop_entry path i st) = rl_last_span st"
  by (simp_all add: drop_entry_def)

lemma log_ok_drop:
  assumes ok: "log_ok sha st" and i: "i < length (entries_of st path)"
    and live: "live_entry (entries_of st path ! i)"
  shows "log_ok sha (drop_entry path i st)"
proof -
  let ?es = "entries_of st path" and ?ls = "rl_logs st"
  have d: "distinct (map fst ?ls)" using ok by (simp add: log_ok_def)
  have split: "live_total ?ls h = live_total (AList.delete path ?ls) h + live_refs ?es h" for h
    using live_total_split [OF d] by (simp add: entries_of_def)
  have "blobs_ok sha (live_total (AList.update path (mark_dropped i ?es) ?ls))
      (release_blob (m_hash (?es ! i)) (rl_blobs st))"
  proof (rule blobs_ok_release)
    show "blobs_ok sha (live_total ?ls) (rl_blobs st)" using ok by (simp add: log_ok_def)
    show "live_total (AList.update path (mark_dropped i ?es) ?ls) x =
        (if x = m_hash (?es ! i) then live_total ?ls (m_hash (?es ! i)) - 1 else live_total ?ls x)" for x
      using live_refs_pos [of "?es ! i" ?es] i live
      by (auto simp: live_total_update [OF d] split live_refs_mark)
  qed
  moreover have "numbered (mark_dropped i ?es)"
    using numbered_thinned [OF thinned_mark] ok by (simp add: log_ok_def)
  moreover have "?es \<noteq> []" using i by auto
  moreover have "distinct (map fst (AList.update path (mark_dropped i ?es) ?ls))"
    by (rule AList.distinct_update [OF d])
  moreover have "\<forall>p es. map_of (rl_logs (drop_entry path i st)) p = Some es \<longrightarrow> es \<noteq> []"
    using ok \<open>?es \<noteq> []\<close>
    by (auto simp: drop_entry_def AList.update_conv' log_ok_def mark_dropped_def simp del: entries_of_drop)
  moreover have "\<forall>p. numbered (entries_of (drop_entry path i st) p)"
    using ok \<open>numbered (mark_dropped i ?es)\<close> by (simp add: log_ok_def)
  ultimately show ?thesis unfolding log_ok_def
    by (simp add: drop_entry_def)
qed

section \<open>The cap across files\<close>

definition in_range :: "revision_log \<Rightarrow> string \<times> nat \<Rightarrow> bool" where
  "in_range st w \<longleftrightarrow> snd w < length (entries_of st (fst w))"

lemma total_walk_rule:
  assumes "P st" and "\<forall>w \<in> set ws. in_range st w"
    and step: "\<And>path i st. P st \<Longrightarrow> in_range st (path, i) \<Longrightarrow> releasable path i st \<Longrightarrow>
      P (drop_entry path i st)"
  shows "P (total_walk ws st)"
  using assms(1,2)
proof (induction ws st rule: total_walk.induct)
  case (2 path i ws st)
  have "\<forall>w \<in> set ws. in_range (drop_entry path i st) w"
    using "2.prems"(2) by (auto simp: in_range_def)
  with 2 step [of st path i] show ?case by (auto simp: Let_def)
qed simp

lemma walk_order_in_range:
  assumes "distinct (map fst (rl_logs st))"
  shows "\<forall>w \<in> set (walk_order (rl_logs st)). in_range st w"
  using assms by (auto simp: walk_order_def walk_file_def in_range_def entries_of_def)

lemma log_ok_total:
  assumes "log_ok sha st"
  shows "log_ok sha (enforce_total_cap st)"
proof -
  have d: "distinct (map fst (rl_logs st))" using assms by (simp only: log_ok_def)
  have "log_ok sha (total_walk (walk_order (rl_logs st)) st)"
  proof (rule total_walk_rule [of "log_ok sha", OF assms walk_order_in_range [OF d]])
    fix path i st
    assume "log_ok sha st" "in_range st (path, i)" "releasable path i st"
    then show "log_ok sha (drop_entry path i st)"
      by (intro log_ok_drop) (simp_all add: in_range_def releasable_def)
  qed
  with assms show ?thesis by (simp add: enforce_total_cap_def)
qed

lemma blobs_drop:
  "rl_blobs (drop_entry path i st) = release_blob (m_hash (entries_of st path ! i)) (rl_blobs st)"
  by (simp add: drop_entry_def)

lemma in_range_drop [simp]: "in_range (drop_entry path j st) w = in_range st w"
  by (simp add: in_range_def)

text \<open>A place that cannot be released stays so: shared content stays shared.\<close>

lemma not_releasable_drop:
  assumes ok: "log_ok sha st" and r: "in_range st (p', i')" "releasable p' i' st"
    and w: "in_range st (p, i)" "\<not> releasable p i st"
  shows "\<not> releasable p i (drop_entry p' i' st)"
proof -
  let ?e = "entries_of st p ! i" and ?e' = "entries_of st p' ! i'"
  have same: "releasable p i (drop_entry p' i' st) \<longleftrightarrow>
      (p, i) \<noteq> (p', i') \<and> live_entry ?e \<and> \<not> refs_of (release_blob (m_hash ?e') (rl_blobs st)) (m_hash ?e) > 1"
  proof (cases "p = p'")
    case True
    with w(1) show ?thesis
      by (cases "i = i'") (simp_all add: releasable_def in_range_def mark_dropped_nth live_entry_def blobs_drop)
  qed (simp add: releasable_def blobs_drop)
  show ?thesis
  proof (cases "live_entry ?e")
    case True
    with w(2) have "refs_of (rl_blobs st) (m_hash ?e) > 1" by (simp add: releasable_def)
    moreover from this r(2) have "m_hash ?e \<noteq> m_hash ?e'" by (auto simp: releasable_def)
    ultimately show ?thesis unfolding same by (simp add: refs_release)
  qed (simp add: same)
qed

lemma not_releasable_walk:
  assumes "log_ok sha st" and "\<forall>w \<in> set ws. in_range st w"
    and "in_range st (p, i)" and "\<not> releasable p i st"
  shows "\<not> releasable p i (total_walk ws st)"
proof -
  have "log_ok sha (total_walk ws st) \<and> in_range (total_walk ws st) (p, i) \<and> \<not> releasable p i (total_walk ws st)"
  proof (rule total_walk_rule [of "\<lambda>st. log_ok sha st \<and> in_range st (p, i) \<and> \<not> releasable p i st"])
    fix path j st
    assume inv: "log_ok sha st \<and> in_range st (p, i) \<and> \<not> releasable p i st"
      and r: "in_range st (path, j)" "releasable path j st"
    then have "\<not> releasable p i (drop_entry path j st)"
      by (intro not_releasable_drop [of sha]) simp_all
    moreover have "log_ok sha (drop_entry path j st)"
      using inv r by (intro log_ok_drop) (simp_all add: in_range_def releasable_def)
    ultimately show "log_ok sha (drop_entry path j st) \<and> in_range (drop_entry path j st) (p, i) \<and>
        \<not> releasable p i (drop_entry path j st)"
      using inv by simp
  qed (use assms in auto)
  then show ?thesis by blast
qed

lemma total_walk_post:
  assumes "log_ok sha st" and "\<forall>w \<in> set ws. in_range st w"
  shows "held_bytes_total (rl_blobs (total_walk ws st)) \<le> rl_max_total st \<or>
    (\<forall>w \<in> set ws. \<not> releasable (fst w) (snd w) (total_walk ws st))"
  using assms
proof (induction ws st rule: total_walk.induct)
  case (2 path i ws st)
  let ?d = "drop_entry path i st"
  have w: "in_range st (path, i)" and range: "\<forall>w \<in> set ws. in_range st w"
    using "2.prems"(2) by auto
  have range_d: "\<forall>w \<in> set ws. in_range ?d w" using range by (auto simp: in_range_def)
  show ?case
  proof (cases "releasable path i st")
    case False
    with "2.IH"(1) "2.prems"(1) range show ?thesis
      using not_releasable_walk [OF "2.prems"(1) range w False] by auto
  next
    case True
    then have ok: "log_ok sha ?d"
      using log_ok_drop "2.prems"(1) w by (simp add: in_range_def releasable_def)
    have gone: "\<not> releasable path i ?d"
      using w by (simp add: releasable_def in_range_def mark_dropped_nth live_entry_def)
    have w': "in_range ?d (path, i)" using w by (simp add: in_range_def)
    show ?thesis
      using "2.IH"(2) [of ?d] True ok range_d not_releasable_walk [OF ok range_d w' gone]
      by (auto simp: Let_def)
  qed
qed simp

lemma total_walk_frame [simp]:
  "rl_max_total (total_walk ws st) = rl_max_total st" "rl_span (total_walk ws st) = rl_span st"
  "rl_max_file (total_walk ws st) = rl_max_file st"
  "rl_last_span (total_walk ws st) = rl_last_span st"
  by (induction ws st rule: total_walk.induct) (simp_all add: Let_def)

lemma enforce_total_frame [simp]:
  "rl_max_total (enforce_total_cap st) = rl_max_total st" "rl_span (enforce_total_cap st) = rl_span st"
  "rl_max_file (enforce_total_cap st) = rl_max_file st"
  "rl_last_span (enforce_total_cap st) = rl_last_span st"
  by (simp_all add: enforce_total_cap_def)

lemma total_walk_thinned: "thinned (entries_of st p) (entries_of (total_walk ws st) p)"
  by (induction ws st rule: total_walk.induct)
     (auto simp: Let_def intro: thinned_mark thinned_trans [OF thinned_mark] split: if_splits)

lemma enforce_total_thinned: "thinned (entries_of st p) (entries_of (enforce_total_cap st) p)"
  by (simp add: enforce_total_cap_def total_walk_thinned)

lemma live_total_pos:
  assumes "0 < live_total ls h" and "distinct (map fst ls)"
  shows "\<exists>p es i. map_of ls p = Some es \<and> i < length es \<and> live_entry (es ! i) \<and> m_hash (es ! i) = h"
proof -
  from assms(1) have "\<exists>pe \<in> set ls. 0 < live_refs (snd pe) h"
    by (induction ls) (auto simp: live_total_def)
  then obtain p es where pe: "(p, es) \<in> set ls" "0 < live_refs es h" by auto
  then have "map_of ls p = Some es" using assms(2) by simp
  moreover from pe(2) obtain e where "e \<in> set es" "live_entry e" "m_hash e = h"
    by (auto simp: live_refs_def filter_empty_conv)
  ultimately show ?thesis by (metis in_set_conv_nth)
qed

lemma total_cap_post:
  assumes ok: "log_ok sha st"
  shows "held_bytes_total (rl_blobs (enforce_total_cap st)) \<le> rl_max_total st \<or>
    (\<forall>h b. map_of (rl_blobs (enforce_total_cap st)) h = Some b \<longrightarrow> blob_refs b > 1)"
proof (cases "held_bytes_total (rl_blobs st) \<le> rl_max_total st")
  case False
  let ?ws = "walk_order (rl_logs st)" and ?st = "enforce_total_cap st"
  have d: "distinct (map fst (rl_logs st))" using ok by (simp only: log_ok_def)
  have st': "?st = total_walk ?ws st" using False by (simp add: enforce_total_cap_def)
  have ok': "log_ok sha ?st" by (rule log_ok_total [OF ok])
  show ?thesis
  proof (cases "held_bytes_total (rl_blobs ?st) \<le> rl_max_total st")
    case False
    then have stuck: "\<not> releasable p i ?st" if "(p, i) \<in> set ?ws" for p i
      using total_walk_post [OF ok walk_order_in_range [OF d]] that unfolding st' by auto
    have "blob_refs b > 1" if b: "map_of (rl_blobs ?st) h = Some b" for h b
    proof -
      have "0 < live_total (rl_logs ?st) h"
        using ok' b unfolding log_ok_def blobs_ok_def by (auto simp: refs_of_def split: option.splits)
      moreover have "distinct (map fst (rl_logs ?st))" using ok' by (simp only: log_ok_def)
      ultimately obtain p es i where e: "map_of (rl_logs ?st) p = Some es" "i < length es"
          "live_entry (es ! i)" "m_hash (es ! i) = h"
        by (blast dest: live_total_pos)
      then have es: "entries_of ?st p = es" by (simp add: entries_of_def)
      then have len: "length (entries_of st p) = length es"
        using enforce_total_thinned [of st p] by (simp add: thinned_def)
      then have "entries_of st p \<noteq> []" using e(2) by auto
      then have "map_of (rl_logs st) p = Some (entries_of st p)"
        by (auto simp: entries_of_def opt_default_def split: option.splits)
      then have "(p, entries_of st p) \<in> set (rl_logs st)" by (rule map_of_SomeD)
      then have "(p, i) \<in> set ?ws"
        using e(2) len by (force simp: walk_order_def walk_file_def)
      from stuck [OF this] show ?thesis
        using e(3,4) b es by (simp add: releasable_def refs_of_def)
    qed
    then show ?thesis by blast
  qed simp
qed (simp add: enforce_total_cap_def)

section \<open>Appending\<close>

definition appended ::
  "(bytes \<Rightarrow> jtext) \<Rightarrow> string \<Rightarrow> bytes option \<Rightarrow> jtext \<Rightarrow> revision_note option \<Rightarrow> revision_log \<Rightarrow> revision_log" where
  "appended sha path body writer nt st =
     (let es = entries_of st path; e = new_entry sha es body writer nt;
          bs = (case body of Some b \<Rightarrow> hold_blob (m_hash e) b (rl_blobs st) | None \<Rightarrow> rl_blobs st);
          r = enforce_cap (rl_max_file st) (es @ [e]) bs
      in st\<lparr>rl_logs := set_last path (fst r) (rl_logs st), rl_blobs := snd r,
            rl_last_span := (rl_last_span st)(path \<mapsto> rl_span st)\<rparr>)"

lemma append_revision_state:
  "snd (append_revision sha path body writer nt st) =
     enforce_total_cap (appended sha path body writer nt st)"
  by (simp add: append_revision_def appended_def Let_def case_prod_unfold)

lemma append_revision_result:
  "fst (append_revision sha path body writer nt st) =
     (let st' = snd (append_revision sha path body writer nt st)
      in frozen (rl_blobs st') (entries_of st' path ! length (entries_of st path)))"
  by (simp add: append_revision_def Let_def case_prod_unfold)

lemma map_of_set_last [simp]: "map_of (set_last k v m) k' = (if k' = k then Some v else map_of m k')"
  by (simp add: set_last_def AList.update_conv' AList.delete_conv')

lemma distinct_set_last: "distinct (map fst m) \<Longrightarrow> distinct (map fst (set_last k v m))"
  by (simp add: set_last_def AList.distinct_update AList.distinct_delete)

lemma new_entry_sel [simp]:
  "m_index (new_entry sha es body writer nt) = Suc (length es)"
  "m_hash (new_entry sha es body writer nt) = hash_of sha body"
  "m_dropped (new_entry sha es body writer nt) = False"
  "m_existed (new_entry sha es body writer nt) = (body \<noteq> None)"
  "m_held (new_entry sha es body writer nt) = (case nt of Some n \<Rightarrow> note_held n | None \<Rightarrow> False)"
  by (simp_all add: new_entry_def Let_def)

lemma live_new_entry [simp]: "live_entry (new_entry sha es body writer nt) = (body \<noteq> None)"
  by (simp add: live_entry_def)

lemma live_refs_append: "live_refs (es @ [e]) h = live_refs es h + (if live_entry e \<and> m_hash e = h then 1 else 0)"
  by (simp add: live_refs_def)

lemma appended_entries:
  "thinned (if p = path then entries_of st path @ [new_entry sha (entries_of st path) body writer nt]
            else entries_of st p)
     (entries_of (appended sha path body writer nt st) p)"
  by (simp add: appended_def Let_def entries_of_def enforce_cap_thinned)

lemma log_ok_appended:
  assumes ok: "log_ok sha st"
  shows "log_ok sha (appended sha path body writer nt st)"
proof -
  let ?es = "entries_of st path" and ?ls = "rl_logs st"
  let ?e = "new_entry sha ?es body writer nt" and ?st = "appended sha path body writer nt st"
  let ?bs = "case body of Some b \<Rightarrow> hold_blob (m_hash ?e) b (rl_blobs st) | None \<Rightarrow> rl_blobs st"
  let ?rest = "live_total (AList.delete path ?ls)"
  let ?r = "enforce_cap (rl_max_file st) (?es @ [?e]) ?bs"
  have d: "distinct (map fst ?ls)" using ok by (simp only: log_ok_def)
  have before: "blobs_ok sha (\<lambda>h. ?rest h + live_refs ?es h) (rl_blobs st)"
  proof -
    have "live_total ?ls = (\<lambda>h. ?rest h + live_refs ?es h)"
      using live_total_split [OF d, of _ path] by (auto simp: entries_of_def)
    with ok show ?thesis by (simp add: log_ok_def)
  qed
  have "blobs_ok sha (\<lambda>h. ?rest h + live_refs (?es @ [?e]) h) ?bs"
  proof (cases body)
    case None
    with before show ?thesis by (simp add: live_refs_append)
  next
    case (Some b)
    have "blobs_ok sha (\<lambda>h. ?rest h + live_refs (?es @ [?e]) h) (hold_blob (sha b) b (rl_blobs st))"
      by (rule blobs_ok_hold [OF before]) (simp add: live_refs_append Some hash_of_def)
    then show ?thesis by (simp only: Some option.case new_entry_sel hash_of_def)
  qed
  from enforce_cap_blobs [OF this, of "rl_max_file st"]
  have "blobs_ok sha (\<lambda>h. ?rest h + live_refs (fst ?r) h) (snd ?r)" by (simp add: case_prod_unfold)
  moreover have "live_total (set_last path (fst ?r) ?ls) = (\<lambda>h. ?rest h + live_refs (fst ?r) h)"
    by (rule ext) (rule live_total_set_last [OF d])
  moreover have "rl_logs ?st = set_last path (fst ?r) ?ls" "rl_blobs ?st = snd ?r"
    by (simp_all add: appended_def Let_def)
  ultimately have blobs: "blobs_ok sha (live_total (rl_logs ?st)) (rl_blobs ?st)" by (simp only:)
  have "numbered (?es @ [?e])"
    using ok by (auto simp: log_ok_def numbered_def nth_append less_Suc_eq)
  then have "numbered (entries_of ?st p)" for p
    using numbered_thinned [OF appended_entries [of p path st sha body writer nt]] ok
    by (simp add: log_ok_def split: if_splits)
  moreover have "length (fst ?r) = Suc (length ?es)"
    using enforce_cap_thinned [of "?es @ [?e]" "rl_max_file st" ?bs] by (simp add: thinned_def)
  then have "es \<noteq> []" if "map_of (rl_logs ?st) p = Some es" for p es
    using that ok by (auto simp: appended_def Let_def log_ok_def split: if_splits)
  moreover have "distinct (map fst (rl_logs ?st))"
    by (simp add: appended_def Let_def distinct_set_last [OF d])
  ultimately show ?thesis using blobs unfolding log_ok_def by blast
qed

lemma log_ok_append: "log_ok sha st \<Longrightarrow> log_ok sha (snd (append_revision sha path body writer nt st))"
  by (simp add: append_revision_state log_ok_total log_ok_appended)

text \<open>What an append does to every history.\<close>

definition grows :: "mutable_revision list \<Rightarrow> mutable_revision list \<Rightarrow> bool" where
  "grows es es' \<longleftrightarrow> length es \<le> length es' \<and> (\<forall>i < length es. drops_only (es ! i) (es' ! i))"

lemma grows_refl [simp]: "grows es es"
  by (simp add: grows_def)

lemma grows_trans: "grows a b \<Longrightarrow> grows b c \<Longrightarrow> grows a c"
  unfolding grows_def using drops_only_trans by (meson le_trans less_le_trans)

lemma thinned_grows: "thinned (es @ new) es' \<Longrightarrow> grows es es'"
  unfolding thinned_def grows_def by (metis le_add1 length_append nth_append trans_less_add1)

lemma append_revision_entries:
  "thinned (if p = path then entries_of st path @ [new_entry sha (entries_of st path) body writer nt]
            else entries_of st p)
     (entries_of (snd (append_revision sha path body writer nt st)) p)"
  unfolding append_revision_state
  by (rule thinned_trans [OF appended_entries enforce_total_thinned])

lemma append_revision_grows:
  "grows (entries_of st p) (entries_of (snd (append_revision sha path body writer nt st)) p)"
  using append_revision_entries [of p path st sha body writer nt]
    thinned_grows [of "entries_of st p" "[]"] thinned_grows by (auto split: if_splits)

section \<open>Every operation\<close>

lemma ensure_seeded_grows: "grows (entries_of st p) (entries_of (ensure_seeded sha path st) p)"
  by (simp add: ensure_seeded_def append_revision_grows)

lemma log_ok_ensure: "log_ok sha st \<Longrightarrow> log_ok sha (ensure_seeded sha path st)"
  by (simp add: ensure_seeded_def log_ok_append)

lemma record_write_cases:
  obtains "record_write sha path body writer nt st = (None, ensure_seeded sha path st)"
  | "record_write sha path body writer nt st =
       apfst Some (append_revision sha path body writer nt (ensure_seeded sha path st))"
proof (cases "unchanged_write sha body nt (entries_of (ensure_seeded sha path st) path)")
  case True
  then show thesis using that(1) by (simp add: record_write_def Let_def)
next
  case False
  then show thesis using that(2) by (simp add: record_write_def Let_def)
qed

lemma log_ok_record:
  assumes "log_ok sha st"
  shows "log_ok sha (snd (record_write sha path body writer nt st))"
  by (rule record_write_cases [of sha path body writer nt st])
     (simp_all add: log_ok_ensure log_ok_append assms)

lemma record_write_grows:
  "grows (entries_of st p) (entries_of (snd (record_write sha path body writer nt st)) p)"
  by (rule record_write_cases [of sha path body writer nt st])
     (auto intro: ensure_seeded_grows grows_trans [OF ensure_seeded_grows append_revision_grows])

lemma seed_grows: "grows (entries_of st p) (entries_of (seed sha path body origin st) p)"
  by (simp add: seed_def append_revision_grows)

lemma log_ok_seed: "log_ok sha st \<Longrightarrow> log_ok sha (seed sha path body origin st)"
  by (simp add: seed_def log_ok_append)

lemma log_ok_reset: "log_ok sha (reset_log st)"
  by (simp add: log_ok_def reset_log_def entries_of_def numbered_def blobs_ok_def refs_of_def
      live_total_def)

lemma log_ok_create: "log_ok sha (create_revision_log pf pt)"
  by (simp add: log_ok_def create_revision_log_def entries_of_def numbered_def blobs_ok_def
      refs_of_def live_total_def)

lemma fold_release_ok:
  "blobs_ok sha (\<lambda>h. rest h + live_refs es h) bs \<Longrightarrow>
     blobs_ok sha rest (fold (\<lambda>e. release_blob (m_hash e)) (filter live_entry es) bs)"
proof (induction es arbitrary: bs)
  case (Cons e es)
  show ?case
  proof (cases "live_entry e")
    case True
    have "blobs_ok sha (\<lambda>h. rest h + live_refs es h) (release_blob (m_hash e) bs)"
      by (rule blobs_ok_release [OF Cons.prems]) (simp add: live_refs_def True)
    with Cons.IH True show ?thesis by simp
  next
    case False
    with Cons show ?thesis by (simp add: live_refs_def)
  qed
qed (simp add: live_refs_def)

lemma forget_file_entries:
  "entries_of (forget_file pe st) p = (if p = fst pe then [] else entries_of st p)"
  by (simp add: forget_file_def entries_of_def AList.delete_conv')

lemma log_ok_forget:
  assumes ok: "log_ok sha st" and pe: "map_of (rl_logs st) (fst pe) = Some (snd pe)"
  shows "log_ok sha (forget_file pe st)"
proof -
  let ?rest = "live_total (AList.delete (fst pe) (rl_logs st))"
  have d: "distinct (map fst (rl_logs st))" using ok by (simp only: log_ok_def)
  have "live_total (rl_logs st) = (\<lambda>h. ?rest h + live_refs (snd pe) h)"
    using live_total_split [OF d, of _ "fst pe"] pe by auto
  then have "blobs_ok sha ?rest (rl_blobs (forget_file pe st))"
    using ok fold_release_ok [of sha ?rest "snd pe" "rl_blobs st"]
    by (simp add: log_ok_def forget_file_def)
  moreover have "numbered (entries_of (forget_file pe st) p)" for p
    using ok by (simp add: forget_file_entries log_ok_def numbered_def)
  moreover have "es \<noteq> []" if "map_of (rl_logs (forget_file pe st)) p = Some es" for p es
    using that ok by (auto simp: forget_file_def AList.delete_conv' log_ok_def split: if_splits)
  ultimately show ?thesis unfolding log_ok_def
    by (simp add: forget_file_def AList.distinct_delete [OF d])
qed

lemma compact_files_spec:
  assumes "log_ok sha st" and "distinct (map fst pes)"
    and "\<forall>pe \<in> set pes. map_of (rl_logs st) (fst pe) = Some (snd pe)"
  shows "log_ok sha (snd (compact_files keep pes st)) \<and>
    (\<forall>p. entries_of (snd (compact_files keep pes st)) p =
      (if p \<in> set (map fst pes) \<and> \<not> retained keep (rl_span st) (rl_last_span st) p then []
       else entries_of st p)) \<and>
    fst (compact_files keep pes st) =
      length (filter (\<lambda>pe. \<not> retained keep (rl_span st) (rl_last_span st) (fst pe)) pes)"
  using assms
proof (induction pes arbitrary: st)
  case (Cons pe pes)
  show ?case
  proof (cases "retained keep (rl_span st) (rl_last_span st) (fst pe)")
    case True
    with Cons show ?thesis by auto
  next
    case False
    let ?st = "forget_file pe st"
    have others: "retained keep (rl_span ?st) (rl_last_span ?st) p =
        retained keep (rl_span st) (rl_last_span st) p" if "p \<noteq> fst pe" for p
      using that by (simp add: retained_def forget_file_def)
    have "log_ok sha ?st" using Cons.prems by (intro log_ok_forget) auto
    moreover have "\<forall>pe' \<in> set pes. map_of (rl_logs ?st) (fst pe') = Some (snd pe')"
      using Cons.prems by (fastforce simp: forget_file_def AList.delete_conv')
    moreover have "filter (\<lambda>pe. \<not> retained keep (rl_span ?st) (rl_last_span ?st) (fst pe)) pes =
        filter (\<lambda>pe. \<not> retained keep (rl_span st) (rl_last_span st) (fst pe)) pes"
    proof (intro filter_cong refl)
      fix pe' assume "pe' \<in> set pes"
      moreover have "fst pe \<notin> fst ` set pes" using Cons.prems(2) by simp
      ultimately have "fst pe' \<noteq> fst pe" by (metis imageI)
      then show "(\<not> retained keep (rl_span ?st) (rl_last_span ?st) (fst pe')) =
          (\<not> retained keep (rl_span st) (rl_last_span st) (fst pe'))"
        by (simp add: others)
    qed
    ultimately show ?thesis
      using Cons.IH [of ?st] Cons.prems(2) False others by (auto simp: forget_file_entries)
  qed
qed simp

lemma note_compaction_spec:
  assumes "log_ok sha st" and "1 \<le> rl_span st"
  shows "log_ok sha (snd (note_compaction keep st)) \<and>
    (\<forall>p. entries_of (snd (note_compaction keep st)) p =
      (if retained keep (Suc (rl_span st)) (rl_last_span st) p then entries_of st p else [])) \<and>
    fst (note_compaction keep st) =
      length (filter (\<lambda>p. \<not> retained keep (Suc (rl_span st)) (rl_last_span st) p) (tracked st))"
proof -
  let ?st = "st\<lparr>rl_span := Suc (rl_span st)\<rparr>"
  have ok: "log_ok sha ?st" using assms(1) by (simp add: log_ok_def entries_of_def)
  have d: "distinct (map fst (rl_logs st))" using assms(1) by (simp only: log_ok_def)
  have run: "note_compaction keep st = compact_files keep (rl_logs ?st) ?st"
    using assms(2) by (simp add: note_compaction_def)
  have gone: "entries_of ?st p = []" if "p \<notin> set (map fst (rl_logs st))" for p
    using that by (simp add: entries_of_def map_of_eq_None_iff [THEN iffD2])
  show ?thesis
    using compact_files_spec [OF ok, of "rl_logs ?st" keep] d gone unfolding run
    by (auto simp: tracked_def filter_map comp_def entries_of_def)
qed

lemma log_ok_step: "log_ok sha st \<Longrightarrow> log_ok sha (revision_step sha e st)"
proof (cases e)
  case (NoteCompaction keep)
  assume ok: "log_ok sha st"
  show ?thesis
  proof (cases "1 \<le> rl_span st")
    case False
    then have "rl_span st = 0" by simp
    with ok NoteCompaction show ?thesis by (simp add: note_compaction_def log_ok_def entries_of_def)
  qed (use ok NoteCompaction note_compaction_spec in auto)
qed (simp_all add: log_ok_seed log_ok_record log_ok_reset)

interpretation revision_machine: invariant_machine "revision_step sha" "log_ok sha"
  for sha
  by unfold_locales (rule log_ok_step)

end
