(* ===== verification/RevisionHistory.thy ===== *)
theory RevisionHistory
  imports Revisions
begin

text \<open>
  What the per-file history of \<open>file-revisions.ts\<close> promises its readers: the spellings of a
  revision, what a recorded version resolves to, what \<open>last\<close> means, what the two caps and a
  compaction may take away, and the reference counts behind all of it.
\<close>

section \<open>Reading a request\<close>

lemma not_space_literals [simp]:
  "\<not> is_space 35" "\<not> is_space 118" "\<not> is_space 114"
  by (simp_all add: is_space_def word_le_nat_alt)

lemma trim_solid: "t \<noteq> [] \<Longrightarrow> \<not> is_space (hd t) \<Longrightarrow> \<not> is_space (last t) \<Longrightarrow> trim t = t"
  using dropWhile_eq_self_iff [of is_space t] dropWhile_eq_self_iff [of is_space "rev t"]
  by (simp add: trim_def trim_left_def hd_rev)

lemma last_decimal: "is_digit (last (decimal n))"
  using decimal_digits [of "last (decimal n)" n] by simp

lemma trim_request: "t \<noteq> [] \<Longrightarrow> \<not> is_space (hd t) \<Longrightarrow> trim (t @ decimal n) = t @ decimal n"
  using last_decimal [of n] by (intro trim_solid) (simp_all add: digit_not_space)

lemma trim_decimal [simp]: "trim (decimal n) = decimal n"
  using decimal_digits [of "hd (decimal n)" n] last_decimal [of n]
  by (intro trim_solid) (simp_all add: digit_not_space)

lemma trim_left_decimal [simp]: "trim_left (decimal n) = decimal n"
  using decimal_digits [of "hd (decimal n)" n]
  by (simp add: trim_left_def dropWhile_eq_self_iff digit_not_space)

lemma lower_decimal [simp]: "ascii_lower (decimal n) = decimal n"
  unfolding ascii_lower_def using decimal_digits [of _ n] digit_lower by (intro map_idI) fastforce

lemma lower_append: "ascii_lower (a @ b) = ascii_lower a @ ascii_lower b"
  by (simp add: ascii_lower_def)

lemma decimal_head: obtains c cs where "decimal n = c # cs" and "is_digit c"
  using decimal_nonempty decimal_digits by (metis list.exhaust list.set_intros(1))

lemma decimal_not_digit_free: "\<not> is_digit c \<Longrightarrow> c \<notin> set (decimal n)"
  using decimal_digits by blast

text \<open>The spellings of one number.\<close>

definition spellings :: "nat \<Rightarrow> jtext list" where
  "spellings n = map (\<lambda>p. p @ decimal n)
     [[], js ''#'', js ''v'', js ''rev '', js ''revision '', js ''rev #'', js ''Revision #'']"

lemma js_integer_small: "n < 2 ^ 53 \<Longrightarrow> js_integer n = Some n"
  by (simp add: js_integer_def)

lemma special_words:
  "t \<in> {js ''original'', js ''base'', js ''first'', js ''last'', js ''previous'', js ''undo''} \<Longrightarrow>
     \<not> is_digit (last t)"
  by (auto simp: js_def is_digit_def word_le_nat_alt)

lemma parse_numbered:
  assumes "trim s = s" and "ascii_lower s = p @ decimal n" and "strip_revision_prefix (p @ decimal n) = decimal n"
    and "0 < n" and "n < 2 ^ 53"
  shows "parse_revision s = Numbered n"
proof -
  have "is_digit (last (p @ decimal n))" by (simp add: last_decimal)
  then have "p @ decimal n \<notin> {js ''original'', js ''base'', js ''first'', js ''last'', js ''previous'', js ''undo''}"
    using special_words by blast
  moreover have "\<not> (\<exists>c \<in> set (decimal n). \<not> is_digit c)" using decimal_digits by blast
  ultimately show ?thesis
    using assms by (simp add: parse_revision_def js_integer_small)
qed

lemma strip_decimal: "\<not> is_digit c \<Longrightarrow> strip_prefix (c # cs) (decimal n) = None"
  by (rule decimal_head [of n]) (auto simp: strip_prefix_def)

lemma strip_same [simp]: "strip_prefix p (p @ t) = Some t"
  by (simp add: strip_prefix_def)

lemma not_digit_literals [simp]:
  "\<not> is_digit 35" "\<not> is_digit 118" "\<not> is_digit 114" "\<not> is_digit 105"
  by (simp_all add: is_digit_def word_le_nat_alt)

lemma strip_prefix_decimal [simp]:
  "strip_prefix (js ''#'') (decimal n) = None" "strip_prefix (js ''v'') (decimal n) = None"
  "strip_prefix (js ''rev'') (decimal n) = None" "strip_prefix (js ''ision'') (decimal n) = None"
  by (simp_all add: js_def strip_decimal)

lemma strip_prefix_cons [simp]:
  "strip_prefix (c # cs) (d # ds) = (if c = d then strip_prefix cs ds else None)"
  "strip_prefix [] t = Some t"
  by (simp_all add: strip_prefix_def)

lemma trim_left_cons [simp]:
  "trim_left (32 # t) = trim_left t" "trim_left (35 # t) = 35 # t"
  by (simp_all add: trim_left_def is_space_def word_le_nat_alt)

lemma strip_spellings:
  "strip_revision_prefix (decimal n) = decimal n"
  "strip_revision_prefix (js ''#'' @ decimal n) = decimal n"
  "strip_revision_prefix (js ''v'' @ decimal n) = decimal n"
  "strip_revision_prefix (js ''rev '' @ decimal n) = decimal n"
  "strip_revision_prefix (js ''revision '' @ decimal n) = decimal n"
  "strip_revision_prefix (js ''rev #'' @ decimal n) = decimal n"
  "strip_revision_prefix (js ''revision #'' @ decimal n) = decimal n"
  using strip_prefix_decimal [of n]
  by (simp_all add: strip_revision_prefix_def js_def)

lemma trim_spelling:
  "p \<in> set [[], js ''#'', js ''v'', js ''rev '', js ''revision '', js ''rev #'', js ''Revision #''] \<Longrightarrow>
     trim (p @ decimal n) = p @ decimal n"
  by (cases "p = []") (auto intro!: trim_request simp: js_def is_space_def word_le_nat_alt)

lemma lower_spelling:
  "ascii_lower (js ''#'') = js ''#''" "ascii_lower (js ''v'') = js ''v''"
  "ascii_lower (js ''rev '') = js ''rev ''" "ascii_lower (js ''revision '') = js ''revision ''"
  "ascii_lower (js ''rev #'') = js ''rev #''" "ascii_lower (js ''Revision #'') = js ''revision #''"
  "ascii_lower [] = []"
  by (simp_all add: ascii_lower_def js_def word_le_nat_alt)

lemma parse_spellings:
  assumes "s \<in> set (spellings n)" and "0 < n" and "n < 2 ^ 53"
  shows "parse_revision s = Numbered n"
proof -
  from assms(1) obtain p where p: "s = p @ decimal n"
      "p \<in> set [[], js ''#'', js ''v'', js ''rev '', js ''revision '', js ''rev #'', js ''Revision #'']"
    by (auto simp: spellings_def)
  have "strip_revision_prefix (ascii_lower p @ decimal n) = decimal n"
    using p(2) by (auto simp: lower_spelling strip_spellings)
  then show ?thesis
    using assms(2,3) trim_spelling [OF p(2), of n] unfolding p(1)
    by (intro parse_numbered [of _ "ascii_lower p"]) (simp_all add: lower_append)
qed

text \<open>
  Every text the reader takes for the number \<open>n\<close>: blanks, one of the forms of
  \<open>/^(?:#|v|rev(?:ision)?\s*#?\s*)?(\d+)$/\<close> in letters of either case, and blanks.
\<close>

definition revision_prefix :: "jtext \<Rightarrow> bool" where
  "revision_prefix q = (q \<in> {[], js ''#'', js ''v''} \<or>
     (\<exists>i ws h ws'. q = js ''rev'' @ i @ ws @ h @ ws' \<and> i \<in> {[], js ''ision''} \<and> h \<in> {[], js ''#''} \<and>
        list_all is_space ws \<and> list_all is_space ws'))"

definition spelled :: "nat \<Rightarrow> jtext \<Rightarrow> bool" where
  "spelled n s = (\<exists>w p ds w'. s = w @ p @ ds @ w' \<and> list_all is_space w \<and> list_all is_space w' \<and>
     revision_prefix (ascii_lower p) \<and> ds \<noteq> [] \<and> list_all is_digit ds \<and>
     js_integer (digits_value ds) = Some n \<and> 0 < n)"

lemma trim_left_skip: "list_all is_space w \<Longrightarrow> trim_left (w @ t) = trim_left t"
  by (simp add: trim_left_def list_all_iff dropWhile_append2)

lemma trim_left_stop: "t \<noteq> [] \<Longrightarrow> \<not> is_space (hd t) \<Longrightarrow> trim_left t = t"
  by (cases t) (simp_all add: trim_left_def)

lemma trim_around:
  assumes "list_all is_space w" "list_all is_space w'" "t \<noteq> []" "\<not> is_space (hd t)" "\<not> is_space (last t)"
  shows "trim (w @ t @ w') = t"
proof -
  have "trim_left (w @ t @ w') = t @ w'"
    using assms by (simp add: trim_left_skip trim_left_stop)
  moreover have "trim_left (rev (t @ w')) = rev t"
    using assms by (simp add: trim_left_skip trim_left_stop hd_rev list_all_rev)
  ultimately show ?thesis by (simp add: trim_def)
qed

lemma lower_digits: "list_all is_digit ds \<Longrightarrow> ascii_lower ds = ds"
  using digit_lower by (induction ds) (auto simp: ascii_lower_def)

lemma strip_digits:
  assumes "list_all is_digit ds" "\<not> is_digit c"
  shows "strip_prefix (c # cs) ds = None"
  using assms by (cases ds) (auto simp: strip_prefix_def)

lemma is_space_facts: "is_space c \<Longrightarrow> c \<noteq> 35 \<and> c \<noteq> 105 \<and> \<not> is_digit c" for c :: "16 word"
  using digit_not_space by (auto simp: is_space_def word_le_nat_alt)

lemma strip_no_start: "t \<noteq> [] \<Longrightarrow> hd t \<noteq> c \<Longrightarrow> strip_prefix (c # cs) t = None"
  by (cases t) (auto simp: strip_prefix_def)

lemma strip_hash:
  assumes "list_all is_space ws" "list_all is_space ws'" "h \<in> {[], js ''#''}" "list_all is_digit ds" "ds \<noteq> []"
  shows "(let r1 = trim_left (ws @ h @ ws' @ ds) in trim_left (opt_default r1 (strip_prefix (js ''#'') r1))) = ds"
proof -
  have d: "\<not> is_space (hd ds)" "hd ds \<noteq> 35"
    using assms(4,5) digit_not_space by (cases ds; auto simp: is_digit_def word_le_nat_alt)+
  have ds: "trim_left ds = ds" using assms(5) d(1) by (rule trim_left_stop)
  show ?thesis
  proof (cases "h = []")
    case True
    then have "trim_left (ws @ h @ ws' @ ds) = ds" using assms(1,2) ds by (simp add: trim_left_skip)
    then show ?thesis using ds strip_no_start [OF assms(5) d(2), of "[]"] by (simp add: js_def)
  next
    case False
    then have "trim_left (ws @ h @ ws' @ ds) = 35 # ws' @ ds"
      using assms(1,3) by (simp add: trim_left_skip js_def)
    then show ?thesis using ds assms(2) by (simp add: trim_left_skip js_def)
  qed
qed

lemma strip_spelled:
  assumes "revision_prefix q" "list_all is_digit ds" "ds \<noteq> []"
  shows "strip_revision_prefix (q @ ds) = ds"
proof -
  have none: "strip_prefix (js ''#'') ds = None" "strip_prefix (js ''v'') ds = None" "strip_prefix (js ''rev'') ds = None"
    using strip_digits [OF assms(2)] by (simp_all add: js_def)
  consider "q \<in> {[], js ''#'', js ''v''}"
    | i ws h ws' where "q = js ''rev'' @ i @ ws @ h @ ws'" "i \<in> {[], js ''ision''}" "h \<in> {[], js ''#''}"
        "list_all is_space ws" "list_all is_space ws'"
    using assms(1) by (auto simp: revision_prefix_def)
  then show ?thesis
  proof cases
    case 1
    then show ?thesis using none by (auto simp: strip_revision_prefix_def js_def)
  next
    case (2 i ws h ws')
    let ?r = "ws @ h @ ws' @ ds"
    have "strip_prefix (js ''ision'') ?r = None"
    proof -
      have "?r \<noteq> []" using assms(3) by simp
      moreover have "hd ?r \<noteq> 105"
        using 2(3-5) assms(2,3) is_space_facts
        by (cases ws; cases ws'; cases ds; auto simp: js_def is_digit_def word_le_nat_alt)
      ultimately show ?thesis unfolding js_def by (simp add: strip_no_start)
    qed
    then have "opt_default (i @ ?r) (strip_prefix (js ''ision'') (i @ ?r)) = ?r" using 2(2) by auto
    moreover have "strip_revision_prefix (q @ ds) =
        (let r1 = trim_left (opt_default (i @ ?r) (strip_prefix (js ''ision'') (i @ ?r)))
         in trim_left (opt_default r1 (strip_prefix (js ''#'') r1)))"
      unfolding 2(1) by (simp add: strip_revision_prefix_def js_def)
    ultimately show ?thesis using strip_hash [OF 2(4,5,3) assms(2,3)] by simp
  qed
qed

lemma prefix_head:
  assumes "revision_prefix (ascii_lower p)" "p \<noteq> []"
  shows "\<not> is_space (hd p)"
proof
  assume sp: "is_space (hd p)"
  then have "\<not> (65 \<le> hd p \<and> hd p \<le> 90)" by (auto simp: is_space_def word_le_nat_alt)
  then have "hd (ascii_lower p) = hd p" using assms(2) by (cases p) (auto simp: ascii_lower_def)
  moreover have "hd (ascii_lower p) \<in> {35, 118, 114}"
    using assms by (auto simp: revision_prefix_def js_def ascii_lower_def)
  ultimately show False using sp by (auto simp: is_space_def word_le_nat_alt)
qed

lemma parse_spelled: "spelled n s \<Longrightarrow> parse_revision s = Numbered n"
proof -
  assume "spelled n s"
  then obtain w p ds w' where s: "s = w @ (p @ ds) @ w'" "list_all is_space w" "list_all is_space w'"
    "revision_prefix (ascii_lower p)" "ds \<noteq> []" "list_all is_digit ds" "js_integer (digits_value ds) = Some n" "0 < n"
    by (auto simp: spelled_def)
  have d: "is_digit (hd ds)" "is_digit (last ds)" using s(5,6) by (auto simp: list_all_iff)
  have "trim s = p @ ds"
    unfolding s(1)
  proof (rule trim_around [OF s(2,3)])
    show "\<not> is_space (hd (p @ ds))"
      using prefix_head [OF s(4)] d(1) digit_not_space by (cases "p = []") auto
    show "\<not> is_space (last (p @ ds))" using s(5) d(2) digit_not_space by simp
  qed (use s(5) in simp)
  then have t: "ascii_lower (trim s) = ascii_lower p @ ds" by (simp add: lower_append lower_digits s(6))
  have "is_digit (last (ascii_lower p @ ds))" using s(5) d(2) by simp
  then have "ascii_lower p @ ds \<notin> {js ''original'', js ''base'', js ''first'', js ''last'', js ''previous'', js ''undo''}"
    using special_words by blast
  moreover have "\<not> (\<exists>c \<in> set ds. \<not> is_digit c)" using s(6) by (auto simp: list_all_iff)
  ultimately show ?thesis
    using s(5,7,8) strip_spelled [OF s(4,6,5)] by (simp add: parse_revision_def t)
qed

lemma parse_words [simp]:
  "parse_revision (js ''last'') = LastChange" "parse_revision (js ''original'') = Original"
  by code_simp+

section \<open>Reading the log back\<close>

text \<open>The hash tells contents apart, and none of its values is the mark of a missing file.\<close>

definition collision_free :: "(bytes \<Rightarrow> jtext) \<Rightarrow> bool" where
  "collision_free sha \<longleftrightarrow> inj sha \<and> ABSENT_HASH \<notin> range sha"

lemma blobs_ok_held:
  assumes "blobs_ok sha refs bs" and "0 < refs h"
  shows "\<exists>b. map_of bs h = Some b \<and> sha (blob_body b) = h"
proof (cases "map_of bs h")
  case None
  then have "refs_of bs h = 0" by (simp add: refs_of_def)
  with assms show ?thesis by (simp add: blobs_ok_def)
next
  case (Some b)
  with assms(1) show ?thesis unfolding blobs_ok_def by blast
qed

lemma live_has_body:
  assumes ok: "log_ok sha st" and i: "i < length (entries_of st path)"
    and live: "live_entry (entries_of st path ! i)"
  shows "\<exists>b. body_of (rl_blobs st) (entries_of st path ! i) = Some b \<and> sha b = m_hash (entries_of st path ! i)"
proof -
  let ?e = "entries_of st path ! i"
  have "entries_of st path \<noteq> []" using i by auto
  then have mem: "map_of (rl_logs st) path = Some (entries_of st path)"
    by (auto simp: entries_of_def opt_default_def split: option.splits)
  have "live_refs (entries_of st path) (m_hash ?e) \<in> set (map (\<lambda>pe. live_refs (snd pe) (m_hash ?e)) (rl_logs st))"
    using map_of_SomeD [OF mem] by force
  then have "live_refs (entries_of st path) (m_hash ?e) \<le> live_total (rl_logs st) (m_hash ?e)"
    unfolding live_total_def by (rule member_le_sum_list) simp
  moreover have "0 < live_refs (entries_of st path) (m_hash ?e)"
    using i live by (intro live_refs_pos) simp_all
  ultimately have "0 < live_total (rl_logs st) (m_hash ?e)" by linarith
  then obtain b where "map_of (rl_blobs st) (m_hash ?e) = Some b" "sha (blob_body b) = m_hash ?e"
    using ok blobs_ok_held by (metis log_ok_def)
  with live show ?thesis by (simp add: body_of_def live_entry_def)
qed

lemma body_of_hash:
  assumes "collision_free sha" and "log_ok sha st" and "i < length (entries_of st path)"
    and "live_entry (entries_of st path ! i)" and "m_hash (entries_of st path ! i) = sha b"
  shows "body_of (rl_blobs st) (entries_of st path ! i) = Some b"
  using live_has_body [OF assms(2-4)] assms(1,5) by (auto simp: collision_free_def inj_eq)

lemma entries_numbered:
  "log_ok sha st \<Longrightarrow> i < length (entries_of st path) \<Longrightarrow> m_index (entries_of st path ! i) = Suc i"
  by (auto simp: log_ok_def numbered_def)

lemma thinned_written:
  assumes "thinned es es'"
  shows "map m_index (filter (\<lambda>e. \<not> m_held e) es') = map m_index (filter (\<lambda>e. \<not> m_held e) es)"
proof -
  have "list_all2 drops_only es es'" using assms by (simp add: thinned_def list_all2_conv_all_nth)
  then show ?thesis by (induction rule: list_all2_induct) (auto simp: drops_only_sel)
qed

lemma last_index_map:
  assumes "map m_index (filter (\<lambda>e. \<not> m_held e) es) = is @ [j, k]"
  shows "last_index es = j"
proof -
  let ?w = "filter (\<lambda>e. \<not> m_held e) es"
  have len: "length ?w = length is + 2" using arg_cong [OF assms, of length] by simp
  then have "m_index (?w ! length is) = (is @ [j, k]) ! length is"
    using assms [symmetric] by (simp only:) (simp del: filter.simps)
  with len show ?thesis by (simp add: last_index_def Let_def)
qed

lemma on_disk_last:
  "on_disk es = Some e \<Longrightarrow> \<exists>ws. filter (\<lambda>e. \<not> m_held e) es = ws @ [e]"
proof (induction es rule: rev_induct)
  case (snoc x es)
  then show ?case by (cases "m_held x") (auto simp: on_disk_def)
qed (simp add: on_disk_def)

abbreviation revision_run ::
  "(bytes \<Rightarrow> jtext) \<Rightarrow> nat option \<Rightarrow> nat option \<Rightarrow> revision_event list \<Rightarrow> revision_log" where
  "revision_run sha pf pt evs \<equiv> fold (revision_step sha) evs (create_revision_log pf pt)"

lemma log_ok_run: "log_ok sha (revision_run sha pf pt evs)"
  by (rule revision_machine.run_inv [OF log_ok_create])

lemma record_write_Some:
  assumes "record_write sha path body writer nt st = (Some r, st')"
  shows "let st1 = ensure_seeded sha path st; n = length (entries_of st1 path)
    in st' = snd (append_revision sha path body writer nt st1) \<and>
       r = frozen (rl_blobs st') (entries_of st' path ! n) \<and>
       thinned (entries_of st1 path @ [new_entry sha (entries_of st1 path) body writer nt]) (entries_of st' path)"
proof -
  let ?st1 = "ensure_seeded sha path st"
  have a: "append_revision sha path body writer nt ?st1 = (r, st')"
    by (rule record_write_cases [of sha path body writer nt st])
       (use assms in \<open>auto simp: apfst_def map_prod_def split: prod.splits\<close>)
  with append_revision_result [of sha path body writer nt ?st1]
    append_revision_entries [of path path ?st1 sha body writer nt] show ?thesis
    by (simp add: Let_def)
qed

lemma thinned_last:
  assumes "thinned (es @ [e]) es'"
  shows "length es < length es'" and "drops_only e (es' ! length es)"
    and "i < length es \<Longrightarrow> drops_only (es ! i) (es' ! i)"
  using assms by (auto simp: thinned_def nth_append dest: spec [of _ i] spec [of _ "length es"])

lemma lookup_hit:
  "n < length (entries_of st path) \<Longrightarrow> \<not> m_dropped (entries_of st path ! n) \<Longrightarrow>
     lookup_index st path s (Suc n) = Found (frozen (rl_blobs st) (entries_of st path ! n))"
  "n < length (entries_of st path) \<Longrightarrow> m_dropped (entries_of st path ! n) \<Longrightarrow>
     lookup_index st path s (Suc n) = DroppedContent (m_index (entries_of st path ! n))"
  by (simp_all add: lookup_index_def Let_def)

section \<open>The total cap as an invariant\<close>

text \<open>Every stored content of one store is in the other.\<close>

definition stored_in :: "blobs \<Rightarrow> blobs \<Rightarrow> bool" where
  "stored_in bs' bs \<longleftrightarrow> (\<forall>h b'. map_of bs' h = Some b' \<longrightarrow>
     (\<exists>b. map_of bs h = Some b \<and> blob_body b = blob_body b' \<and> blob_refs b' \<le> blob_refs b))"

lemma stored_in_refl [simp]: "stored_in bs bs"
  by (simp add: stored_in_def)

lemma stored_in_trans:
  assumes "stored_in a b" and "stored_in b c"
  shows "stored_in a c"
  unfolding stored_in_def
proof (intro allI impI)
  fix h x assume "map_of a h = Some x"
  then obtain y where y: "map_of b h = Some y" "blob_body y = blob_body x" "blob_refs x \<le> blob_refs y"
    using assms(1) unfolding stored_in_def by blast
  then obtain z where "map_of c h = Some z" "blob_body z = blob_body y" "blob_refs y \<le> blob_refs z"
    using assms(2) unfolding stored_in_def by blast
  with y show "\<exists>z. map_of c h = Some z \<and> blob_body z = blob_body x \<and> blob_refs x \<le> blob_refs z"
    by (intro exI [of _ z]) simp
qed

lemma stored_in_release: "stored_in (release_blob h bs) bs"
  by (auto simp: stored_in_def release_blob_def AList.update_conv' AList.delete_conv' split: option.splits)

lemma held_bytes_total_sum:
  assumes "distinct (map fst bs)"
  shows "held_bytes_total bs = (\<Sum>h \<in> fst ` set bs. length (blob_body (the (map_of bs h))))"
  using assms
proof (induction bs)
  case (Cons x bs)
  have "(\<Sum>h \<in> fst ` set bs. length (blob_body (the (map_of (x # bs) h)))) =
      (\<Sum>h \<in> fst ` set bs. length (blob_body (the (map_of bs h))))"
  proof (intro sum.cong refl)
    fix h assume "h \<in> fst ` set bs"
    moreover have "fst x \<notin> fst ` set bs" using Cons.prems by simp
    ultimately have "h \<noteq> fst x" by metis
    then show "length (blob_body (the (map_of (x # bs) h))) = length (blob_body (the (map_of bs h)))"
      by (cases x) simp
  qed
  with Cons show ?case by (cases x) (simp add: held_bytes_total_def)
qed (simp add: held_bytes_total_def)

lemma held_bytes_total_mono:
  assumes "distinct (map fst bs')" and "distinct (map fst bs)"
    and "\<And>h b'. map_of bs' h = Some b' \<Longrightarrow> \<exists>b. map_of bs h = Some b \<and> blob_body b = blob_body b'"
  shows "held_bytes_total bs' \<le> held_bytes_total bs"
proof -
  have same: "h \<in> fst ` set bs \<and> blob_body (the (map_of bs h)) = blob_body (the (map_of bs' h))"
    if "h \<in> fst ` set bs'" for h
  proof -
    from that obtain b' where "map_of bs' h = Some b'"
      by (metis map_of_eq_None_iff not_None_eq)
    with assms(3) obtain b where "map_of bs h = Some b" "blob_body b = blob_body b'" by blast
    with \<open>map_of bs' h = Some b'\<close> show ?thesis by (force dest: map_of_SomeD)
  qed
  then have "held_bytes_total bs' = (\<Sum>h \<in> fst ` set bs'. length (blob_body (the (map_of bs h))))"
    by (simp add: held_bytes_total_sum [OF assms(1)])
  also have "\<dots> \<le> held_bytes_total bs"
    unfolding held_bytes_total_sum [OF assms(2)] using same by (intro sum_mono2) auto
  finally show ?thesis .
qed

lemma hold_existing:
  "map_of bs k \<noteq> None \<Longrightarrow> map_of (hold_blob k b bs) h = Some c \<Longrightarrow>
     \<exists>d. map_of bs h = Some d \<and> blob_body d = blob_body c"
  by (auto simp: hold_blob_def AList.update_conv' split: if_splits)

definition within_total :: "nat \<Rightarrow> revision_log \<Rightarrow> bool" where
  "within_total m st \<longleftrightarrow> rl_max_total st = m \<and> held_bytes_total (rl_blobs st) \<le> m"

lemma log_ok_distinct_blobs: "log_ok sha st \<Longrightarrow> distinct (map fst (rl_blobs st))"
  by (simp add: log_ok_def blobs_ok_def)

lemma stored_in_total:
  "stored_in bs' bs \<Longrightarrow> distinct (map fst bs') \<Longrightarrow> distinct (map fst bs) \<Longrightarrow>
     held_bytes_total bs' \<le> held_bytes_total bs"
  unfolding stored_in_def by (rule held_bytes_total_mono) blast+

lemma stored_in_cap: "stored_in (snd (enforce_cap limit es bs)) bs"
proof -
  have "case enforce_cap limit es bs of (es', bs') \<Rightarrow> stored_in bs' bs"
    by (rule enforce_cap_rule) (auto intro: stored_in_trans stored_in_release)
  then show ?thesis by (simp add: case_prod_unfold)
qed

lemma stored_in_walk: "stored_in (rl_blobs (total_walk ws st)) (rl_blobs st)"
  by (induction ws st rule: total_walk.induct)
     (auto simp: Let_def blobs_drop intro: stored_in_release stored_in_trans)

lemma stored_in_append:
  "stored_in (rl_blobs (snd (append_revision sha path body writer nt st)))
     (case body of Some b \<Rightarrow> hold_blob (sha b) b (rl_blobs st) | None \<Rightarrow> rl_blobs st)"
proof -
  have "stored_in (rl_blobs (enforce_total_cap x)) (rl_blobs x)" for x
    by (simp add: enforce_total_cap_def stored_in_walk)
  moreover have "stored_in (rl_blobs (appended sha path body writer nt st))
      (case body of Some b \<Rightarrow> hold_blob (sha b) b (rl_blobs st) | None \<Rightarrow> rl_blobs st)"
    by (cases body) (simp_all add: appended_def Let_def stored_in_cap hash_of_def)
  ultimately show ?thesis unfolding append_revision_state by (blast intro: stored_in_trans)
qed

lemma within_total_append:
  assumes ok: "log_ok sha st" and w: "within_total m st"
  shows "within_total m (snd (append_revision sha path body writer nt st))"
proof -
  let ?st = "snd (append_revision sha path body writer nt st)" and ?bs = "rl_blobs st"
  let ?a = "appended sha path body writer nt st"
  have ok': "log_ok sha ?st" by (rule log_ok_append [OF ok])
  have max: "rl_max_total ?st = m" "rl_max_total ?a = m"
    using w by (simp_all add: append_revision_state appended_def Let_def within_total_def)
  note d = log_ok_distinct_blobs [OF ok'] log_ok_distinct_blobs [OF ok]
  have into: "held_bytes_total (rl_blobs ?st) \<le> m"
    if "\<And>h b'. map_of (rl_blobs ?st) h = Some b' \<Longrightarrow> \<exists>b. map_of ?bs h = Some b \<and> blob_body b = blob_body b'"
    using held_bytes_total_mono [OF d that] w by (simp add: within_total_def)
  have post: "held_bytes_total (rl_blobs ?st) \<le> m \<or>
      (\<forall>h b. map_of (rl_blobs ?st) h = Some b \<longrightarrow> blob_refs b > 1)"
  proof -
    have "log_ok sha ?a" by (rule log_ok_appended [OF ok])
    from total_cap_post [OF this] max(2) show ?thesis by (simp only: append_revision_state)
  qed
  have "held_bytes_total (rl_blobs ?st) \<le> m"
  proof (cases "\<exists>b. body = Some b \<and> map_of ?bs (sha b) = None")
    case True
    then obtain b where b: "body = Some b" "map_of ?bs (sha b) = None" by blast
    have "\<exists>c. map_of ?bs h = Some c \<and> blob_body c = blob_body b'"
      if shared: "\<forall>h b. map_of (rl_blobs ?st) h = Some b \<longrightarrow> blob_refs b > 1"
        and m: "map_of (rl_blobs ?st) h = Some b'" for h b'
    proof -
      obtain c where "map_of (hold_blob (sha b) b ?bs) h = Some c" "blob_body c = blob_body b'"
          "blob_refs b' \<le> blob_refs c"
        using stored_in_append [of sha path body writer nt st] m b(1) unfolding stored_in_def by force
      moreover have "blob_refs b' > 1" using shared m by blast
      ultimately show ?thesis using b(2)
        by (auto simp: hold_blob_def AList.update_conv' split: if_splits)
    qed
    with post into show ?thesis by blast
  next
    case False
    have "\<exists>c. map_of ?bs h = Some c \<and> blob_body c = blob_body b'"
      if m: "map_of (rl_blobs ?st) h = Some b'" for h b'
    proof (cases body)
      case None
      then show ?thesis
        using stored_in_append [of sha path body writer nt st] m unfolding stored_in_def by auto
    next
      case (Some b)
      then obtain c where "map_of (hold_blob (sha b) b ?bs) h = Some c" "blob_body c = blob_body b'"
        using stored_in_append [of sha path body writer nt st] m unfolding stored_in_def by force
      with hold_existing [of ?bs "sha b" b h c] False Some show ?thesis by auto
    qed
    then show ?thesis by (rule into)
  qed
  with max(1) show ?thesis by (simp add: within_total_def)
qed

lemma within_total_less:
  assumes "within_total m st" and "stored_in (rl_blobs st') (rl_blobs st)" and "rl_max_total st' = rl_max_total st"
    and "log_ok sha st" and "log_ok sha st'"
  shows "within_total m st'"
  using stored_in_total [OF assms(2) log_ok_distinct_blobs [OF assms(5)] log_ok_distinct_blobs [OF assms(4)]]
    assms(1,3) by (simp add: within_total_def)

lemma forget_file_stored: "stored_in (rl_blobs (forget_file pe st)) (rl_blobs st)"
proof -
  have "stored_in (fold (\<lambda>e. release_blob (m_hash e)) es bs) bs" for es bs
    by (induction es arbitrary: bs) (auto intro: stored_in_trans stored_in_release)
  then show ?thesis by (simp add: forget_file_def)
qed

lemma compact_files_stored:
  "stored_in (rl_blobs (snd (compact_files keep pes st))) (rl_blobs st) \<and>
   rl_max_total (snd (compact_files keep pes st)) = rl_max_total st"
proof (induction keep pes st rule: compact_files.induct)
  case (2 keep pe pes st)
  have "rl_max_total (forget_file pe st) = rl_max_total st" by (simp add: forget_file_def)
  with 2 stored_in_trans [OF _ forget_file_stored [of pe st]] show ?case by simp
qed simp

lemma within_total_step:
  assumes ok: "log_ok sha st" and w: "within_total m st"
  shows "within_total m (revision_step sha e st)"
proof (cases e)
  case (SeedFile path body origin)
  with assms within_total_append show ?thesis by (simp add: seed_def)
next
  case (RecordWrite path body writer nt)
  have "within_total m (ensure_seeded sha path st)"
    using assms within_total_append by (simp add: ensure_seeded_def)
  with RecordWrite show ?thesis
    by (cases rule: record_write_cases [of sha path body writer nt st])
       (simp_all add: within_total_append log_ok_ensure ok)
next
  case (NoteCompaction keep)
  have "stored_in (rl_blobs (snd (note_compaction keep st))) (rl_blobs st) \<and>
      rl_max_total (snd (note_compaction keep st)) = rl_max_total st"
    using compact_files_stored [of keep "rl_logs st" "st\<lparr>rl_span := Suc (rl_span st)\<rparr>"]
    by (simp add: note_compaction_def Let_def)
  with log_ok_step [OF ok, of e] NoteCompaction show ?thesis
    using within_total_less [OF w _ _ ok] by simp
next
  case ResetLog
  with w show ?thesis by (simp add: reset_log_def within_total_def held_bytes_total_def)
qed

interpretation capped_log: invariant_machine "revision_step sha" "\<lambda>st. log_ok sha st \<and> within_total m st"
  for sha m
  by unfold_locales (simp add: log_ok_step within_total_step)

lemma within_total_run:
  "within_total (opt_default DEFAULT_MAX_REVISION_BYTES_TOTAL pt) (revision_run sha pf pt evs)"
proof -
  let ?m = "opt_default DEFAULT_MAX_REVISION_BYTES_TOTAL pt"
  have "log_ok sha (create_revision_log pf pt) \<and> within_total ?m (create_revision_log pf pt)"
    by (simp add: log_ok_create) (simp add: within_total_def create_revision_log_def held_bytes_total_def)
  from capped_log.run_inv [OF this, of evs] show ?thesis by blast
qed

text \<open>A concrete hash for the examples: the bytes behind a mark.\<close>

definition plain_hash :: "bytes \<Rightarrow> jtext" where
  "plain_hash b = 0 # map ucast b"

lemma collision_free_plain: "collision_free plain_hash"
proof -
  have "inj (ucast :: 8 word \<Rightarrow> 16 word)"
  proof (rule injI)
    fix x y :: "8 word" assume "(ucast x :: 16 word) = ucast y"
    then have "(ucast (ucast x :: 16 word) :: 8 word) = ucast (ucast y :: 16 word)" by (simp only:)
    then show "x = y" by (simp add: ucast_up_ucast_id is_up)
  qed
  then have "inj plain_hash" using inj_mapI by (fastforce simp: inj_def plain_hash_def)
  moreover have "ABSENT_HASH \<notin> range plain_hash" by (auto simp: ABSENT_HASH_def js_def plain_hash_def)
  ultimately show ?thesis by (simp add: collision_free_def)
qed

lemma new_entry_bytes [simp]: "m_bytes (new_entry sha es body writer nt) = (case body of Some b \<Rightarrow> length b | None \<Rightarrow> 0)"
  by (simp add: new_entry_def Let_def)

lemma append_quiet:
  assumes "held_bytes_of (entries_of st path @ [new_entry sha (entries_of st path) body writer nt]) \<le> rl_max_file st"
    and "held_bytes_total (case body of Some b \<Rightarrow> hold_blob (sha b) b (rl_blobs st) | None \<Rightarrow> rl_blobs st) \<le> rl_max_total st"
  shows "append_revision sha path body writer nt st =
    (let e = new_entry sha (entries_of st path) body writer nt;
         bs = (case body of Some b \<Rightarrow> hold_blob (sha b) b (rl_blobs st) | None \<Rightarrow> rl_blobs st)
     in (frozen bs e, st\<lparr>rl_logs := set_last path (entries_of st path @ [e]) (rl_logs st), rl_blobs := bs,
          rl_last_span := (rl_last_span st)(path \<mapsto> rl_span st)\<rparr>))"
proof -
  let ?es = "entries_of st path" let ?e = "new_entry sha ?es body writer nt"
  let ?bs = "case body of Some b \<Rightarrow> hold_blob (sha b) b (rl_blobs st) | None \<Rightarrow> rl_blobs st"
  have cap: "enforce_cap (rl_max_file st) (?es @ [?e]) ?bs = (?es @ [?e], ?bs)"
    using assms(1) by (simp add: enforce_cap.simps)
  have tot: "enforce_total_cap (st\<lparr>rl_logs := l, rl_blobs := ?bs, rl_last_span := s\<rparr>) =
      st\<lparr>rl_logs := l, rl_blobs := ?bs, rl_last_span := s\<rparr>" for l s
    using assms(2) by (simp add: enforce_total_cap_def)
  have h: "(case body of None \<Rightarrow> rl_blobs st | Some b \<Rightarrow> hold_blob (m_hash ?e) b (rl_blobs st)) = ?bs"
    by (cases body) (simp_all add: new_entry_def hash_of_def Let_def)
  show ?thesis
    unfolding append_revision_def Let_def h cap prod.case tot
    by (simp add: entries_of_def set_last_def AList.update_conv')
qed

abbreviation demo_events :: "revision_event list" where
  "demo_events \<equiv> [SeedFile ''a'' (Some [1]) OfTransaction, RecordWrite ''a'' (Some [2, 2]) (js ''editor'') None]"

lemmas log_eval = entries_of_def set_last_def held_bytes_of_def held_bytes_total_def hold_blob_def
  unchanged_write_def compared_with_def on_disk_def hash_of_def plain_hash_def frozen_def body_of_def summary_note_def Let_def

lemmas step_eval = record_write_def ensure_seeded_def append_quiet log_eval
  DEFAULT_MAX_REVISION_BYTES_PER_FILE_def DEFAULT_MAX_REVISION_BYTES_TOTAL_def

abbreviation first_entry :: mutable_revision where
  "first_entry \<equiv> new_entry plain_hash [] (Some [1]) (js ''transaction open'')
  (Some (summary_note (origin_existed OfTransaction)))"
abbreviation second_entry :: mutable_revision where
  "second_entry \<equiv> new_entry plain_hash [first_entry] (Some [2, 2]) (js ''editor'') None"

lemma demo_run: "revision_run plain_hash None None demo_events =
  \<lparr>rl_logs = [(''a'', [first_entry, second_entry])],
   rl_blobs = [(plain_hash [1], \<lparr>blob_body = [1], blob_refs = 1\<rparr>), (plain_hash [2, 2], \<lparr>blob_body = [2, 2], blob_refs = 1\<rparr>)],
   rl_last_span = [''a'' \<mapsto> 0], rl_span = 0, rl_max_file = DEFAULT_MAX_REVISION_BYTES_PER_FILE,
   rl_max_total = DEFAULT_MAX_REVISION_BYTES_TOTAL\<rparr>"
proof -
  let ?st0 = "create_revision_log None None"
  let ?st1 = "\<lparr>rl_logs = [(''a'', [first_entry])],
     rl_blobs = [(plain_hash [1], \<lparr>blob_body = [1], blob_refs = 1\<rparr>)],
     rl_last_span = [''a'' \<mapsto> 0], rl_span = 0, rl_max_file = DEFAULT_MAX_REVISION_BYTES_PER_FILE,
     rl_max_total = DEFAULT_MAX_REVISION_BYTES_TOTAL\<rparr>"
  have "seed plain_hash ''a'' (Some [1]) OfTransaction ?st0 = ?st1"
    by (simp add: seed_def create_revision_log_def append_quiet log_eval
      DEFAULT_MAX_REVISION_BYTES_PER_FILE_def DEFAULT_MAX_REVISION_BYTES_TOTAL_def)
  moreover have "snd (record_write plain_hash ''a'' (Some [2, 2]) (js ''editor'') None ?st1) =
     \<lparr>rl_logs = [(''a'', [first_entry, second_entry])],
   rl_blobs = [(plain_hash [1], \<lparr>blob_body = [1], blob_refs = 1\<rparr>), (plain_hash [2, 2], \<lparr>blob_body = [2, 2], blob_refs = 1\<rparr>)],
   rl_last_span = [''a'' \<mapsto> 0], rl_span = 0, rl_max_file = DEFAULT_MAX_REVISION_BYTES_PER_FILE,
   rl_max_total = DEFAULT_MAX_REVISION_BYTES_TOTAL\<rparr>"
    by (simp add: record_write_def ensure_seeded_def append_quiet log_eval
      DEFAULT_MAX_REVISION_BYTES_PER_FILE_def DEFAULT_MAX_REVISION_BYTES_TOTAL_def)
  ultimately show ?thesis by simp
qed

section \<open>Properties\<close>

text \<open>
  C2: content is kept as long as a revision needs it. After any sequence of seeds, recorded
  writes, compactions and resets, the reference count of every stored content is the number of
  revisions that still hold it, and every revision whose content was not released still finds
  content with its own hash.
\<close>

theorem revision_content_kept:
  "let st = revision_run sha pf pt evs
   in (\<forall>h. refs_of (rl_blobs st) h = live_total (rl_logs st) h) \<and>
      (\<forall>path. \<forall>i < length (entries_of st path). live_entry (entries_of st path ! i) \<longrightarrow>
         (\<exists>b. body_of (rl_blobs st) (entries_of st path ! i) = Some b \<and>
              sha b = m_hash (entries_of st path ! i)))"
  using live_has_body [OF log_ok_run] log_ok_run [where sha = sha and pf = pf and pt = pt and evs = evs]
  by (simp add: Let_def log_ok_def blobs_ok_def)

lemma revision_content_kept_witness:
  "refs_of (rl_blobs (revision_run plain_hash None None demo_events)) (plain_hash [2, 2]) = 1"
proof -
  have "live_total (rl_logs (revision_run plain_hash None None demo_events)) (plain_hash [2, 2]) = 1"
    by (simp only: demo_run) (simp add: log_eval live_total_def live_refs_def)
  with revision_content_kept [where sha = plain_hash and pf = None and pt = None and evs = demo_events]
  show ?thesis by (simp only: Let_def)
qed

text \<open>
  the list is append-only. However many versions are seeded and recorded afterwards, revision
  \<open>#i\<close> of a file keeps its place, its number, its hash and its note; its content can be released,
  and a released one does not come back.
\<close>

theorem revisions_append_only:
  assumes "\<forall>e \<in> set evs. case e of SeedFile _ _ _ \<Rightarrow> True | RecordWrite _ _ _ _ \<Rightarrow> True | _ \<Rightarrow> False"
    and "i < length (entries_of st path)"
  shows "let st' = fold (revision_step sha) evs st; e = entries_of st path ! i; e' = entries_of st' path ! i
    in i < length (entries_of st' path) \<and> m_index e' = m_index e \<and> m_hash e' = m_hash e \<and>
       m_note e' = m_note e \<and> (m_dropped e \<longrightarrow> m_dropped e')"
proof -
  have "grows (entries_of st path) (entries_of (fold (revision_step sha) evs st) path)"
    using assms(1)
  proof (induction evs arbitrary: st)
    case (Cons e evs)
    have "grows (entries_of st path) (entries_of (revision_step sha e st) path)"
      using Cons.prems by (cases e) (auto simp: seed_grows record_write_grows)
    with Cons show ?case by (auto intro: grows_trans)
  qed simp
  with assms(2) show ?thesis
    by (auto simp: grows_def Let_def drops_only_def dest!: spec [of _ i])
qed

lemma revisions_append_only_witness:
  "m_index (entries_of (fold (revision_step plain_hash) demo_events
      (revision_run plain_hash None None demo_events)) ''a'' ! 1) = 2"
proof -
  have "1 < length (entries_of (revision_run plain_hash None None demo_events) ''a'') \<and>
      m_index (entries_of (revision_run plain_hash None None demo_events) ''a'' ! 1) = 2"
    by (simp only: demo_run) (simp add: step_eval)
  moreover have "\<forall>e \<in> set demo_events.
      case e of SeedFile _ _ _ \<Rightarrow> True | RecordWrite _ _ _ _ \<Rightarrow> True | _ \<Rightarrow> False" by simp
  note revisions_append_only [OF this, of 1 "revision_run plain_hash None None demo_events" "''a''" plain_hash]
  ultimately show ?thesis unfolding Let_def by (metis (no_types))
qed

text \<open>
  C9: what is recorded can be asked for. When a write of \<open>b\<close> is recorded as revision \<open>#n\<close> and its
  content was not released at once, every text that names \<open>n\<close> (blanks around it, \<open>#\<close>, \<open>v\<close>, \<open>rev\<close> or
  \<open>revision\<close> with blanks and a \<open>#\<close>, letters of either case, leading zeros) resolves to it, and the
  content is \<open>b\<close>.
\<close>

theorem recorded_resolves:
  assumes "collision_free sha" and "st = revision_run sha pf pt evs"
    and "record_write sha path (Some b) writer nt st = (Some r, st')"
    and "\<not> r_dropped r" and "spelled (r_index r) s"
  shows "\<exists>f. resolve st' path s = Found f \<and> r_index f = r_index r \<and> r_body f = Some b"
proof -
  let ?st1 = "ensure_seeded sha path st"
  let ?es = "entries_of ?st1 path" and ?es' = "entries_of st' path"
  let ?n = "length ?es" and ?e = "entries_of st' path ! length ?es"
  note rec = record_write_Some [OF assms(3), unfolded Let_def]
  have ok1: "log_ok sha ?st1" unfolding assms(2) by (rule log_ok_ensure [OF log_ok_run])
  then have ok: "log_ok sha st'" using rec log_ok_append by metis
  have new: "drops_only (new_entry sha ?es (Some b) writer nt) ?e" and n: "?n < length ?es'"
    using rec thinned_last by blast+
  have r: "r_index r = Suc ?n" "\<not> m_dropped ?e"
    using rec assms(4) entries_numbered [OF ok n] by (simp_all add: frozen_def)
  have "body_of (rl_blobs st') ?e = Some b"
    by (rule body_of_hash [OF assms(1) ok n])
       (use drops_only_sel [OF new] r(2) in \<open>simp_all add: live_entry_def hash_of_def\<close>)
  moreover have "resolve st' path s = Found (frozen (rl_blobs st') ?e)"
    using n r parse_spelled [OF assms(5)] lookup_hit(1) [OF n r(2)]
    by (auto simp: resolve_def Let_def)
  ultimately show ?thesis using r entries_numbered [OF ok n] by (simp add: frozen_def)
qed

lemma recorded_resolves_witness:
  "\<exists>f. resolve (snd (record_write plain_hash ''a'' (Some [7]) (js ''editor'') None
      (revision_run plain_hash None None demo_events))) ''a'' (js '' Revision  # 03 '') = Found f \<and> r_body f = Some [7]"
proof -
  let ?w = "record_write plain_hash ''a'' (Some [7]) (js ''editor'') None (revision_run plain_hash None None demo_events)"
  have w: "case fst ?w of Some r \<Rightarrow> \<not> r_dropped r \<and> r_index r = 3 | None \<Rightarrow> False"
    by (simp only: demo_run) (simp add: step_eval)
  then obtain r where "fst ?w = Some r" and r: "\<not> r_dropped r" "r_index r = 3"
    by (auto split: option.splits)
  then have "?w = (Some r, snd ?w)" by (metis prod.collapse)
  moreover have "spelled (r_index r) (js '' Revision  # 03 '')"
    unfolding spelled_def r(2)
  proof (rule exI [of _ "[32]"], rule exI [of _ "js ''Revision  # ''"], rule exI [of _ "js ''03''"],
      rule exI [of _ "[32]"], intro conjI)
    show "revision_prefix (ascii_lower (js ''Revision  # ''))"
      unfolding revision_prefix_def
      by (rule disjI2, rule exI [of _ "js ''ision''"], rule exI [of _ "[32, 32]"], rule exI [of _ "js ''#''"],
          rule exI [of _ "[32]"])
        (simp add: js_def ascii_lower_def is_space_def word_le_nat_alt)
  qed (simp_all add: js_def is_space_def is_digit_def js_integer_def digits_value_def word_le_nat_alt)
  ultimately show ?thesis
    using recorded_resolves [OF collision_free_plain refl _ r(1)] r(2) by fastforce
qed

text \<open>
  \<open>last\<close> undoes one change. After a write to the workspace is recorded, \<open>last\<close> names the
  revision that was on disk before it, whatever held versions lie between; its content is
  untouched, or reported as released.
\<close>

theorem last_is_undo:
  assumes "st = revision_run sha pf pt evs" and "on_disk (entries_of st path) = Some e"
    and "(case nt of Some n \<Rightarrow> note_held n | None \<Rightarrow> False) = False"
    and "record_write sha path body writer nt st = (Some r, st')"
  shows "case resolve st' path (js ''last'') of
      Found f \<Rightarrow> r_index f = m_index e \<and> r_hash f = m_hash e \<and>
        (m_existed e \<longrightarrow> (\<exists>b. r_body f = Some b \<and> sha b = m_hash e))
    | DroppedContent i \<Rightarrow> i = m_index e
    | _ \<Rightarrow> False"
proof -
  let ?es = "entries_of st path" and ?es' = "entries_of st' path"
  obtain ws where ws: "filter (\<lambda>e. \<not> m_held e) ?es = ws @ [e]" using on_disk_last [OF assms(2)] by blast
  then have "e \<in> set ?es" by (metis filter_is_subset in_set_conv_decomp subsetD)
  then obtain i where i: "i < length ?es" "?es ! i = e" by (auto simp: in_set_conv_nth)
  then have "ensure_seeded sha path st = st" by (auto simp: ensure_seeded_def)
  note rs = record_write_Some [OF assms(4), unfolded Let_def this]
  have rec: "st' = snd (append_revision sha path body writer nt st)" by (rule conjunct1 [OF rs])
  have thin: "thinned (?es @ [new_entry sha ?es body writer nt]) ?es'"
    by (rule conjunct2 [OF conjunct2 [OF rs]])
  have ok: "log_ok sha st'" unfolding rec assms(1) by (rule log_ok_append [OF log_ok_run])
  have "map m_index (filter (\<lambda>e. \<not> m_held e) ?es') = map m_index ws @ [m_index e, Suc (length ?es)]"
    using assms(3) by (simp add: thinned_written [OF thin] ws)
  then have "last_index ?es' = m_index e" by (rule last_index_map)
  moreover have "m_index e = Suc i"
    using entries_numbered [of sha st i path] i log_ok_run assms(1) by metis
  moreover have i': "i < length ?es'" using i(1) thinned_last(1) [OF thin] by simp
  ultimately have res: "resolve st' path (js ''last'') = lookup_index st' path (js ''last'') (Suc i)"
    by (auto simp: resolve_def Let_def)
  have old: "drops_only e (?es' ! i)" using thinned_last(3) [OF thin i(1)] i(2) by simp
  show ?thesis
  proof (cases "m_dropped (?es' ! i)")
    case True
    then show ?thesis using lookup_hit(2) [OF i' True] res drops_only_sel [OF old] by simp
  next
    case False
    then show ?thesis
      using lookup_hit(1) [OF i' False] res drops_only_sel [OF old] live_has_body [OF ok i']
      by (auto simp: frozen_def live_entry_def)
  qed
qed

lemma last_is_undo_witness:
  "case resolve (snd (record_write plain_hash ''a'' (Some [7]) (js ''editor'') None
      (revision_run plain_hash None None demo_events))) ''a'' (js ''last'') of
      Found f \<Rightarrow> r_index f = 2 | DroppedContent i \<Rightarrow> i = 2 | _ \<Rightarrow> False"
proof -
  let ?st = "revision_run plain_hash None None demo_events"
  let ?w = "record_write plain_hash ''a'' (Some [7]) (js ''editor'') None ?st"
  have "fst ?w \<noteq> None" by (simp only: demo_run) (simp add: step_eval)
  then obtain r where w: "?w = (Some r, snd ?w)" by (metis option.exhaust prod.collapse)
  have "map_option m_index (on_disk (entries_of ?st ''a'')) = Some 2"
    by (simp only: demo_run) (simp add: step_eval)
  then obtain e where e: "on_disk (entries_of ?st ''a'') = Some e" "m_index e = 2" by auto
  show ?thesis
    using last_is_undo [OF refl e(1) _ w] e(2) by (auto split: revision_lookup.splits)
qed

text \<open>
  the cap of one file spares both ends. Releasing content to bring a file under its cap never
  touches \<open>#1\<close> nor the newest five revisions, keeps the number of entries, and stops only when the
  file is under the cap or nothing between the ends would give memory back.
\<close>

theorem file_cap_spares_ends:
  "case enforce_cap limit es bs of (es', bs') \<Rightarrow>
     length es' = length es \<and>
     (\<forall>i < length es. i = 0 \<or> length es \<le> i + 5 \<longrightarrow> es' ! i = es ! i) \<and>
     (held_bytes_of es' \<le> limit \<or>
      (\<forall>i < length es'. live_entry (es' ! i) \<and> 0 < i \<and> i + 5 < length es' \<longrightarrow>
        refs_of bs' (m_hash (es' ! i)) > 1))"
proof -
  obtain es' bs' where r: "enforce_cap limit es bs = (es', bs')" by (cases "enforce_cap limit es bs")
  have "length es' = length es" using enforce_cap_thinned [of es limit bs] r by (simp add: thinned_def)
  moreover have "es' ! i = es ! i" if "i < length es" "i = 0 \<or> length es \<le> i + 5" for i
    using enforce_cap_keeps_ends [OF that(1), of limit bs] that(2) r
    by (auto simp: droppable_def KEEP_NEWEST_def)
  moreover have "held_bytes_of es' \<le> limit \<or> cap_candidates es' bs' = []"
    using enforce_cap_post [of limit es bs] r by simp
  then have "held_bytes_of es' \<le> limit \<or>
      (\<forall>i < length es'. live_entry (es' ! i) \<and> 0 < i \<and> i + 5 < length es' \<longrightarrow>
        refs_of bs' (m_hash (es' ! i)) > 1)"
    by (auto simp: cap_candidates_def filter_empty_conv droppable_def KEEP_NEWEST_def)
  ultimately show ?thesis using r by simp
qed

abbreviation demo_entry :: "nat \<Rightarrow> nat \<Rightarrow> mutable_revision" where
  "demo_entry i n \<equiv> \<lparr>m_index = i, m_hash = decimal i, m_by = [], m_note = [], m_source = Derived,
     m_lines = 1, m_bytes = n, m_dropped = False, m_existed = True, m_same_as = None, m_held = False\<rparr>"

lemma file_cap_spares_ends_witness:
  "fst (enforce_cap 7 (map (\<lambda>i. demo_entry (Suc i) 1) [0..<8]) []) ! 0 = demo_entry 1 1"
proof -
  let ?es = "map (\<lambda>i. demo_entry (Suc i) 1) [0..<8]"
  obtain es' bs' where r: "enforce_cap 7 ?es [] = (es', bs')" by (cases "enforce_cap 7 ?es []")
  then have "\<forall>i < length ?es. i = 0 \<or> length ?es \<le> i + 5 \<longrightarrow> es' ! i = ?es ! i"
    using file_cap_spares_ends [where limit = 7 and es = ?es and bs = "[]"]
    unfolding r prod.case by blast
  then have "es' ! 0 = ?es ! 0" by (rule allE [of _ 0]) simp
  with r show ?thesis by simp
qed

text \<open>
  the total cap holds. After any sequence of seeds, recorded writes, compactions and resets,
  the distinct contents stored for all files together are within the total cap: whatever cannot
  be released because two revisions share it was already within it.
\<close>

theorem total_cap_holds:
  "held_bytes_total (rl_blobs (revision_run sha pf pt evs)) \<le>
     opt_default DEFAULT_MAX_REVISION_BYTES_TOTAL pt"
  using within_total_run [where sha = sha and pf = pf and pt = pt and evs = evs] by (simp add: within_total_def)

text \<open>
  what a compaction forgets. From the second compaction on, a file keeps its whole history
  when it is named in \<open>keep\<close> or was written in one of the last two spans, and loses all of it
  otherwise; the number returned is the number of files forgotten.
\<close>

theorem compaction_forgets_stale_files:
  assumes "st = revision_run sha pf pt evs" and "1 \<le> rl_span st"
  shows "let (n, st') = note_compaction keep st;
      recent = (\<lambda>path. path \<in> set keep \<or> (case rl_last_span st path of None \<Rightarrow> True
        | Some written \<Rightarrow> rl_span st - 1 \<le> written))
    in (\<forall>path. entries_of st' path = (if recent path then entries_of st path else [])) \<and>
       n = length (filter (\<lambda>path. \<not> recent path) (tracked st))"
proof -
  have recent: "retained keep (Suc (rl_span st)) (rl_last_span st) path \<longleftrightarrow>
      path \<in> set keep \<or> (case rl_last_span st path of None \<Rightarrow> True | Some written \<Rightarrow> rl_span st - 1 \<le> written)"
    for path
    using assms(2) by (auto simp: retained_def split: option.split)
  have "log_ok sha st" unfolding assms(1) by (rule log_ok_run)
  from note_compaction_spec [OF this assms(2), of keep] show ?thesis
    by (simp add: recent case_prod_unfold Let_def)
qed

lemma compaction_forgets_stale_files_witness:
  "entries_of (snd (note_compaction [] (revision_run plain_hash None None
     (demo_events @ [NoteCompaction [], NoteCompaction []])))) ''a'' = []"
proof -
  let ?st = "revision_run plain_hash None None (demo_events @ [NoteCompaction [], NoteCompaction []])"
  have "1 \<le> rl_span ?st \<and> rl_span ?st - 1 = 1 \<and> rl_last_span ?st ''a'' = Some 0"
    by (simp only: fold_append comp_apply demo_run) (simp add: note_compaction_def log_eval retained_def)
  then show ?thesis
    using compaction_forgets_stale_files [where st = ?st and sha = plain_hash and pf = None and pt = None
        and evs = "demo_events @ [NoteCompaction [], NoteCompaction []]" and keep = "[]"]
    by (auto simp: case_prod_unfold Let_def simp del: fold_append fold_simps fold.simps)
qed

text \<open>
  one request, many spellings. \<open>n\<close>, \<open>#n\<close>, \<open>vn\<close>, \<open>rev n\<close>, \<open>revision n\<close>, \<open>rev #n\<close> and
  \<open>Revision #n\<close>, with the number printed in decimal, are all read as revision \<open>n\<close>, and the row of
  the chat names the same target.
\<close>

theorem spellings_agree:
  assumes "s \<in> set (spellings n)" and "0 < n" and "n < 2 ^ 53"
  shows "parse_revision s = Numbered n \<and> describe_restore_target (Some s) = ToNumbered n"
proof -
  have parse: "parse_revision s = Numbered n" using assms by (rule parse_spellings)
  from assms(1) obtain p where p: "s = p @ decimal n" "trim s = s"
    using trim_spelling by (fastforce simp: spellings_def)
  then have "trim s \<noteq> []" by simp
  with parse p(2) show ?thesis by (simp add: describe_restore_target_def)
qed

lemma spellings_agree_witness: "parse_revision (js ''rev #'' @ decimal 12) = Numbered 12"
  using spellings_agree [of "js ''rev #'' @ decimal 12" 12] by (simp add: spellings_def)

section \<open>What the model shows beside\<close>

text \<open>
  The total cap releases the newest revision of a file first, also the one just recorded; the
  rule that the newest five are never released holds for the cap of one file only.
\<close>

lemma newest_revision_released:
  "map m_dropped (entries_of (enforce_total_cap
     \<lparr>rl_logs = [(''a'', [demo_entry 1 2, demo_entry 2 4])],
      rl_blobs = [(decimal 1, \<lparr>blob_body = [1, 2], blob_refs = 1\<rparr>),
                  (decimal 2, \<lparr>blob_body = [3, 4, 5, 6], blob_refs = 1\<rparr>)],
      rl_last_span = [''a'' \<mapsto> 0], rl_span = 0, rl_max_file = 9, rl_max_total = 3\<rparr>) ''a'') = [False, True]"
  by code_simp

text \<open>The gap line counts one revision more than it hides.\<close>

lemma gap_overcounts:
  assumes "0 < limit" and "limit < length rs"
  shows "length rs - length (filter (\<lambda>r. r \<noteq> None) (shown_revisions limit rs)) = length rs - limit"
    and "gap_line limit (length rs) = js ''  '' @ [ELLIPSIS] @ js ''  '' @ decimal (Suc (length rs - limit)) @
      js '' older revisions'' @ js '' not listed '' @ [EM_DASH] @ js '' ask for one by number''"
  using assms by (simp_all add: shown_revisions_def filter_map comp_def gap_line_def)

text \<open>A revision whose content was released is listed as a deleted file.\<close>

lemma released_reads_deleted:
  "r_dropped (frozen bs e) \<Longrightarrow> r_index (frozen bs e) \<noteq> 1 \<Longrightarrow> revision_size (frozen bs e) = js ''deleted''"
  by (simp add: frozen_def revision_size_def body_of_def)

end
