(* ===== verification/RunQueue.thy ===== *)
theory RunQueue
  imports Text
begin

text \<open>
  The durable run queue of \<open>sdk/packages/core/src/hub/server/hub-run-queue.ts\<close>. The table
  \<open>hub_runs\<close> is a list of rows; each SQL statement of the source is the list operation it
  denotes: \<open>WHERE\<close> a filter, \<open>UPDATE\<close> a map, \<open>ORDER BY\<close> a stable sort by key. The run id and the
  clock are arguments; the JSON reader of \<open>toRecord\<close> is an argument, \<open>parse\<close>.
\<close>

datatype run_state = RunQueued | RunRunning | RunCompleted | RunFailed | RunAborted | RunInterrupted

record run_row =
  accepted_seq :: nat
  row_run_id :: string
  row_session :: string
  row_state :: run_state
  row_input :: jtext
  row_client :: "string option"
  row_accepted_at :: nat
  row_started_at :: "nat option"
  row_ended_at :: "nat option"
  row_error :: "jtext option"

record hub_run_queue =
  hub_runs :: "run_row list"
  next_seq :: nat
  max_pending :: nat

record run_accepted =
  acc_run_id :: string
  acc_accepted_at :: nat
  acc_position :: nat

datatype admit_error = AdmissionRejected string nat nat | UniqueConstraint string

record 'i run_record =
  rec_run_id :: string
  rec_session :: string
  rec_state :: run_state
  rec_input :: 'i
  rec_client :: "string option"
  rec_accepted_at :: nat
  rec_started_at :: "nat option"
  rec_ended_at :: "nat option"
  rec_error :: "jtext option"

definition DEFAULT_MAX_PENDING_PER_SESSION :: nat where
  "DEFAULT_MAX_PENDING_PER_SESSION = 32"

definition TERMINAL_RETENTION_MS :: nat where
  "TERMINAL_RETENTION_MS = 7 * 24 * 60 * 60 * 1000"

definition new_run_queue :: "nat option \<Rightarrow> hub_run_queue" where
  "new_run_queue limit =
     \<lparr>hub_runs = [], next_seq = 1, max_pending = opt_default DEFAULT_MAX_PENDING_PER_SESSION limit\<rparr>"

definition to_record :: "(jtext \<Rightarrow> 'i option) \<Rightarrow> 'i \<Rightarrow> run_row \<Rightarrow> 'i run_record" where
  "to_record parse none r =
     \<lparr>rec_run_id = row_run_id r, rec_session = row_session r, rec_state = row_state r,
      rec_input = opt_default none (parse (row_input r)), rec_client = row_client r,
      rec_accepted_at = row_accepted_at r, rec_started_at = row_started_at r,
      rec_ended_at = row_ended_at r, rec_error = row_error r\<rparr>"

definition is_pending :: "run_row \<Rightarrow> bool" where
  "is_pending r = (row_state r \<in> {RunQueued, RunRunning})"

definition select_where :: "(run_row \<Rightarrow> bool) \<Rightarrow> hub_run_queue \<Rightarrow> run_row list" where
  "select_where P q = filter P (hub_runs q)"

definition order_by_seq :: "run_row list \<Rightarrow> run_row list" where
  "order_by_seq rs = sort_key accepted_seq rs"

definition count_pending_by_session :: "string \<Rightarrow> hub_run_queue \<Rightarrow> nat" where
  "count_pending_by_session sid q =
     length (select_where (\<lambda>r. row_session r = sid \<and> is_pending r) q)"

definition count_pending :: "hub_run_queue \<Rightarrow> nat" where
  "count_pending q = length (select_where is_pending q)"

definition has_running :: "string \<Rightarrow> hub_run_queue \<Rightarrow> bool" where
  "has_running sid q =
     (length (select_where (\<lambda>r. row_session r = sid \<and> row_state r = RunRunning) q) > 0)"

definition get_run :: "string \<Rightarrow> hub_run_queue \<Rightarrow> run_row option" where
  "get_run rid q = (case select_where (\<lambda>r. row_run_id r = rid) q of [] \<Rightarrow> None | r # _ \<Rightarrow> Some r)"

definition admit ::
  "string \<Rightarrow> jtext \<Rightarrow> string option \<Rightarrow> string \<Rightarrow> nat \<Rightarrow> hub_run_queue
    \<Rightarrow> admit_error + (run_accepted \<times> hub_run_queue)" where
  "admit sid input client rid now q =
     (let ahead = count_pending_by_session sid q
      in if ahead \<ge> max_pending q then Inl (AdmissionRejected sid ahead (max_pending q))
         else if get_run rid q \<noteq> None then Inl (UniqueConstraint rid)
         else Inr (\<lparr>acc_run_id = rid, acc_accepted_at = now, acc_position = ahead\<rparr>,
           q\<lparr>hub_runs := hub_runs q @
               [\<lparr>accepted_seq = next_seq q, row_run_id = rid, row_session = sid, row_state = RunQueued,
                 row_input = input, row_client = client, row_accepted_at = now, row_started_at = None,
                 row_ended_at = None, row_error = None\<rparr>],
             next_seq := Suc (next_seq q)\<rparr>))"

definition next_queued :: "string \<Rightarrow> hub_run_queue \<Rightarrow> run_row option" where
  "next_queued sid q =
     (case order_by_seq (select_where (\<lambda>r. row_session r = sid \<and> row_state r = RunQueued) q) of
        [] \<Rightarrow> None | r # _ \<Rightarrow> Some r)"

definition update_where ::
  "(run_row \<Rightarrow> bool) \<Rightarrow> (run_row \<Rightarrow> run_row) \<Rightarrow> hub_run_queue \<Rightarrow> hub_run_queue" where
  "update_where P f q = q\<lparr>hub_runs := map (\<lambda>r. if P r then f r else r) (hub_runs q)\<rparr>"

definition mark_running :: "string \<Rightarrow> nat \<Rightarrow> hub_run_queue \<Rightarrow> hub_run_queue" where
  "mark_running rid now q =
     update_where (\<lambda>r. row_run_id r = rid \<and> row_state r = RunQueued)
       (\<lambda>r. r\<lparr>row_state := RunRunning, row_started_at := Some now\<rparr>) q"

definition mark_terminal ::
  "string \<Rightarrow> run_state \<Rightarrow> jtext option \<Rightarrow> nat \<Rightarrow> hub_run_queue \<Rightarrow> hub_run_queue" where
  "mark_terminal rid s err now q =
     update_where (\<lambda>r. row_run_id r = rid)
       (\<lambda>r. r\<lparr>row_state := s, row_ended_at := Some now, row_error := err\<rparr>) q"

definition list_runs :: "string option \<Rightarrow> nat option \<Rightarrow> hub_run_queue \<Rightarrow> run_row list" where
  "list_runs sid limit q =
     (let P = (case sid of Some s \<Rightarrow> if s = [] then (\<lambda>_. True) else (\<lambda>r. row_session r = s)
                         | None \<Rightarrow> (\<lambda>_. True))
      in take (opt_default 100 limit) (rev (order_by_seq (select_where P q))))"

definition interrupted_error :: jtext where
  "interrupted_error = js ''Hub daemon exited before the run finished.''"

definition prune_ended :: "nat \<Rightarrow> hub_run_queue \<Rightarrow> hub_run_queue" where
  "prune_ended now q =
     q\<lparr>hub_runs := filter (\<lambda>r. \<not> (case row_ended_at r of None \<Rightarrow> False
        | Some t \<Rightarrow> int t < int now - int TERMINAL_RETENTION_MS)) (hub_runs q)\<rparr>"

definition recover_on_startup ::
  "nat \<Rightarrow> hub_run_queue \<Rightarrow> (run_row list \<times> run_row list) \<times> hub_run_queue" where
  "recover_on_startup now q =
     (let interrupted = order_by_seq (select_where (\<lambda>r. row_state r = RunRunning) q);
          q1 = update_where (\<lambda>r. row_state r = RunRunning)
            (\<lambda>r. r\<lparr>row_state := RunInterrupted, row_ended_at := Some now,
                   row_error := Some interrupted_error\<rparr>) q;
          requeued = order_by_seq (select_where (\<lambda>r. row_state r = RunQueued) q1)
      in ((map (\<lambda>r. r\<lparr>row_state := RunInterrupted\<rparr>) interrupted, requeued), prune_ended now q1))"

definition is_terminal :: "run_state \<Rightarrow> bool" where
  "is_terminal s = (s \<in> {RunCompleted, RunFailed, RunAborted, RunInterrupted})"

text \<open>The events of a hub: the terminal states are the ones the type of \<open>markTerminal\<close> allows.\<close>

datatype run_event =
    AdmitRun string jtext "string option" string nat
  | MarkRunning string nat
  | MarkCompleted string nat
  | MarkFailed string "jtext option" nat
  | MarkAborted string "jtext option" nat
  | MarkInterrupted string "jtext option" nat
  | RecoverOnStartup nat

fun run_step :: "run_event \<Rightarrow> hub_run_queue \<Rightarrow> hub_run_queue" where
  "run_step (AdmitRun sid input client rid now) q =
     (case admit sid input client rid now q of Inl _ \<Rightarrow> q | Inr (_, q') \<Rightarrow> q')"
| "run_step (MarkRunning rid now) q = mark_running rid now q"
| "run_step (MarkCompleted rid now) q = mark_terminal rid RunCompleted None now q"
| "run_step (MarkFailed rid err now) q = mark_terminal rid RunFailed err now q"
| "run_step (MarkAborted rid err now) q = mark_terminal rid RunAborted err now q"
| "run_step (MarkInterrupted rid err now) q = mark_terminal rid RunInterrupted err now q"
| "run_step (RecoverOnStartup now) q = snd (recover_on_startup now q)"

section \<open>The invariant of the table\<close>

text \<open>
  Rows are in the order of their sequence numbers, run ids are unique, a pending row has not
  ended, and no session has more pending rows than the limit.
\<close>

definition table_ok :: "hub_run_queue \<Rightarrow> bool" where
  "table_ok q \<longleftrightarrow>
     sorted_wrt (<) (map accepted_seq (hub_runs q)) \<and>
     (\<forall>r \<in> set (hub_runs q). accepted_seq r < next_seq q) \<and>
     distinct (map row_run_id (hub_runs q)) \<and>
     (\<forall>r \<in> set (hub_runs q). is_pending r \<longrightarrow> row_ended_at r = None) \<and>
     (\<forall>sid. count_pending_by_session sid q \<le> max_pending q)"

lemma table_okD:
  assumes "table_ok q"
  shows "sorted_wrt (<) (map accepted_seq (hub_runs q))"
    and "distinct (map row_run_id (hub_runs q))"
    and "r \<in> set (hub_runs q) \<Longrightarrow> accepted_seq r < next_seq q"
    and "r \<in> set (hub_runs q) \<Longrightarrow> is_pending r \<Longrightarrow> row_ended_at r = None"
    and "count_pending_by_session sid q \<le> max_pending q"
  using assms by (simp_all add: table_ok_def)

lemma sort_key_filter:
  assumes "sorted_wrt (<) (map accepted_seq rs)"
  shows "order_by_seq (filter P rs) = filter P rs"
proof -
  have "sorted (map accepted_seq (filter P rs))"
    using assms by (induction rs) (auto simp: strict_sorted_iff less_imp_le)
  then show ?thesis unfolding order_by_seq_def by (simp add: sort_key_id_if_sorted)
qed

text \<open>An update that leaves keys alone and makes no row pending keeps the invariant.\<close>

lemma table_ok_update:
  assumes ok: "table_ok q"
    and keys: "\<And>r. accepted_seq (f r) = accepted_seq r" "\<And>r. row_run_id (f r) = row_run_id r"
      "\<And>r. row_session (f r) = row_session r"
    and pending: "\<And>r. r \<in> set (hub_runs q) \<Longrightarrow> P r \<Longrightarrow> is_pending (f r) \<Longrightarrow>
      is_pending r \<and> row_ended_at (f r) = row_ended_at r"
  shows "table_ok (update_where P f q)"
proof -
  let ?g = "\<lambda>r. if P r then f r else r"
  have same: "map accepted_seq (map ?g rs) = map accepted_seq rs"
    "map row_run_id (map ?g rs) = map row_run_id rs" for rs
    by (simp_all add: keys)
  have "count_pending_by_session sid (update_where P f q) \<le> count_pending_by_session sid q" for sid
  proof -
    have "length (filter (\<lambda>r. row_session r = sid \<and> is_pending r) (map ?g rs)) \<le>
        length (filter (\<lambda>r. row_session r = sid \<and> is_pending r) rs)"
      if "set rs \<subseteq> set (hub_runs q)" for rs
      using that pending by (induction rs) (auto simp: keys)
    then show ?thesis by (simp add: count_pending_by_session_def select_where_def update_where_def)
  qed
  moreover have "max_pending (update_where P f q) = max_pending q" by (simp add: update_where_def)
  ultimately have "\<forall>sid. count_pending_by_session sid (update_where P f q) \<le> max_pending (update_where P f q)"
    using table_okD(5) [OF ok] by (metis le_trans)
  then show ?thesis
    using ok pending unfolding table_ok_def update_where_def by (auto simp: same keys simp del: map_map)
qed

lemma table_ok_filter:
  assumes "table_ok q"
  shows "table_ok (q\<lparr>hub_runs := filter P (hub_runs q)\<rparr>)"
proof -
  have sorted: "sorted_wrt (<) (map accepted_seq (filter P rs))" if "sorted_wrt (<) (map accepted_seq rs)" for rs
    using that by (induction rs) auto
  have "count_pending_by_session sid (q\<lparr>hub_runs := filter P (hub_runs q)\<rparr>) \<le>
      count_pending_by_session sid q" for sid
  proof -
    have "length (filter Q (filter P rs)) \<le> length (filter Q rs)" for Q :: "run_row \<Rightarrow> bool" and rs
      by (induction rs) auto
    then show ?thesis by (simp add: count_pending_by_session_def select_where_def)
  qed
  then have "count_pending_by_session sid (q\<lparr>hub_runs := filter P (hub_runs q)\<rparr>) \<le> max_pending q" for sid
    using table_okD(5) [OF assms] by (metis le_trans)
  with sorted show ?thesis
    using assms unfolding table_ok_def by (auto simp: distinct_map_filter)
qed

lemma table_ok_admit:
  assumes ok: "table_ok q" and adm: "admit sid input client rid now q = Inr (a, q')"
  shows "table_ok q'"
proof -
  let ?new = "\<lparr>accepted_seq = next_seq q, row_run_id = rid, row_session = sid, row_state = RunQueued,
    row_input = input, row_client = client, row_accepted_at = now, row_started_at = None,
    row_ended_at = None, row_error = None\<rparr>"
  have q': "q' = q\<lparr>hub_runs := hub_runs q @ [?new], next_seq := Suc (next_seq q)\<rparr>"
    and room: "count_pending_by_session sid q < max_pending q" and fresh: "get_run rid q = None"
    using adm by (auto simp: admit_def Let_def split: if_splits)
  have "rid \<notin> row_run_id ` set (hub_runs q)"
    using fresh by (auto simp: get_run_def select_where_def filter_empty_conv split: list.splits)
  moreover have "count_pending_by_session s q' \<le> max_pending q" for s
    using room table_okD(5) [OF ok, of s]
    by (auto simp: q' count_pending_by_session_def select_where_def)
  moreover have "sorted_wrt (<) (map accepted_seq (hub_runs q'))"
    using table_okD(1,3) [OF ok] by (auto simp: q' sorted_wrt_append)
  ultimately show ?thesis
    using ok unfolding table_ok_def by (auto simp: q' less_Suc_eq)
qed

lemma table_ok_step: "table_ok q \<Longrightarrow> table_ok (run_step e q)"
proof (cases e)
  case (AdmitRun sid input client rid now)
  assume ok: "table_ok q"
  show ?thesis
  proof (cases "admit sid input client rid now q")
    case (Inr b)
    then show ?thesis using table_ok_admit [OF ok] AdmitRun by (cases b) auto
  qed (simp add: AdmitRun ok)
next
  case (RecoverOnStartup now)
  assume ok: "table_ok q"
  show ?thesis
    unfolding RecoverOnStartup run_step.simps recover_on_startup_def Let_def snd_conv prune_ended_def
    by (intro table_ok_filter table_ok_update ok) (auto simp: is_pending_def)
qed (auto simp: mark_running_def mark_terminal_def is_pending_def intro!: table_ok_update)

interpretation run_queue: invariant_machine run_step table_ok
  by unfold_locales (rule table_ok_step)

lemma table_ok_new: "table_ok (new_run_queue limit)"
  by (simp add: table_ok_def new_run_queue_def count_pending_by_session_def select_where_def)

abbreviation hub_run :: "nat option \<Rightarrow> run_event list \<Rightarrow> hub_run_queue" where
  "hub_run limit es \<equiv> fold run_step es (new_run_queue limit)"

lemma table_ok_run: "table_ok (hub_run limit es)"
  by (rule run_queue.run_inv [OF table_ok_new])

lemma max_pending_step [simp]: "max_pending (run_step e q) = max_pending q"
  by (cases e) (auto simp: admit_def Let_def mark_running_def mark_terminal_def update_where_def
      recover_on_startup_def prune_ended_def)

lemma max_pending_run: "max_pending (fold run_step es q) = max_pending q"
  by (induction es arbitrary: q) simp_all

lemma next_queued_hd:
  assumes "table_ok q"
  shows "next_queued sid q =
    (case filter (\<lambda>r. row_session r = sid \<and> row_state r = RunQueued) (hub_runs q) of
       [] \<Rightarrow> None | r # _ \<Rightarrow> Some r)"
  by (simp add: next_queued_def select_where_def sort_key_filter [OF table_okD(1) [OF assms]])

lemma filter_interrupted:
  "filter (\<lambda>r. row_state r = RunQueued)
     (map (\<lambda>r. if row_state r = RunRunning
       then r\<lparr>row_state := RunInterrupted, row_ended_at := t, row_error := err\<rparr> else r) rs) =
   filter (\<lambda>r. row_state r = RunQueued) rs"
  by (induction rs) auto

text \<open>The events that start or end one run.\<close>

fun touches :: "string \<Rightarrow> run_event \<Rightarrow> bool" where
  "touches rid (MarkRunning rid' now) = (rid' = rid)"
| "touches rid (MarkCompleted rid' now) = (rid' = rid)"
| "touches rid (MarkFailed rid' err now) = (rid' = rid)"
| "touches rid (MarkAborted rid' err now) = (rid' = rid)"
| "touches rid (MarkInterrupted rid' err now) = (rid' = rid)"
| "touches rid e = False"

lemma update_keeps: "r \<in> set (hub_runs q) \<Longrightarrow> \<not> P r \<Longrightarrow> r \<in> set (hub_runs (update_where P f q))"
  by (force simp: update_where_def)

lemma queued_step:
  assumes ok: "table_ok q" and r: "r \<in> set (hub_runs q)" and queued: "row_state r = RunQueued"
    and "\<not> touches (row_run_id r) e"
  shows "r \<in> set (hub_runs (run_step e q))"
proof (cases e)
  case (AdmitRun sid input client rid now)
  then show ?thesis using r by (auto simp: admit_def Let_def split: sum.split)
next
  case (RecoverOnStartup now)
  have "row_ended_at r = None" using table_okD(4) [OF ok r] queued by (simp add: is_pending_def)
  with r queued show ?thesis
    by (simp add: RecoverOnStartup recover_on_startup_def Let_def prune_ended_def update_keeps)
qed (use assms in \<open>auto simp: mark_running_def mark_terminal_def intro!: update_keeps\<close>)

section \<open>Properties\<close>

text \<open>
  C8: backpressure. After any sequence of admissions, state changes and daemon restarts, no
  session has more queued and running runs than the limit (32 unless configured). An admission to a
  session at the limit is refused with the count and the limit and changes nothing; one below it, under an
  id that is not taken, is accepted behind the runs counted, and counts as one more.
\<close>

theorem admission_bounded:
  "let q = hub_run limit es; m = opt_default DEFAULT_MAX_PENDING_PER_SESSION limit; k = count_pending_by_session sid q;
       q' = run_step (AdmitRun sid input client rid now) q
   in k \<le> m \<and>
      (k = m \<longrightarrow> admit sid input client rid now q = Inl (AdmissionRejected sid m m) \<and> q' = q) \<and>
      (k < m \<and> get_run rid q = None \<longrightarrow>
         admit sid input client rid now q = Inr (\<lparr>acc_run_id = rid, acc_accepted_at = now, acc_position = k\<rparr>, q') \<and>
         count_pending_by_session sid q' = Suc k)"
proof -
  let ?q = "hub_run limit es"
  have m: "max_pending ?q = opt_default DEFAULT_MAX_PENDING_PER_SESSION limit"
    by (simp add: max_pending_run) (simp add: new_run_queue_def)
  have "count_pending_by_session sid ?q \<le> max_pending ?q"
    using table_okD(5) [OF table_ok_run [where limit = limit and es = es], where sid = sid] .
  then show ?thesis
    unfolding m [symmetric]
    by (auto simp: admit_def Let_def count_pending_by_session_def select_where_def is_pending_def)
qed

lemma admission_bounded_witness:
  "admit ''s'' [] None ''r2'' 9 (hub_run (Some 1) [AdmitRun ''s'' [] None ''r1'' 1]) =
     Inl (AdmissionRejected ''s'' 1 1)"
  using admission_bounded [where limit = "Some 1" and es = "[AdmitRun ''s'' [] None ''r1'' 1]" and sid = "''s''"
      and input = "[]" and client = None and rid = "''r2''" and now = 9]
  by (simp add: Let_def admit_def new_run_queue_def count_pending_by_session_def select_where_def
      get_run_def is_pending_def)

text \<open>
  first in, first out. The run a session executes next is its oldest queued run: no run
  admitted earlier to the same session is still queued behind it, and there is none exactly when
  nothing is queued.
\<close>

theorem next_queued_is_oldest:
  assumes "q = hub_run limit es"
  shows "case next_queued sid q of
      None \<Rightarrow> \<forall>r \<in> set (hub_runs q). row_session r = sid \<longrightarrow> row_state r \<noteq> RunQueued
    | Some r \<Rightarrow> r \<in> set (hub_runs q) \<and> row_session r = sid \<and> row_state r = RunQueued \<and>
        (\<forall>r' \<in> set (hub_runs q). row_session r' = sid \<and> row_state r' = RunQueued \<and> r' \<noteq> r \<longrightarrow>
          accepted_seq r < accepted_seq r')"
proof -
  have ok: "table_ok q" unfolding assms by (rule table_ok_run)
  let ?P = "\<lambda>r. row_session r = sid \<and> row_state r = RunQueued"
  show ?thesis
  proof (cases "filter ?P (hub_runs q)")
    case Nil
    then show ?thesis by (simp add: next_queued_hd [OF ok] filter_empty_conv)
  next
    case (Cons r rs)
    have "sorted_wrt (<) (map accepted_seq (filter ?P (hub_runs q)))"
      using table_okD(1) [OF ok] by (induction "hub_runs q") (auto simp: sorted_wrt_filter sorted_wrt_map)
    then have "\<forall>r' \<in> set rs. accepted_seq r < accepted_seq r'" by (simp add: Cons)
    moreover have "r \<in> set (filter ?P (hub_runs q))" unfolding Cons by simp
    then have "r \<in> set (hub_runs q) \<and> ?P r" by simp
    moreover have "r' \<in> set rs" if "r' \<in> set (hub_runs q)" "?P r'" "r' \<noteq> r" for r'
    proof -
      have "r' \<in> set (filter ?P (hub_runs q))" using that by simp
      with that(3) show ?thesis unfolding Cons by simp
    qed
    ultimately show ?thesis by (simp add: next_queued_hd [OF ok] Cons)
  qed
qed

lemma next_queued_is_oldest_witness:
  "next_queued ''s'' (hub_run None [AdmitRun ''s'' [] None ''r1'' 1]) \<noteq> None"
  using next_queued_is_oldest [OF refl, where sid = "''s''" and limit = None and es = "[AdmitRun ''s'' [] None ''r1'' 1]"]
  by (auto simp: admit_def new_run_queue_def count_pending_by_session_def select_where_def Let_def
      get_run_def DEFAULT_MAX_PENDING_PER_SESSION_def split: option.splits)

text \<open>
  crash recovery. At startup every run left running is marked interrupted, with the time and
  the reason, and none is running any more; every queued run is handed back in admission order
  and stays queued.
\<close>

theorem recovery_interrupts_and_requeues:
  assumes "q = hub_run limit es"
  shows "case recover_on_startup now q of ((interrupted, requeued), q') \<Rightarrow>
    (\<forall>r \<in> set (hub_runs q'). row_state r \<noteq> RunRunning) \<and>
    requeued = filter (\<lambda>r. row_state r = RunQueued) (hub_runs q) \<and>
    filter (\<lambda>r. row_state r = RunQueued) (hub_runs q') = requeued \<and>
    map row_run_id interrupted = map row_run_id (filter (\<lambda>r. row_state r = RunRunning) (hub_runs q)) \<and>
    (\<forall>r \<in> set interrupted. \<exists>r' \<in> set (hub_runs q'). row_run_id r' = row_run_id r \<and>
       row_state r' = RunInterrupted \<and> row_ended_at r' = Some now \<and> row_error r' = Some interrupted_error)"
proof -
  have ok: "table_ok q" unfolding assms by (rule table_ok_run)
  let ?f = "\<lambda>r. r\<lparr>row_state := RunInterrupted, row_ended_at := Some now, row_error := Some interrupted_error\<rparr>"
  let ?q1 = "update_where (\<lambda>r. row_state r = RunRunning) ?f q"
  have sorted: "order_by_seq (filter P (hub_runs q)) = filter P (hub_runs q)" for P
    by (rule sort_key_filter [OF table_okD(1) [OF ok]])
  have "map accepted_seq (hub_runs ?q1) = map accepted_seq (hub_runs q)"
    by (simp add: update_where_def)
  then have sorted1: "order_by_seq (filter P (hub_runs ?q1)) = filter P (hub_runs ?q1)" for P
    using table_okD(1) [OF ok] by (intro sort_key_filter) simp
  have queued1: "filter (\<lambda>r. row_state r = RunQueued) (hub_runs ?q1) =
      filter (\<lambda>r. row_state r = RunQueued) (hub_runs q)"
    by (simp add: update_where_def filter_interrupted)
  have queued2: "filter (\<lambda>r. row_state r = RunQueued) (hub_runs (prune_ended now ?q1)) =
      filter (\<lambda>r. row_state r = RunQueued) (hub_runs ?q1)"
  proof -
    have "row_ended_at r = None" if "r \<in> set (hub_runs ?q1)" "row_state r = RunQueued" for r
    proof -
      have "r \<in> set (filter (\<lambda>r. row_state r = RunQueued) (hub_runs q))"
        unfolding queued1 [symmetric] using that by simp
      then show ?thesis using table_okD(4) [OF ok] by (auto simp: is_pending_def)
    qed
    then show ?thesis by (auto simp: prune_ended_def intro!: filter_cong)
  qed
  have gone: "row_state r \<noteq> RunRunning" if "r \<in> set (hub_runs (prune_ended now ?q1))" for r
    using that by (auto simp: prune_ended_def update_where_def)
  have kept: "?f r \<in> set (hub_runs (prune_ended now ?q1))" if "r \<in> set (hub_runs q)" "row_state r = RunRunning" for r
    using that by (force simp: prune_ended_def update_where_def)
  have run: "recover_on_startup now q =
      ((map (\<lambda>r. r\<lparr>row_state := RunInterrupted\<rparr>) (filter (\<lambda>r. row_state r = RunRunning) (hub_runs q)),
        filter (\<lambda>r. row_state r = RunQueued) (hub_runs q)), prune_ended now ?q1)"
    by (simp only: recover_on_startup_def Let_def select_where_def sorted sorted1 queued1)
  show ?thesis unfolding run prod.case
  proof (intro conjI ballI)
    fix r assume "r \<in> set (map (\<lambda>r. r\<lparr>row_state := RunInterrupted\<rparr>)
      (filter (\<lambda>r. row_state r = RunRunning) (hub_runs q)))"
    then obtain r0 where "r0 \<in> set (hub_runs q)" "row_state r0 = RunRunning" "row_run_id r = row_run_id r0"
      by auto
    then show "\<exists>r' \<in> set (hub_runs (prune_ended now ?q1)). row_run_id r' = row_run_id r \<and>
        row_state r' = RunInterrupted \<and> row_ended_at r' = Some now \<and> row_error r' = Some interrupted_error"
      using kept [of r0] by (intro bexI [of _ "?f r0"]) simp_all
  qed (simp_all add: gone queued2 queued1 comp_def)
qed

lemma recovery_interrupts_and_requeues_witness:
  "map row_run_id (fst (fst (recover_on_startup 9 (hub_run None [AdmitRun ''s'' [] None ''r1'' 1, MarkRunning ''r1'' 2])))) =
   map row_run_id (filter (\<lambda>r. row_state r = RunRunning)
     (hub_runs (hub_run None [AdmitRun ''s'' [] None ''r1'' 1, MarkRunning ''r1'' 2])))"
  using recovery_interrupts_and_requeues [OF refl, where limit = None and now = 9
      and es = "[AdmitRun ''s'' [] None ''r1'' 1, MarkRunning ''r1'' 2]"]
  unfolding case_prod_unfold by (elim conjE)

text \<open>
  acceptance is durable. A queued run that no one starts or ends is still queued, unchanged,
  after any further admissions, work on other runs and daemon restarts.
\<close>

theorem queued_run_survives:
  assumes "q = hub_run limit es" and "r \<in> set (hub_runs q)" and "row_state r = RunQueued"
    and "\<forall>e \<in> set es'. \<not> touches (row_run_id r) e"
  shows "r \<in> set (hub_runs (fold run_step es' q))"
proof -
  have "table_ok q" unfolding assms(1) by (rule table_ok_run)
  from this assms(2,4) show ?thesis
  proof (induction es' arbitrary: q)
    case (Cons e es')
    have "r \<in> set (hub_runs (run_step e q))"
      using queued_step [OF Cons.prems(1,2) assms(3)] Cons.prems(3) by simp
    with Cons table_ok_step show ?case by simp
  qed simp
qed

lemma queued_run_survives_witness:
  "\<exists>r \<in> set (hub_runs (fold run_step [RecoverOnStartup 99, AdmitRun ''s'' [] None ''r2'' 100]
      (hub_run None [AdmitRun ''s'' [] None ''r1'' 1]))). row_run_id r = ''r1''"
proof -
  let ?q = "hub_run None [AdmitRun ''s'' [] None ''r1'' 1]"
  have "\<exists>r \<in> set (hub_runs ?q). row_run_id r = ''r1'' \<and> row_state r = RunQueued"
    by code_simp
  then obtain r where r: "r \<in> set (hub_runs ?q)" "row_run_id r = ''r1''" "row_state r = RunQueued" by blast
  from queued_run_survives [OF refl r(1,3), of "[RecoverOnStartup 99, AdmitRun ''s'' [] None ''r2'' 100]"] r(2)
  show ?thesis by auto
qed

end
