(* ===== verification/EventLog.thy ===== *)
theory EventLog
  imports Text
begin

text \<open>
  The durable event log of \<open>sdk/packages/core/src/hub/server/hub-event-log.ts\<close>: appends stamped
  with the row id, pages of events after a cursor, and the retention sweep. The table is a list
  of rows, each SQL statement the list operation it denotes. \<open>JSON.stringify\<close> and \<open>JSON.parse\<close> are
  arguments, and so are the clock and the size of the database file that SQLite reports.
\<close>

record envelope =
  env_event :: string
  env_session :: "string option"
  env_timestamp :: "nat option"
  env_payload :: bytes
  env_sequence :: "nat option"

record event_row =
  ev_sequence :: nat
  ev_event :: string
  ev_session :: "string option"
  ev_json :: bytes
  ev_created_at :: nat

record hub_event_log =
  hub_events :: "event_row list"
  last_rowid :: nat
  retention_ms :: nat
  max_rows :: nat
  max_total_bytes :: nat
  appended_bytes :: nat
  log_closed :: bool

definition DEFAULT_RETENTION_MS :: nat where
  "DEFAULT_RETENTION_MS = 7 * 24 * 60 * 60 * 1000"

definition DEFAULT_MAX_ROWS :: nat where
  "DEFAULT_MAX_ROWS = 200000"

definition DEFAULT_MAX_TOTAL_BYTES :: nat where
  "DEFAULT_MAX_TOTAL_BYTES = 64 * 1024 * 1024"

definition PRUNE_EVERY_APPENDED_BYTES :: nat where
  "PRUNE_EVERY_APPENDED_BYTES = 16 * 1024 * 1024"

definition new_event_log :: "nat option \<Rightarrow> nat option \<Rightarrow> nat option \<Rightarrow> hub_event_log" where
  "new_event_log retention rows budget =
     \<lparr>hub_events = [], last_rowid = 0, retention_ms = opt_default DEFAULT_RETENTION_MS retention,
      max_rows = opt_default DEFAULT_MAX_ROWS rows,
      max_total_bytes = opt_default DEFAULT_MAX_TOTAL_BYTES budget,
      appended_bytes = 0, log_closed = False\<rparr>"

definition by_sequence :: "event_row list \<Rightarrow> event_row list" where
  "by_sequence rs = sort_key ev_sequence rs"

section \<open>The sweep\<close>

definition delete_up_to :: "nat option \<Rightarrow> event_row list \<Rightarrow> event_row list" where
  "delete_up_to bound rs =
     (case bound of None \<Rightarrow> rs | Some s \<Rightarrow> filter (\<lambda>r. \<not> ev_sequence r \<le> s) rs)"

definition prune_old :: "nat \<Rightarrow> nat \<Rightarrow> event_row list \<Rightarrow> event_row list" where
  "prune_old now retention rs = filter (\<lambda>r. \<not> int (ev_created_at r) < int now - int retention) rs"

text \<open>\<open>ORDER BY sequence DESC LIMIT 1 OFFSET maxRows\<close>.\<close>

definition row_cut :: "nat \<Rightarrow> event_row list \<Rightarrow> nat option" where
  "row_cut offset rs =
     (let newest = rev (by_sequence rs)
      in if offset < length newest then Some (ev_sequence (newest ! offset)) else None)"

text \<open>
  The running sum over the rows before a row in descending order: NULL for the newest row.
\<close>

definition newer_bytes :: "event_row list \<Rightarrow> nat \<Rightarrow> nat option" where
  "newer_bytes newest i = (if i = 0 then None else Some (sum_list (map (length \<circ> ev_json) (take i newest))))"

definition size_cut :: "nat \<Rightarrow> event_row list \<Rightarrow> nat option" where
  "size_cut budget rs =
     (let newest = rev (by_sequence rs)
      in case find (\<lambda>i. case newer_bytes newest i of None \<Rightarrow> False | Some n \<Rightarrow> n > budget)
           [0..<length newest] of
           None \<Rightarrow> None | Some i \<Rightarrow> Some (ev_sequence (newest ! i)))"

text \<open>The three deletes, in the order of the source.\<close>

definition sweep :: "(event_row list \<Rightarrow> nat) \<Rightarrow> nat \<Rightarrow> nat \<Rightarrow> nat \<Rightarrow> nat \<Rightarrow> event_row list \<Rightarrow> event_row list" where
  "sweep file_size now retention rows budget rs =
     (let r1 = prune_old now retention rs;
          r2 = delete_up_to (row_cut rows r1) r1
      in if file_size r2 > budget then delete_up_to (size_cut (budget div 2) r2) r2 else r2)"

definition prune :: "(event_row list \<Rightarrow> nat) \<Rightarrow> nat \<Rightarrow> hub_event_log \<Rightarrow> hub_event_log" where
  "prune file_size now l =
     (if log_closed l then l
      else l\<lparr>hub_events :=
        sweep file_size now (retention_ms l) (max_rows l) (max_total_bytes l) (hub_events l)\<rparr>)"

section \<open>Appending and reading\<close>

definition append_event ::
  "(envelope \<Rightarrow> bytes) \<Rightarrow> (event_row list \<Rightarrow> nat) \<Rightarrow> nat \<Rightarrow> envelope \<Rightarrow> hub_event_log
    \<Rightarrow> envelope \<times> hub_event_log" where
  "append_event stringify file_size now env l =
     (if log_closed l then (env, l)
      else let json = stringify env; sequence = Suc (last_rowid l);
               l1 = l\<lparr>hub_events := hub_events l @
                        [\<lparr>ev_sequence = sequence, ev_event = env_event env, ev_session = env_session env,
                          ev_json = json, ev_created_at = opt_default now (env_timestamp env)\<rparr>],
                      last_rowid := sequence,
                      appended_bytes := appended_bytes l + length json\<rparr>;
               l2 = (if appended_bytes l1 \<ge> PRUNE_EVERY_APPENDED_BYTES
                     then prune file_size now (l1\<lparr>appended_bytes := 0\<rparr>) else l1)
           in (env\<lparr>env_sequence := Some sequence\<rparr>, l2))"

definition in_scope :: "string option \<Rightarrow> event_row \<Rightarrow> bool" where
  "in_scope scope r = (case scope of None \<Rightarrow> True | Some s \<Rightarrow> s = [] \<or> ev_session r = Some s)"

definition select_after :: "nat \<Rightarrow> string option \<Rightarrow> nat \<Rightarrow> hub_event_log \<Rightarrow> event_row list" where
  "select_after sequence scope limit l =
     take limit (by_sequence (filter (\<lambda>r. ev_sequence r > sequence \<and> in_scope scope r) (hub_events l)))"

definition stamp :: "(bytes \<Rightarrow> envelope option) \<Rightarrow> event_row \<Rightarrow> envelope option" where
  "stamp parse r = map_option (\<lambda>e. e\<lparr>env_sequence := Some (ev_sequence r)\<rparr>) (parse (ev_json r))"

definition list_after ::
  "(bytes \<Rightarrow> envelope option) \<Rightarrow> nat \<Rightarrow> string option \<Rightarrow> nat \<Rightarrow> hub_event_log \<Rightarrow> envelope list" where
  "list_after parse sequence scope limit l =
     (if log_closed l then [] else List.map_filter (stamp parse) (select_after sequence scope limit l))"

definition last_sequence :: "hub_event_log \<Rightarrow> nat" where
  "last_sequence l =
     (if log_closed l \<or> hub_events l = [] then 0 else Max (ev_sequence ` set (hub_events l)))"

definition close_log :: "hub_event_log \<Rightarrow> hub_event_log" where
  "close_log l = l\<lparr>log_closed := True\<rparr>"

datatype log_event = AppendEvent envelope nat | PruneLog nat | CloseLog

fun log_step ::
  "(envelope \<Rightarrow> bytes) \<Rightarrow> (event_row list \<Rightarrow> nat) \<Rightarrow> log_event \<Rightarrow> hub_event_log \<Rightarrow> hub_event_log" where
  "log_step stringify file_size (AppendEvent env now) l = snd (append_event stringify file_size now env l)"
| "log_step stringify file_size (PruneLog now) l = prune file_size now l"
| "log_step stringify file_size CloseLog l = close_log l"

section \<open>The invariant of the table\<close>

definition log_rows_ok :: "hub_event_log \<Rightarrow> bool" where
  "log_rows_ok l \<longleftrightarrow> sorted_wrt (<) (map ev_sequence (hub_events l)) \<and>
     (\<forall>r \<in> set (hub_events l). ev_sequence r \<le> last_rowid l)"

lemma by_sequence_sorted:
  assumes "sorted_wrt (<) (map ev_sequence rs)"
  shows "by_sequence (filter P rs) = filter P rs" and "by_sequence rs = rs"
proof -
  have "sorted (map ev_sequence (filter P rs))" "sorted (map ev_sequence rs)"
    using assms by (induction rs) (auto simp: less_imp_le)
  then show "by_sequence (filter P rs) = filter P rs" and "by_sequence rs = rs"
    unfolding by_sequence_def by (simp_all add: sort_key_id_if_sorted)
qed

lemma sorted_sub: "sorted_wrt (<) (map ev_sequence rs) \<Longrightarrow> sorted_wrt (<) (map ev_sequence (filter P rs))"
  by (induction rs) auto

lemma sorted_delete: "sorted_wrt (<) (map ev_sequence rs) \<Longrightarrow> sorted_wrt (<) (map ev_sequence (delete_up_to c rs))"
  by (simp add: delete_up_to_def sorted_sub split: option.split)

lemma set_delete: "set (delete_up_to c rs) \<subseteq> set rs"
  by (auto simp: delete_up_to_def split: option.splits)

lemma sorted_sweep:
  assumes "sorted_wrt (<) (map ev_sequence rs)"
  shows "sorted_wrt (<) (map ev_sequence (sweep file_size now m k b rs))"
proof -
  have "sorted_wrt (<) (map ev_sequence (prune_old now m rs))"
    unfolding prune_old_def by (rule sorted_sub [OF assms])
  then show ?thesis by (simp add: sweep_def Let_def sorted_delete)
qed

lemma set_sweep: "set (sweep file_size now m k b rs) \<subseteq> set rs"
proof -
  have "set (prune_old now m rs) \<subseteq> set rs" by (auto simp: prune_old_def)
  then show ?thesis unfolding sweep_def Let_def using set_delete by (auto split: if_splits) (meson subsetD)+
qed

lemma prune_frame [simp]:
  "last_rowid (prune file_size now l) = last_rowid l"
  "log_closed (prune file_size now l) = log_closed l"
  by (simp_all add: prune_def)

lemma log_rows_ok_prune: "log_rows_ok l \<Longrightarrow> log_rows_ok (prune file_size now l)"
  using set_sweep by (fastforce simp: log_rows_ok_def prune_def sorted_sweep)

lemma log_rows_ok_append:
  assumes "log_rows_ok l"
  shows "log_rows_ok (snd (append_event stringify file_size now env l))"
proof -
  have "log_rows_ok (l\<lparr>hub_events := hub_events l @ [r], last_rowid := Suc (last_rowid l), appended_bytes := n\<rparr>)"
    if "ev_sequence r = Suc (last_rowid l)" for r n
    using assms that by (auto simp: log_rows_ok_def sorted_wrt_append less_Suc_eq_le)
  then show ?thesis
    using assms by (simp add: append_event_def Let_def log_rows_ok_prune)
qed

lemma log_rows_ok_step: "log_rows_ok l \<Longrightarrow> log_rows_ok (log_step stringify file_size e l)"
  by (cases e) (simp_all add: log_rows_ok_append log_rows_ok_prune, simp add: log_rows_ok_def close_log_def)

interpretation event_log: invariant_machine "log_step stringify file_size" log_rows_ok
  for stringify file_size
  by unfold_locales (rule log_rows_ok_step)

lemma log_rows_ok_new: "log_rows_ok (new_event_log r m b)"
  by (simp add: log_rows_ok_def new_event_log_def)

section \<open>What the deletes keep\<close>

definition total_json :: "event_row list \<Rightarrow> nat" where
  "total_json rs = sum_list (map (length \<circ> ev_json) rs)"

lemma delete_drop:
  assumes "sorted_wrt (<) (map ev_sequence rs)" and "i < length rs"
  shows "delete_up_to (Some (ev_sequence (rs ! i))) rs = drop (Suc i) rs"
proof -
  have order: "ev_sequence (rs ! j) < ev_sequence (rs ! k)" if "j < k" "k < length rs" for j k
    using sorted_wrt_nth_less [OF assms(1), of j k] that by simp
  have "filter (\<lambda>r. \<not> ev_sequence r \<le> ev_sequence (rs ! i)) (take (Suc i) rs) = []"
    using order assms(2) by (auto simp: filter_empty_conv in_set_conv_nth less_Suc_eq) (meson less_imp_le)
  moreover have "filter (\<lambda>r. \<not> ev_sequence r \<le> ev_sequence (rs ! i)) (drop (Suc i) rs) = drop (Suc i) rs"
    using order by (auto simp: filter_id_conv in_set_conv_nth not_le)
  ultimately show ?thesis
    using filter_append [of "\<lambda>r. \<not> ev_sequence r \<le> ev_sequence (rs ! i)" "take (Suc i) rs" "drop (Suc i) rs"]
    by (simp add: delete_up_to_def)
qed

lemma delete_newest:
  assumes "sorted_wrt (<) (map ev_sequence rs)" and "i < length rs"
  shows "delete_up_to (Some (ev_sequence (rev rs ! i))) rs = drop (length rs - i) rs"
  using delete_drop [OF assms(1), of "length rs - Suc i"] assms(2)
  by (simp add: rev_nth Suc_diff_Suc)

lemma row_cut_drop:
  assumes "sorted_wrt (<) (map ev_sequence rs)"
  shows "delete_up_to (row_cut k rs) rs = drop (length rs - k) rs"
proof (cases "k < length rs")
  case True
  then show ?thesis using delete_newest [OF assms True] by (simp add: row_cut_def by_sequence_sorted(2) [OF assms])
next
  case False
  then show ?thesis by (simp add: row_cut_def by_sequence_sorted(2) [OF assms] delete_up_to_def)
qed

lemma tl_newest: "tl (drop (length rs - Suc i) rs) = rev (take i (rev rs))" if "i < length rs"
  using that by (simp add: take_rev tl_drop drop_Suc [symmetric] Suc_diff_Suc)

lemma total_json_rev: "total_json (rev rs) = total_json rs"
  by (simp only: total_json_def rev_map [symmetric] sum_list_rev)

lemma size_cut_drop:
  assumes "sorted_wrt (<) (map ev_sequence rs)"
  shows "\<exists>k. delete_up_to (size_cut b rs) rs = drop k rs \<and> total_json (tl (drop k rs)) \<le> b \<and>
    (rs \<noteq> [] \<longrightarrow> k < length rs)"
proof -
  let ?over = "\<lambda>i. case newer_bytes (rev rs) i of None \<Rightarrow> False | Some n \<Rightarrow> n > b"
  have fit: "total_json (tl (drop (length rs - Suc i) rs)) \<le> b" if "i < length rs" "\<not> ?over i" for i
    unfolding tl_newest [OF that(1)] total_json_rev using that(2)
    by (cases "i = 0") (auto simp: newer_bytes_def total_json_def)
  show ?thesis
  proof (cases "find ?over [0..<length rs]")
    case None
    then have "\<forall>i < length rs. \<not> ?over i" by (auto simp: find_None_iff)
    then have "rs \<noteq> [] \<Longrightarrow> total_json (tl (drop (length rs - Suc (length rs - 1)) rs)) \<le> b"
      by (intro fit) auto
    then have "total_json (tl rs) \<le> b" by (cases rs) (auto simp: total_json_def)
    with None show ?thesis
      by (intro exI [of _ 0]) (simp add: size_cut_def by_sequence_sorted(2) [OF assms] delete_up_to_def)
  next
    case (Some i)
    then obtain "i < length rs" and over: "?over i" and least: "\<forall>j < i. \<not> ?over j"
      by (auto simp: find_Some_iff)
    then obtain j where i: "i = Suc j" by (cases i) (auto simp: newer_bytes_def)
    have "delete_up_to (size_cut b rs) rs = drop (length rs - i) rs"
      using Some delete_newest [OF assms \<open>i < length rs\<close>]
      by (simp add: size_cut_def by_sequence_sorted(2) [OF assms])
    moreover have "total_json (tl (drop (length rs - i) rs)) \<le> b"
      unfolding i using least i \<open>i < length rs\<close> by (intro fit) auto
    ultimately show ?thesis using i \<open>i < length rs\<close> by (intro exI [of _ "length rs - i"]) auto
  qed
qed

section \<open>What was stored\<close>

definition stored_ok :: "(envelope \<Rightarrow> bytes) \<Rightarrow> hub_event_log \<Rightarrow> bool" where
  "stored_ok stringify l \<longleftrightarrow> (\<forall>r \<in> set (hub_events l). \<exists>e. ev_json r = stringify e)"

lemma stored_ok_step: "stored_ok stringify l \<Longrightarrow> stored_ok stringify (log_step stringify file_size e l)"
proof (cases e)
  case (AppendEvent env now)
  assume "stored_ok stringify l"
  then show ?thesis
    using set_sweep unfolding AppendEvent
    by (fastforce simp: stored_ok_def append_event_def Let_def prune_def)
next
  case (PruneLog now)
  assume "stored_ok stringify l"
  then show ?thesis using set_sweep unfolding PruneLog by (fastforce simp: stored_ok_def prune_def)
qed (simp add: stored_ok_def close_log_def)

interpretation stored_log: invariant_machine "log_step stringify file_size" "stored_ok stringify"
  for stringify file_size
  by unfold_locales (rule stored_ok_step)

abbreviation log_run ::
  "(envelope \<Rightarrow> bytes) \<Rightarrow> (event_row list \<Rightarrow> nat) \<Rightarrow> nat option \<Rightarrow> nat option \<Rightarrow> nat option
    \<Rightarrow> log_event list \<Rightarrow> hub_event_log" where
  "log_run stringify file_size retention rows budget es \<equiv>
     fold (log_step stringify file_size) es (new_event_log retention rows budget)"

lemma log_rows_ok_run: "log_rows_ok (log_run stringify file_size retention rows budget es)"
  by (rule event_log.run_inv [OF log_rows_ok_new])

lemma stored_ok_run: "stored_ok stringify (log_run stringify file_size retention rows budget es)"
  by (rule stored_log.run_inv) (simp add: stored_ok_def new_event_log_def)

lemma map_filter_all: "(\<And>x. x \<in> set xs \<Longrightarrow> \<exists>y. f x = Some y) \<Longrightarrow> List.map_filter f xs = map (the \<circ> f) xs"
  by (induction xs) (auto simp: List.map_filter_simps, fastforce)

lemma take_filter_split:
  fixes rs :: "event_row list"
  assumes "sorted_wrt (<) (map ev_sequence rs)" and "take m rs \<noteq> []"
  shows "take (m + n) rs = take m rs @ take n (filter (\<lambda>r. ev_sequence (last (take m rs)) < ev_sequence r) rs)"
proof -
  have "m \<noteq> 0" "rs \<noteq> []" using assms(2) by auto
  define i where "i = min m (length rs) - 1"
  have i: "i < length rs"
    using \<open>rs \<noteq> []\<close> length_greater_0_conv [of rs] unfolding i_def by linarith
  have "last (take m rs) = rs ! i"
    using assms(2) \<open>m \<noteq> 0\<close> by (simp add: last_conv_nth i_def min_def)
  then have "filter (\<lambda>r. ev_sequence (last (take m rs)) < ev_sequence r) rs = drop (Suc i) rs"
    using delete_drop [OF assms(1) i] by (simp add: delete_up_to_def not_le)
  moreover have "drop (Suc i) rs = drop m rs" using \<open>m \<noteq> 0\<close> \<open>rs \<noteq> []\<close> by (auto simp: i_def min_def)
  ultimately show ?thesis by (simp add: take_add)
qed

lemma select_after_sorted:
  assumes "log_rows_ok l"
  shows "select_after s scope k l = take k (filter (\<lambda>r. ev_sequence r > s \<and> in_scope scope r) (hub_events l))"
  using assms by (simp add: select_after_def log_rows_ok_def by_sequence_sorted(1))

section \<open>Properties\<close>

text \<open>The sequences a run hands out, in order.\<close>

fun stamped :: "(envelope \<Rightarrow> bytes) \<Rightarrow> (event_row list \<Rightarrow> nat) \<Rightarrow> log_event list \<Rightarrow> hub_event_log \<Rightarrow> nat list" where
  "stamped stringify file_size [] l = []"
| "stamped stringify file_size (e # es) l =
     (case e of
        AppendEvent env now \<Rightarrow>
          if log_closed l then []
          else [the (env_sequence (fst (append_event stringify file_size now env l)))]
      | _ \<Rightarrow> []) @ stamped stringify file_size es (log_step stringify file_size e l)"

lemma stamped_above:
  "(\<forall>n \<in> set (stamped stringify file_size es l). last_rowid l < n) \<and>
   sorted_wrt (<) (stamped stringify file_size es l)"
proof (induction es arbitrary: l)
  case (Cons e es)
  show ?case
  proof (cases e)
    case (AppendEvent env now)
    have "last_rowid (snd (append_event stringify file_size now env l)) =
        (if log_closed l then last_rowid l else Suc (last_rowid l))"
      by (simp add: append_event_def Let_def)
    with Cons [of "log_step stringify file_size e l"] AppendEvent show ?thesis
      by (auto simp: append_event_def [of _ _ _ _ l] Let_def split: if_splits)
  next
    case (PruneLog now)
    with Cons [of "log_step stringify file_size e l"] show ?thesis by simp
  next
    case CloseLog
    with Cons [of "log_step stringify file_size e l"] show ?thesis by (simp add: close_log_def)
  qed
qed simp

text \<open>
  sequences only grow. Over any run of appends, sweeps and a close, the sequence numbers the
  log stamps on events are strictly increasing: a sweep never makes a number come back, so a
  cursor stays valid.
\<close>

theorem sequences_increase:
  "sorted_wrt (<) (stamped stringify file_size es (new_event_log retention rows budget))"
  by (rule conjunct2 [OF stamped_above])

text \<open>
  replay by pages loses nothing. A client that reads a page and asks for the next one from
  the sequence of the last event it got receives, page after page, exactly the events one large
  read would have given it, in the same order, in any scope and whatever the page sizes.
\<close>

theorem pages_chain:
  assumes "\<forall>e. parse (stringify e) = Some e"
    and "l = log_run stringify file_size retention rows budget es" and "\<not> log_closed l"
    and "page = list_after parse s scope m l" and "page \<noteq> []" and "env_sequence (last page) = Some c"
  shows "list_after parse s scope (m + n) l = page @ list_after parse c scope n l"
proof -
  have ok: "log_rows_ok l" unfolding assms(2) by (rule log_rows_ok_run)
  have stored: "stored_ok stringify l" unfolding assms(2) by (rule stored_ok_run)
  let ?all = "filter (\<lambda>r. ev_sequence r > s \<and> in_scope scope r) (hub_events l)"
  have read: "list_after parse s' scope k l = map (the \<circ> stamp parse)
      (take k (filter (\<lambda>r. ev_sequence r > s' \<and> in_scope scope r) (hub_events l)))" for s' k
  proof -
    have "\<exists>y. stamp parse r = Some y" if "r \<in> set (hub_events l)" for r
      using that stored assms(1) by (auto simp: stored_ok_def stamp_def)
    then show ?thesis using assms(3)
      by (simp add: list_after_def select_after_sorted [OF ok], intro map_filter_all)
         (auto dest: in_set_takeD)
  qed
  have sorted: "sorted_wrt (<) (map ev_sequence ?all)"
    using ok by (simp add: log_rows_ok_def sorted_sub)
  have page: "page = map (the \<circ> stamp parse) (take m ?all)" by (simp only: assms(4) read)
  then have ne: "take m ?all \<noteq> []" using assms(5) by auto
  let ?r = "last (take m ?all)"
  have r: "?r \<in> set (hub_events l)" "s < ev_sequence ?r"
    using last_in_set [OF ne] by (auto dest: in_set_takeD)
  have "env_sequence (the (stamp parse ?r)) = Some (ev_sequence ?r)"
    using r(1) stored assms(1) by (auto simp: stored_ok_def stamp_def)
  moreover have "last page = the (stamp parse ?r)"
    unfolding page using ne by (simp add: last_map)
  ultimately have c: "c = ev_sequence ?r" using assms(6) by simp
  have "filter (\<lambda>x. ev_sequence ?r < ev_sequence x) ?all =
      filter (\<lambda>x. ev_sequence x > c \<and> in_scope scope x) (hub_events l)"
    using r(2) by (auto simp: c intro!: filter_cong)
  then have "take (m + n) ?all = take m ?all @
      take n (filter (\<lambda>x. ev_sequence x > c \<and> in_scope scope x) (hub_events l))"
    using take_filter_split [OF sorted ne, of n] by (simp only:)
  then show ?thesis by (simp only: read page map_append)
qed

text \<open>
  what a sweep leaves. Of the events within the retention time it keeps the newest ones: a
  tail of them, no more than the row cap, and, when the file is then over its budget, so few that
  all but the oldest kept one fit in half the budget; the newest is kept unless the row cap is 0.
\<close>

theorem sweep_keeps_newest:
  assumes "l = log_run stringify file_size retention rows budget es" and "\<not> log_closed l"
  shows "let kept = hub_events (prune file_size now l);
      recent = prune_old now (retention_ms l) (hub_events l);
      capped = drop (length recent - max_rows l) recent
    in (\<exists>k. kept = drop k recent) \<and> length kept \<le> max_rows l \<and>
       (file_size capped > max_total_bytes l \<longrightarrow> total_json (tl kept) \<le> max_total_bytes l div 2) \<and>
       (recent \<noteq> [] \<and> 0 < max_rows l \<longrightarrow> kept \<noteq> [] \<and> last kept = last recent)"
proof -
  let ?recent = "prune_old now (retention_ms l) (hub_events l)"
  let ?capped = "drop (length ?recent - max_rows l) ?recent"
  have "log_rows_ok l" unfolding assms(1) by (rule log_rows_ok_run)
  then have sorted: "sorted_wrt (<) (map ev_sequence ?recent)"
    by (simp add: log_rows_ok_def prune_old_def sorted_sub)
  then have sorted_c: "sorted_wrt (<) (map ev_sequence ?capped)"
    by (metis drop_map sorted_wrt_drop)
  have kept: "hub_events (prune file_size now l) =
      (if file_size ?capped > max_total_bytes l
       then delete_up_to (size_cut (max_total_bytes l div 2) ?capped) ?capped else ?capped)"
    using assms(2) by (simp add: prune_def sweep_def Let_def row_cut_drop [OF sorted])
  from size_cut_drop [OF sorted_c, of "max_total_bytes l div 2"] obtain k where k:
      "delete_up_to (size_cut (max_total_bytes l div 2) ?capped) ?capped = drop k ?capped"
      "total_json (tl (drop k ?capped)) \<le> max_total_bytes l div 2" "?capped \<noteq> [] \<longrightarrow> k < length ?capped"
    by blast
  have ne: "length ?recent - max_rows l < length ?recent" if "?recent \<noteq> [] \<and> 0 < max_rows l"
    using that by auto
  have "\<exists>j. hub_events (prune file_size now l) = drop j ?capped \<and> (?capped \<noteq> [] \<longrightarrow> j < length ?capped) \<and>
      (file_size ?capped > max_total_bytes l \<longrightarrow> total_json (tl (drop j ?capped)) \<le> max_total_bytes l div 2)"
  proof (cases "file_size ?capped > max_total_bytes l")
    case True
    then show ?thesis using k by (intro exI [of _ k]) (simp add: kept)
  next
    case False
    then show ?thesis by (intro exI [of _ 0]) (simp add: kept)
  qed
  then obtain j where j: "hub_events (prune file_size now l) = drop j ?capped"
      "?capped \<noteq> [] \<longrightarrow> j < length ?capped"
      "file_size ?capped > max_total_bytes l \<longrightarrow> total_json (tl (drop j ?capped)) \<le> max_total_bytes l div 2"
    by blast
  have "drop j ?capped \<noteq> [] \<and> last (drop j ?capped) = last ?recent" if "?recent \<noteq> [] \<and> 0 < max_rows l"
    using ne [OF that] j(2) by simp
  moreover have "length (drop j ?capped) \<le> max_rows l" by simp
  moreover have "\<exists>k. drop j ?capped = drop k ?recent" by (simp only: drop_drop) blast
  ultimately show ?thesis using j(3) unfolding Let_def j(1) by blast
qed

text \<open>For the examples: an encoding of events as bytes, each field with its length in unary.\<close>

definition framed :: "bytes \<Rightarrow> bytes" where
  "framed b = replicate (length b) 1 @ 0 # b"

definition plain_json :: "envelope \<Rightarrow> bytes" where
  "plain_json e = framed (map of_char (env_event e)) @
     framed (case env_session e of None \<Rightarrow> [] | Some s \<Rightarrow> 1 # map of_char s) @
     framed (case env_timestamp e of None \<Rightarrow> [] | Some n \<Rightarrow> replicate (Suc n) 0) @
     framed (env_payload e) @
     framed (case env_sequence e of None \<Rightarrow> [] | Some n \<Rightarrow> replicate (Suc n) 0)"

definition plain_parse :: "bytes \<Rightarrow> envelope option" where
  "plain_parse b = Some (inv plain_json b)"

lemma framed_inj: "framed a @ r = framed b @ s \<longleftrightarrow> a = b \<and> r = s"
proof
  assume eq: "framed a @ r = framed b @ s"
  have "length (takeWhile (\<lambda>w. w = 1) (framed x @ t)) = length x" for x t
    by (simp add: framed_def takeWhile_append)
  with eq have "length a = length b" by metis
  with eq show "a = b \<and> r = s" by (simp add: framed_def)
qed simp

lemma of_char_inj: "inj (of_char :: char \<Rightarrow> 8 word)"
proof (rule injI)
  have n: "unat (of_char c :: 8 word) = of_char c" for c
  proof -
    have "unat (of_nat (of_char c) :: 8 word) = of_char c mod 256" by (simp only: unat_of_nat) simp
    then show ?thesis by (simp add: of_nat_of_char)
  qed
  fix c d assume "(of_char c :: 8 word) = of_char d"
  then have "(of_char c :: nat) = of_char d" using n by metis
  then show "c = d" by simp
qed

lemma plain_json_inj: "inj plain_json"
proof (rule injI)
  fix x y assume eq: "plain_json x = plain_json y"
  have nil: "framed a = framed b \<longleftrightarrow> a = b" for a b using framed_inj [of a "[]" b "[]"] by simp
  have chars: "map (of_char :: char \<Rightarrow> 8 word) a = map of_char b \<longleftrightarrow> a = b" for a b
    using of_char_inj by (simp add: inj_map_eq_map)
  from eq show "x = y"
    by (intro envelope.equality)
       (auto simp: plain_json_def framed_inj nil chars split: option.splits dest: arg_cong [where f = length])
qed

lemma plain_round_trip: "plain_parse (plain_json e) = Some e"
  by (simp add: plain_parse_def plain_json_inj)

abbreviation demo_env :: "bytes \<Rightarrow> envelope" where
  "demo_env p \<equiv> \<lparr>env_event = ''e'', env_session = None, env_timestamp = Some 5, env_payload = p,
     env_sequence = None\<rparr>"

abbreviation demo_log :: hub_event_log where
  "demo_log \<equiv> log_run plain_json (\<lambda>_. 0) None (Some 1) None [AppendEvent (demo_env [1]) 5, AppendEvent (demo_env [2]) 6]"

lemmas log_eval = append_event_def new_event_log_def Let_def PRUNE_EVERY_APPENDED_BYTES_def

lemma demo_length: "length (plain_json (demo_env [w])) = 21"
  by (simp add: plain_json_def framed_def)

lemma pages_chain_witness:
  "list_after plain_parse 0 None 2 demo_log =
     list_after plain_parse 0 None 1 demo_log @ list_after plain_parse 1 None 1 demo_log"
proof -
  have page: "list_after plain_parse 0 None 1 demo_log = [demo_env [1]\<lparr>env_sequence := Some 1\<rparr>] \<and> \<not> log_closed demo_log"
    by (simp add: log_eval demo_length list_after_def select_after_def by_sequence_def in_scope_def
        stamp_def plain_round_trip List.map_filter_simps)
  then show ?thesis
    using pages_chain [where parse = plain_parse and stringify = plain_json and l = demo_log
        and page = "list_after plain_parse 0 None 1 demo_log" and s = 0 and scope = None and m = 1
        and n = 1 and c = 1, OF _ refl _ refl] plain_round_trip
    by (simp add: numeral_2_eq_2)
qed

lemma sweep_keeps_newest_witness:
  "length (hub_events (prune (\<lambda>_. 0) 7 demo_log)) \<le> 1"
proof -
  have "\<not> log_closed demo_log \<and> max_rows demo_log = 1" by (simp add: log_eval demo_length)
  then show ?thesis
    using sweep_keeps_newest [where l = demo_log and now = 7, OF refl] by (simp only: Let_def) blast
qed

section \<open>What the model shows beside\<close>

text \<open>
  The sweep by age can delete the newest event too; \<open>lastSequence\<close> then answers 0, below every
  cursor handed out.
\<close>

lemma last_sequence_rewinds:
  "last_sequence (prune (\<lambda>_. 0) 100
     (log_run plain_json (\<lambda>_. 0) (Some 10) None None [AppendEvent (demo_env [1]) 5])) = 0"
  by (simp add: log_eval demo_length prune_def sweep_def prune_old_def row_cut_def by_sequence_def delete_up_to_def last_sequence_def)

end
