(* ===== verification/PendingPrompts.thy ===== *)
theory PendingPrompts
  imports Text "HOL-Library.Multiset"
begin

text \<open>
  The prompts a session has queued while a turn runs:
  \<open>sdk/packages/core/src/runtime/turn-queue/pending-prompt-service.ts\<close> (the queue and its
  controller) and \<open>harness-notes.ts\<close> (how queued notes merge). A note's \<open>refresh\<close> closure reads
  the program's state, an argument \<open>w\<close> here. \<open>normalizeUserInput\<close>, of another package, is an
  argument \<open>norm_input\<close>. Emitted events and started microtasks are fields of the session.
\<close>

section \<open>Harness notes\<close>

definition SIDE_TURN_RECAP_HEADER :: jtext where
  "SIDE_TURN_RECAP_HEADER =
     js ''[SYSTEM MESSAGE] Side turns while your agents ran (already done, do not repeat):''"

definition starts_with :: "jtext \<Rightarrow> jtext \<Rightarrow> bool" where
  "starts_with p t = (take (length p) t = p)"

text \<open>\<open>split("\n")\<close>.\<close>

fun split_newline :: "jtext \<Rightarrow> jtext list" where
  "split_newline [] = [[]]"
| "split_newline (c # cs) =
     (if c = 10 then [] # split_newline cs
      else (case split_newline cs of l # ls \<Rightarrow> (c # l) # ls | [] \<Rightarrow> [[c]]))"

definition trim_end :: "jtext \<Rightarrow> jtext" where
  "trim_end t = rev (trim_left (rev t))"

definition is_item :: "jtext \<Rightarrow> bool" where
  "is_item l = (starts_with (js ''- user:'') l \<or> starts_with (js ''- report ('') l \<or>
     starts_with (js ''- earlier report:'') l)"

definition items_of :: "jtext \<Rightarrow> jtext list" where
  "items_of note_text = map trim_end (filter is_item (split_newline note_text))"

text \<open>\<open>lastIndexOf\<close>: the last place a text occurs.\<close>

definition last_index_of :: "jtext \<Rightarrow> jtext \<Rightarrow> nat option" where
  "last_index_of p t = find (\<lambda>i. take (length p) (drop i t) = p) (rev [0..<Suc (length t)])"

definition did_of :: "jtext \<Rightarrow> jtext option" where
  "did_of item = map_option (\<lambda>i. drop (i + length (js ''; did: '')) item) (last_index_of (js ''; did: '') item)"

definition keep_report :: "jtext option \<Rightarrow> jtext \<Rightarrow> jtext list" where
  "keep_report latest item =
     (if Some item = latest then [item]
      else if starts_with (js ''- earlier report:'') item then [item]
      else case did_of item of
             Some d \<Rightarrow> if d = [] then [] else [js ''- earlier report: did: '' @ d]
           | None \<Rightarrow> [])"

definition merge_side_turn_recaps :: "jtext \<Rightarrow> jtext \<Rightarrow> jtext" where
  "merge_side_turn_recaps older newer =
     (let items = items_of older @ items_of newer;
          user = filter (starts_with (js ''- user:'')) items;
          reports = filter (\<lambda>i. \<not> starts_with (js ''- user:'') i) items;
          latest = find (starts_with (js ''- report'')) (rev reports)
      in join_lines (SIDE_TURN_RECAP_HEADER # user @ concat (map (keep_report latest) reports)))"

section \<open>The queue\<close>

datatype delivery = ToQueue | ToSteer
datatype prompt_origin = FromUser | FromHarness
datatype note_kind = StatusNote | RecapNote | AwaitingNote | QueuedNote
datatype refresh_result = Rewritten jtext | NoLonger | Threw

record 'w prompt_entry =
  p_id :: jtext
  p_prompt :: jtext
  p_mode :: "string option"
  p_delivery :: delivery
  p_images :: "string list option"
  p_files :: "string list option"
  p_origin :: "prompt_origin option"
  p_note :: "note_kind option"
  p_refresh :: "('w \<Rightarrow> refresh_result) option"

record 'w enqueue_input =
  i_prompt :: jtext
  i_mode :: "string option"
  i_delivery :: delivery
  i_images :: "string list option"
  i_files :: "string list option"
  i_origin :: "prompt_origin option"
  i_note :: "note_kind option"
  i_refresh :: "('w \<Rightarrow> refresh_result) option"

record session_prompt =
  sp_id :: jtext
  sp_prompt :: jtext
  sp_delivery :: delivery
  sp_attachments :: nat
  sp_images :: "string list option"
  sp_files :: "string list option"
  sp_origin :: "prompt_origin option"

definition count_option :: "'a list option \<Rightarrow> nat" where
  "count_option x = (case x of None \<Rightarrow> 0 | Some xs \<Rightarrow> length xs)"

definition snapshot_prompt :: "'w prompt_entry \<Rightarrow> session_prompt" where
  "snapshot_prompt e =
     \<lparr>sp_id = p_id e, sp_prompt = p_prompt e, sp_delivery = p_delivery e,
      sp_attachments = count_option (p_images e) + count_option (p_files e),
      sp_images = p_images e, sp_files = p_files e,
      sp_origin = (if p_origin e = Some FromHarness then p_origin e else None)\<rparr>"

definition snapshot_prompts :: "'w prompt_entry list \<Rightarrow> session_prompt list" where
  "snapshot_prompts ps = map snapshot_prompt ps"

text \<open>\<open>deliverable\<close>: the entry as it is to be read, or nothing when it no longer applies.\<close>

definition deliverable :: "'w \<Rightarrow> 'w prompt_entry \<Rightarrow> 'w prompt_entry option" where
  "deliverable w e =
     (case p_refresh e of
        None \<Rightarrow> Some e
      | Some f \<Rightarrow>
          (case f w of
             Threw \<Rightarrow> Some e
           | NoLonger \<Rightarrow> None
           | Rewritten t \<Rightarrow> if trim t = [] then None else Some (e\<lparr>p_prompt := t\<rparr>)))"

definition insert_updated ::
  "'w prompt_entry \<Rightarrow> nat \<Rightarrow> delivery \<Rightarrow> 'w prompt_entry list \<Rightarrow> 'w prompt_entry list" where
  "insert_updated next previous_index previous_delivery ps =
     (if p_delivery next = ToSteer then next # ps
      else if previous_delivery = ToSteer then ps @ [next]
      else insert_at previous_index next ps)"

record update_input =
  u_prompt_id :: jtext
  u_prompt :: "jtext option"
  u_mode :: "string option"
  u_delivery :: "delivery option"

datatype update_error = PromptEmpty

definition or_default :: "'a option \<Rightarrow> 'a option \<Rightarrow> 'a option" where
  "or_default x d = (case x of None \<Rightarrow> d | Some _ \<Rightarrow> x)"

definition update_prompt ::
  "(jtext \<Rightarrow> jtext) \<Rightarrow> update_input \<Rightarrow> 'w prompt_entry list
    \<Rightarrow> update_error + ('w prompt_entry option \<times> 'w prompt_entry list)" where
  "update_prompt norm_input inp ps =
     (case find_index (\<lambda>e. p_id e = trim (u_prompt_id inp)) ps of
        None \<Rightarrow> Inr (None, ps)
      | Some i \<Rightarrow>
          let existing = ps ! i;
              prompt = (case u_prompt inp of None \<Rightarrow> p_prompt existing | Some t \<Rightarrow> trim (norm_input t))
          in if prompt = [] then Inl PromptEmpty
             else let next = existing\<lparr>p_prompt := prompt, p_mode := or_default (u_mode inp) (p_mode existing),
                        p_delivery := opt_default (p_delivery existing) (u_delivery inp)\<rparr>
                  in Inr (Some next, insert_updated next i (p_delivery existing) (remove_at i ps)))"

definition delete_prompt :: "jtext \<Rightarrow> 'w prompt_entry list \<Rightarrow> 'w prompt_entry option \<times> 'w prompt_entry list" where
  "delete_prompt pid ps =
     (case find_index (\<lambda>e. p_id e = trim pid) ps of
        None \<Rightarrow> (None, ps)
      | Some i \<Rightarrow> (Some (ps ! i), remove_at i ps))"

definition same_note :: "'w enqueue_input \<Rightarrow> 'w prompt_entry \<Rightarrow> bool" where
  "same_note inp e = (p_origin e = Some FromHarness \<and> p_note e = i_note inp)"

definition merged_note :: "'w enqueue_input \<Rightarrow> 'w prompt_entry \<Rightarrow> 'w prompt_entry" where
  "merged_note inp waiting =
     waiting\<lparr>p_prompt := (if i_note inp = Some RecapNote
                          then merge_side_turn_recaps (p_prompt waiting) (i_prompt inp) else i_prompt inp),
             p_refresh := i_refresh inp\<rparr>"

definition new_prompt :: "jtext \<Rightarrow> 'w enqueue_input \<Rightarrow> 'w prompt_entry" where
  "new_prompt fresh inp =
     (let harness = (i_origin inp = Some FromHarness)
      in \<lparr>p_id = fresh, p_prompt = i_prompt inp, p_mode = i_mode inp, p_delivery = i_delivery inp,
          p_images = i_images inp, p_files = i_files inp,
          p_origin = (if harness then i_origin inp else None),
          p_note = (if harness then i_note inp else None),
          p_refresh = (if harness then i_refresh inp else None)\<rparr>)"

definition requeued_prompt :: "'w enqueue_input \<Rightarrow> 'w prompt_entry \<Rightarrow> 'w prompt_entry" where
  "requeued_prompt inp existing =
     existing\<lparr>p_prompt := i_prompt inp, p_mode := or_default (i_mode inp) (p_mode existing),
             p_images := or_default (i_images inp) (p_images existing),
             p_files := or_default (i_files inp) (p_files existing)\<rparr>"

definition enqueue_prompt ::
  "jtext \<Rightarrow> 'w enqueue_input \<Rightarrow> 'w prompt_entry list \<Rightarrow> 'w prompt_entry list" where
  "enqueue_prompt fresh inp ps =
     (case (if i_origin inp = Some FromHarness \<and> i_note inp \<noteq> None
            then find_index (same_note inp) ps else None) of
        Some i \<Rightarrow> ps[i := merged_note inp (ps ! i)]
      | None \<Rightarrow>
          (case find_index (\<lambda>e. p_prompt e = i_prompt inp) ps of
             Some i \<Rightarrow>
               let existing = ps ! i; rest = remove_at i ps; next = requeued_prompt inp existing
               in if i_delivery inp = ToSteer \<or> p_delivery existing = ToSteer
                  then next\<lparr>p_delivery := ToSteer\<rparr> # rest else rest @ [next]
           | None \<Rightarrow>
               if i_delivery inp = ToSteer then new_prompt fresh inp # ps
               else ps @ [new_prompt fresh inp]))"

function consume_steer ::
  "'w \<Rightarrow> 'w prompt_entry list \<Rightarrow> 'w prompt_entry option \<times> 'w prompt_entry list" where
  "consume_steer w ps =
     (case find_index (\<lambda>e. p_delivery e = ToSteer) ps of
        None \<Rightarrow> (None, ps)
      | Some i \<Rightarrow>
          (case deliverable w (ps ! i) of
             Some e \<Rightarrow> (Some e, remove_at i ps)
           | None \<Rightarrow> consume_steer w (remove_at i ps)))"
  by pat_completeness auto
termination
  by (relation "measure (\<lambda>(w, ps). length ps)") (auto dest: find_index_Some)

declare consume_steer.simps [simp del]

fun shift_next :: "'w \<Rightarrow> 'w prompt_entry list \<Rightarrow> 'w prompt_entry option \<times> 'w prompt_entry list" where
  "shift_next w [] = (None, [])"
| "shift_next w (e # ps) =
     (case deliverable w e of Some e' \<Rightarrow> (Some e', ps) | None \<Rightarrow> shift_next w ps)"

definition requeue_front :: "'w prompt_entry \<Rightarrow> 'w prompt_entry list \<Rightarrow> 'w prompt_entry list" where
  "requeue_front e ps = e # ps"

definition not_harness :: "'w prompt_entry \<Rightarrow> bool" where
  "not_harness e = (p_origin e \<noteq> Some FromHarness)"

definition drop_harness_notes :: "'w prompt_entry list \<Rightarrow> nat \<times> 'w prompt_entry list" where
  "drop_harness_notes ps =
     (let kept = filter not_harness ps in (length ps - length kept, kept))"

section \<open>The controller\<close>

datatype session_status = Active | Failed | CancelledStatus

datatype prompt_event = PromptsChanged "session_prompt list" | PromptSubmitted session_prompt

record 'w prompt_session =
  s_pending :: "'w prompt_entry list"
  s_aborting :: bool
  s_draining :: bool
  s_can_start :: bool
  s_status :: session_status
  s_sending :: "'w prompt_entry option"
  s_scheduled :: nat
  s_notified :: nat
  s_events :: "prompt_event list"

definition emit_prompts :: "'w prompt_session \<Rightarrow> 'w prompt_session" where
  "emit_prompts s = s\<lparr>s_events := s_events s @ [PromptsChanged (snapshot_prompts (s_pending s))]\<rparr>"

definition emit_submitted :: "'w prompt_entry \<Rightarrow> 'w prompt_session \<Rightarrow> 'w prompt_session" where
  "emit_submitted e s = s\<lparr>s_events := s_events s @ [PromptSubmitted (snapshot_prompt e)]\<rparr>"

definition schedule_drain :: "'w prompt_session \<Rightarrow> 'w prompt_session" where
  "schedule_drain s =
     (if s_pending s = [] \<or> s_aborting s \<or> s_draining s \<or> \<not> s_can_start s then s
      else s\<lparr>s_scheduled := Suc (s_scheduled s)\<rparr>)"

definition notify_if :: "bool \<Rightarrow> 'w prompt_session \<Rightarrow> 'w prompt_session" where
  "notify_if b s = (if b \<and> \<not> s_aborting s then s\<lparr>s_notified := Suc (s_notified s)\<rparr> else s)"

definition ctl_update ::
  "(jtext \<Rightarrow> jtext) \<Rightarrow> update_input \<Rightarrow> 'w prompt_session \<Rightarrow> update_error + (bool \<times> 'w prompt_session)" where
  "ctl_update norm_input inp s =
     (case update_prompt norm_input inp (s_pending s) of
        Inl err \<Rightarrow> Inl err
      | Inr (next, ps) \<Rightarrow>
          Inr (next \<noteq> None,
            schedule_drain (notify_if (case next of Some e \<Rightarrow> p_delivery e = ToSteer | None \<Rightarrow> False)
              (emit_prompts (s\<lparr>s_pending := ps\<rparr>)))))"

definition steer_first ::
  "(jtext \<Rightarrow> jtext) \<Rightarrow> 'w prompt_session \<Rightarrow> update_error + (bool \<times> 'w prompt_session)" where
  "steer_first norm_input s =
     (case s_pending s of
        [] \<Rightarrow> Inr (False, s)
      | e # _ \<Rightarrow>
          if p_delivery e = ToSteer then Inr (False, s)
          else ctl_update norm_input
                 \<lparr>u_prompt_id = p_id e, u_prompt = None, u_mode = None, u_delivery = Some ToSteer\<rparr> s)"

definition ctl_delete :: "jtext \<Rightarrow> 'w prompt_session \<Rightarrow> bool \<times> 'w prompt_session" where
  "ctl_delete pid s =
     (let (gone, ps) = delete_prompt pid (s_pending s)
      in (gone \<noteq> None, schedule_drain (emit_prompts (s\<lparr>s_pending := ps\<rparr>))))"

definition ctl_enqueue :: "jtext \<Rightarrow> 'w enqueue_input \<Rightarrow> 'w prompt_session \<Rightarrow> 'w prompt_session" where
  "ctl_enqueue fresh inp s =
     schedule_drain (notify_if (i_delivery inp = ToSteer)
       (emit_prompts (s\<lparr>s_pending := enqueue_prompt fresh inp (s_pending s)\<rparr>)))"

definition ctl_consume_steer :: "'w \<Rightarrow> 'w prompt_session \<Rightarrow> 'w prompt_entry option \<times> 'w prompt_session" where
  "ctl_consume_steer w s =
     (let (steer, ps) = consume_steer w (s_pending s); s1 = s\<lparr>s_pending := ps\<rparr>
      in case steer of
           None \<Rightarrow> (None, if length ps \<noteq> length (s_pending s) then emit_prompts s1 else s1)
         | Some e \<Rightarrow> (Some e, emit_submitted e (emit_prompts s1)))"

definition discard_queue :: "'w prompt_session \<Rightarrow> 'w prompt_session" where
  "discard_queue s = (if s_pending s = [] then s else emit_prompts (s\<lparr>s_pending := []\<rparr>))"

definition ctl_drop_notes :: "'w prompt_session \<Rightarrow> 'w prompt_session" where
  "ctl_drop_notes s =
     (let (n, ps) = drop_harness_notes (s_pending s); s1 = s\<lparr>s_pending := ps\<rparr>
      in if n > 0 then emit_prompts s1 else s1)"

text \<open>\<open>drain\<close> up to its \<open>await send(...)\<close>, run by a microtask.\<close>

definition drain_start :: "'w \<Rightarrow> 'w prompt_session \<Rightarrow> 'w prompt_session" where
  "drain_start w s =
     (if s_aborting s \<or> s_draining s \<or> \<not> s_can_start s then s
      else let (next, ps) = shift_next w (s_pending s); s1 = s\<lparr>s_pending := ps\<rparr>
           in case next of
                None \<Rightarrow> if length ps \<noteq> length (s_pending s) then emit_prompts s1 else s1
              | Some e \<Rightarrow> (emit_submitted e (emit_prompts s1))\<lparr>s_draining := True, s_sending := Some e\<rparr>)"

text \<open>The rest of \<open>drain\<close>: the send resolved, with or without an error finish, or threw.\<close>

definition drain_finish :: "bool \<Rightarrow> 'w prompt_session \<Rightarrow> 'w prompt_session" where
  "drain_finish continue s =
     (let s1 = s\<lparr>s_draining := False, s_sending := None\<rparr>
      in if continue \<and> s_pending s1 \<noteq> [] \<and> s_status s1 \<noteq> Failed \<and> s_status s1 \<noteq> CancelledStatus
         then s1\<lparr>s_scheduled := Suc (s_scheduled s1)\<rparr> else s1)"

definition send_resolved :: "bool \<Rightarrow> 'w prompt_session \<Rightarrow> 'w prompt_session" where
  "send_resolved error_finish s =
     (case s_sending s of None \<Rightarrow> s | Some _ \<Rightarrow> drain_finish (\<not> error_finish) s)"

definition send_rejected :: "'w prompt_session \<Rightarrow> 'w prompt_session" where
  "send_rejected s =
     (case s_sending s of
        None \<Rightarrow> s
      | Some e \<Rightarrow> drain_finish False
          (emit_prompts (s\<lparr>s_pending := requeue_front e (s_pending s)\<rparr>)))"

datatype 'w prompt_op =
    Enqueue jtext "'w enqueue_input"
  | Update update_input
  | Delete jtext
  | SteerFirst
  | ConsumeSteer 'w
  | DiscardQueue
  | DropNotes
  | ScheduleDrain
  | Microtask 'w
  | SendResolved bool
  | SendRejected
  | SetAborting bool
  | SetCanStart bool
  | SetStatus session_status

fun prompt_step :: "(jtext \<Rightarrow> jtext) \<Rightarrow> 'w prompt_op \<Rightarrow> 'w prompt_session \<Rightarrow> 'w prompt_session" where
  "prompt_step norm_input (Enqueue fresh inp) s = ctl_enqueue fresh inp s"
| "prompt_step norm_input (Update inp) s = (case ctl_update norm_input inp s of Inl _ \<Rightarrow> s | Inr (_, s') \<Rightarrow> s')"
| "prompt_step norm_input (Delete pid) s = snd (ctl_delete pid s)"
| "prompt_step norm_input SteerFirst s = (case steer_first norm_input s of Inl _ \<Rightarrow> s | Inr (_, s') \<Rightarrow> s')"
| "prompt_step norm_input (ConsumeSteer w) s = snd (ctl_consume_steer w s)"
| "prompt_step norm_input DiscardQueue s = discard_queue s"
| "prompt_step norm_input DropNotes s = ctl_drop_notes s"
| "prompt_step norm_input ScheduleDrain s = schedule_drain s"
| "prompt_step norm_input (Microtask w) s =
     (if s_scheduled s = 0 then s else drain_start w (s\<lparr>s_scheduled := s_scheduled s - 1\<rparr>))"
| "prompt_step norm_input (SendResolved err) s = send_resolved err s"
| "prompt_step norm_input SendRejected s = send_rejected s"
| "prompt_step norm_input (SetAborting b) s = s\<lparr>s_aborting := b\<rparr>"
| "prompt_step norm_input (SetCanStart b) s = s\<lparr>s_can_start := b\<rparr>"
| "prompt_step norm_input (SetStatus st) s = s\<lparr>s_status := st\<rparr>"

definition new_prompt_session :: "'w prompt_session" where
  "new_prompt_session =
     \<lparr>s_pending = [], s_aborting = False, s_draining = False, s_can_start = True, s_status = Active,
      s_sending = None, s_scheduled = 0, s_notified = 0, s_events = []\<rparr>"

end
