(* ===== verification/PendingPromptRuns.thy ===== *)
theory PendingPromptRuns
  imports PendingPrompts
begin

text \<open>
  What the prompt queue promises: what a consumed message and a drained one are, that steering
  messages lead, that one send runs at a time, that nothing is lost but by an operation that is
  meant to lose it, that a queue drains in order, and that a merged recap keeps the user's lines.
\<close>

section \<open>Taking entries\<close>

abbreviation steering :: "'w prompt_entry \<Rightarrow> bool" where
  "steering e \<equiv> p_delivery e = ToSteer"

lemma remove_at_Cons_0 [simp]: "remove_at 0 (x # xs) = xs"
  by (simp add: remove_at_def)

lemma remove_at_Cons_Suc [simp]: "remove_at (Suc i) (x # xs) = x # remove_at i xs"
  by (simp add: remove_at_def)

lemma insert_at_0 [simp]: "insert_at 0 x xs = x # xs"
  by (simp add: insert_at_def)

lemma insert_at_Cons_Suc [simp]: "insert_at (Suc i) x (y # ys) = y # insert_at i x ys"
  by (simp add: insert_at_def)

lemma find_index_split:
  "find_index P xs = Some i \<Longrightarrow>
    \<exists>as b cs. xs = as @ b # cs \<and> length as = i \<and> P b \<and> (\<forall>a \<in> set as. \<not> P a) \<and>
      xs ! i = b \<and> remove_at i xs = as @ cs"
proof -
  assume found: "find_index P xs = Some i"
  note facts = find_index_Some [OF found]
  have "xs = take i xs @ xs ! i # drop (Suc i) xs"
    using facts by (simp add: id_take_nth_drop)
  moreover have "\<forall>a \<in> set (take i xs). \<not> P a"
    using facts by (auto simp: in_set_conv_nth)
  ultimately show ?thesis
    using facts by (intro exI [of _ "take i xs"] exI [of _ "xs ! i"] exI [of _ "drop (Suc i) xs"])
      (auto simp: remove_at_def)
qed

lemma deliverable_plain [simp]: "p_refresh e = None \<Longrightarrow> deliverable w e = Some e"
  by (simp add: deliverable_def)

lemma deliverable_id: "deliverable w e = Some e' \<Longrightarrow> p_id e' = p_id e"
  by (auto simp: deliverable_def split: option.splits refresh_result.splits if_splits)

text \<open>
  Taking the first entry of \<open>xs\<close> that still applies, dropping the notes before it that do not.
\<close>

definition took ::
  "'w \<Rightarrow> 'w prompt_entry list \<Rightarrow> 'w prompt_entry option \<Rightarrow> 'w prompt_entry list \<Rightarrow> bool" where
  "took w xs r rest =
     (case r of
        None \<Rightarrow> rest = [] \<and> (\<forall>e \<in> set xs. deliverable w e = None)
      | Some e' \<Rightarrow> \<exists>gone e. xs = gone @ e # rest \<and> (\<forall>d \<in> set gone. deliverable w d = None) \<and>
          deliverable w e = Some e')"

lemma took_none: "took w [] None []"
  by (simp add: took_def)

lemma took_first: "deliverable w e \<noteq> None \<Longrightarrow> took w (e # xs) (deliverable w e) xs"
  by (auto simp: took_def)

lemma took_skip: "took w xs r rest \<Longrightarrow> deliverable w e = None \<Longrightarrow> took w (e # xs) r rest"
proof (cases r)
  case (Some e')
  assume t: "took w xs r rest" and e: "deliverable w e = None"
  with Some obtain gone d where "xs = gone @ d # rest" "\<forall>d \<in> set gone. deliverable w d = None"
    "deliverable w d = Some e'" by (auto simp: took_def)
  with e Some show ?thesis
    by (auto simp: took_def intro!: exI [of _ "e # gone"])
qed (simp add: took_def)

lemma took_kept:
  assumes "took w xs r rest" and "e \<in> set xs" and "deliverable w e \<noteq> None"
  shows "e \<in> set rest \<or> r \<noteq> None \<and> r = deliverable w e"
proof (cases r)
  case (Some e')
  with assms obtain gone d where d: "xs = gone @ d # rest" "\<forall>d \<in> set gone. deliverable w d = None"
    "deliverable w d = Some e'" by (auto simp: took_def)
  have "e \<notin> set gone" using d(2) assms(3) by force
  with d assms(2,3) Some show ?thesis by auto
qed (use assms in \<open>auto simp: took_def\<close>)

lemma shift_next_took: "shift_next w ps = (r, rest) \<Longrightarrow> took w ps r rest"
proof (induction w ps rule: shift_next.induct)
  case (2 w e ps)
  show ?case
  proof (cases "deliverable w e")
    case None
    with 2 show ?thesis by (simp add: took_skip)
  next
    case (Some e')
    with 2(2) have "r = deliverable w e" "rest = ps" by simp_all
    with Some show ?thesis by (metis option.discI took_first)
  qed
qed (simp add: took_none)

lemma consume_steer_none:
  "find_index steering ps = None \<Longrightarrow> consume_steer w ps = (None, ps)"
  by (subst consume_steer.simps) (simp only: option.case)

lemma consume_steer_found:
  "find_index steering ps = Some i \<Longrightarrow> consume_steer w ps =
    (case deliverable w (ps ! i) of
       Some e \<Rightarrow> (Some e, remove_at i ps) | None \<Rightarrow> consume_steer w (remove_at i ps))"
  by (subst consume_steer.simps) (simp only: option.case)

lemma consume_steer_took:
  "consume_steer w ps = (r, rest) \<Longrightarrow>
    took w (filter steering ps) r (filter steering rest) \<and>
    filter (\<lambda>e. \<not> steering e) rest = filter (\<lambda>e. \<not> steering e) ps"
proof (induction w ps rule: consume_steer.induct)
  case (1 w ps)
  show ?case
  proof (cases "find_index steering ps")
    case None
    then have "consume_steer w ps = (None, ps)" by (rule consume_steer_none)
    moreover have "filter steering ps = []"
      using None by (simp add: filter_empty_conv)
    ultimately show ?thesis using 1(2) took_none by auto
  next
    case (Some i)
    obtain as b cs where ps: "ps = as @ b # cs" "steering b" "\<forall>a \<in> set as. \<not> steering a"
      "ps ! i = b" "remove_at i ps = as @ cs"
      using find_index_split [OF Some] by metis
    have none: "filter steering as = []" using ps by (simp add: filter_empty_conv)
    have all: "filter steering ps = b # filter steering (as @ cs)"
      "filter (\<lambda>e. \<not> steering e) ps = filter (\<lambda>e. \<not> steering e) (as @ cs)"
      using ps none by simp_all
    note out = 1(2) [unfolded consume_steer_found [OF Some] ps(4,5)]
    show ?thesis
    proof (cases "deliverable w b")
      case None
      note hit = None
      have "consume_steer w (remove_at i ps) = (r, rest)"
        using out None ps(5) by simp
      from 1(1) [OF Some _ this] None ps(4,5)
      show ?thesis unfolding all by (auto intro: took_skip)
    next
      case (Some e')
      with out ps(5) have "r = deliverable w b" "rest = as @ cs" by simp_all
    with Some show ?thesis unfolding all by (metis option.discI took_first)
    qed
  qed
qed

text \<open>
  A message taken during a turn is the first steering one that still applies: the queued
  messages keep their order, every steering one before it in the queue is a note that no longer
  applied, and nothing is returned only when no steering message applies.
\<close>

theorem steer_taken:
  "consume_steer w ps = (r, rest) \<Longrightarrow>
    took w (filter steering ps) r (filter steering rest) \<and>
    filter (\<lambda>e. \<not> steering e) rest = filter (\<lambda>e. \<not> steering e) ps"
  by (rule consume_steer_took)

text \<open>A message is taken past a report that no longer applies; the queued prompt stays.\<close>

definition plain_prompt :: "string \<Rightarrow> delivery \<Rightarrow> unit prompt_entry" where
  "plain_prompt t d = \<lparr>p_id = js t, p_prompt = js t, p_mode = None, p_delivery = d, p_images = None,
     p_files = None, p_origin = None, p_note = None, p_refresh = None\<rparr>"

definition stale_prompt :: "unit prompt_entry" where
  "stale_prompt = (plain_prompt ''s'' ToSteer)\<lparr>p_origin := Some FromHarness, p_note := Some StatusNote,
     p_refresh := Some (\<lambda>_. NoLonger)\<rparr>"

lemmas demo_prompt_defs = plain_prompt_def stale_prompt_def deliverable_def remove_at_def

theorem steer_taken_witness:
  "took () [stale_prompt, plain_prompt ''b'' ToSteer] (Some (plain_prompt ''b'' ToSteer)) [] \<and>
    [plain_prompt ''a'' ToQueue] = [plain_prompt ''a'' ToQueue]"
proof -
  have "consume_steer () [stale_prompt, plain_prompt ''a'' ToQueue, plain_prompt ''b'' ToSteer] =
      (Some (plain_prompt ''b'' ToSteer), [plain_prompt ''a'' ToQueue])"
    by (simp add: consume_steer_found demo_prompt_defs)
  from steer_taken [OF this] show ?thesis
    by (simp add: demo_prompt_defs)
qed

section \<open>The controller's frame\<close>

lemma emit_prompts_frame [simp]:
  "s_pending (emit_prompts s) = s_pending s" "s_sending (emit_prompts s) = s_sending s"
  "s_draining (emit_prompts s) = s_draining s" "s_aborting (emit_prompts s) = s_aborting s"
  "s_can_start (emit_prompts s) = s_can_start s" "s_status (emit_prompts s) = s_status s"
  "s_scheduled (emit_prompts s) = s_scheduled s"
  by (simp_all add: emit_prompts_def)

lemma emit_submitted_frame [simp]:
  "s_pending (emit_submitted e s) = s_pending s" "s_sending (emit_submitted e s) = s_sending s"
  "s_draining (emit_submitted e s) = s_draining s" "s_aborting (emit_submitted e s) = s_aborting s"
  "s_can_start (emit_submitted e s) = s_can_start s" "s_status (emit_submitted e s) = s_status s"
  "s_scheduled (emit_submitted e s) = s_scheduled s"
  by (simp_all add: emit_submitted_def)

lemma schedule_drain_frame [simp]:
  "s_pending (schedule_drain s) = s_pending s" "s_sending (schedule_drain s) = s_sending s"
  "s_draining (schedule_drain s) = s_draining s"
  by (simp_all add: schedule_drain_def)

lemma notify_if_frame [simp]:
  "s_pending (notify_if b s) = s_pending s" "s_sending (notify_if b s) = s_sending s"
  "s_draining (notify_if b s) = s_draining s"
  by (simp_all add: notify_if_def)

text \<open>What an operation leaves of the queue and of the send.\<close>

fun queue_after :: "(jtext \<Rightarrow> jtext) \<Rightarrow> 'w prompt_op \<Rightarrow> 'w prompt_session \<Rightarrow> 'w prompt_entry list" where
  "queue_after norm_input (Enqueue fresh inp) s = enqueue_prompt fresh inp (s_pending s)"
| "queue_after norm_input (Update inp) s =
     (case update_prompt norm_input inp (s_pending s) of Inl _ \<Rightarrow> s_pending s | Inr (_, ps) \<Rightarrow> ps)"
| "queue_after norm_input (Delete pid) s = snd (delete_prompt pid (s_pending s))"
| "queue_after norm_input (ConsumeSteer w) s = snd (consume_steer w (s_pending s))"
| "queue_after norm_input DiscardQueue s = []"
| "queue_after norm_input DropNotes s = filter not_harness (s_pending s)"
| "queue_after norm_input SteerFirst s =
     (case s_pending s of
        [] \<Rightarrow> []
      | e # _ \<Rightarrow>
          if steering e then s_pending s
          else (case update_prompt norm_input
                  \<lparr>u_prompt_id = p_id e, u_prompt = None, u_mode = None, u_delivery = Some ToSteer\<rparr>
                  (s_pending s) of Inl _ \<Rightarrow> s_pending s | Inr (_, ps) \<Rightarrow> ps))"
| "queue_after norm_input (Microtask w) s =
     (if s_scheduled s = 0 \<or> s_aborting s \<or> s_draining s \<or> \<not> s_can_start s then s_pending s
      else snd (shift_next w (s_pending s)))"
| "queue_after norm_input SendRejected s =
     (case s_sending s of None \<Rightarrow> s_pending s | Some e \<Rightarrow> e # s_pending s)"
| "queue_after norm_input _ s = s_pending s"

lemma ctl_update_frame:
  "ctl_update norm_input inp s = Inr (b, s') \<Longrightarrow>
    s_pending s' = (case update_prompt norm_input inp (s_pending s) of Inl _ \<Rightarrow> s_pending s | Inr (_, ps) \<Rightarrow> ps) \<and>
    s_sending s' = s_sending s \<and> s_draining s' = s_draining s"
  by (auto simp: ctl_update_def split: sum.splits)

lemma ctl_update_error:
  "ctl_update norm_input inp s = Inl e \<Longrightarrow> \<exists>e'. update_prompt norm_input inp (s_pending s) = Inl e'"
  by (auto simp: ctl_update_def split: sum.splits)

lemma drain_finish_frame [simp]:
  "s_pending (drain_finish b s) = s_pending s" "s_sending (drain_finish b s) = None"
  "s_draining (drain_finish b s) = False"
  by (simp_all add: drain_finish_def Let_def)

lemma drain_start_idle:
  "s_aborting s \<or> s_draining s \<or> \<not> s_can_start s \<Longrightarrow> drain_start w s = s"
  by (auto simp: drain_start_def)

lemma drain_start_runs:
  assumes "\<not> s_aborting s" "\<not> s_draining s" "s_can_start s" and "shift_next w (s_pending s) = (r, ps)"
  shows "s_pending (drain_start w s) = ps"
    and "s_sending (drain_start w s) = (case r of None \<Rightarrow> s_sending s | Some e \<Rightarrow> Some e)"
    and "s_draining (drain_start w s) = (r \<noteq> None)"
  using assms by (auto simp: drain_start_def Let_def split: option.splits)

lemma drop_harness_notes_queue:
  "drop_harness_notes ps = (length ps - length (filter not_harness ps), filter not_harness ps)"
  by (simp add: drop_harness_notes_def Let_def)

lemma prompt_step_queue: "s_pending (prompt_step norm_input op s) = queue_after norm_input op s"
proof (cases op)
  case (Update inp)
  then show ?thesis
    by (auto split: sum.splits dest: ctl_update_frame ctl_update_error)
next
  case SteerFirst
  then show ?thesis
    by (auto simp: steer_first_def split: list.splits sum.splits dest: ctl_update_frame ctl_update_error)
next
  case (Microtask w)
  then show ?thesis
    by (cases "shift_next w (s_pending s)") (auto simp: drain_start_idle drain_start_runs)
qed (auto simp: ctl_enqueue_def ctl_delete_def ctl_consume_steer_def discard_queue_def ctl_drop_notes_def
      drop_harness_notes_queue Let_def send_resolved_def send_rejected_def requeue_front_def
      split: prod.splits option.splits)

lemma prompt_step_sending:
  "(\<And>w. op \<noteq> Microtask w) \<Longrightarrow> (\<And>b. op \<noteq> SendResolved b) \<Longrightarrow> op \<noteq> SendRejected \<Longrightarrow>
    s_sending (prompt_step norm_input op s) = s_sending s \<and>
    s_draining (prompt_step norm_input op s) = s_draining s"
  by (cases op)
    (auto simp: ctl_enqueue_def ctl_delete_def ctl_consume_steer_def discard_queue_def ctl_drop_notes_def
      drop_harness_notes_queue Let_def steer_first_def split: prod.splits option.splits sum.splits list.splits
      dest: ctl_update_frame)

section \<open>One send at a time\<close>

definition prompt_ok :: "'w prompt_session \<Rightarrow> bool" where
  "prompt_ok s = (s_draining s \<longleftrightarrow> s_sending s \<noteq> None)"

lemma microtask_cases:
  obtains (idle) "prompt_step norm_input (Microtask w) s = s"
  | (refused) "prompt_step norm_input (Microtask w) s = s\<lparr>s_scheduled := s_scheduled s - 1\<rparr>"
  | (ran) r ps where "\<not> s_aborting s" "\<not> s_draining s" "s_can_start s" "0 < s_scheduled s"
      "shift_next w (s_pending s) = (r, ps)"
      "s_pending (prompt_step norm_input (Microtask w) s) = ps"
      "s_sending (prompt_step norm_input (Microtask w) s) = (case r of None \<Rightarrow> s_sending s | Some e \<Rightarrow> Some e)"
      "s_draining (prompt_step norm_input (Microtask w) s) = (r \<noteq> None)"
proof (cases "s_scheduled s = 0 \<or> s_aborting s \<or> s_draining s \<or> \<not> s_can_start s")
  case True
  then show ?thesis
    using idle refused by (cases "s_scheduled s = 0") (auto simp: drain_start_idle)
next
  case False
  obtain r ps where sh: "shift_next w (s_pending s) = (r, ps)" by (cases "shift_next w (s_pending s)")
  let ?t = "s\<lparr>s_scheduled := s_scheduled s - 1\<rparr>"
  have "shift_next w (s_pending ?t) = (r, ps)" using sh by simp
  from drain_start_runs [OF _ _ _ this] False
  show ?thesis by (intro ran [OF _ _ _ _ sh]) auto
qed

lemma prompt_ok_step: "prompt_ok s \<Longrightarrow> prompt_ok (prompt_step norm_input op s)"
proof (cases op)
  case (Microtask w)
  assume "prompt_ok s"
  then show ?thesis
    unfolding Microtask
    by (cases rule: microtask_cases [of norm_input w s])
      (auto simp: prompt_ok_def split: option.splits simp del: prompt_step.simps)
next
  case (SendResolved b)
  assume "prompt_ok s"
  with SendResolved show ?thesis
    by (auto simp: prompt_ok_def send_resolved_def split: option.splits)
next
  case SendRejected
  assume "prompt_ok s"
  with SendRejected show ?thesis
    by (auto simp: prompt_ok_def send_rejected_def split: option.splits)
qed (use prompt_step_sending [of op norm_input s] in \<open>auto simp: prompt_ok_def simp del: prompt_step.simps\<close>)

interpretation prompt_queue: invariant_machine "prompt_step norm_input" prompt_ok for norm_input
  by unfold_locales (rule prompt_ok_step)

abbreviation prompt_run :: "(jtext \<Rightarrow> jtext) \<Rightarrow> 'w prompt_op list \<Rightarrow> 'w prompt_session" where
  "prompt_run norm_input ops \<equiv> fold (prompt_step norm_input) ops new_prompt_session"

lemma prompt_run_ok: "prompt_ok (prompt_run norm_input ops)"
  by (rule prompt_queue.run_inv) (simp add: prompt_ok_def new_prompt_session_def)

text \<open>
  Prompts are sent one at a time. A new send can begin only in a microtask that finds no send
  in flight, no abort settling and an agent that can start a run; what it sends is the first
  queued prompt that still applies, with only notes that no longer apply dropped before it.
\<close>

theorem one_send_at_a_time:
  assumes "s_sending (prompt_step norm_input op (prompt_run norm_input ops)) = Some e"
    and "s_sending (prompt_run norm_input ops) \<noteq> Some e"
  shows "s_sending (prompt_run norm_input ops) = None \<and> \<not> s_aborting (prompt_run norm_input ops) \<and>
    s_can_start (prompt_run norm_input ops) \<and>
    (\<exists>w. op = Microtask w \<and> took w (s_pending (prompt_run norm_input ops)) (Some e)
       (s_pending (prompt_step norm_input op (prompt_run norm_input ops))))"
proof -
  let ?s = "prompt_run norm_input ops"
  have ok: "prompt_ok ?s" by (rule prompt_run_ok)
  have "\<exists>w. op = Microtask w"
  proof (rule ccontr)
    assume no: "\<not> ?thesis"
    have "op \<noteq> SendResolved b" for b
      using assms by (auto simp: send_resolved_def split: option.splits)
    moreover have "op \<noteq> SendRejected"
      using assms by (auto simp: send_rejected_def split: option.splits)
    ultimately show False
      using no assms prompt_step_sending [of op norm_input ?s] by auto
  qed
  then obtain w where op: "op = Microtask w" by blast
  show ?thesis
  proof (cases rule: microtask_cases [of norm_input w ?s])
    case idle
    with assms op show ?thesis by simp
  next
    case refused
    with assms op show ?thesis by simp
  next
    case (ran r ps)
    with ok have "s_sending ?s = None" by (simp add: prompt_ok_def)
    moreover from this ran(7) assms op have "r = Some e" by (cases r) auto
    ultimately show ?thesis
      using ran op shift_next_took [OF ran(5)] by simp
  qed
qed

definition one_prompt :: "string \<Rightarrow> unit enqueue_input" where
  "one_prompt t = \<lparr>i_prompt = js t, i_mode = None, i_delivery = ToQueue, i_images = None,
     i_files = None, i_origin = None, i_note = None, i_refresh = None\<rparr>"

lemmas prompt_run_defs = new_prompt_session_def ctl_enqueue_def enqueue_prompt_def one_prompt_def
  schedule_drain_def notify_if_def emit_prompts_def emit_submitted_def drain_start_def
  new_prompt_def deliverable_def Let_def js_def

lemma one_prompt_run:
  "s_pending (prompt_run id [Enqueue (js ''1'') (one_prompt ''a'')]) = [plain_prompt ''a'' ToQueue\<lparr>p_id := js ''1''\<rparr>] \<and>
   s_sending (prompt_run id [Enqueue (js ''1'') (one_prompt ''a'')]) = None \<and>
   s_sending (prompt_step id (Microtask ()) (prompt_run id [Enqueue (js ''1'') (one_prompt ''a'')])) =
     Some (plain_prompt ''a'' ToQueue\<lparr>p_id := js ''1''\<rparr>)"
  by (simp add: prompt_run_defs plain_prompt_def)

theorem one_send_at_a_time_witness:
  "s_can_start (prompt_run id [Enqueue (js ''1'') (one_prompt ''a'')])"
  using one_send_at_a_time [where ops = "[Enqueue (js ''1'') (one_prompt ''a'')]" and op = "Microtask ()"
      and norm_input = id and e = "plain_prompt ''a'' ToQueue\<lparr>p_id := js ''1''\<rparr>"] one_prompt_run
  by simp

section \<open>What a queue keeps\<close>

text \<open>The prompts a session owes its agent: those waiting and the one being sent.\<close>

definition owed :: "'w prompt_session \<Rightarrow> 'w prompt_entry set" where
  "owed s = set (s_pending s) \<union> set_option (s_sending s)"

text \<open>
  What may end an entry. A turn that reads a steering message ends the one it is given, as it is then to be read;
  it and a drain also end a note that no longer applies.
\<close>

fun ends_entry :: "'w prompt_session \<Rightarrow> 'w prompt_op \<Rightarrow> 'w prompt_entry \<Rightarrow> bool" where
  "ends_entry s (SendResolved b) e = (s_sending s = Some e)"
| "ends_entry s (Delete pid) e = (s_sending s \<noteq> Some e \<and> p_id e = trim pid)"
| "ends_entry s (ConsumeSteer w) e =
     (s_sending s \<noteq> Some e \<and> steering e \<and> (deliverable w e = None \<or> fst (ctl_consume_steer w s) = deliverable w e))"
| "ends_entry s (Microtask w) e = (s_sending s \<noteq> Some e \<and> deliverable w e = None)"
| "ends_entry s DiscardQueue e = (s_sending s \<noteq> Some e)"
| "ends_entry s DropNotes e = (s_sending s \<noteq> Some e \<and> p_origin e = Some FromHarness)"
| "ends_entry s _ e = False"

lemma consume_returned: "fst (ctl_consume_steer w s) = fst (consume_steer w (s_pending s))"
  by (auto simp: ctl_consume_steer_def Let_def split: prod.split option.split)

lemma in_remove_at: "i < length xs \<Longrightarrow> set xs = insert (xs ! i) (set (remove_at i xs))"
  by (subst remove_at_nth_split [of i xs]) (auto simp: remove_at_def)

lemma update_ids:
  assumes "update_prompt norm_input inp ps = Inr (r, qs)"
  shows "p_id ` set qs = p_id ` set ps"
proof (cases "find_index (\<lambda>e. p_id e = trim (u_prompt_id inp)) ps")
  case None
  then have "update_prompt norm_input inp ps = Inr (None, ps)"
    by (simp only: update_prompt_def option.case)
  with assms show ?thesis by simp
next
  case (Some i)
  then have i: "i < length ps" using find_index_Some by blast
  let ?p = "case u_prompt inp of None \<Rightarrow> p_prompt (ps ! i) | Some t \<Rightarrow> trim (norm_input t)"
  let ?n = "(ps ! i)\<lparr>p_prompt := ?p, p_mode := or_default (u_mode inp) (p_mode (ps ! i)),
     p_delivery := opt_default (p_delivery (ps ! i)) (u_delivery inp)\<rparr>"
  have "qs = insert_updated ?n i (p_delivery (ps ! i)) (remove_at i ps)"
    using assms Some unfolding update_prompt_def by (simp add: Let_def split: if_splits)
  then have "p_id ` set qs = insert (p_id (ps ! i)) (p_id ` set (remove_at i ps))"
    by (auto simp: insert_updated_def)
  also have "\<dots> = p_id ` set ps" using in_remove_at [OF i] by auto
  finally show ?thesis .
qed

lemma steer_first_ids: "p_id ` set (queue_after norm_input SteerFirst s) = p_id ` set (s_pending s)"
proof (cases "s_pending s")
  case (Cons e ps)
  let ?up = "update_prompt norm_input
    \<lparr>u_prompt_id = p_id e, u_prompt = None, u_mode = None, u_delivery = Some ToSteer\<rparr> (e # ps)"
  consider x where "?up = Inl x" | r b where "?up = Inr (r, b)"
    by (metis old.sum.exhaust surj_pair)
  then show ?thesis
  proof cases
    case 2
    from update_ids [OF this] 2 Cons show ?thesis by simp
  qed (simp add: Cons)
qed simp

lemma enqueue_ids: "p_id ` set ps \<subseteq> p_id ` set (enqueue_prompt fresh inp ps)"
proof -
  have upd: "p_id ` set ps \<subseteq> p_id ` set (ps[i := merged_note inp (ps ! i)])" if "i < length ps" for i
  proof -
    have "map p_id (ps[i := merged_note inp (ps ! i)]) = map p_id ps"
      using that by (simp add: map_update merged_note_def list_update_same_conv)
    then show ?thesis by (metis order_refl set_map)
  qed
  have mv: "p_id ` set ps \<subseteq> insert (p_id (ps ! i)) (p_id ` set (remove_at i ps))" if "i < length ps" for i
    using in_remove_at [OF that] by auto
  show ?thesis
    unfolding enqueue_prompt_def
    by (auto split: option.splits simp: Let_def requeued_prompt_def
        dest!: find_index_Some dest: subsetD [OF upd] subsetD [OF mv])
qed

lemma delete_keeps:
  assumes "e \<in> set ps" and "p_id e \<noteq> trim pid"
  shows "e \<in> set (snd (delete_prompt pid ps))"
proof (cases "find_index (\<lambda>e. p_id e = trim pid) ps")
  case None
  then have "delete_prompt pid ps = (None, ps)" by (simp only: delete_prompt_def option.case)
  with assms show ?thesis by simp
next
  case (Some i)
  note at = find_index_Some [OF Some]
  have "snd (delete_prompt pid ps) = remove_at i ps" by (simp add: delete_prompt_def Some)
  with assms at in_remove_at [of i ps] show ?thesis by auto
qed

text \<open>
  C3: No prompt is lost: one that is waiting or being sent is still waiting or being sent, under its id, after any
  operation, but for these. The end of its send ends it, unless the send failed, which puts it back. Of those not
  being sent, its deletion ends it; a turn that asks for a steering message ends the one it is given, and a note that
  no longer applies; a drain ends a note that no longer applies; and a queue that is discarded ends all, a cancel the
  harness's notes.
\<close>

theorem prompt_kept:
  assumes "e \<in> owed (prompt_run norm_input ops)"
    and "\<not> ends_entry (prompt_run norm_input ops) op e"
  shows "\<exists>e' \<in> owed (prompt_step norm_input op (prompt_run norm_input ops)). p_id e' = p_id e"
proof -
  let ?s = "prompt_run norm_input ops"
  have ok: "prompt_ok ?s" by (rule prompt_run_ok)
  have still: "\<exists>e' \<in> owed (prompt_step norm_input op ?s). p_id e' = p_id e"
    if "p_id ` set (s_pending ?s) \<subseteq> p_id ` set (s_pending (prompt_step norm_input op ?s))"
      and "s_sending (prompt_step norm_input op ?s) = s_sending ?s"
    using that assms(1) unfolding owed_def by (force simp: image_subset_iff)
  have same: "s_sending (prompt_step norm_input op ?s) = s_sending ?s"
    if "\<And>w. op \<noteq> Microtask w" "\<And>b. op \<noteq> SendResolved b" "op \<noteq> SendRejected"
    using prompt_step_sending [OF that] by blast
  show ?thesis
  proof (cases op)
    case (Microtask w)
    show ?thesis
      unfolding Microtask
    proof (cases rule: microtask_cases [of norm_input w ?s])
      case idle
      with assms(1) show "\<exists>e' \<in> owed (prompt_step norm_input (Microtask w) ?s). p_id e' = p_id e" by auto
    next
      case refused
      with assms(1) show "\<exists>e' \<in> owed (prompt_step norm_input (Microtask w) ?s). p_id e' = p_id e"
        by (auto simp: owed_def)
    next
      case (ran r ps)
      with ok have "s_sending ?s = None" by (simp add: prompt_ok_def)
      with assms(1) have "e \<in> set (s_pending ?s)" by (simp add: owed_def)
      moreover have "deliverable w e \<noteq> None" using assms(2) Microtask \<open>s_sending ?s = None\<close> by simp
      ultimately have "e \<in> set ps \<or> r \<noteq> None \<and> r = deliverable w e"
        using took_kept [OF shift_next_took [OF ran(5)]] by blast
      then show "\<exists>e' \<in> owed (prompt_step norm_input (Microtask w) ?s). p_id e' = p_id e"
        using ran deliverable_id [of w e] by (cases r) (auto simp: owed_def simp del: prompt_step.simps)
    qed
  next
    case (SendResolved b)
    with assms have "e \<in> set (s_pending ?s)" by (auto simp: owed_def)
    with SendResolved show ?thesis
      by (auto simp: owed_def prompt_step_queue simp del: prompt_step.simps)
  next
    case SendRejected
    with assms show ?thesis
      by (auto simp: owed_def prompt_step_queue simp del: prompt_step.simps split: option.splits)
  next
    case (Delete pid)
    have "s_sending (prompt_step norm_input op ?s) = s_sending ?s"
      by (rule same) (use Delete in auto)
    moreover have "e \<in> set (snd (delete_prompt pid (s_pending ?s)))"
      if "e \<in> set (s_pending ?s)" "s_sending ?s \<noteq> Some e"
      using delete_keeps [OF that(1)] that(2) assms(2) Delete by simp
    ultimately show ?thesis
      using assms(1) Delete by (auto simp: owed_def prompt_step_queue simp del: prompt_step.simps)
  next
    case (ConsumeSteer w)
    obtain r rest where c: "consume_steer w (s_pending ?s) = (r, rest)"
      by (cases "consume_steer w (s_pending ?s)")
    have "s_sending (prompt_step norm_input op ?s) = s_sending ?s"
      by (rule same) (use ConsumeSteer in auto)
    moreover have "e \<in> set rest" if "e \<in> set (s_pending ?s)" "s_sending ?s \<noteq> Some e"
    proof (cases "steering e")
      case True
      then have "deliverable w e \<noteq> None" "r \<noteq> deliverable w e"
        using assms(2) ConsumeSteer that c by (simp_all add: consume_returned)
      with True that(1) have "e \<in> set (filter steering rest)"
        using took_kept [OF consume_steer_took [OF c, THEN conjunct1], of e] by simp
      then show ?thesis by simp
    next
      case False
      then show ?thesis
        using that(1) arg_cong [OF consume_steer_took [OF c, THEN conjunct2], of set] by auto
    qed
    ultimately show ?thesis
      using assms(1) ConsumeSteer c by (auto simp: owed_def prompt_step_queue simp del: prompt_step.simps)
  next
    case DiscardQueue
    have "s_sending (prompt_step norm_input op ?s) = s_sending ?s"
      by (rule same) (use DiscardQueue in auto)
    with assms DiscardQueue show ?thesis
      by (auto simp: owed_def prompt_step_queue simp del: prompt_step.simps)
  next
    case DropNotes
    have "s_sending (prompt_step norm_input op ?s) = s_sending ?s"
      by (rule same) (use DropNotes in auto)
    with assms DropNotes show ?thesis
      by (auto simp: owed_def prompt_step_queue not_harness_def simp del: prompt_step.simps)
  next
    case (Update inp)
    show ?thesis
      by (rule still [OF _ same])
        (use Update in \<open>auto simp: prompt_step_queue simp del: prompt_step.simps dest: update_ids split: sum.splits\<close>)
  next
    case SteerFirst
    show ?thesis
      by (rule still [OF _ same])
        (use SteerFirst in
          \<open>simp_all add: prompt_step_queue steer_first_ids del: prompt_step.simps queue_after.simps\<close>)
  next
    case (Enqueue fresh inp)
    show ?thesis
      by (rule still [OF _ same])
        (use Enqueue in \<open>simp_all add: prompt_step_queue enqueue_ids del: prompt_step.simps\<close>)
  qed (rule still [OF _ same];
      use assms(2) in \<open>auto simp: prompt_step_queue simp del: prompt_step.simps\<close>)+
qed

theorem prompt_kept_witness:
  "\<exists>e' \<in> owed (prompt_step id (Microtask ()) (prompt_run id [Enqueue (js ''1'') (one_prompt ''a'')])).
     p_id e' = js ''1''"
  using prompt_kept [where ops = "[Enqueue (js ''1'') (one_prompt ''a'')]" and op = "Microtask ()"
      and norm_input = id and e = "plain_prompt ''a'' ToQueue\<lparr>p_id := js ''1''\<rparr>"] one_prompt_run
  by (simp add: owed_def plain_prompt_def)

section \<open>The order of the queue\<close>

text \<open>Steering messages before queued ones.\<close>

definition steers_lead :: "'w prompt_entry list \<Rightarrow> bool" where
  "steers_lead ps = sorted_wrt (\<lambda>d d'. d' = ToSteer \<longrightarrow> d = ToSteer) (map p_delivery ps)"

lemma steers_lead_Nil [simp]: "steers_lead []"
  by (simp add: steers_lead_def)

lemma steers_lead_Cons: "steering e \<Longrightarrow> steers_lead ps \<Longrightarrow> steers_lead (e # ps)"
  by (simp add: steers_lead_def)

lemma steers_lead_snoc: "\<not> steering e \<Longrightarrow> steers_lead ps \<Longrightarrow> steers_lead (ps @ [e])"
  by (simp add: steers_lead_def sorted_wrt_append)

lemma steers_lead_drop: "steers_lead (xs @ e # ys) \<Longrightarrow> steers_lead (xs @ ys)"
  unfolding steers_lead_def map_append list.map sorted_wrt_append sorted_wrt.simps list.set by blast

lemma steers_lead_remove: "steers_lead ps \<Longrightarrow> steers_lead (remove_at i ps)"
proof (cases "i < length ps")
  case True
  assume "steers_lead ps"
  then have "steers_lead (take i ps @ ps ! i # drop (Suc i) ps)"
    by (simp only: id_take_nth_drop [OF True, symmetric])
  then show ?thesis unfolding remove_at_def by (rule steers_lead_drop)
qed (simp add: remove_at_def)

lemma steers_lead_tail: "steers_lead (e # ps) \<Longrightarrow> steers_lead ps"
  by (simp add: steers_lead_def)

lemma steers_lead_filter: "steers_lead ps \<Longrightarrow> steers_lead (filter P ps)"
  unfolding steers_lead_def sorted_wrt_map by (rule sorted_wrt_filter)

lemma steers_lead_same: "map p_delivery qs = map p_delivery ps \<Longrightarrow> steers_lead ps \<Longrightarrow> steers_lead qs"
  by (simp add: steers_lead_def)

lemma steers_lead_shift: "steers_lead ps \<Longrightarrow> steers_lead (snd (shift_next w ps))"
  by (induction w ps rule: shift_next.induct) (auto split: option.splits dest: steers_lead_tail)

lemma steers_lead_consume: "steers_lead ps \<Longrightarrow> steers_lead (snd (consume_steer w ps))"
proof (induction w ps rule: consume_steer.induct)
  case (1 w ps)
  show ?case
  proof (cases "find_index steering ps")
    case None
    with 1(2) show ?thesis by (simp only: consume_steer_none snd_conv)
  next
    case (Some i)
    from 1(1) [OF Some] 1(2) show ?thesis
      by (simp add: consume_steer_found [OF Some] steers_lead_remove split: option.splits)
  qed
qed

lemma steers_lead_update:
  assumes "steers_lead ps" and "update_prompt norm_input inp ps = Inr (r, qs)"
  shows "steers_lead qs"
proof (cases "find_index (\<lambda>e. p_id e = trim (u_prompt_id inp)) ps")
  case None
  then have "update_prompt norm_input inp ps = Inr (None, ps)"
    by (simp only: update_prompt_def option.case)
  with assms show ?thesis by simp
next
  case (Some i)
  then have i: "i < length ps" using find_index_Some by blast
  let ?p = "case u_prompt inp of None \<Rightarrow> p_prompt (ps ! i) | Some t \<Rightarrow> trim (norm_input t)"
  let ?n = "(ps ! i)\<lparr>p_prompt := ?p, p_mode := or_default (u_mode inp) (p_mode (ps ! i)),
     p_delivery := opt_default (p_delivery (ps ! i)) (u_delivery inp)\<rparr>"
  have qs: "qs = insert_updated ?n i (p_delivery (ps ! i)) (remove_at i ps)"
    using assms(2) Some unfolding update_prompt_def by (simp add: Let_def split: if_splits)
  note rest = steers_lead_remove [OF assms(1), of i]
  show ?thesis
  proof (cases "steering ?n \<or> steering (ps ! i)")
    case True
    with rest show ?thesis
      unfolding qs insert_updated_def by (auto intro: steers_lead_Cons steers_lead_snoc)
  next
    case False
    then have "p_delivery ?n = p_delivery (ps ! i)"
      by (cases "p_delivery ?n"; cases "p_delivery (ps ! i)") auto
    moreover have "qs = take i ps @ ?n # drop (Suc i) ps"
      using False i unfolding qs insert_updated_def
      by (simp add: insert_at_def remove_at_def min_def)
    ultimately have "map p_delivery qs = map p_delivery (take i ps @ ps ! i # drop (Suc i) ps)"
      by simp
    also have "\<dots> = map p_delivery ps" by (simp only: id_take_nth_drop [OF i, symmetric])
    finally show ?thesis by (rule steers_lead_same) (rule assms)
  qed
qed

lemma delivery_cases: "d \<noteq> ToSteer \<Longrightarrow> d = ToQueue"
  by (cases d) auto

lemma steers_lead_enqueue: "steers_lead ps \<Longrightarrow> steers_lead (enqueue_prompt fresh inp ps)"
proof -
  assume lead: "steers_lead ps"
  have "map p_delivery (ps[i := merged_note inp (ps ! i)]) = map p_delivery ps" if "i < length ps" for i
    using that by (simp add: map_update merged_note_def list_update_same_conv)
  note upd = steers_lead_same [OF this lead]
  have moved: "steers_lead (let existing = ps ! i; rest = remove_at i ps; next = requeued_prompt inp existing
      in if i_delivery inp = ToSteer \<or> p_delivery existing = ToSteer
         then next\<lparr>p_delivery := ToSteer\<rparr> # rest else rest @ [next])" for i
    using steers_lead_remove [OF lead, of i]
    by (auto simp: Let_def requeued_prompt_def intro: steers_lead_Cons steers_lead_snoc)
  have new: "steers_lead (if i_delivery inp = ToSteer then new_prompt fresh inp # ps
      else ps @ [new_prompt fresh inp])"
    using lead by (auto simp: new_prompt_def Let_def intro: steers_lead_Cons steers_lead_snoc)
  let ?note = "if i_origin inp = Some FromHarness \<and> i_note inp \<noteq> None
    then find_index (same_note inp) ps else None"
  show ?thesis
  proof (cases ?note)
    case (Some i)
    then have "i < length ps" by (auto split: if_splits dest: find_index_Some)
    then show ?thesis unfolding enqueue_prompt_def Some option.case by (rule upd)
  next
    case None
    note fresh_note = None
    show ?thesis
      by (cases "find_index (\<lambda>e. p_prompt e = i_prompt inp) ps")
        (simp_all only: enqueue_prompt_def fresh_note option.case new moved)
  qed
qed

lemma steers_lead_step:
  assumes "op \<noteq> SendRejected" and "steers_lead (s_pending s)"
  shows "steers_lead (s_pending (prompt_step norm_input op s))"
  unfolding prompt_step_queue
proof (cases op)
  case SteerFirst
  let ?i = "\<lparr>u_prompt_id = p_id (hd (s_pending s)), u_prompt = None, u_mode = None, u_delivery = Some ToSteer\<rparr>"
  have "(\<exists>x. update_prompt norm_input ?i (s_pending s) = Inl x) \<or>
      (\<exists>r b. update_prompt norm_input ?i (s_pending s) = Inr (r, b))"
    by (metis old.sum.exhaust surj_pair)
  then show "steers_lead (queue_after norm_input op s)"
    using SteerFirst assms(2) by (auto split: list.split dest: steers_lead_update)
qed (use assms in \<open>auto simp: delete_prompt_def steers_lead_enqueue steers_lead_remove steers_lead_shift
    steers_lead_consume steers_lead_filter split: sum.splits option.splits dest: steers_lead_update\<close>)

lemma steers_lead_run:
  "SendRejected \<notin> set ops \<Longrightarrow> steers_lead (s_pending s) \<Longrightarrow>
    steers_lead (s_pending (fold (prompt_step norm_input) ops s))"
proof (induction ops arbitrary: s)
  case (Cons op ops)
  have "steers_lead (s_pending (prompt_step norm_input op s))"
    by (rule steers_lead_step) (use Cons.prems in auto)
  with Cons show ?case by simp
qed simp

lemma steers_lead_nth:
  "steers_lead ps \<Longrightarrow> i < j \<Longrightarrow> j < length ps \<Longrightarrow> steering (ps ! j) \<Longrightarrow> steering (ps ! i)"
  unfolding steers_lead_def by (drule sorted_wrt_nth_less [of _ _ i j]) auto

text \<open>
  As long as no send has failed, every steering message of the queue stands before every queued
  one, whatever was typed, edited, promoted, deleted, read or dropped.
\<close>

theorem steering_first:
  "SendRejected \<notin> set ops \<Longrightarrow> i < j \<Longrightarrow> j < length (s_pending (prompt_run norm_input ops)) \<Longrightarrow>
    steering (s_pending (prompt_run norm_input ops) ! j) \<Longrightarrow>
    steering (s_pending (prompt_run norm_input ops) ! i)"
  by (rule steers_lead_nth [OF steers_lead_run]) (simp_all add: new_prompt_session_def)

definition steer_prompt :: "string \<Rightarrow> unit enqueue_input" where
  "steer_prompt t = (one_prompt t)\<lparr>i_delivery := ToSteer\<rparr>"

theorem steering_first_witness:
  "steering (s_pending (prompt_run id
     [Enqueue (js ''1'') (steer_prompt ''a''), Enqueue (js ''2'') (steer_prompt ''b'')]) ! 0)"
proof (rule steering_first [where j = 1])
  show "1 < length (s_pending (prompt_run id
     [Enqueue (js ''1'') (steer_prompt ''a''), Enqueue (js ''2'') (steer_prompt ''b'')]))"
    by (simp add: prompt_run_defs steer_prompt_def)
  show "steering (s_pending (prompt_run id
     [Enqueue (js ''1'') (steer_prompt ''a''), Enqueue (js ''2'') (steer_prompt ''b'')]) ! 1)"
    by (simp add: prompt_run_defs steer_prompt_def)
qed simp_all

section \<open>Draining\<close>

text \<open>The prompts announced as submitted, in order.\<close>

fun submitted_of :: "prompt_event list \<Rightarrow> session_prompt list" where
  "submitted_of [] = []"
| "submitted_of (PromptSubmitted p # es) = p # submitted_of es"
| "submitted_of (PromptsChanged ps # es) = submitted_of es"

lemma submitted_of_append [simp]: "submitted_of (xs @ ys) = submitted_of xs @ submitted_of ys"
  by (induction xs rule: submitted_of.induct) auto

text \<open>A session that can run its queue.\<close>

definition can_drain :: "'w prompt_session \<Rightarrow> bool" where
  "can_drain s = (\<not> s_aborting s \<and> \<not> s_draining s \<and> s_can_start s \<and> s_status s = Active \<and>
     (\<forall>e \<in> set (s_pending s). p_refresh e = None) \<and> (s_pending s \<noteq> [] \<longrightarrow> 0 < s_scheduled s))"

definition one_turn :: "'w \<Rightarrow> 'w prompt_op list" where
  "one_turn w = [Microtask w, SendResolved False]"

lemma one_turn_step:
  assumes "can_drain s" and "s_pending s = e # ps"
  shows "can_drain (fold (prompt_step norm_input) (one_turn w) s)"
    and "s_pending (fold (prompt_step norm_input) (one_turn w) s) = ps"
    and "submitted_of (s_events (fold (prompt_step norm_input) (one_turn w) s)) =
      submitted_of (s_events s) @ [snapshot_prompt e]"
  using assms
  by (simp_all add: one_turn_def can_drain_def drain_start_def send_resolved_def drain_finish_def
      emit_prompts_def emit_submitted_def Let_def)

lemma turns_drain:
  "can_drain s \<Longrightarrow> length (s_pending s) = n \<Longrightarrow>
    s_pending (fold (prompt_step norm_input) (concat (replicate n (one_turn w))) s) = [] \<and>
    submitted_of (s_events (fold (prompt_step norm_input) (concat (replicate n (one_turn w))) s)) =
      submitted_of (s_events s) @ snapshot_prompts (s_pending s)"
proof (induction n arbitrary: s)
  case 0
  then show ?case by (simp add: snapshot_prompts_def)
next
  case (Suc n)
  then obtain e ps where ps: "s_pending s = e # ps" by (cases "s_pending s") auto
  note turn = one_turn_step [OF Suc.prems(1) ps, of norm_input w]
  from Suc.IH [OF turn(1)] turn(2,3) Suc.prems(2) ps show ?case
    by (simp add: snapshot_prompts_def)
qed

text \<open>
  A queue drains by itself, in order: once a drain is scheduled and nothing is aborting, as many
  turns as there are prompts, each ending without an error, submit every queued prompt once, in
  queue order, and leave the queue empty. Each end of a turn schedules the next drain.
\<close>

theorem queue_drains:
  "can_drain s \<Longrightarrow>
    s_pending (fold (prompt_step norm_input) (concat (replicate (length (s_pending s)) (one_turn w))) s) = [] \<and>
    submitted_of (s_events (fold (prompt_step norm_input)
        (concat (replicate (length (s_pending s)) (one_turn w))) s)) =
      submitted_of (s_events s) @ snapshot_prompts (s_pending s)"
  by (rule turns_drain) simp_all

definition two_queued :: "unit prompt_session" where
  "two_queued = new_prompt_session\<lparr>s_pending := [plain_prompt ''a'' ToQueue, plain_prompt ''b'' ToQueue],
     s_scheduled := 1\<rparr>"

theorem queue_drains_witness:
  "s_pending (fold (prompt_step id) (concat (replicate 2 (one_turn ()))) two_queued) = []"
proof -
  have "can_drain two_queued" "length (s_pending two_queued) = 2"
    by (simp_all add: can_drain_def two_queued_def new_prompt_session_def plain_prompt_def)
  with queue_drains [of two_queued id "()"] show ?thesis by simp
qed

section \<open>Merged recaps\<close>

abbreviation user_line :: "jtext \<Rightarrow> bool" where
  "user_line \<equiv> starts_with (js ''- user:'')"

lemma starts_with_js_split: "starts_with p t \<longleftrightarrow> (\<exists>r. t = p @ r)"
  unfolding starts_with_def by (metis append_eq_conv_conj append_take_drop_id)

lemma split_newline_line: "10 \<notin> set l \<Longrightarrow> split_newline l = [l]"
  by (induction l) auto

lemma split_newline_first: "10 \<notin> set l \<Longrightarrow> split_newline (l @ 10 # t) = l # split_newline t"
  by (induction l) auto

lemma split_newline_join:
  "\<forall>l \<in> set ls. 10 \<notin> set l \<Longrightarrow> ls \<noteq> [] \<Longrightarrow> split_newline (join_lines ls) = ls"
  by (induction ls rule: join_lines.induct) (auto simp: split_newline_line split_newline_first)

lemma split_newline_lines: "l \<in> set (split_newline t) \<Longrightarrow> 10 \<notin> set l"
  by (induction t arbitrary: l rule: split_newline.induct) (auto split: if_splits list.splits)

lemma trim_end_append: "trim_end (p @ r) = (if trim_end r = [] then trim_end p else p @ trim_end r)"
  by (auto simp: trim_end_def trim_left_def dropWhile_append)

lemma set_trim_end: "set (trim_end t) \<subseteq> set t"
  by (auto simp: trim_end_def trim_left_def dest: set_dropWhileD)

lemma trim_end_idem [simp]: "trim_end (trim_end t) = trim_end t"
  by (simp add: trim_end_def trim_left_def)

lemma trim_end_prefix: "\<exists>r. t = trim_end t @ r"
proof -
  have "rev t = takeWhile is_space (rev t) @ trim_left (rev t)"
    unfolding trim_left_def by (rule takeWhile_dropWhile_id [symmetric])
  then have "t = rev (trim_left (rev t)) @ rev (takeWhile is_space (rev t))"
    by (metis rev_append rev_rev_ident)
  then show ?thesis unfolding trim_end_def by blast
qed

lemma starts_with_trim_end: "starts_with p (trim_end t) \<Longrightarrow> starts_with p t"
  using trim_end_prefix [of t] unfolding starts_with_js_split by (metis append.assoc)

lemma find_filter_weaker: "(\<And>x. P x \<Longrightarrow> Q x) \<Longrightarrow> find P (filter Q xs) = find P xs"
  by (induction xs) auto

abbreviation report_line :: "jtext \<Rightarrow> bool" where
  "report_line \<equiv> starts_with (js ''- report'')"

abbreviation earlier_line :: "jtext \<Rightarrow> bool" where
  "earlier_line \<equiv> starts_with (js ''- earlier report:'')"

lemma starts_with_Cons [simp]:
  "starts_with [] t" "starts_with (c # p) [] = False"
  "starts_with (c # p) (d # t) = (c = d \<and> starts_with p t)"
  by (auto simp: starts_with_def)

lemma line_kinds:
  "report_line l \<Longrightarrow> \<not> user_line l" "earlier_line l \<Longrightarrow> \<not> user_line l" "earlier_line l \<Longrightarrow> \<not> report_line l"
  by (auto simp: js_def starts_with_js_split)

lemma header_line:
  "\<not> user_line SIDE_TURN_RECAP_HEADER" "\<not> report_line SIDE_TURN_RECAP_HEADER"
  "10 \<notin> set SIDE_TURN_RECAP_HEADER"
  by (simp_all add: SIDE_TURN_RECAP_HEADER_def js_def)

lemma earlier_did_line:
  "earlier_line (js ''- earlier report: did: '' @ d)" "10 \<notin> set (js ''- earlier report: did: '')"
  by (simp_all add: js_def)

lemma did_of_subset: "did_of item = Some d \<Longrightarrow> set d \<subseteq> set item"
  by (auto simp: did_of_def dest: in_set_dropD)

lemma items_from_lines:
  "r \<in> set (filter P (items_of t)) \<Longrightarrow> \<exists>l \<in> set (split_newline t). r = trim_end l \<and> P r"
  by (auto simp: items_of_def)

lemma item_line: "item \<in> set (items_of t) \<Longrightarrow> 10 \<notin> set item \<and> trim_end item = item"
  using set_trim_end split_newline_lines by (fastforce simp: items_of_def)

lemma kept_line:
  assumes "k \<in> set (keep_report latest item)" and "10 \<notin> set item" and "\<not> user_line item"
  shows "10 \<notin> set k \<and> \<not> user_line k \<and> (report_line k \<longrightarrow> latest = Some k)"
proof -
  consider "k = item" "latest = Some item" | "k = item" "earlier_line item"
    | d where "did_of item = Some d" "k = js ''- earlier report: did: '' @ d"
    using assms(1) by (cases "did_of item") (auto simp: keep_report_def split: if_splits)
  then show ?thesis
  proof cases
    case (3 d)
    have "earlier_line k" unfolding 3(2) by (rule earlier_did_line)
    moreover have "10 \<notin> set d" using did_of_subset [OF 3(1)] assms(2) by blast
    then have "10 \<notin> set k" unfolding 3(2) set_append using earlier_did_line(2) by blast
    ultimately show ?thesis using line_kinds by blast
  qed (use assms line_kinds in auto)
qed

text \<open>
  Merging two recap notes keeps every line the user wrote, unchanged and in order, and of the
  reports on stuck agents keeps no other whole than the latest.
\<close>

theorem recap_keeps_user_lines:
  "filter user_line (items_of (merge_side_turn_recaps older newer)) =
     filter user_line (items_of older) @ filter user_line (items_of newer) \<and>
   set (filter report_line (items_of (merge_side_turn_recaps older newer)))
     \<subseteq> set_option (find report_line (rev (items_of older @ items_of newer)))"
proof -
  let ?items = "items_of older @ items_of newer"
  let ?user = "filter user_line ?items"
  let ?reports = "filter (\<lambda>i. \<not> user_line i) ?items"
  let ?latest = "find report_line (rev ?reports)"
  let ?kept = "concat (map (keep_report ?latest) ?reports)"
  have user: "10 \<notin> set u \<and> trim_end u = u \<and> is_item u" if "u \<in> set ?user" for u
    using that item_line [of u] by (auto simp: is_item_def)
  have kept: "10 \<notin> set k \<and> \<not> user_line k \<and> (report_line k \<longrightarrow> ?latest = Some k)"
    if "k \<in> set ?kept" for k
    using that item_line by (auto dest!: kept_line)
  have merged: "merge_side_turn_recaps older newer = join_lines (SIDE_TURN_RECAP_HEADER # ?user @ ?kept)"
    by (simp add: merge_side_turn_recaps_def Let_def)
  have lines: "split_newline (merge_side_turn_recaps older newer) = SIDE_TURN_RECAP_HEADER # ?user @ ?kept"
    unfolding merged
  proof (rule split_newline_join)
    show "\<forall>l \<in> set (SIDE_TURN_RECAP_HEADER # ?user @ ?kept). 10 \<notin> set l"
      unfolding list.set(2) set_append using user kept header_line(3) by blast
  qed simp
  have latest: "?latest = find report_line (rev ?items)"
    unfolding rev_filter by (rule find_filter_weaker) (rule line_kinds)
  have h: "\<not> user_line (trim_end SIDE_TURN_RECAP_HEADER)" "\<not> report_line (trim_end SIDE_TURN_RECAP_HEADER)"
    using header_line starts_with_trim_end by blast+
  have "user_line (trim_end u) \<and> is_item u" if "u \<in> set ?user" for u
    using user [OF that] that by auto
  then have users: "filter (\<lambda>l. user_line (trim_end l) \<and> is_item l) ?user = ?user"
    by (intro filter_True ballI)
  have trimmed: "map trim_end ?user = ?user"
    by (rule map_idI) (use user in blast)
  have none: "filter (\<lambda>l. user_line (trim_end l) \<and> is_item l) ?kept = []"
    by (rule filter_False) (use kept starts_with_trim_end in blast)
  show ?thesis
  proof
    show "filter user_line (items_of (merge_side_turn_recaps older newer)) =
        filter user_line (items_of older) @ filter user_line (items_of newer)"
    proof -
      have "filter user_line (items_of (merge_side_turn_recaps older newer)) =
          map trim_end (filter (\<lambda>l. user_line (trim_end l) \<and> is_item l)
            (SIDE_TURN_RECAP_HEADER # ?user @ ?kept))"
        unfolding items_of_def lines filter_map comp_def filter_filter by (simp only: conj_commute)
      also have "\<dots> = map trim_end ?user"
        using h(1) none users by (simp only: filter.simps filter_append if_False simp_thms append_Nil2)
      finally show ?thesis unfolding trimmed by simp
    qed
    show "set (filter report_line (items_of (merge_side_turn_recaps older newer)))
        \<subseteq> set_option (find report_line (rev ?items))"
    proof
      fix r
      assume "r \<in> set (filter report_line (items_of (merge_side_turn_recaps older newer)))"
      from items_from_lines [OF this]
      obtain l where l: "r = trim_end l" "report_line r"
        "l \<in> set (split_newline (merge_side_turn_recaps older newer))" by blast
      then have "report_line l" by (simp add: starts_with_trim_end)
      then have "l \<noteq> SIDE_TURN_RECAP_HEADER" "\<not> user_line l"
        using header_line(2) line_kinds(1) by blast+
      moreover from this(2) have "l \<notin> set ?user" by simp
      ultimately have "l \<in> set ?kept" using l(3) unfolding lines list.set(2) set_append by blast
      with kept \<open>report_line l\<close> have "find report_line (rev ?items) = Some l"
        unfolding latest by blast
      moreover from this have "l \<in> set ?items"
        by (metis find_Some_iff nth_mem set_rev)
      ultimately show "r \<in> set_option (find report_line (rev ?items))"
        unfolding l(1) set_append using item_line by (metis Un_iff elem_set)
    qed
  qed
qed

end
