(* ===== verification/Admission.thy ===== *)
theory Admission
  imports Prelude
begin

text \<open>
  Asking the engine whether one more agent fits:
  \<open>sdk/packages/core/src/extensions/tools/team/agent-admission.ts\<close>. Each asynchronous call is a
  sequence of atomic segments between its awaits; a call waiting for its capacity read or on hold
  is an entry of \<open>a_calls\<close>. The engine's answers are arguments of the events, the sleep of a held
  call ends at any time, and what calls return is written to \<open>a_trace\<close>.
\<close>

section \<open>Capacity\<close>

text \<open>The fields of a \<open>/capacity\<close> payload that are read, each absent or of its type.\<close>

record polykv_capacity =
  can_admit :: "bool option"
  headroom_sessions :: "int option"
  capacity_reason :: "string option"

record admission_capacity =
  ac_can_admit :: bool
  ac_headroom :: int
  ac_reason :: string

definition admission_from_capacity :: "polykv_capacity option \<Rightarrow> admission_capacity option" where
  "admission_from_capacity capacity =
     (case capacity of
        None \<Rightarrow> None
      | Some c \<Rightarrow> Some \<lparr>ac_can_admit = (can_admit c \<noteq> Some False),
                        ac_headroom = opt_default (-1) (headroom_sessions c),
                        ac_reason = opt_default '''' (capacity_reason c)\<rparr>)"

text \<open>What \<open>await options.capacity()\<close> gives: an exception, nothing, or an answer.\<close>

datatype read_outcome = ReadThrew | ReadNothing | ReadAnswer admission_capacity

section \<open>The controller\<close>

text \<open>\<open>remaining\<close>: \<open>Infinity\<close> or a number of agents.\<close>

datatype budget = Unlimited | Left nat

datatype call_phase = AcquireReading | AcquireHeld | TryReading | AskReading

datatype admission_trace =
    Read
  | Answered read_outcome
  | Granted nat string
  | Refused nat
  | Cancelled nat
  | MayAdmit nat bool

record admission =
  a_remaining :: "budget option"
  a_changed :: bool
  a_reason :: string
  a_outstanding :: nat
  a_waiters :: "nat list"
  a_calls :: "nat \<Rightarrow> call_phase option"
  a_trace :: "admission_trace list"

definition DEFAULT_ADMISSION_HOLD_RETRY_MS :: int where
  "DEFAULT_ADMISSION_HOLD_RETRY_MS = 2000"

definition hold_retry_ms :: "int option \<Rightarrow> int" where
  "hold_retry_ms configured = max 0 (opt_default DEFAULT_ADMISSION_HOLD_RETRY_MS configured)"

definition new_admission :: admission where
  "new_admission =
     \<lparr>a_remaining = None, a_changed = True, a_reason = '''', a_outstanding = 0, a_waiters = [],
      a_calls = (\<lambda>_. None), a_trace = []\<rparr>"

definition has_left :: "budget \<Rightarrow> bool" where
  "has_left b = (b \<noteq> Left 0)"

definition one_less :: "budget \<Rightarrow> budget" where
  "one_less b = (case b of Unlimited \<Rightarrow> Unlimited | Left n \<Rightarrow> Left (n - 1))"

text \<open>The budget of an admitting answer.\<close>

definition round_of :: "admission_capacity \<Rightarrow> budget" where
  "round_of read = (if ac_headroom read < 0 then Unlimited else Left (nat (max 1 (ac_headroom read))))"

definition UNAVAILABLE :: string where
  "UNAVAILABLE = ''capacity unavailable; not holding''"

definition note_trace :: "admission_trace \<Rightarrow> admission \<Rightarrow> admission" where
  "note_trace t s = s\<lparr>a_trace := a_trace s @ [t]\<rparr>"

definition set_phase :: "nat \<Rightarrow> call_phase option \<Rightarrow> admission \<Rightarrow> admission" where
  "set_phase i p s = s\<lparr>a_calls := (a_calls s)(i := p)\<rparr>"

definition finish_call :: "nat \<Rightarrow> admission_trace \<Rightarrow> admission \<Rightarrow> admission" where
  "finish_call i t s = note_trace t (set_phase i None s)"

text \<open>A read goes out on the wire.\<close>

definition start_read :: "nat \<Rightarrow> call_phase \<Rightarrow> admission \<Rightarrow> admission" where
  "start_read i p s = note_trace Read (set_phase i (Some p) (s\<lparr>a_changed := False\<rparr>))"

text \<open>One agent drawn from the round, if it has one left.\<close>

definition take_one :: "nat \<Rightarrow> budget \<Rightarrow> admission \<Rightarrow> admission" where
  "take_one i b s =
     finish_call i (Granted i (a_reason s))
       (s\<lparr>a_remaining := Some (one_less b), a_outstanding := Suc (a_outstanding s)\<rparr>)"

text \<open>\<open>holdOnce\<close> up to its await, and what follows it.\<close>

definition hold :: "nat \<Rightarrow> admission \<Rightarrow> admission" where
  "hold i s = set_phase i (Some AcquireHeld) (s\<lparr>a_waiters := a_waiters s @ [i]\<rparr>)"

definition unhold :: "nat \<Rightarrow> admission \<Rightarrow> admission" where
  "unhold i s = s\<lparr>a_waiters := remove1 i (a_waiters s)\<rparr>"

text \<open>The end of the loop of \<open>acquire\<close>, with a round live.\<close>

definition acquire_draw :: "nat \<Rightarrow> budget \<Rightarrow> admission \<Rightarrow> admission" where
  "acquire_draw i b s =
     (if has_left b then take_one i b s else hold i (s\<lparr>a_remaining := None\<rparr>))"

text \<open>The head of the loop of \<open>acquire\<close>.\<close>

definition acquire_loop :: "nat \<Rightarrow> bool \<Rightarrow> admission \<Rightarrow> admission" where
  "acquire_loop i aborted s =
     (if aborted then finish_call i (Cancelled i) s
      else (case a_remaining s of
              None \<Rightarrow> start_read i AcquireReading s
            | Some b \<Rightarrow> acquire_draw i b s))"

text \<open>What an answer writes to the round; \<open>None\<close> where the answer is no.\<close>

definition answer_round :: "read_outcome \<Rightarrow> budget option" where
  "answer_round r =
     (case r of
        ReadAnswer read \<Rightarrow> if ac_can_admit read then Some (round_of read) else None
      | _ \<Rightarrow> Some Unlimited)"

definition answer_reason :: "read_outcome \<Rightarrow> string" where
  "answer_reason r = (case r of ReadAnswer read \<Rightarrow> ac_reason read | _ \<Rightarrow> UNAVAILABLE)"

definition acquire_answer :: "nat \<Rightarrow> read_outcome \<Rightarrow> admission \<Rightarrow> admission" where
  "acquire_answer i r s =
     (let s1 = (note_trace (Answered r) s)\<lparr>a_reason := answer_reason r\<rparr>
      in case answer_round r of
           None \<Rightarrow> hold i s1
         | Some b \<Rightarrow> acquire_draw i b (s1\<lparr>a_remaining := Some b\<rparr>))"

definition try_acquire :: "nat \<Rightarrow> admission \<Rightarrow> admission" where
  "try_acquire i s =
     (case a_remaining s of
        Some b \<Rightarrow>
          if has_left b then take_one i b s
          else if \<not> a_changed s then finish_call i (Refused i) s
          else start_read i TryReading s
      | None \<Rightarrow>
          if \<not> a_changed s then finish_call i (Refused i) s
          else start_read i TryReading s)"

definition try_answer :: "nat \<Rightarrow> read_outcome \<Rightarrow> admission \<Rightarrow> admission" where
  "try_answer i r s =
     (let s1 = (note_trace (Answered r) s)\<lparr>a_reason := answer_reason r, a_remaining := answer_round r\<rparr>
      in case answer_round r of
           None \<Rightarrow> finish_call i (Refused i) s1
         | Some b \<Rightarrow>
             if has_left b then take_one i b s1
             else finish_call i (Refused i) (s1\<lparr>a_remaining := None\<rparr>))"

definition can_admit_more :: "nat \<Rightarrow> admission \<Rightarrow> admission" where
  "can_admit_more i s =
     (case a_remaining s of
        Some b \<Rightarrow>
          if has_left b then finish_call i (MayAdmit i True) s
          else if \<not> a_changed s then finish_call i (MayAdmit i False) s
          else start_read i AskReading s
      | None \<Rightarrow>
          if \<not> a_changed s then finish_call i (MayAdmit i False) s
          else start_read i AskReading s)"

text \<open>A read that throws leaves the reason as it was.\<close>

definition ask_answer :: "nat \<Rightarrow> read_outcome \<Rightarrow> admission \<Rightarrow> admission" where
  "ask_answer i r s =
     (let s1 = (note_trace (Answered r) s)
            \<lparr>a_reason := (if r = ReadThrew then a_reason s else answer_reason r),
             a_remaining := answer_round r\<rparr>
      in finish_call i (MayAdmit i (case answer_round r of None \<Rightarrow> False | Some b \<Rightarrow> has_left b)) s1)"

definition release_admission :: "admission \<Rightarrow> admission" where
  "release_admission s =
     s\<lparr>a_outstanding := a_outstanding s - 1, a_changed := True, a_waiters := drop 1 (a_waiters s)\<rparr>"

section \<open>Runs\<close>

text \<open>
  \<open>Resume\<close> is a held call going on, woken by a release or by its timer; \<open>aborted\<close> is what its
  signal says then. An event that no call is waiting for, or a call under a number in use, is no
  event.
\<close>

datatype admission_event =
    Acquire nat bool
  | TryAcquire nat
  | CanAdmitMore nat
  | Answer nat read_outcome
  | Resume nat bool
  | ReleaseOne

fun admission_step :: "admission_event \<Rightarrow> admission \<Rightarrow> admission" where
  "admission_step (Acquire i aborted) s = (if a_calls s i = None then acquire_loop i aborted s else s)"
| "admission_step (TryAcquire i) s = (if a_calls s i = None then try_acquire i s else s)"
| "admission_step (CanAdmitMore i) s = (if a_calls s i = None then can_admit_more i s else s)"
| "admission_step (Answer i r) s =
     (case a_calls s i of
        Some AcquireReading \<Rightarrow> acquire_answer i r s
      | Some TryReading \<Rightarrow> try_answer i r s
      | Some AskReading \<Rightarrow> ask_answer i r s
      | _ \<Rightarrow> s)"
| "admission_step (Resume i aborted) s =
     (if a_calls s i = Some AcquireHeld then acquire_loop i aborted (unhold i s) else s)"
| "admission_step ReleaseOne s = release_admission s"

abbreviation admission_run :: "admission_event list \<Rightarrow> admission" where
  "admission_run es \<equiv> fold admission_step es new_admission"

lemmas admission_defs = acquire_loop_def acquire_draw_def acquire_answer_def try_acquire_def
  try_answer_def can_admit_more_def ask_answer_def release_admission_def take_one_def hold_def
  unhold_def start_read_def finish_call_def set_phase_def note_trace_def Let_def

text \<open>The reads sent, the releases made, and the agents admitted since the last answer.\<close>

definition reads :: "admission_trace list \<Rightarrow> nat" where
  "reads ts = length (filter (\<lambda>t. t = Read) ts)"

definition releases :: "admission_event list \<Rightarrow> nat" where
  "releases es = length (filter (\<lambda>e. e = ReleaseOne) es)"

definition is_grant :: "admission_trace \<Rightarrow> bool" where
  "is_grant t = (case t of Granted _ _ \<Rightarrow> True | _ \<Rightarrow> False)"

text \<open>An answer that opens a round.\<close>

definition is_answer :: "admission_trace \<Rightarrow> bool" where
  "is_answer t = (case t of Answered r \<Rightarrow> answer_round r \<noteq> None | _ \<Rightarrow> False)"

definition grants :: "admission_trace list \<Rightarrow> nat" where
  "grants ts = length (filter is_grant ts)"

definition since_answer :: "admission_trace list \<Rightarrow> admission_trace list" where
  "since_answer ts = rev (takeWhile (\<lambda>t. \<not> is_answer t) (rev ts))"

definition last_answer :: "admission_trace list \<Rightarrow> read_outcome option" where
  "last_answer ts = (case find is_answer (rev ts) of Some (Answered r) \<Rightarrow> Some r | _ \<Rightarrow> None)"

lemma trace_counts [simp]:
  "reads [] = 0" "grants [] = 0" "since_answer [] = []" "last_answer [] = None"
  "reads (ts @ [t]) = reads ts + (if t = Read then 1 else 0)"
  "grants (ts @ [t]) = grants ts + (if is_grant t then 1 else 0)"
  "since_answer (ts @ [t]) = (if is_answer t then [] else since_answer ts @ [t])"
  "last_answer (ts @ [t]) =
     (case t of Answered r \<Rightarrow> if answer_round r \<noteq> None then Some r else last_answer ts | _ \<Rightarrow> last_answer ts)"
  by (simp_all add: reads_def grants_def since_answer_def last_answer_def is_answer_def
      split: admission_trace.split)

lemma kinds [simp]:
  "is_grant Read = False" "is_grant (Answered r) = False" "is_grant (Granted i q)"
  "is_grant (Refused i) = False" "is_grant (Cancelled i) = False" "is_grant (MayAdmit i b) = False"
  "is_answer Read = False" "is_answer (Answered r) = (answer_round r \<noteq> None)" "is_answer (Granted i q) = False"
  "is_answer (Refused i) = False" "is_answer (Cancelled i) = False" "is_answer (MayAdmit i b) = False"
  by (simp_all add: is_grant_def is_answer_def)

section \<open>Rounds\<close>

text \<open>What is left of a budget after some agents.\<close>

fun budget_after :: "budget \<Rightarrow> nat \<Rightarrow> budget" where
  "budget_after Unlimited g = Unlimited"
| "budget_after (Left n) g = Left (n - g)"

fun within_budget :: "budget \<Rightarrow> nat \<Rightarrow> bool" where
  "within_budget Unlimited g = True"
| "within_budget (Left n) g = (g \<le> n)"

definition round_ok :: "admission \<Rightarrow> bool" where
  "round_ok s =
     (let g = grants (since_answer (a_trace s))
      in case last_answer (a_trace s) of
           None \<Rightarrow> a_remaining s = None \<and> g = 0
         | Some r \<Rightarrow> \<exists>b. answer_round r = Some b \<and> within_budget b g \<and>
             (a_remaining s = None \<or> a_remaining s = Some (budget_after b g)))"

definition waiters_ok :: "admission \<Rightarrow> bool" where
  "waiters_ok s = (distinct (a_waiters s) \<and> (\<forall>i \<in> set (a_waiters s). a_calls s i = Some AcquireHeld))"

lemma has_left_after: "within_budget b g \<Longrightarrow> has_left (budget_after b g) \<Longrightarrow> within_budget b (Suc g)"
  by (cases b) (auto simp: has_left_def)

lemma one_less_after: "one_less (budget_after b g) = budget_after b (Suc g)"
  by (cases b) (auto simp: one_less_def)

text \<open>Steps that leave the round and its trace alone, and steps that draw from it.\<close>

lemma round_ok_cong:
  "round_ok s \<Longrightarrow> a_trace s' = a_trace s \<Longrightarrow> a_remaining s' = a_remaining s \<or> a_remaining s' = None \<Longrightarrow>
    round_ok s'"
  by (auto simp: round_ok_def Let_def split: option.splits)

lemma round_ok_quiet:
  "round_ok s \<Longrightarrow> \<not> is_grant t \<Longrightarrow> \<not> is_answer t \<Longrightarrow> round_ok (note_trace t s)"
  by (auto simp: round_ok_def note_trace_def Let_def split: option.splits admission_trace.splits)

lemma round_ok_take:
  assumes "round_ok s" and "a_remaining s = Some b" and "has_left b"
  shows "round_ok (take_one i b s)"
proof -
  from assms(1,2) obtain r b0 where r: "last_answer (a_trace s) = Some r" "answer_round r = Some b0"
    "within_budget b0 (grants (since_answer (a_trace s)))"
    "b = budget_after b0 (grants (since_answer (a_trace s)))"
    by (auto simp: round_ok_def Let_def split: option.splits)
  with assms(3) show ?thesis
    by (simp add: round_ok_def take_one_def finish_call_def note_trace_def set_phase_def Let_def
        has_left_after one_less_after)
qed

lemma round_ok_answer:
  assumes "round_ok s"
  shows "answer_round r = Some b \<Longrightarrow> round_ok ((note_trace (Answered r) s)\<lparr>a_reason := q, a_remaining := Some b\<rparr>)"
    and "answer_round r = None \<Longrightarrow> round_ok ((note_trace (Answered r) s)\<lparr>a_reason := q\<rparr>)"
  using assms by (cases b; auto simp: round_ok_def note_trace_def Let_def split: option.splits)+

lemma round_ok_finish: "round_ok s \<Longrightarrow> \<not> is_grant t \<Longrightarrow> \<not> is_answer t \<Longrightarrow> round_ok (finish_call i t s)"
  unfolding finish_call_def by (intro round_ok_quiet) (auto simp: set_phase_def elim: round_ok_cong)

lemma round_ok_start: "round_ok s \<Longrightarrow> round_ok (start_read i p s)"
  unfolding start_read_def by (intro round_ok_quiet) (auto simp: set_phase_def elim: round_ok_cong)

lemma round_ok_hold: "round_ok s \<Longrightarrow> round_ok (hold i s)"
  by (erule round_ok_cong) (auto simp: hold_def set_phase_def)

lemma round_ok_draw: "round_ok s \<Longrightarrow> a_remaining s = Some b \<Longrightarrow> round_ok (acquire_draw i b s)"
  unfolding acquire_draw_def
  by (auto intro!: round_ok_take round_ok_hold elim: round_ok_cong)

lemma round_ok_loop: "round_ok s \<Longrightarrow> round_ok (acquire_loop i aborted s)"
  by (auto simp: acquire_loop_def intro: round_ok_finish round_ok_start round_ok_draw split: option.split)

lemma round_ok_step: "round_ok s \<Longrightarrow> round_ok (admission_step e s)"
proof (cases e)
  case (Answer i r)
  assume ok: "round_ok s"
  show ?thesis
  proof (cases "answer_round r")
    case None
    then have "round_ok (acquire_answer i r s)"
      using round_ok_answer(2) [OF ok None] by (simp add: acquire_answer_def round_ok_hold)
    moreover have "round_ok ((note_trace (Answered r) s)\<lparr>a_reason := q, a_remaining := None\<rparr>)" for q
      using round_ok_answer(2) [OF ok None, of q] by (rule round_ok_cong) auto
    ultimately show ?thesis
      using ok None Answer
      by (auto simp: try_answer_def ask_answer_def Let_def round_ok_finish split: option.split call_phase.split)
  next
    case (Some b)
    note ans = round_ok_answer(1) [OF ok Some]
    have none: "round_ok ((note_trace (Answered r) s)\<lparr>a_reason := q, a_remaining := None\<rparr>)" for q
      using ans [of q] by (rule round_ok_cong) auto
    have "round_ok (acquire_answer i r s)"
      using round_ok_draw [OF ans, of "answer_reason r" b i] Some by (simp add: acquire_answer_def)
    moreover have "round_ok (try_answer i r s)"
      using Some ans none round_ok_take [OF ans, of "answer_reason r" b i]
      by (auto simp: try_answer_def Let_def round_ok_finish)
    moreover have "round_ok (ask_answer i r s)"
      using Some ans by (auto simp: ask_answer_def Let_def intro!: round_ok_finish)
    ultimately show ?thesis
      using ok Answer by (auto split: option.split call_phase.split)
  qed
next
  case (Resume i aborted)
  assume "round_ok s"
  then have "round_ok (unhold i s)" by (rule round_ok_cong) (auto simp: unhold_def)
  with \<open>round_ok s\<close> Resume show ?thesis by (auto intro: round_ok_loop)
next
  case ReleaseOne
  assume "round_ok s"
  with ReleaseOne show ?thesis by (auto simp: release_admission_def elim: round_ok_cong)
qed (auto simp: try_acquire_def can_admit_more_def split: option.split
      intro: round_ok_loop round_ok_take round_ok_finish round_ok_start)

interpretation rounds: invariant_machine admission_step round_ok
  by unfold_locales (rule round_ok_step)

lemma round_ok_run: "round_ok (admission_run es)"
  by (rule rounds.run_inv) (simp add: round_ok_def new_admission_def)

text \<open>
  C7: The agents admitted since the last answer that opened a round are never more than the
  headroom it named, or at most one where it named zero; a negative headroom bounds nothing.
\<close>

theorem round_within_headroom:
  assumes "last_answer (a_trace (admission_run es)) = Some (ReadAnswer read)" and "0 \<le> ac_headroom read"
  shows "int (grants (since_answer (a_trace (admission_run es)))) \<le> max 1 (ac_headroom read)"
proof -
  have "answer_round (ReadAnswer read) \<in> {None, Some (Left (nat (max 1 (ac_headroom read))))}"
    using assms(2) by (simp add: answer_round_def round_of_def)
  with round_ok_run [of es] assms(1) show ?thesis
    by (auto simp: round_ok_def Let_def)
qed

definition answer_of :: "int \<Rightarrow> read_outcome" where
  "answer_of n = ReadAnswer \<lparr>ac_can_admit = True, ac_headroom = n, ac_reason = ''ok''\<rparr>"

theorem round_within_headroom_witness:
  "int (grants (since_answer (a_trace (admission_run
     [Acquire 1 False, Answer 1 (answer_of 2), Acquire 2 False, Acquire 3 False])))) \<le> 2"
proof -
  have "last_answer (a_trace (admission_run
      [Acquire 1 False, Answer 1 (answer_of 2), Acquire 2 False, Acquire 3 False])) = Some (answer_of 2)"
    by (simp add: admission_defs new_admission_def answer_round_def answer_of_def round_of_def has_left_def
        one_less_def last_answer_def is_answer_def)
  from round_within_headroom [OF this [unfolded answer_of_def]] show ?thesis
    unfolding answer_of_def by simp
qed

section \<open>Held calls\<close>

lemma waiters_ok_cong:
  "waiters_ok s \<Longrightarrow> a_waiters s' = a_waiters s \<Longrightarrow>
    (\<And>j. j \<in> set (a_waiters s) \<Longrightarrow> a_calls s' j = a_calls s j) \<Longrightarrow> waiters_ok s'"
  by (simp add: waiters_ok_def)

lemma call_frames [simp]:
  "a_waiters (note_trace t s) = a_waiters s" "a_waiters (set_phase i p s) = a_waiters s"
  "a_calls (note_trace t s) = a_calls s" "a_calls (set_phase i p s) = (a_calls s)(i := p)"
  "a_waiters (finish_call i t s) = a_waiters s" "a_calls (finish_call i t s) = (a_calls s)(i := None)"
  "a_waiters (start_read i ph s) = a_waiters s" "a_calls (start_read i ph s) = (a_calls s)(i := Some ph)"
  "a_waiters (take_one i b s) = a_waiters s" "a_calls (take_one i b s) = (a_calls s)(i := None)"
  "a_waiters (hold i s) = a_waiters s @ [i]" "a_calls (hold i s) = (a_calls s)(i := Some AcquireHeld)"
  "a_waiters (unhold i s) = remove1 i (a_waiters s)" "a_calls (unhold i s) = a_calls s"
  by (simp_all add: note_trace_def set_phase_def finish_call_def start_read_def take_one_def hold_def unhold_def)

lemma waiters_not_held: "waiters_ok s \<Longrightarrow> a_calls s i \<noteq> Some AcquireHeld \<Longrightarrow> i \<notin> set (a_waiters s)"
  by (auto simp: waiters_ok_def)

lemma waiters_ok_loop:
  "waiters_ok s \<Longrightarrow> i \<notin> set (a_waiters s) \<Longrightarrow> waiters_ok (acquire_loop i aborted s)"
  by (auto simp: acquire_loop_def acquire_draw_def waiters_ok_def split: option.split)

lemma waiters_ok_step: "waiters_ok s \<Longrightarrow> waiters_ok (admission_step e s)"
proof (cases e)
  case (Resume i aborted)
  assume ok: "waiters_ok s"
  then have "waiters_ok (unhold i s)" "i \<notin> set (a_waiters (unhold i s))"
    by (auto simp: waiters_ok_def)
  with ok Resume show ?thesis by (auto intro: waiters_ok_loop)
next
  case (Acquire i aborted)
  assume ok: "waiters_ok s"
  have "waiters_ok (acquire_loop i aborted s)" if "a_calls s i = None"
    by (rule waiters_ok_loop [OF ok]) (simp add: waiters_not_held [OF ok] that)
  with ok Acquire show ?thesis by simp
next
  case (Answer i r)
  assume ok: "waiters_ok s"
  show ?thesis
  proof (cases "a_calls s i = Some AcquireHeld")
    case False
    note free = waiters_not_held [OF ok this]
    have "waiters_ok (acquire_answer i r s)"
      using ok free by (auto simp: acquire_answer_def acquire_draw_def waiters_ok_def Let_def split: option.split)
    moreover have "waiters_ok (try_answer i r s)" "waiters_ok (ask_answer i r s)"
      using ok free by (auto simp: try_answer_def ask_answer_def waiters_ok_def Let_def split: option.split)
    ultimately show ?thesis using ok Answer by (auto split: option.split call_phase.split)
  qed (use ok Answer in simp)
next
  case ReleaseOne
  assume "waiters_ok s"
  with ReleaseOne show ?thesis
    by (auto simp: release_admission_def waiters_ok_def dest: in_set_dropD)
qed (auto simp: try_acquire_def can_admit_more_def waiters_ok_def split: option.split)

interpretation held: invariant_machine admission_step waiters_ok
  by unfold_locales (rule waiters_ok_step)

text \<open>
  Each finished agent wakes at most one held call, the one held the longest: the waiters are
  distinct held calls, a release takes exactly the first of them out, and a call whose timer fires
  or which is woken takes only itself out.
\<close>

theorem release_wakes_the_oldest:
  "distinct (a_waiters (admission_run es)) \<and>
    set (a_waiters (admission_run es)) \<subseteq> {i. a_calls (admission_run es) i = Some AcquireHeld} \<and>
    a_waiters (admission_step ReleaseOne (admission_run es)) = tl (a_waiters (admission_run es))"
proof -
  have "waiters_ok (admission_run es)"
    by (rule held.run_inv) (simp add: waiters_ok_def new_admission_def)
  then show ?thesis
    by (auto simp: waiters_ok_def release_admission_def drop_Suc)
qed

section \<open>How often the engine is read\<close>

definition reads_ok :: "nat \<Rightarrow> admission \<Rightarrow> bool" where
  "reads_ok n s = ((\<forall>i. a_calls s i \<noteq> Some AcquireReading \<and> a_calls s i \<noteq> Some AcquireHeld) \<and>
     reads (a_trace s) + (if a_changed s then 1 else 0) \<le> Suc n)"

fun is_acquire :: "admission_event \<Rightarrow> bool" where
  "is_acquire (Acquire i b) = True"
| "is_acquire _ = False"

lemma releases_snoc: "releases (es @ [e]) = releases es + (if e = ReleaseOne then 1 else 0)"
  by (simp add: releases_def)

lemma reads_append: "reads (xs @ ys) = reads xs + reads ys"
  by (simp add: reads_def)

lemma reads_Cons: "reads (t # ts) = (if t = Read then 1 else 0) + reads ts"
  by (simp add: reads_def)

lemma reads_ok_step:
  "reads_ok n s \<Longrightarrow> \<not> is_acquire e \<Longrightarrow> reads_ok (n + (if e = ReleaseOne then 1 else 0)) (admission_step e s)"
  by (cases e) (auto simp: reads_ok_def admission_defs reads_append reads_Cons split: option.splits call_phase.splits if_splits)

text \<open>
  A supervisor that asks on a tick (\<open>tryAcquire\<close>, \<open>canAdmitMore\<close>) reads the engine at most once
  more than agents have finished, however often and in whatever overlap it asks.
\<close>

theorem ticks_do_not_read:
  "\<forall>e \<in> set es. \<not> is_acquire e \<Longrightarrow> reads (a_trace (admission_run es)) \<le> Suc (releases es)"
proof -
  have "\<forall>e \<in> set es. \<not> is_acquire e \<Longrightarrow> reads_ok (releases es) (admission_run es)"
  proof (induction es rule: rev_induct)
    case Nil
    then show ?case by (simp add: reads_ok_def releases_def new_admission_def)
  next
    case (snoc e es)
    then have "reads_ok (releases es) (admission_run es)" "\<not> is_acquire e" by auto
    from reads_ok_step [OF this]
    have "reads_ok (releases (es @ [e])) (admission_step e (admission_run es))"
      by (simp only: releases_snoc)
    then show ?case by (simp only: fold_append fold.simps comp_apply id_apply)
  qed
  moreover assume "\<forall>e \<in> set es. \<not> is_acquire e"
  ultimately show ?thesis by (auto simp: reads_ok_def split: if_splits)
qed

theorem ticks_do_not_read_witness:
  "reads (a_trace (admission_run [TryAcquire 1, TryAcquire 2, CanAdmitMore 3])) \<le> 1"
  using ticks_do_not_read [of "[TryAcquire 1, TryAcquire 2, CanAdmitMore 3]"]
  by (simp add: releases_def)

text \<open>
  Asking first is asking right: when \<open>canAdmitMore\<close> has just said yes, a \<open>tryAcquire\<close> is
  granted at once, without a read; asking itself takes no slot.
\<close>

theorem asking_is_right:
  assumes "a_trace (admission_step e s) = a_trace s @ ts @ [MayAdmit i True]"
    and "a_calls (admission_step e s) j = None"
  shows "a_outstanding (admission_step e s) = a_outstanding s \<and>
    (\<exists>q. a_trace (admission_step (TryAcquire j) (admission_step e s)) =
       a_trace s @ ts @ [MayAdmit i True, Granted j q])"
  using assms
  by (cases e; auto simp: admission_defs split: option.splits call_phase.splits if_splits)

theorem asking_is_right_witness:
  "a_outstanding (admission_step (Answer 1 (answer_of 1)) (admission_step (CanAdmitMore 1) new_admission)) = 0"
proof -
  let ?s = "admission_step (CanAdmitMore 1) new_admission"
  have "a_trace (admission_step (Answer 1 (answer_of 1)) ?s) = a_trace ?s @ [Answered (answer_of 1)] @ [MayAdmit 1 True]"
    "a_calls (admission_step (Answer 1 (answer_of 1)) ?s) 2 = None" "a_outstanding ?s = 0"
    by (simp_all add: admission_defs new_admission_def answer_round_def answer_of_def round_of_def has_left_def)
  with asking_is_right [of "Answer 1 (answer_of 1)" ?s] show ?thesis by simp
qed

section \<open>An unbounded round\<close>

definition unbounded_quiet :: "nat \<Rightarrow> admission \<Rightarrow> bool" where
  "unbounded_quiet n s =
     (a_remaining s = Some Unlimited \<and> reads (a_trace s) = n \<and>
      (\<forall>i. a_calls s i = None \<or> a_calls s i = Some AcquireHeld))"

lemma unbounded_quiet_step: "unbounded_quiet n s \<Longrightarrow> unbounded_quiet n (admission_step e s)"
proof (cases e)
  case (Answer i r)
  assume ok: "unbounded_quiet n s"
  then have "a_calls s i = None \<or> a_calls s i = Some AcquireHeld" by (simp add: unbounded_quiet_def)
  with ok Answer show ?thesis by auto
qed (auto simp: unbounded_quiet_def admission_defs has_left_def one_less_def reads_append reads_Cons)

interpretation unbounded: invariant_machine admission_step "unbounded_quiet n" for n
  by unfold_locales (rule unbounded_quiet_step)

text \<open>
  A round the engine did not bound never ends: once its control plane could not be asked, or
  had no measurement, and no read is in flight, no agent is ever held again and the engine is never
  read again, whatever finishes.
\<close>

theorem unbounded_round_never_ends:
  assumes "a_remaining s = Some Unlimited"
    and "\<And>i. a_calls s i = None \<or> a_calls s i = Some AcquireHeld"
  shows "a_remaining (fold admission_step es s) = Some Unlimited \<and>
    reads (a_trace (fold admission_step es s)) = reads (a_trace s)"
  using unbounded.run_inv [of "reads (a_trace s)" s es] assms by (simp add: unbounded_quiet_def)

theorem unbounded_round_never_ends_witness:
  "a_remaining (fold admission_step [ReleaseOne, Acquire 2 False]
     (admission_run [Acquire 1 False, Answer 1 ReadNothing])) = Some Unlimited"
proof -
  let ?s = "admission_run [Acquire 1 False, Answer 1 ReadNothing]"
  have "a_remaining ?s = Some Unlimited" "\<And>i. a_calls ?s i = None \<or> a_calls ?s i = Some AcquireHeld"
    by (simp_all add: admission_defs new_admission_def answer_round_def has_left_def one_less_def)
  from unbounded_round_never_ends [OF this] show ?thesis by blast
qed

section \<open>A burst\<close>

definition burst :: "nat \<Rightarrow> admission_event list" where
  "burst n = map (\<lambda>i. Acquire i False) [0..<n]"

definition burst_answers :: "read_outcome \<Rightarrow> nat \<Rightarrow> admission_event list" where
  "burst_answers r n = map (\<lambda>i. Answer i r) [0..<n]"

lemma burst_reads:
  "a_remaining (admission_run (burst n)) = None \<and> reads (a_trace (admission_run (burst n))) = n \<and>
   a_outstanding (admission_run (burst n)) = 0 \<and>
   a_calls (admission_run (burst n)) = (\<lambda>i. if i < n then Some AcquireReading else None)"
  by (induction n)
    (auto simp: burst_def new_admission_def admission_defs reads_append reads_Cons)

lemma answers_admit:
  assumes "answer_round r = Some (Left 1)" and "m \<le> n"
    and "a_calls s = (\<lambda>i. if i < n then Some AcquireReading else None)" and "a_outstanding s = 0"
  shows "reads (a_trace (fold admission_step (burst_answers r m) s)) = reads (a_trace s) \<and>
    a_outstanding (fold admission_step (burst_answers r m) s) = m \<and>
    a_calls (fold admission_step (burst_answers r m) s) = (\<lambda>i. if m \<le> i \<and> i < n then Some AcquireReading else None)"
  using assms(2)
proof (induction m)
  case (Suc m)
  let ?t = "fold admission_step (burst_answers r m) s"
  have "fold admission_step (burst_answers r (Suc m)) s = admission_step (Answer m r) ?t"
    by (simp add: burst_answers_def)
  with Suc assms(1) show ?case
    by (auto simp: admission_defs has_left_def reads_append reads_Cons intro!: ext)
qed (use assms in \<open>simp add: burst_answers_def\<close>)

text \<open>
  A burst of agents asking together is neither one read nor one round: each of \<open>n\<close> acquires
  that start before the first answer reads the engine for itself, and although every answer says
  that one more agent fits, all \<open>n\<close> are admitted.
\<close>

theorem burst_reads_each:
  "reads (a_trace (admission_run (burst n @ burst_answers (answer_of 1) n))) = n \<and>
    a_outstanding (admission_run (burst n @ burst_answers (answer_of 1) n)) = n"
proof -
  have "answer_round (answer_of 1) = Some (Left 1)"
    by (simp add: answer_round_def answer_of_def round_of_def)
  from answers_admit [OF this order_refl, of "admission_run (burst n)" n] burst_reads [of n]
  show ?thesis by simp
qed

end
