(* ===== verification/SlotGate.thy ===== *)
theory SlotGate
  imports Complex_Main Text
begin

text \<open>
  Holding delegated agents to what their endpoint serves:
  \<open>sdk/packages/core/src/extensions/tools/team/agent-slot-gate.ts\<close>. \<open>run\<close> is split at its awaits;
  whether a call comes from inside a task of the same gate (\<open>heldGates\<close>) is an argument of the
  call. The admission controller is seen through the calls made to it, written to a trace.
\<close>

section \<open>Numbers\<close>

text \<open>A JavaScript number. The finite ones are taken exactly.\<close>

datatype js_number = NotANumber | PlusInfinity | MinusInfinity | Finite rat

fun positive_finite :: "js_number \<Rightarrow> bool" where
  "positive_finite (Finite r) = (0 < r)"
| "positive_finite _ = False"

section \<open>The gate with a bound\<close>

datatype gate_trace = AskAdmission nat | ReleaseAdmission

text \<open>
  \<open>b_asking\<close> are the calls waiting for the admission controller, \<open>b_waiting\<close> those in the gate's
  queue, \<open>b_holders\<close> those that own a slot in the order they got it, of which \<open>b_woken\<close> have been
  handed one and not gone on yet, and \<open>b_nested\<close> the calls made from inside a holder's task.
\<close>

record bounded_gate =
  b_bound :: nat
  b_admission :: bool
  b_running :: nat
  b_waiting :: "nat list"
  b_asking :: "nat list"
  b_holders :: "nat list"
  b_woken :: "nat list"
  b_nested :: "nat list"
  b_trace :: "gate_trace list"

definition bound_of :: "rat \<Rightarrow> nat" where
  "bound_of limit = nat (max 1 \<lfloor>limit\<rfloor>)"

definition new_bounded :: "rat \<Rightarrow> bool \<Rightarrow> bounded_gate" where
  "new_bounded limit has_admission =
     \<lparr>b_bound = bound_of limit, b_admission = has_admission, b_running = 0, b_waiting = [],
      b_asking = [], b_holders = [], b_woken = [], b_nested = [], b_trace = []\<rparr>"

text \<open>The slot, or a place in the queue.\<close>

definition enter_gate :: "nat \<Rightarrow> bounded_gate \<Rightarrow> bounded_gate" where
  "enter_gate i g =
     (if b_running g \<ge> b_bound g then g\<lparr>b_waiting := b_waiting g @ [i]\<rparr>
      else g\<lparr>b_running := Suc (b_running g), b_holders := b_holders g @ [i]\<rparr>)"

definition run_bounded :: "nat \<Rightarrow> bool \<Rightarrow> bounded_gate \<Rightarrow> bounded_gate" where
  "run_bounded i nested g =
     (if nested then g\<lparr>b_nested := b_nested g @ [i]\<rparr>
      else if b_admission g
           then g\<lparr>b_asking := b_asking g @ [i], b_trace := b_trace g @ [AskAdmission i]\<rparr>
      else enter_gate i g)"

definition bounded_admitted :: "nat \<Rightarrow> bounded_gate \<Rightarrow> bounded_gate" where
  "bounded_admitted i g = enter_gate i (g\<lparr>b_asking := remove1 i (b_asking g)\<rparr>)"

definition release_slot :: "bounded_gate \<Rightarrow> bounded_gate" where
  "release_slot g =
     (case b_waiting g of
        next # rest \<Rightarrow>
          g\<lparr>b_waiting := rest, b_holders := b_holders g @ [next], b_woken := b_woken g @ [next]\<rparr>
      | [] \<Rightarrow> g\<lparr>b_running := b_running g - 1\<rparr>)"

definition end_bounded :: "nat \<Rightarrow> bounded_gate \<Rightarrow> bounded_gate" where
  "end_bounded i g =
     (let g1 = release_slot (g\<lparr>b_holders := remove1 i (b_holders g)\<rparr>)
      in if b_admission g then g1\<lparr>b_trace := b_trace g1 @ [ReleaseAdmission]\<rparr> else g1)"

definition known_to :: "nat \<Rightarrow> bounded_gate \<Rightarrow> bool" where
  "known_to i g = (i \<in> set (b_asking g @ b_holders g @ b_waiting g @ b_nested g))"

text \<open>
  A new call, an admission granted, a handed slot taken up, the end of a task (by a result or an
  exception). An event that does not apply changes nothing.
\<close>

datatype gate_event = RunTask nat bool | AdmissionGranted nat | WakeUp nat | EndTask nat

fun bounded_step :: "gate_event \<Rightarrow> bounded_gate \<Rightarrow> bounded_gate" where
  "bounded_step (RunTask i nested) g = (if known_to i g then g else run_bounded i nested g)"
| "bounded_step (AdmissionGranted i) g = (if i \<in> set (b_asking g) then bounded_admitted i g else g)"
| "bounded_step (WakeUp i) g = g\<lparr>b_woken := remove1 i (b_woken g)\<rparr>"
| "bounded_step (EndTask i) g =
     (if i \<in> set (b_nested g) then g\<lparr>b_nested := remove1 i (b_nested g)\<rparr>
      else if i \<in> set (b_holders g) \<and> i \<notin> set (b_woken g) then end_bounded i g
      else g)"

section \<open>The gate without a bound\<close>

text \<open>
  \<open>u_pacing\<close> are the calls waiting to hear whether the endpoint admits agents itself,
  \<open>u_probe_waiters\<close> those waiting for their turn to try, \<open>u_probe\<close> the calls that have the turn,
  of which \<open>u_handed\<close> have not gone on yet, \<open>u_asking\<close> those waiting for the admission controller.
\<close>

record uncapped_gate =
  u_admission :: bool
  u_running :: nat
  u_probing :: bool
  u_probe_waiters :: "nat list"
  u_pacing :: "nat list"
  u_probe :: "nat list"
  u_handed :: "nat list"
  u_asking :: "nat list"
  u_active :: "nat list"
  u_nested :: "nat list"
  u_trace :: "gate_trace list"

definition new_uncapped :: "bool \<Rightarrow> uncapped_gate" where
  "new_uncapped has_admission =
     \<lparr>u_admission = has_admission, u_running = 0, u_probing = False, u_probe_waiters = [],
      u_pacing = [], u_probe = [], u_handed = [], u_asking = [], u_active = [], u_nested = [],
      u_trace = []\<rparr>"

definition start_uncapped :: "nat \<Rightarrow> uncapped_gate \<Rightarrow> uncapped_gate" where
  "start_uncapped i g = g\<lparr>u_running := Suc (u_running g), u_active := u_active g @ [i]\<rparr>"

definition ask_uncapped :: "nat \<Rightarrow> uncapped_gate \<Rightarrow> uncapped_gate" where
  "ask_uncapped i g =
     (if u_admission g
      then g\<lparr>u_asking := u_asking g @ [i], u_trace := u_trace g @ [AskAdmission i]\<rparr>
      else start_uncapped i g)"

definition run_uncapped :: "nat \<Rightarrow> bool \<Rightarrow> uncapped_gate \<Rightarrow> uncapped_gate" where
  "run_uncapped i nested g =
     (if nested then g\<lparr>u_running := Suc (u_running g), u_nested := u_nested g @ [i]\<rparr>
      else g\<lparr>u_pacing := u_pacing g @ [i]\<rparr>)"

text \<open>\<open>paced()\<close> answered; \<open>takeProbe\<close>.\<close>

definition paced_answer :: "nat \<Rightarrow> bool \<Rightarrow> uncapped_gate \<Rightarrow> uncapped_gate" where
  "paced_answer i paced g =
     (let g1 = g\<lparr>u_pacing := remove1 i (u_pacing g)\<rparr>
      in if \<not> paced then ask_uncapped i g1
         else if \<not> u_probing g1
              then ask_uncapped i (g1\<lparr>u_probing := True, u_probe := u_probe g1 @ [i]\<rparr>)
         else g1\<lparr>u_probe_waiters := u_probe_waiters g1 @ [i]\<rparr>)"

definition take_up_probe :: "nat \<Rightarrow> uncapped_gate \<Rightarrow> uncapped_gate" where
  "take_up_probe i g = ask_uncapped i (g\<lparr>u_handed := remove1 i (u_handed g)\<rparr>)"

definition release_probe :: "uncapped_gate \<Rightarrow> uncapped_gate" where
  "release_probe g =
     (case u_probe_waiters g of
        next # rest \<Rightarrow>
          g\<lparr>u_probe_waiters := rest, u_probe := u_probe g @ [next], u_handed := u_handed g @ [next]\<rparr>
      | [] \<Rightarrow> g\<lparr>u_probing := False\<rparr>)"

text \<open>The task's \<open>admitted\<close>.\<close>

definition admitted_uncapped :: "nat \<Rightarrow> uncapped_gate \<Rightarrow> uncapped_gate" where
  "admitted_uncapped i g =
     (if i \<in> set (u_probe g) then release_probe (g\<lparr>u_probe := remove1 i (u_probe g)\<rparr>) else g)"

definition granted_uncapped :: "nat \<Rightarrow> uncapped_gate \<Rightarrow> uncapped_gate" where
  "granted_uncapped i g = start_uncapped i (g\<lparr>u_asking := remove1 i (u_asking g)\<rparr>)"

definition end_uncapped :: "nat \<Rightarrow> uncapped_gate \<Rightarrow> uncapped_gate" where
  "end_uncapped i g =
     admitted_uncapped i
       (g\<lparr>u_running := u_running g - 1, u_active := remove1 i (u_active g),
          u_trace := (if u_admission g then u_trace g @ [ReleaseAdmission] else u_trace g)\<rparr>)"

definition end_nested :: "nat \<Rightarrow> uncapped_gate \<Rightarrow> uncapped_gate" where
  "end_nested i g = g\<lparr>u_running := u_running g - 1, u_nested := remove1 i (u_nested g)\<rparr>"

text \<open>\<open>answer\<close> is the admission controller's own answer, where there is one.\<close>

definition can_admit_more_uncapped :: "bool \<Rightarrow> uncapped_gate \<Rightarrow> bool" where
  "can_admit_more_uncapped answer g = (\<not> u_probing g \<and> (u_admission g \<longrightarrow> answer))"

definition known_uncapped :: "nat \<Rightarrow> uncapped_gate \<Rightarrow> bool" where
  "known_uncapped i g =
     (i \<in> set (u_pacing g @ u_probe_waiters g @ u_handed g @ u_asking g @ u_active g @ u_nested g))"

datatype uncapped_event =
    URunTask nat bool
  | UPaced nat bool
  | UTakeUp nat
  | UGranted nat
  | UAdmitted nat
  | UEndTask nat

fun uncapped_step :: "uncapped_event \<Rightarrow> uncapped_gate \<Rightarrow> uncapped_gate" where
  "uncapped_step (URunTask i nested) g = (if known_uncapped i g then g else run_uncapped i nested g)"
| "uncapped_step (UPaced i paced) g = (if i \<in> set (u_pacing g) then paced_answer i paced g else g)"
| "uncapped_step (UTakeUp i) g = (if i \<in> set (u_handed g) then take_up_probe i g else g)"
| "uncapped_step (UGranted i) g = (if i \<in> set (u_asking g) then granted_uncapped i g else g)"
| "uncapped_step (UAdmitted i) g = (if i \<in> set (u_active g) then admitted_uncapped i g else g)"
| "uncapped_step (UEndTask i) g =
     (if i \<in> set (u_active g) then end_uncapped i g
      else if i \<in> set (u_nested g) then end_nested i g else g)"

section \<open>Whether agents can run beside one another\<close>

definition slots_allow_parallel :: "js_number option \<Rightarrow> bool" where
  "slots_allow_parallel max_agents =
     (case max_agents of
        Some (Finite r) \<Rightarrow> if r \<le> 0 then True else r > 1
      | _ \<Rightarrow> True)"

fun nodes_allow_from :: "rat \<Rightarrow> js_number list \<Rightarrow> bool" where
  "nodes_allow_from acc [] = False"
| "nodes_allow_from acc (c # cs) =
     (case c of
        NotANumber \<Rightarrow> nodes_allow_from acc cs
      | MinusInfinity \<Rightarrow> nodes_allow_from acc cs
      | PlusInfinity \<Rightarrow> True
      | Finite r \<Rightarrow>
          if r \<le> 0 then nodes_allow_from acc cs
          else if acc + r > 1 then True else nodes_allow_from (acc + r) cs)"

definition nodes_allow_parallel :: "js_number list option \<Rightarrow> bool" where
  "nodes_allow_parallel nodes =
     (case nodes of None \<Rightarrow> False | Some cs \<Rightarrow> if cs = [] then False else nodes_allow_from 0 cs)"

definition delegation_can_run_in_parallel :: "js_number option \<Rightarrow> js_number list option \<Rightarrow> bool" where
  "delegation_can_run_in_parallel max_agents nodes =
     (if slots_allow_parallel max_agents then True else nodes_allow_parallel nodes)"

section \<open>Endpoints\<close>

text \<open>\<open>lower\<close> is \<open>toLowerCase\<close>.\<close>

definition drop_slashes :: "jtext \<Rightarrow> jtext" where
  "drop_slashes t = rev (dropWhile (\<lambda>c. c = 47) (rev t))"

definition endpoint_key :: "(jtext \<Rightarrow> jtext) \<Rightarrow> jtext option \<Rightarrow> jtext option \<Rightarrow> jtext" where
  "endpoint_key lower provider base =
     lower (opt_default [] provider) @ 32 # drop_slashes (lower (opt_default [] base))"

record slot_entry =
  se_provider :: "jtext option"
  se_base :: "jtext option"
  se_limit :: js_number

definition entry_key :: "(jtext \<Rightarrow> jtext) \<Rightarrow> slot_entry \<Rightarrow> jtext" where
  "entry_key lower e = endpoint_key lower (se_provider e) (se_base e)"

definition entry_bound :: "slot_entry \<Rightarrow> int option" where
  "entry_bound e = (case se_limit e of Finite r \<Rightarrow> if r < 0 then None else Some \<lfloor>r\<rfloor> | _ \<Rightarrow> None)"

fun limits_from :: "(jtext \<Rightarrow> jtext) \<Rightarrow> slot_entry list \<Rightarrow> (jtext \<times> int) list \<Rightarrow> (jtext \<times> int) list" where
  "limits_from lower [] limits = limits"
| "limits_from lower (e # es) limits =
     (case entry_bound e of
        None \<Rightarrow> limits_from lower es limits
      | Some n \<Rightarrow>
          if map_of limits (entry_key lower e) \<noteq> None then limits_from lower es limits
          else limits_from lower es (limits @ [(entry_key lower e, n)]))"

definition slot_limits_by_endpoint ::
  "(jtext \<Rightarrow> jtext) \<Rightarrow> slot_entry list option \<Rightarrow> (jtext \<times> int) list option" where
  "slot_limits_by_endpoint lower entries =
     (case entries of
        None \<Rightarrow> None
      | Some es \<Rightarrow>
          if es = [] then None
          else let limits = limits_from lower es [] in if limits \<noteq> [] then Some limits else None)"

section \<open>The registry\<close>

datatype slot_gate = Bounded bounded_gate | Uncapped uncapped_gate

definition create_gate :: "js_number option \<Rightarrow> bool \<Rightarrow> slot_gate" where
  "create_gate limit has_admission =
     (case limit of
        Some (Finite r) \<Rightarrow>
          if r \<le> 0 then Uncapped (new_uncapped has_admission) else Bounded (new_bounded r has_admission)
      | _ \<Rightarrow> Uncapped (new_uncapped has_admission))"

fun gate_active :: "slot_gate \<Rightarrow> nat" where
  "gate_active (Bounded g) = b_running g"
| "gate_active (Uncapped g) = u_running g"

record gate_registry =
  r_limit :: "js_number option"
  r_limits :: "(jtext \<times> js_number) list option"
  r_admission :: "jtext \<Rightarrow> bool"
  r_gates :: "(jtext \<times> slot_gate) list"

definition bound_for :: "jtext \<Rightarrow> gate_registry \<Rightarrow> js_number option" where
  "bound_for key r =
     (case (case r_limits r of None \<Rightarrow> None | Some ls \<Rightarrow> map_of ls key) of
        Some n \<Rightarrow> Some n
      | None \<Rightarrow> r_limit r)"

definition for_key :: "jtext \<Rightarrow> gate_registry \<Rightarrow> slot_gate \<times> gate_registry" where
  "for_key key r =
     (case map_of (r_gates r) key of
        Some g \<Rightarrow> (g, r)
      | None \<Rightarrow>
          let g = create_gate (bound_for key r) (r_admission r key)
          in (g, r\<lparr>r_gates := r_gates r @ [(key, g)]\<rparr>))"

definition registry_active :: "gate_registry \<Rightarrow> nat" where
  "registry_active r = foldl (\<lambda>total kg. total + gate_active (snd kg)) 0 (r_gates r)"

text \<open>A call on the gate of an endpoint: \<open>registry.for(key).run(...)\<close> and what follows it.\<close>

fun gate_step :: "gate_event + uncapped_event \<Rightarrow> slot_gate \<Rightarrow> slot_gate" where
  "gate_step (Inl e) (Bounded g) = Bounded (bounded_step e g)"
| "gate_step (Inr e) (Uncapped g) = Uncapped (uncapped_step e g)"
| "gate_step _ g = g"

definition on_endpoint :: "jtext \<times> (gate_event + uncapped_event) \<Rightarrow> gate_registry \<Rightarrow> gate_registry" where
  "on_endpoint ke r =
     (let (g, r1) = for_key (fst ke) r
      in r1\<lparr>r_gates := AList.update (fst ke) (gate_step (snd ke) g) (r_gates r1)\<rparr>)"

definition new_registry ::
  "js_number option \<Rightarrow> (jtext \<times> js_number) list option \<Rightarrow> (jtext \<Rightarrow> bool) \<Rightarrow> gate_registry" where
  "new_registry limit limits admission =
     \<lparr>r_limit = limit, r_limits = limits, r_admission = admission, r_gates = []\<rparr>"

section \<open>The bounded gate as a queue\<close>

text \<open>What the gate promises: a line of agents of which the first \<open>n\<close> run.\<close>

inductive line_step :: "nat \<Rightarrow> nat list \<Rightarrow> nat list \<Rightarrow> bool" for n where
  arrive: "line_step n line (line @ [i])"
| leave: "i \<in> set (take n line) \<Longrightarrow> line_step n line (remove1 i line)"

definition line_of :: "bounded_gate \<Rightarrow> nat list" where
  "line_of g = b_holders g @ b_waiting g"

definition bounded_ok :: "bounded_gate \<Rightarrow> bool" where
  "bounded_ok g = (1 \<le> b_bound g \<and> b_running g = length (b_holders g) \<and> b_running g \<le> b_bound g \<and>
     (b_waiting g \<noteq> [] \<longrightarrow> b_running g = b_bound g))"

lemma bound_of_pos: "1 \<le> bound_of r"
  by (simp add: bound_of_def le_max_iff_disj nat_le_iff)

lemma bounded_ok_new: "bounded_ok (new_bounded limit a)"
  using bound_of_pos by (simp add: bounded_ok_def new_bounded_def)

lemma bounded_ok_enter: "bounded_ok g \<Longrightarrow> bounded_ok (enter_gate i g)"
  by (auto simp: bounded_ok_def enter_gate_def)

lemma Suc_length_remove1: "i \<in> set xs \<Longrightarrow> Suc (length (remove1 i xs)) = length xs"
  by (induction xs) auto

lemma bounded_ok_end: "bounded_ok g \<Longrightarrow> i \<in> set (b_holders g) \<Longrightarrow> bounded_ok (end_bounded i g)"
  using Suc_length_remove1 [of i "b_holders g"]
  by (cases "b_waiting g") (auto simp: bounded_ok_def end_bounded_def release_slot_def Let_def)

lemma bounded_ok_step: "bounded_ok g \<Longrightarrow> bounded_ok (bounded_step e g)"
proof (cases e)
  case (RunTask i nested)
  assume ok: "bounded_ok g"
  from bounded_ok_enter [OF this, of i] ok RunTask show ?thesis
    by (auto simp: run_bounded_def bounded_ok_def)
next
  case (AdmissionGranted i)
  assume ok: "bounded_ok g"
  then have "bounded_ok (g\<lparr>b_asking := remove1 i (b_asking g)\<rparr>)" by (auto simp: bounded_ok_def)
  from bounded_ok_enter [OF this] ok AdmissionGranted show ?thesis by (simp add: bounded_admitted_def)
next
  case (EndTask i)
  assume ok: "bounded_ok g"
  with EndTask show ?thesis by (auto simp: bounded_ok_end) (auto simp: bounded_ok_def)
qed (auto simp: bounded_ok_def)

interpretation bounded: invariant_machine bounded_step bounded_ok
  by unfold_locales (rule bounded_ok_step)

lemma bound_kept: "b_bound (bounded_step e g) = b_bound g"
  by (cases e) (auto simp: run_bounded_def bounded_admitted_def enter_gate_def end_bounded_def
      release_slot_def Let_def split: list.split)

lemma run_bound_kept: "b_bound (fold bounded_step es g) = b_bound g"
  by (induction es arbitrary: g) (simp_all add: bound_kept)

lemma line_enter: "bounded_ok g \<Longrightarrow> line_of (enter_gate i g) = line_of g @ [i]"
  by (auto simp: line_of_def enter_gate_def bounded_ok_def)

lemma line_end:
  "i \<in> set (b_holders g) \<Longrightarrow> line_of (end_bounded i g) = remove1 i (line_of g)"
  by (auto simp: line_of_def end_bounded_def release_slot_def Let_def remove1_append split: list.split)

lemma line_step_bounded:
  assumes "bounded_ok g"
  shows "line_of (bounded_step e g) = line_of g \<or> line_step (b_bound g) (line_of g) (line_of (bounded_step e g))"
proof (cases e)
  case (RunTask i nested)
  with line_enter [OF assms, of i] arrive [of "b_bound g" "line_of g" i] show ?thesis
    by (auto simp: run_bounded_def line_of_def)
next
  case (AdmissionGranted i)
  let ?g = "g\<lparr>b_asking := remove1 i (b_asking g)\<rparr>"
  have "bounded_ok ?g" "line_of ?g = line_of g" using assms by (auto simp: bounded_ok_def line_of_def)
  with line_enter [of ?g i] arrive [of "b_bound g" "line_of g" i] AdmissionGranted show ?thesis
    by (auto simp: bounded_admitted_def)
next
  case (EndTask i)
  have "line_step (b_bound g) (line_of g) (line_of (end_bounded i g))" if "i \<in> set (b_holders g)"
    unfolding line_end [OF that] using that assms
    by (intro leave) (auto simp: line_of_def bounded_ok_def)
  with EndTask show ?thesis by (auto simp: line_of_def)
qed (simp add: line_of_def)


section \<open>One agent trying at a time\<close>

definition uncapped_ok :: "uncapped_gate \<Rightarrow> bool" where
  "uncapped_ok g = (length (u_probe g) = (if u_probing g then 1 else 0) \<and>
     (u_probe_waiters g \<noteq> [] \<longrightarrow> u_probing g) \<and>
     set (u_probe g) \<subseteq> set (u_handed g) \<union> set (u_asking g) \<union> set (u_active g) \<and>
     u_running g = length (u_active g) + length (u_nested g))"

lemma uncapped_ok_ask:
  "uncapped_ok g \<Longrightarrow> uncapped_ok (ask_uncapped i g)"
  by (auto simp: uncapped_ok_def ask_uncapped_def start_uncapped_def)

lemma singleton_of: "length xs = Suc 0 \<Longrightarrow> i \<in> set xs \<Longrightarrow> xs = [i]"
  by (cases xs) auto

lemma remaining_after_remove1: "x \<in> set xs \<Longrightarrow> x \<notin> set (remove1 i xs) \<Longrightarrow> x = i"
  by (induction xs) (auto split: if_splits)

lemma uncapped_ok_admitted:
  assumes "length (u_probe g) = (if u_probing g then 1 else 0)"
    and "u_probe_waiters g \<noteq> [] \<longrightarrow> u_probing g"
    and "set (u_probe g) \<subseteq> insert i (set (u_handed g) \<union> set (u_asking g) \<union> set (u_active g))"
    and "u_running g = length (u_active g) + length (u_nested g)"
  shows "uncapped_ok (admitted_uncapped i g)"
proof (cases "i \<in> set (u_probe g)")
  case True
  then have "u_probe g = [i]" "u_probing g"
    using assms(1) by (auto split: if_splits dest: singleton_of)
  with assms show ?thesis
    by (auto simp: admitted_uncapped_def release_probe_def uncapped_ok_def split: list.split)
next
  case False
  with assms show ?thesis by (auto simp: admitted_uncapped_def uncapped_ok_def)
qed

lemma uncapped_ok_step: "uncapped_ok g \<Longrightarrow> uncapped_ok (uncapped_step e g)"
proof (cases e)
  case (URunTask i nested)
  assume "uncapped_ok g"
  with URunTask show ?thesis by (auto simp: run_uncapped_def uncapped_ok_def)
next
  case (UPaced i paced)
  assume ok: "uncapped_ok g"
  let ?g = "g\<lparr>u_pacing := remove1 i (u_pacing g)\<rparr>"
  have "uncapped_ok ?g" using ok by (auto simp: uncapped_ok_def)
  moreover have "uncapped_ok (ask_uncapped i (?g\<lparr>u_probing := True, u_probe := u_probe g @ [i]\<rparr>))"
    if "\<not> u_probing g" using that ok
    by (auto simp: ask_uncapped_def start_uncapped_def uncapped_ok_def)
  moreover have "uncapped_ok (?g\<lparr>u_probe_waiters := u_probe_waiters g @ [i]\<rparr>)" if "u_probing g"
    using that ok by (auto simp: uncapped_ok_def)
  ultimately show ?thesis
    using ok UPaced by (auto simp: paced_answer_def Let_def uncapped_ok_ask)
next
  case (UTakeUp i)
  assume "uncapped_ok g"
  then show ?thesis
    using UTakeUp by (auto simp: take_up_probe_def ask_uncapped_def start_uncapped_def uncapped_ok_def
        split: if_splits)
next
  case (UGranted i)
  assume "uncapped_ok g"
  then show ?thesis
    using UGranted by (auto simp: granted_uncapped_def start_uncapped_def uncapped_ok_def split: if_splits)
next
  case (UAdmitted i)
  assume ok: "uncapped_ok g"
  then have "uncapped_ok (admitted_uncapped i g)"
    by (intro uncapped_ok_admitted) (auto simp: uncapped_ok_def)
  with ok UAdmitted show ?thesis by simp
next
  case (UEndTask i)
  assume ok: "uncapped_ok g"
  have "uncapped_ok (end_uncapped i g)" if "i \<in> set (u_active g)"
    unfolding end_uncapped_def
    using ok that Suc_length_remove1 [OF that]
    by (intro uncapped_ok_admitted) (auto simp: uncapped_ok_def dest: remaining_after_remove1)
  moreover have "uncapped_ok (end_nested i g)" if "i \<in> set (u_nested g)"
    using ok Suc_length_remove1 [OF that] by (auto simp: end_nested_def uncapped_ok_def)
  ultimately show ?thesis using ok UEndTask by simp
qed

interpretation uncapped: invariant_machine uncapped_step uncapped_ok
  by unfold_locales (rule uncapped_ok_step)

lemma uncapped_ok_new: "uncapped_ok (new_uncapped a)"
  by (simp add: uncapped_ok_def new_uncapped_def)


section \<open>Parallel delegation\<close>

text \<open>What a node adds: nothing when it is off.\<close>

fun node_room :: "js_number \<Rightarrow> rat" where
  "node_room (Finite r) = max 0 r"
| "node_room _ = 0"

lemma node_room_nonneg: "0 \<le> node_room c"
  by (cases c) auto

lemma no_positive_sum:
  "\<not> (\<exists>c \<in> set cs. positive_finite c) \<Longrightarrow>
    sum_list (map node_room cs) = 0"
  proof (induction cs)
  case (Cons c cs)
  then show ?case by (cases c) auto
qed simp

lemma nodes_allow_from_sum:
  "nodes_allow_from acc cs = (PlusInfinity \<in> set cs \<or>
     (acc + sum_list (map node_room cs) > 1 \<and>
      (\<exists>c \<in> set cs. positive_finite c)))"
  if "acc \<le> 1"
  using that
proof (induction acc cs rule: nodes_allow_from.induct)
  case (2 acc c cs)
  have nonneg: "0 \<le> sum_list (map node_room cs)"
    by (rule sum_list_nonneg) (auto simp: node_room_nonneg)
  note none = no_positive_sum [of cs]
  show ?case
  proof (cases c)
    case (Finite r)
    with 2 nonneg none show ?thesis
      by (cases "r \<le> 0"; cases "acc + r > 1") (auto simp: max_def)
  qed (use 2 in auto)
qed simp

text \<open>
  Delegation is offered exactly where two agents can run beside one another: the session's
  endpoint has no count, or a count that is no bound, or more than one slot; or some node admits
  without bound; or the capacities of the nodes that are on add up to more than one.
\<close>

theorem delegation_parallel_iff:
  "delegation_can_run_in_parallel limit nodes \<longleftrightarrow>
    \<not> (\<exists>r. limit = Some (Finite r) \<and> 0 < r \<and> r \<le> 1) \<or>
    (\<exists>cs. nodes = Some cs \<and> (PlusInfinity \<in> set cs \<or>
       1 < sum_list (map node_room cs)))"
proof -
  have slots: "slots_allow_parallel limit \<longleftrightarrow> \<not> (\<exists>r. limit = Some (Finite r) \<and> 0 < r \<and> r \<le> 1)"
    by (auto simp: slots_allow_parallel_def split: option.splits js_number.splits)
  have some: "\<exists>c \<in> set cs. positive_finite c"
    if "1 < sum_list (map node_room cs)" for cs
    using that no_positive_sum [of cs] by auto
  have "nodes_allow_parallel nodes \<longleftrightarrow> (\<exists>cs. nodes = Some cs \<and> (PlusInfinity \<in> set cs \<or>
      1 < sum_list (map node_room cs)))"
    using some by (cases nodes) (auto simp: nodes_allow_parallel_def nodes_allow_from_sum)
  with slots show ?thesis unfolding delegation_can_run_in_parallel_def by argo
qed

section \<open>Bounds by endpoint\<close>

lemma limits_from_lookup:
  "map_of (limits_from lower es limits) key =
    (case map_of limits key of
       Some n \<Rightarrow> Some n
     | None \<Rightarrow> (case find (\<lambda>e. entry_bound e \<noteq> None \<and> entry_key lower e = key) es of
                 None \<Rightarrow> None | Some e \<Rightarrow> entry_bound e))"
  by (induction es arbitrary: limits) (auto split: option.splits)

text \<open>
  The bound of an endpoint is the floor of the first entry that names it, under any spelling
  with the same key, and has a finite limit that is not negative; an endpoint no such entry names
  has none.
\<close>

theorem first_entry_wins:
  "opt_default [] (slot_limits_by_endpoint lower (Some es)) = limits_from lower es [] \<and>
   map_of (opt_default [] (slot_limits_by_endpoint lower (Some es))) key =
     (case find (\<lambda>e. entry_bound e \<noteq> None \<and> entry_key lower e = key) es of
        None \<Rightarrow> None | Some e \<Rightarrow> entry_bound e)"
  using limits_from_lookup [of lower es "[]" key]
  by (auto simp: slot_limits_by_endpoint_def Let_def)

section \<open>The registry\<close>

definition gate_ok :: "js_number option \<Rightarrow> slot_gate \<Rightarrow> bool" where
  "gate_ok limit g =
     (\<forall>r. limit = Some (Finite r) \<longrightarrow> 0 < r \<longrightarrow>
        (\<exists>b. g = Bounded b \<and> bounded_ok b \<and> b_bound b = bound_of r))"

definition registry_ok :: "gate_registry \<Rightarrow> bool" where
  "registry_ok r = (distinct (map fst (r_gates r)) \<and>
     (\<forall>(key, g) \<in> set (r_gates r). gate_ok (bound_for key r) g))"

lemma gate_ok_create: "gate_ok limit (create_gate limit a)"
  by (auto simp: gate_ok_def create_gate_def bounded_ok_new) (simp add: new_bounded_def)

lemma gate_ok_step: "gate_ok limit g \<Longrightarrow> gate_ok limit (gate_step e g)"
  by (cases "(e, g)" rule: gate_step.cases) (auto simp: gate_ok_def bounded_ok_step bound_kept)

lemma bound_for_gates: "bound_for key (r\<lparr>r_gates := gs\<rparr>) = bound_for key r"
  by (simp add: bound_for_def split: option.split)

lemma in_update: "(k, v) \<in> set (AList.update a b xs) \<Longrightarrow> k = a \<and> v = b \<or> (k, v) \<in> set xs"
  by (induction xs) (auto split: if_splits)

lemma for_key_facts:
  assumes "registry_ok r" and "for_key key r = (g, r1)"
  shows "registry_ok r1" and "gate_ok (bound_for key r) g" and "bound_for k r1 = bound_for k r"
    and "map_of (r_gates r1) key = Some g"
proof -
  show "registry_ok r1" "gate_ok (bound_for key r) g" "bound_for k r1 = bound_for k r"
    "map_of (r_gates r1) key = Some g"
    using assms gate_ok_create
    by (auto simp: for_key_def registry_ok_def Let_def bound_for_gates map_add_def
        split: option.splits dest: map_of_SomeD weak_map_of_SomeI)
qed

lemma registry_ok_step: "registry_ok r \<Longrightarrow> registry_ok (on_endpoint ke r)"
proof -
  assume ok: "registry_ok r"
  obtain g r1 where fk: "for_key (fst ke) r = (g, r1)" by fastforce
  note facts = for_key_facts [OF ok fk]
  have "gate_ok (bound_for (fst ke) r1) (gate_step (snd ke) g)"
    using facts(2,3) gate_ok_step by simp
  then show ?thesis
    using facts(1) fk
    by (auto simp: on_endpoint_def registry_ok_def bound_for_gates distinct_update dest!: in_update)
qed

interpretation registry: invariant_machine on_endpoint registry_ok
  by unfold_locales (rule registry_ok_step)

text \<open>
  However many agents ask for an endpoint, through whatever calls on any endpoints, no more run
  there than its own bound: the bound the host gave for its key, else the session's.
\<close>

theorem endpoint_bound_holds:
  assumes "map_of (r_gates (fold on_endpoint es (new_registry limit limits admission))) key = Some g"
    and "bound_for key (fold on_endpoint es (new_registry limit limits admission)) = Some (Finite r)"
    and "0 < r"
  shows "gate_active g \<le> bound_of r"
proof -
  have "registry_ok (fold on_endpoint es (new_registry limit limits admission))"
    by (rule registry.run_inv) (simp add: registry_ok_def new_registry_def)
  from this [unfolded registry_ok_def, THEN conjunct2, THEN bspec, OF map_of_SomeD [OF assms(1)]]
  have "gate_ok (Some (Finite r)) g" by (simp only: prod.case assms(2))
  with assms(3) obtain b where "g = Bounded b" "bounded_ok b" "b_bound b = bound_of r"
    by (auto simp: gate_ok_def)
  then show ?thesis by (auto simp: bounded_ok_def)
qed

theorem endpoint_bound_holds_witness:
  "gate_active (fst (for_key [] (fold on_endpoint [([], Inl (RunTask 1 False)), ([], Inl (RunTask 2 False))]
     (new_registry (Some (Finite 1)) None (\<lambda>_. False))))) \<le> 1"
proof -
  let ?r = "fold on_endpoint [([], Inl (RunTask 1 False)), ([], Inl (RunTask 2 False))]
     (new_registry (Some (Finite 1)) None (\<lambda>_. False))"
  have r: "bound_for [] ?r = Some (Finite 1)" "map_of (r_gates ?r) [] \<noteq> None"
    by (simp_all add: on_endpoint_def for_key_def new_registry_def bound_for_def Let_def)
  then obtain g where g: "map_of (r_gates ?r) [] = Some g" by blast
  from endpoint_bound_holds [OF g r(1)] g show ?thesis
    by (simp only: for_key_def option.case fst_conv) (simp add: bound_of_def)
qed

end
