(* ===== verification/Mistakes.thy ===== *)
theory Mistakes
  imports Text
begin

text \<open>
  The consecutive-mistake tracker of a session:
  \<open>sdk/packages/core/src/runtime/safety/mistake-tracker.ts\<close>. \<open>record\<close> is split at its await of the
  host's decision, which is an argument; what is emitted, logged, reported and noted is written to
  the tracker.
\<close>

datatype mistake_reason = ApiError | InvalidToolCall | ToolExecutionFailed

definition reason_text :: "mistake_reason \<Rightarrow> jtext" where
  "reason_text r = (case r of
     ApiError \<Rightarrow> js ''api_error''
   | InvalidToolCall \<Rightarrow> js ''invalid_tool_call''
   | ToolExecutionFailed \<Rightarrow> js ''tool_execution_failed'')"

record mistake_input =
  mi_iteration :: nat
  mi_reason :: mistake_reason
  mi_details :: "jtext option"
  mi_force :: bool

datatype mistake_outcome = ContinueRun "jtext option" | StopRun jtext "jtext option"

record limit_context =
  lc_iteration :: nat
  lc_count :: nat
  lc_max :: nat
  lc_reason :: mistake_reason
  lc_details :: "jtext option"
  lc_forced :: bool

datatype limit_decision = DecideContinue "jtext option" | DecideStop "jtext option"

text \<open>The host's callback: absent, a decision, an \<open>Error\<close> with a message, something else thrown.\<close>

datatype callback_result = NoCallback | Decides limit_decision | ThrowsError jtext | ThrowsOther

record mistake_tracker =
  mt_max :: nat
  mt_count :: nat
  mt_errors :: "(jtext \<times> nat) list"
  mt_telemetry :: "limit_context list"
  mt_notices :: "(jtext \<times> mistake_reason) list"

definition new_tracker :: "nat \<Rightarrow> mistake_tracker" where
  "new_tracker n = \<lparr>mt_max = n, mt_count = 0, mt_errors = [], mt_telemetry = [], mt_notices = []\<rparr>"

text \<open>\<open>text?.trim()\<close>, taken as absent when empty.\<close>

definition trimmed :: "jtext option \<Rightarrow> jtext option" where
  "trimmed t = (case t of None \<Rightarrow> None | Some u \<Rightarrow> if trim u = [] then None else Some (trim u))"

definition error_message :: "mistake_input \<Rightarrow> jtext" where
  "error_message inp =
     opt_default (js ''consecutive mistake ('' @ reason_text (mi_reason inp) @ js '')'') (trimmed (mi_details inp))"

text \<open>\<open>record\<close>: an outcome at once, or the decision to ask for.\<close>

definition record_begin :: "mistake_input \<Rightarrow> mistake_tracker \<Rightarrow> limit_context option \<times> mistake_tracker" where
  "record_begin inp t =
     (let forced = (mi_force inp \<and> mt_max t \<noteq> 0);
          count = Suc (mt_count t);
          t1 = t\<lparr>mt_count := count, mt_errors := mt_errors t @ [(error_message inp, mi_iteration inp)]\<rparr>
      in if mt_max t = 0 \<or> (\<not> forced \<and> count < mt_max t) then (None, t1)
         else let ctx = \<lparr>lc_iteration = mi_iteration inp, lc_count = count, lc_max = mt_max t,
                         lc_reason = mi_reason inp, lc_details = mi_details inp, lc_forced = forced\<rparr>
              in (Some ctx, t1\<lparr>mt_telemetry := mt_telemetry t1 @ [ctx]\<rparr>))"

definition max_reached :: "nat \<Rightarrow> jtext" where
  "max_reached n = js ''maximum consecutive mistakes reached ('' @ decimal n @ js '')''"

definition resolve_decision :: "limit_context \<Rightarrow> callback_result \<Rightarrow> limit_decision" where
  "resolve_decision ctx cb =
     (case cb of
        NoCallback \<Rightarrow>
          DecideStop (Some (if lc_forced ctx
            then js ''repeated-call loop guard stopped the run at iteration '' @ decimal (lc_iteration ctx)
            else max_reached (lc_max ctx)))
      | Decides d \<Rightarrow> d
      | ThrowsError message \<Rightarrow> DecideStop (Some message)
      | ThrowsOther \<Rightarrow> DecideStop (Some (max_reached (lc_max ctx))))"

fun join_spaces :: "jtext list \<Rightarrow> jtext" where
  "join_spaces [] = []"
| "join_spaces [p] = p"
| "join_spaces (p # ps) = p @ 32 # join_spaces ps"

definition count_text :: "limit_context \<Rightarrow> jtext" where
  "count_text ctx = decimal (lc_count ctx) @ js ''/'' @ decimal (lc_max ctx)"

definition stop_message :: "limit_context \<Rightarrow> jtext option \<Rightarrow> jtext" where
  "stop_message ctx stop_reason =
     join_spaces
       ([if lc_forced ctx
         then js ''Stopped at iteration '' @ decimal (lc_iteration ctx) @ js '' ('' @
           reason_text (lc_reason ctx) @ js ''), with '' @ count_text ctx @
           js '' consecutive mistakes recorded.''
         else js ''Stopped after '' @ count_text ctx @ js '' consecutive mistakes ('' @
           reason_text (lc_reason ctx) @ js '') at iteration '' @ decimal (lc_iteration ctx) @ js ''.''] @
        (case trimmed (lc_details ctx) of None \<Rightarrow> [] | Some d \<Rightarrow> [js ''Error: '' @ d]) @
        (case trimmed stop_reason of None \<Rightarrow> [] | Some r \<Rightarrow> [js ''Decision: '' @ r]) @
        [js ''Session state was preserved. Send a new prompt to resume from the latest state.''])"

text \<open>
  The rest of \<open>record\<close>. A guidance of spaces only is returned as the empty text, and leaves no
  notice.
\<close>

definition record_end :: "limit_context \<Rightarrow> callback_result \<Rightarrow> mistake_tracker \<Rightarrow> mistake_outcome \<times> mistake_tracker" where
  "record_end ctx cb t =
     (case resolve_decision ctx cb of
        DecideContinue guidance \<Rightarrow>
          let guidance = map_option trim guidance;
              t1 = (case guidance of
                      Some g \<Rightarrow> if g = [] then t else t\<lparr>mt_notices := mt_notices t @ [(g, lc_reason ctx)]\<rparr>
                    | None \<Rightarrow> t)
          in (ContinueRun guidance, t1\<lparr>mt_count := 0\<rparr>)
      | DecideStop reason \<Rightarrow> (StopRun (stop_message ctx reason) (trimmed reason), t))"

definition record_mistake ::
  "(limit_context \<Rightarrow> callback_result) \<Rightarrow> mistake_input \<Rightarrow> mistake_tracker \<Rightarrow> mistake_outcome \<times> mistake_tracker" where
  "record_mistake host inp t =
     (case record_begin inp t of
        (None, t1) \<Rightarrow> (ContinueRun None, t1)
      | (Some ctx, t1) \<Rightarrow> record_end ctx (host ctx) t1)"

definition reset_tracker :: "mistake_tracker \<Rightarrow> mistake_tracker" where
  "reset_tracker t = t\<lparr>mt_count := 0\<rparr>"

definition tracker_value :: "mistake_tracker \<Rightarrow> nat" where
  "tracker_value t = mt_count t"

section \<open>What the count is\<close>

datatype turn = Mistake mistake_input | Success

text \<open>A run of turns, each mistake recorded to its end before the next turn.\<close>

fun turns :: "(limit_context \<Rightarrow> callback_result) \<Rightarrow> turn list \<Rightarrow> mistake_tracker \<Rightarrow> mistake_outcome list \<times> mistake_tracker" where
  "turns host [] t = ([], t)"
| "turns host (Success # ts) t = turns host ts (reset_tracker t)"
| "turns host (Mistake inp # ts) t =
     (let (r, t1) = record_mistake host inp t; (rs, t2) = turns host ts t1 in (r # rs, t2))"

lemmas mistake_defs = record_mistake_def record_begin_def record_end_def reset_tracker_def Let_def

lemma record_under_limit:
  "\<not> mi_force inp \<Longrightarrow> Suc (mt_count t) < mt_max t \<Longrightarrow>
    record_mistake host inp t =
      (ContinueRun None, t\<lparr>mt_count := Suc (mt_count t),
         mt_errors := mt_errors t @ [(error_message inp, mi_iteration inp)]\<rparr>)"
  by (simp add: mistake_defs)

lemma record_max: "mt_max (snd (record_mistake host inp t)) = mt_max t"
  by (auto simp: mistake_defs split: limit_decision.split option.split)

definition unforced :: "turn \<Rightarrow> bool" where
  "unforced u = (case u of Mistake inp \<Rightarrow> \<not> mi_force inp | Success \<Rightarrow> True)"

text \<open>The longest streak of mistakes at the end of some turns.\<close>

fun streak_from :: "nat \<Rightarrow> turn list \<Rightarrow> nat list" where
  "streak_from n [] = []"
| "streak_from n (Success # ts) = streak_from 0 ts"
| "streak_from n (Mistake inp # ts) = Suc n # streak_from (Suc n) ts"

lemma streak_under_limit:
  "\<forall>u \<in> set ts. unforced u \<Longrightarrow> \<forall>k \<in> set (streak_from (mt_count t) ts). k < mt_max t \<Longrightarrow>
    fst (turns host ts t) = replicate (length (streak_from (mt_count t) ts)) (ContinueRun None) \<and>
    mt_telemetry (snd (turns host ts t)) = mt_telemetry t"
proof (induction host ts t rule: turns.induct)
  case (2 host ts t)
  then show ?case by (simp add: reset_tracker_def)
next
  case (3 host inp ts t)
  let ?t = "t\<lparr>mt_count := Suc (mt_count t), mt_errors := mt_errors t @ [(error_message inp, mi_iteration inp)]\<rparr>"
  have r: "record_mistake host inp t = (ContinueRun None, ?t)"
    using 3(2,3) by (intro record_under_limit) (simp_all add: unforced_def)
  have "fst (turns host ts ?t) = replicate (length (streak_from (Suc (mt_count t)) ts)) (ContinueRun None) \<and>
      mt_telemetry (snd (turns host ts ?t)) = mt_telemetry t"
    using 3(1) [OF r [symmetric] refl] 3(2,3) by simp
  with r show ?case by (auto simp: case_prod_unfold)
qed simp

text \<open>
  A session is never stopped, and its host never asked, while no streak of mistakes reaches the
  limit: the count is the mistakes since the last success, a success starts it again, and every
  mistake before the limit just goes on.
\<close>

theorem under_limit_continues:
  assumes "\<forall>u \<in> set ts. unforced u" and "\<forall>k \<in> set (streak_from 0 ts). k < n"
  shows "fst (turns host ts (new_tracker n)) = replicate (length (streak_from 0 ts)) (ContinueRun None) \<and>
    mt_telemetry (snd (turns host ts (new_tracker n))) = []"
  using streak_under_limit [of ts "new_tracker n" host] assms by (simp add: new_tracker_def)

definition slip :: turn where
  "slip = Mistake \<lparr>mi_iteration = 1, mi_reason = ApiError, mi_details = None, mi_force = False\<rparr>"

theorem under_limit_continues_witness:
  "fst (turns (\<lambda>_. NoCallback) [slip, Success, slip] (new_tracker 2)) = [ContinueRun None, ContinueRun None]"
  using under_limit_continues [of "[slip, Success, slip]" 2 "\<lambda>_. NoCallback"]
  by (simp add: slip_def unforced_def)

text \<open>
  A mistake that reaches the limit, or that is forced, is put to the host once: without a
  decision to go on the run stops, and the message counts the mistakes there were (a forced stop
  does not pretend the limit was reached); with one the count starts again, and the next stop needs
  a full streak. Without a limit nothing is ever forced.
\<close>

theorem at_limit_decides:
  fixes t :: mistake_tracker
  assumes "mt_max t \<noteq> 0" and "mi_force inp \<or> mt_max t \<le> Suc (mt_count t)"
  defines "ctx \<equiv> \<lparr>lc_iteration = mi_iteration inp, lc_count = Suc (mt_count t), lc_max = mt_max t,
      lc_reason = mi_reason inp, lc_details = mi_details inp, lc_forced = mi_force inp\<rparr>"
  shows "mt_telemetry (snd (record_mistake host inp t)) = mt_telemetry t @ [ctx] \<and>
    (case resolve_decision ctx (host ctx) of
       DecideStop reason \<Rightarrow> record_mistake host inp t =
         (StopRun (stop_message ctx reason) (trimmed reason),
          t\<lparr>mt_count := Suc (mt_count t),
            mt_errors := mt_errors t @ [(error_message inp, mi_iteration inp)],
            mt_telemetry := mt_telemetry t @ [ctx]\<rparr>)
     | DecideContinue guidance \<Rightarrow>
         fst (record_mistake host inp t) = ContinueRun (map_option trim guidance) \<and>
         mt_count (snd (record_mistake host inp t)) = 0)"
  using assms by (auto simp: mistake_defs ctx_def split: limit_decision.split option.split)

theorem at_limit_decides_witness:
  "mt_count (snd (record_mistake (\<lambda>_. Decides (DecideContinue None))
     \<lparr>mi_iteration = 1, mi_reason = ApiError, mi_details = None, mi_force = True\<rparr> (new_tracker 6))) = 0"
  using at_limit_decides [of "new_tracker 6"
      "\<lparr>mi_iteration = 1, mi_reason = ApiError, mi_details = None, mi_force = True\<rparr>"
      "\<lambda>_. Decides (DecideContinue None)"]
  by (simp add: new_tracker_def resolve_decision_def)

end
