(* ===== verification/FileLocks.thy ===== *)
theory FileLocks
  imports Prelude
begin

text \<open>
  Serialising this process's writers of a file:
  \<open>sdk/packages/core/src/extensions/tools/executors/file-locks.ts\<close>. A lock is a chain of
  promises; a promise is named here by the call that made it. \<open>lock_key\<close> is a parameter (lower
  case on Windows, else the path itself).
\<close>

datatype lock_phase = LockWaiting | LockRunning | LockDone

text \<open>
  \<open>l_queues\<close> is the map of tails. \<open>l_ahead\<close> is the promise a call is chained to, \<open>None\<close> a
  resolved one; \<open>l_checks\<close> are the tails a finished call has asked to be told of. \<open>l_line\<close> is the
  history: the calls for a key in order of arrival.
\<close>

record ('k, 'i) file_locks =
  l_queues :: "'k \<Rightarrow> 'i option"
  l_ahead :: "'i \<Rightarrow> 'i option"
  l_phase :: "'i \<Rightarrow> lock_phase option"
  l_key :: "'i \<Rightarrow> 'k option"
  l_checks :: "('k \<times> 'i) list"
  l_line :: "'k \<Rightarrow> 'i list"

definition no_locks :: "('k, 'i) file_locks" where
  "no_locks = \<lparr>l_queues = (\<lambda>_. None), l_ahead = (\<lambda>_. None), l_phase = (\<lambda>_. None), l_key = (\<lambda>_. None),
     l_checks = [], l_line = (\<lambda>_. [])\<rparr>"

text \<open>\<open>withFileLock\<close> up to its await.\<close>

definition with_file_lock :: "('p \<Rightarrow> 'k) \<Rightarrow> 'p \<Rightarrow> 'i \<Rightarrow> ('k, 'i) file_locks \<Rightarrow> ('k, 'i) file_locks" where
  "with_file_lock lock_key path i s =
     (let key = lock_key path
      in s\<lparr>l_ahead := (l_ahead s)(i := l_queues s key), l_queues := (l_queues s)(key := Some i),
           l_phase := (l_phase s)(i := Some LockWaiting), l_key := (l_key s)(i := Some key),
           l_line := (l_line s)(key := l_line s key @ [i])\<rparr>)"

definition is_settled :: "'i option \<Rightarrow> ('k, 'i) file_locks \<Rightarrow> bool" where
  "is_settled p s = (case p of None \<Rightarrow> True | Some j \<Rightarrow> l_phase s j = Some LockDone)"

text \<open>\<open>ahead.then(run, run)\<close>: the work starts once the promise ahead is settled, either way.\<close>

definition start_work :: "'i \<Rightarrow> ('k, 'i) file_locks \<Rightarrow> ('k, 'i) file_locks" where
  "start_work i s =
     (if l_phase s i = Some LockWaiting \<and> is_settled (l_ahead s i) s
      then s\<lparr>l_phase := (l_phase s)(i := Some LockRunning)\<rparr> else s)"

definition finish_work :: "'i \<Rightarrow> ('k, 'i) file_locks \<Rightarrow> ('k, 'i) file_locks" where
  "finish_work i s =
     (if l_phase s i = Some LockRunning then s\<lparr>l_phase := (l_phase s)(i := Some LockDone)\<rparr> else s)"

text \<open>The microtask of \<open>finally\<close>, and what it chains to the tail it found.\<close>

definition ask_cleanup :: "'i \<Rightarrow> ('k, 'i) file_locks \<Rightarrow> ('k, 'i) file_locks" where
  "ask_cleanup i s =
     (case (l_phase s i, l_key s i) of
        (Some LockDone, Some key) \<Rightarrow>
          (case l_queues s key of
             None \<Rightarrow> s
           | Some tail \<Rightarrow> s\<lparr>l_checks := l_checks s @ [(key, tail)]\<rparr>)
      | _ \<Rightarrow> s)"

definition run_cleanup :: "'k \<times> 'i \<Rightarrow> ('k, 'i) file_locks \<Rightarrow> ('k, 'i) file_locks" where
  "run_cleanup c s =
     (if c \<in> set (l_checks s) \<and> l_phase s (snd c) = Some LockDone
      then let s1 = s\<lparr>l_checks := remove1 c (l_checks s)\<rparr>
           in if l_queues s (fst c) = Some (snd c) then s1\<lparr>l_queues := (l_queues s)(fst c := None)\<rparr> else s1
      else s)"

definition is_file_locked :: "('p \<Rightarrow> 'k) \<Rightarrow> 'p \<Rightarrow> ('k, 'i) file_locks \<Rightarrow> bool" where
  "is_file_locked lock_key path s = (l_queues s (lock_key path) \<noteq> None)"

datatype ('p, 'k, 'i) lock_event =
    WithLock 'p 'i
  | StartWork 'i
  | FinishWork 'i
  | AskCleanup 'i
  | RunCleanup "'k \<times> 'i"

fun lock_step :: "('p \<Rightarrow> 'k) \<Rightarrow> ('p, 'k, 'i) lock_event \<Rightarrow> ('k, 'i) file_locks \<Rightarrow> ('k, 'i) file_locks" where
  "lock_step lock_key (WithLock path i) s = (if l_phase s i = None then with_file_lock lock_key path i s else s)"
| "lock_step lock_key (StartWork i) s = start_work i s"
| "lock_step lock_key (FinishWork i) s = finish_work i s"
| "lock_step lock_key (AskCleanup i) s = ask_cleanup i s"
| "lock_step lock_key (RunCleanup c) s = run_cleanup c s"

section \<open>The line of a file\<close>

text \<open>Every call before another that has left the queue is done.\<close>

definition call_ok ::
  "('i \<Rightarrow> lock_phase option) \<Rightarrow> ('i \<Rightarrow> 'i option) \<Rightarrow> 'i list \<Rightarrow> 'i \<Rightarrow> bool" where
  "call_ok phase ahead xs i =
     (phase i \<noteq> None \<and>
      (phase i \<noteq> Some LockWaiting \<longrightarrow> (\<forall>x \<in> set xs. phase x = Some LockDone)) \<and>
      (ahead i = None \<longrightarrow> (\<forall>x \<in> set xs. phase x = Some LockDone)) \<and>
      (\<forall>j. ahead i = Some j \<longrightarrow> xs \<noteq> [] \<and> j = last xs))"

definition line_ok :: "('i \<Rightarrow> lock_phase option) \<Rightarrow> ('i \<Rightarrow> 'i option) \<Rightarrow> 'i list \<Rightarrow> bool" where
  "line_ok phase ahead line = (\<forall>xs i ys. line = xs @ i # ys \<longrightarrow> call_ok phase ahead xs i)"

definition tail_ok :: "('i \<Rightarrow> lock_phase option) \<Rightarrow> 'i option \<Rightarrow> 'i list \<Rightarrow> bool" where
  "tail_ok phase tail line =
     ((tail = None \<longrightarrow> (\<forall>i \<in> set line. phase i = Some LockDone)) \<and>
      (\<forall>t. tail = Some t \<longrightarrow> line \<noteq> [] \<and> t = last line))"

definition locks_ok :: "('k, 'i) file_locks \<Rightarrow> bool" where
  "locks_ok s =
     (\<forall>key. distinct (l_line s key) \<and> line_ok (l_phase s) (l_ahead s) (l_line s key) \<and>
        tail_ok (l_phase s) (l_queues s key) (l_line s key))"

lemma line_okD: "line_ok phase ahead line \<Longrightarrow> line = xs @ i # ys \<Longrightarrow> call_ok phase ahead xs i"
  unfolding line_ok_def by blast

lemma butlast_or_last: "x \<in> set xs \<Longrightarrow> x \<in> set (butlast xs) \<or> x = last xs"
  by (induction xs) auto

lemma last_done:
  assumes "line_ok phase ahead line" and "line = xs @ ys" and "xs \<noteq> []"
    and "phase (last xs) = Some LockDone"
  shows "\<forall>x \<in> set xs. phase x = Some LockDone"
proof -
  have "line = butlast xs @ last xs # ys" using assms(2,3) by simp
  from line_okD [OF assms(1) this] assms(4) butlast_or_last [of _ xs] show ?thesis
    unfolding call_ok_def by fastforce
qed

lemma in_line_known: "line_ok phase ahead line \<Longrightarrow> i \<in> set line \<Longrightarrow> phase i \<noteq> None"
  by (metis call_ok_def in_set_conv_decomp line_okD)

text \<open>A call that goes on: to work, when what it is chained to is settled, or to its end.\<close>

definition may_go ::
  "('i \<Rightarrow> lock_phase option) \<Rightarrow> ('i \<Rightarrow> 'i option) \<Rightarrow> 'i \<Rightarrow> lock_phase \<Rightarrow> bool" where
  "may_go phase ahead i q =
     (q = LockRunning \<and> phase i = Some LockWaiting \<and>
        (\<forall>j. ahead i = Some j \<longrightarrow> phase j = Some LockDone) \<or>
      q = LockDone \<and> phase i = Some LockRunning)"

lemma may_go_before:
  assumes "line_ok phase ahead line" and "line = xs @ i # ys" and "may_go phase ahead i q"
  shows "\<forall>x \<in> set xs. phase x = Some LockDone"
proof (cases "phase i = Some LockWaiting \<and> ahead i \<noteq> None")
  case True
  with assms(3) obtain j where j: "ahead i = Some j" "phase j = Some LockDone"
    by (auto simp: may_go_def)
  with line_okD [OF assms(1,2)] have "xs \<noteq> []" "phase (last xs) = Some LockDone"
    by (auto simp: call_ok_def)
  from last_done [OF assms(1,2) this] show ?thesis .
next
  case False
  then consider "ahead i = None" | "phase i \<noteq> Some LockWaiting" by blast
  then show ?thesis
    using line_okD [OF assms(1,2)] unfolding call_ok_def by cases blast+
qed

lemma line_ok_go:
  assumes "line_ok phase ahead line" and "may_go phase ahead i q"
  shows "line_ok (phase(i := Some q)) ahead line"
  unfolding line_ok_def
proof (intro allI impI)
  fix xs k ys
  assume line: "line = xs @ k # ys"
  have not_done: "phase i \<noteq> Some LockDone" using assms(2) by (auto simp: may_go_def)
  have sub: "\<forall>x \<in> set xs. (phase(i := Some q)) x = Some LockDone"
    if "\<forall>x \<in> set xs. phase x = Some LockDone"
    using that not_done by auto
  show "call_ok (phase(i := Some q)) ahead xs k"
  proof (cases "k = i")
    case True
    from sub [OF may_go_before [OF assms(1) line [unfolded True] assms(2)]]
      line_okD [OF assms(1) line] True show ?thesis
      by (simp add: call_ok_def)
  next
    case False
    with line_okD [OF assms(1) line] sub show ?thesis
      by (simp add: call_ok_def)
  qed
qed

lemma tail_ok_go:
  "tail_ok phase tail line \<Longrightarrow> may_go phase ahead i q \<Longrightarrow> tail_ok (phase(i := Some q)) tail line"
  by (auto simp: tail_ok_def may_go_def)

lemma locks_ok_go:
  "locks_ok s \<Longrightarrow> may_go (l_phase s) (l_ahead s) i q \<Longrightarrow>
    locks_ok (s\<lparr>l_phase := (l_phase s)(i := Some q)\<rparr>)"
  by (simp add: locks_ok_def line_ok_go tail_ok_go)

lemma line_ok_other:
  assumes "line_ok phase ahead line" and "i \<notin> set line"
  shows "line_ok (phase(i := p)) (ahead(i := a)) line"
  unfolding line_ok_def
proof (intro allI impI)
  fix xs k ys
  assume line: "line = xs @ k # ys"
  with assms(2) have "k \<noteq> i" "\<forall>x \<in> set xs. x \<noteq> i" by auto
  with line_okD [OF assms(1) line] show "call_ok (phase(i := p)) (ahead(i := a)) xs k"
    by (simp add: call_ok_def)
qed

lemma line_ok_join:
  assumes "line_ok phase ahead line" and "i \<notin> set line" and "tail_ok phase tail line"
  shows "line_ok (phase(i := Some LockWaiting)) (ahead(i := tail)) (line @ [i])"
  unfolding line_ok_def
proof (intro allI impI)
  fix xs k ys
  assume new: "line @ [i] = xs @ k # ys"
  let ?p = "phase(i := Some LockWaiting)" and ?a = "ahead(i := tail)"
  show "call_ok ?p ?a xs k"
  proof (cases ys rule: rev_cases)
    case Nil
    with new have "xs = line" "k = i" by auto
    with assms show ?thesis by (auto simp: call_ok_def tail_ok_def)
  next
    case (snoc zs z)
    with new have "line = xs @ k # zs" by auto
    from line_okD [OF line_ok_other [OF assms(1,2)] this] show ?thesis .
  qed
qed

lemma tail_ok_other: "tail_ok phase tail line \<Longrightarrow> i \<notin> set line \<Longrightarrow> tail_ok (phase(i := p)) tail line"
  by (auto simp: tail_ok_def)

lemma locks_ok_with:
  assumes "locks_ok s" and "l_phase s i = None"
  shows "locks_ok (with_file_lock lock_key path i s)"
proof -
  have ok: "distinct (l_line s key)" "line_ok (l_phase s) (l_ahead s) (l_line s key)"
    "tail_ok (l_phase s) (l_queues s key) (l_line s key)" for key
    using assms(1) by (auto simp: locks_ok_def)
  have new: "i \<notin> set (l_line s key)" for key
    using in_line_known [OF ok(2)] assms(2) by blast
  show ?thesis
    unfolding locks_ok_def
  proof (intro allI conjI)
    fix key
    show "distinct (l_line (with_file_lock lock_key path i s) key)"
      using ok new by (simp add: with_file_lock_def Let_def)
    show "line_ok (l_phase (with_file_lock lock_key path i s)) (l_ahead (with_file_lock lock_key path i s))
        (l_line (with_file_lock lock_key path i s) key)"
      using line_ok_join [OF ok(2) new ok(3)] line_ok_other [OF ok(2) new]
      by (simp add: with_file_lock_def Let_def)
    show "tail_ok (l_phase (with_file_lock lock_key path i s)) (l_queues (with_file_lock lock_key path i s) key)
        (l_line (with_file_lock lock_key path i s) key)"
      using tail_ok_other [OF ok(3) new] by (simp add: with_file_lock_def Let_def tail_ok_def)
  qed
qed

lemma locks_ok_cleanup:
  assumes "locks_ok s"
  shows "locks_ok (run_cleanup c s)"
proof (cases "c \<in> set (l_checks s) \<and> l_phase s (snd c) = Some LockDone \<and> l_queues s (fst c) = Some (snd c)")
  case True
  from assms have ok: "line_ok (l_phase s) (l_ahead s) (l_line s (fst c))"
    "tail_ok (l_phase s) (l_queues s (fst c)) (l_line s (fst c))"
    by (auto simp: locks_ok_def)
  with True have "l_line s (fst c) \<noteq> []" "l_phase s (last (l_line s (fst c))) = Some LockDone"
    by (auto simp: tail_ok_def)
  from last_done [OF ok(1) _ this, of "[]"] True assms show ?thesis
    by (auto simp: run_cleanup_def locks_ok_def tail_ok_def Let_def)
qed (use assms in \<open>auto simp: run_cleanup_def locks_ok_def Let_def\<close>)

lemma locks_ok_step: "locks_ok s \<Longrightarrow> locks_ok (lock_step lock_key e s)"
proof (cases e)
  case (StartWork i)
  assume "locks_ok s"
  with StartWork locks_ok_go [of s i LockRunning] show ?thesis
    by (auto simp: start_work_def may_go_def is_settled_def split: option.splits)
next
  case (FinishWork i)
  assume "locks_ok s"
  with FinishWork locks_ok_go [of s i LockDone] show ?thesis
    by (auto simp: finish_work_def may_go_def)
next
  case (AskCleanup i)
  assume "locks_ok s"
  with AskCleanup show ?thesis
    by (auto simp: ask_cleanup_def locks_ok_def split: option.split lock_phase.split)
qed (auto intro: locks_ok_with locks_ok_cleanup)

interpretation locks: invariant_machine "lock_step lock_key" locks_ok for lock_key
  by unfold_locales (rule locks_ok_step)

lemma locks_ok_run: "locks_ok (fold (lock_step lock_key) es no_locks)"
  by (rule locks.run_inv) (simp add: locks_ok_def no_locks_def line_ok_def tail_ok_def)

text \<open>
  C6: A file has one writer at a time, in order of arrival: when a call's work has started, every
  call for the same file that arrived before it has ended. (An edit is a read, a change and a write,
  so no edit is built on what another one was about to replace.)
\<close>

theorem one_writer_at_a_time:
  fixes lock_key :: "'p \<Rightarrow> 'k" and es :: "('p, 'k, 'i) lock_event list"
  defines "s \<equiv> fold (lock_step lock_key) es no_locks"
  assumes "m < n" and "n < length (l_line s key)" and "l_phase s (l_line s key ! n) \<noteq> Some LockWaiting"
  shows "l_phase s (l_line s key ! m) = Some LockDone"
proof -
  have "line_ok (l_phase s) (l_ahead s) (l_line s key)"
    using locks_ok_run [of lock_key es] by (simp add: s_def locks_ok_def)
  from line_okD [OF this id_take_nth_drop [OF assms(3)]] assms(2-4) show ?thesis
    unfolding call_ok_def by (metis in_set_conv_nth length_take min.absorb4 nth_take)
qed

definition two_writers :: "(nat, nat, nat) lock_event list" where
  "two_writers = [WithLock 7 1, WithLock 7 2, StartWork 2, StartWork 1, FinishWork 1, StartWork 2]"

theorem one_writer_at_a_time_witness:
  "l_phase (fold (lock_step id) two_writers no_locks) 1 = Some LockDone"
  using one_writer_at_a_time [of 0 1 id two_writers 7]
  by (simp add: two_writers_def no_locks_def with_file_lock_def start_work_def finish_work_def
      is_settled_def Let_def)

text \<open>
  The map holds an entry for a file as long as any call for it has not ended: dropping the entry
  of a finished queue never hands out a second lock.
\<close>

theorem entry_kept_while_locked:
  fixes lock_key :: "'p \<Rightarrow> 'k" and es :: "('p, 'k, 'i) lock_event list"
  defines "s \<equiv> fold (lock_step lock_key) es no_locks"
  assumes "i \<in> set (l_line s (lock_key path))" and "l_phase s i \<noteq> Some LockDone"
  shows "is_file_locked lock_key path s"
  using locks_ok_run [of lock_key es] assms(2,3)
  by (auto simp: s_def locks_ok_def tail_ok_def is_file_locked_def)

theorem entry_kept_while_locked_witness:
  "is_file_locked id 7 (fold (lock_step id)
     [WithLock 7 1, StartWork 1, WithLock 7 2, FinishWork 1, AskCleanup 1, StartWork (2::nat)] no_locks)"
  by (rule entry_kept_while_locked [where i = 2])
    (simp_all add: no_locks_def with_file_lock_def start_work_def finish_work_def ask_cleanup_def
      is_settled_def Let_def)

end
