(* ===== verification/LoopDetection.thy ===== *)
theory LoopDetection
  imports Json
begin

text \<open>
  Repeated tool calls: \<open>sdk/packages/core/src/runtime/safety/loop-detection.ts\<close>. The tracker's
  state, what a call names, and the operations \<open>inspect\<close>, \<open>noteOutcome\<close> and \<open>reset\<close>, with the
  text of every verdict. \<open>lower\<close> is \<open>toLowerCase\<close>.
\<close>

section \<open>Limits and texts\<close>

definition STRIKE_LIMIT :: nat where
  "STRIKE_LIMIT = 6"

definition FUTILE_STRIKE_LIMIT :: nat where
  "FUTILE_STRIKE_LIMIT = 4"

definition CYCLE_REPEAT_LIMIT :: nat where
  "CYCLE_REPEAT_LIMIT = 3"

definition CYCLE_HARD_LIMIT :: nat where
  "CYCLE_HARD_LIMIT = 6"

record loop_config =
  soft_threshold :: nat
  hard_threshold :: nat

definition DEFAULT_LOOP_CONFIG :: loop_config where
  "DEFAULT_LOOP_CONFIG = \<lparr>soft_threshold = 2, hard_threshold = 5\<rparr>"

definition loop_config_of :: "nat option \<Rightarrow> nat option \<Rightarrow> loop_config" where
  "loop_config_of soft hard =
     \<lparr>soft_threshold = opt_default (soft_threshold DEFAULT_LOOP_CONFIG) soft,
      hard_threshold = opt_default (hard_threshold DEFAULT_LOOP_CONFIG) hard\<rparr>"

definition LAST_STRIKE :: "jtext" where
  "LAST_STRIKE =
     js ''WARNING: this is the LAST strike! Another failure and the system will STOP the session! Do not send this call again '' @
     [EM_DASH] @
     js '' change the arguments, use a different tool, or say what you are stuck on.''"

definition strikes_left :: "nat \<Rightarrow> jtext" where
  "strikes_left remaining =
     js ''Warning: you have only '' @
     decimal remaining @
     js '' strikes left before the system will stop the session. Sending the same call again spends one for nothing.''"

definition COPIED_ANCHOR_ADVICE :: "jtext" where
  "COPIED_ANCHOR_ADVICE =
     js ''Your `new_text` is the same text as your `old_text`, so this call finds what you meant and changes none of it: the change you described was never written into `new_text`. On a long line, do not send the whole line again '' @
     [EM_DASH] @
     js '' name the line with `start_line` and send as `old_text` only the few characters that change, with `new_text` as they should read.''"

definition LOOK_ADVICE :: "jtext" where
  "LOOK_ADVICE =
     js ''Before sending anything else: look at what this call targets as it is right now, with a tool that reads rather than writes, and compare that against what you meant it to be. If it already says what you wanted, this piece is done '' @
     [EM_DASH] @
     js '' record that and move to the next one.''"

definition ADDRESS_ADVICE :: "jtext" where
  "ADDRESS_ADVICE =
     js ''If it does not say what you wanted, this call is not landing where you think it is. Change how it addresses the file rather than what it writes: give `start_line` and `start_column` in place of `old_text`, keeping `new_text` '' @
     [EM_DASH] @
     js '' the replacement body is still required and is still called `new_text`. Matching text is exactly what fails on a long or minified line, and a position cannot be mistyped into matching nothing.''"


definition CHANGE_ADVICE :: "jtext" where
  "CHANGE_ADVICE =
     js ''If the answer matters, change what produces it rather than asking again. Nothing about this call has changed, so nothing about its answer can '' @
     [EM_DASH] @
     js '' something has to happen first: make the edit, or use a different tool that answers the same question from the file itself.''"

definition LEAVE_ADVICE :: "jtext" where
  "LEAVE_ADVICE =
     js ''Leave this alone now. Take the next thing that is still wrong and work on that; come back here only with something you have not already tried. If there is nothing else wrong, say in one sentence what is blocking you and stop '' @
     [EM_DASH] @
     js '' that is more use than another attempt.''"

definition unchanged_text :: "jtext \<Rightarrow> jtext" where
  "unchanged_text name =
     js ''This `'' @
     name @
     js ''` call is unchanged from the one that was just refused.''"

definition succeeded_text :: "jtext \<Rightarrow> jtext" where
  "succeeded_text name =
     js ''This `'' @
     name @
     js ''` call already succeeded earlier in this task, and the file still holds exactly what it wrote '' @
     [EM_DASH] @
     js '' that is why sending it again is refused as a no-op rather than applied. Nothing is wrong and nothing was lost: this edit is done. Move on to the next thing that still needs changing, and if you are unsure what that is, re-read the file and compare it against what you set out to fix.''"

definition noop_text :: "jtext \<Rightarrow> jtext" where
  "noop_text name =
     js ''This `'' @
     name @
     js ''` call was refused as a no-op: what it sends is character-for-character what the file already holds, so the change it asks for is already in place. Nothing failed and nothing was lost. Sending it again unchanged cannot do anything '' @
     [EM_DASH] @
     js '' move on to the next thing that still needs changing, and if this is not the state you meant the file to be in, the range or the text has to differ, not the attempt.''"

definition futile_hard_text :: "jtext \<Rightarrow> nat \<Rightarrow> jtext" where
  "futile_hard_text name strike =
     js ''This exact call to `'' @
     name @
     js ''` was refused '' @
     decimal strike @
     js '' times because the tool compared it against the file and answered it in advance. The arguments are unchanged, so the result cannot be either.''"

definition barren_hard_text :: "jtext \<Rightarrow> nat \<Rightarrow> jtext" where
  "barren_hard_text name barren =
     js ''This exact call to `'' @
     name @
     js ''` has already been made '' @
     decimal barren @
     js '' times and failed every time. The arguments have not changed between attempts, so neither will the result.''"

definition barren_soft_text :: "jtext \<Rightarrow> nat \<Rightarrow> jtext \<Rightarrow> jtext \<Rightarrow> jtext" where
  "barren_soft_text name barren steer warning =
     js ''This `'' @
     name @
     js ''` call has now failed '' @
     decimal barren @
     js '' time'' @
     (if barren = 1 then [] else js ''s'') @
     js '' with these exact arguments, and nothing about them has changed between attempts.'' @
     [10, 10] @
     steer @
     [10, 10] @
     warning"

definition cycle_hard_text :: "jtext \<Rightarrow> nat \<Rightarrow> jtext" where
  "cycle_hard_text name n =
     js ''This `'' @
     name @
     js ''` call has been made '' @
     decimal n @
     js '' times with the same arguments and answered the same way every time. It changes the file to a state it has already been in, so repeating it cannot move the task forward.''"

definition cycle_soft_text :: "jtext \<Rightarrow> nat \<Rightarrow> jtext \<Rightarrow> jtext" where
  "cycle_soft_text name n steer =
     js ''This `'' @
     name @
     js ''` call has been answered '' @
     decimal n @
     js '' times with the same answer, and the arguments have not changed. Whatever it is being asked, it has already said everything it is going to say.'' @
     [10, 10] @
     steer"

definition repeat_hard_text :: "jtext \<Rightarrow> nat \<Rightarrow> jtext" where
  "repeat_hard_text name n =
     js ''Detected '' @
     decimal n @
     js '' consecutive identical calls to `'' @
     name @
     js ''`. The arguments have not changed between them, so neither will the result.''"

definition repeat_soft_text :: "jtext \<Rightarrow> nat \<Rightarrow> jtext \<Rightarrow> jtext" where
  "repeat_soft_text name n steer =
     js ''Detected '' @
     decimal n @
     js '' consecutive identical calls to `'' @
     name @
     js ''`.'' @
     [10, 10] @
     steer"
definition strike_warning :: "nat \<Rightarrow> jtext" where
  "strike_warning remaining = (if remaining \<le> 1 then LAST_STRIKE else strikes_left remaining)"

section \<open>Kinds of tools\<close>

definition EDITING_TOOL_NAMES :: "jtext list" where
  "EDITING_TOOL_NAMES = [js ''editor'', js ''apply_patch'']"

definition WRITE_CLASS_TOOL_NAMES :: "jtext list" where
  "WRITE_CLASS_TOOL_NAMES =
     [js ''editor'', js ''apply_patch'', js ''sed'', js ''awk'', js ''write_to_file'', js ''new_file'',
      js ''restore_file'']"

definition POLLING_TOOL_NAMES :: "jtext list" where
  "POLLING_TOOL_NAMES =
     [js ''agents_status'', js ''await_agents'', js ''team_status'', js ''team_list_runs'',
      js ''team_await_runs'', js ''team_read_mailbox'']"

definition COMMAND_TOOL_NAMES :: "jtext list" where
  "COMMAND_TOOL_NAMES = [js ''run_commands'']"

definition steering_for :: "int \<Rightarrow> jtext \<Rightarrow> bool \<Rightarrow> jtext" where
  "steering_for attempt name copied =
     (if copied \<and> attempt \<le> 2 \<and> name \<in> set EDITING_TOOL_NAMES then COPIED_ANCHOR_ADVICE
      else if attempt \<le> 1 then LOOK_ADVICE
      else if attempt = 2 then (if name \<in> set EDITING_TOOL_NAMES then ADDRESS_ADVICE else CHANGE_ADVICE)
      else LEAVE_ADVICE)"

section \<open>What a call names\<close>

record loop_call =
  call_name :: jtext
  call_input :: json

text \<open>A member of an object; anything else has none.\<close>

fun member :: "json \<Rightarrow> jtext \<Rightarrow> json option" where
  "member (JObj ms) k = map_of ms k"
| "member _ k = None"

definition copies_its_anchor :: "json \<Rightarrow> bool" where
  "copies_its_anchor inp =
     (case member inp (js ''old_text'') of
        Some (JStr t) \<Rightarrow> t \<noteq> [] \<and> member inp (js ''new_text'') = Some (JStr t)
      | _ \<Rightarrow> False)"

text \<open>The entries of \<open>files\<close>: the \<open>path\<close> of an object, anything else itself.\<close>

fun file_entry :: "json \<Rightarrow> json option" where
  "file_entry (JObj ms) = map_of ms (js ''path'')"
| "file_entry (JArr vs) = None"
| "file_entry v = Some v"

definition elements :: "json option \<Rightarrow> json list" where
  "elements v = (case v of Some (JArr vs) \<Rightarrow> vs | _ \<Rightarrow> [])"

definition path_texts :: "json option list \<Rightarrow> jtext list" where
  "path_texts vs = concat (map (\<lambda>v. case v of Some (JStr t) \<Rightarrow> if t = [] then [] else [t] | _ \<Rightarrow> []) vs)"

text \<open>\<open>[...new Set(xs)]\<close>: the first of each.\<close>

definition first_of_each :: "'a list \<Rightarrow> 'a list" where
  "first_of_each xs = rev (remdups (rev xs))"

definition fold_path :: "(jtext \<Rightarrow> jtext) \<Rightarrow> jtext \<Rightarrow> jtext" where
  "fold_path lower p = lower (map (\<lambda>c. if c = 92 then 47 else c) p)"

definition named_paths :: "(jtext \<Rightarrow> jtext) \<Rightarrow> json \<Rightarrow> jtext list" where
  "named_paths lower inp =
     first_of_each (map (fold_path lower) (path_texts
       ([member inp (js ''path''), member inp (js ''file_path'')] @
        map Some (elements (member inp (js ''paths''))) @
        map file_entry (elements (member inp (js ''files''))))))"

definition call_moves_its_own_subject :: "loop_call \<Rightarrow> bool" where
  "call_moves_its_own_subject call =
     (call_name call = js ''browser'' \<and>
      (member (call_input call) (js ''action'') = Some (JStr (js ''scroll_down'')) \<or>
       member (call_input call) (js ''action'') = Some (JStr (js ''scroll_up''))))"

section \<open>Answers\<close>

text \<open>\<open>replace(/#\d+/g, "#n")\<close>.\<close>

function normalize_result_signature :: "jtext \<Rightarrow> jtext" where
  "normalize_result_signature [] = []"
| "normalize_result_signature (c # cs) =
     (if c = 35 \<and> (case cs of [] \<Rightarrow> False | d # _ \<Rightarrow> is_digit d)
      then 35 # 110 # normalize_result_signature (dropWhile is_digit cs)
      else c # normalize_result_signature cs)"
  by pat_completeness auto
termination
  by (relation "measure length") (auto simp: length_dropWhile_le less_Suc_eq_le)

definition loop_result_signature :: "json \<Rightarrow> jtext" where
  "loop_result_signature out = normalize_result_signature (tool_call_signature out)"

section \<open>The tracker\<close>

record loop_state =
  ls_last_name :: jtext
  ls_last_signature :: jtext
  ls_consecutive :: nat
  ls_barren :: "jtext \<Rightarrow> nat option"
  ls_futile :: "jtext set"
  ls_applied :: "jtext set"
  ls_settled :: "jtext set"
  ls_strikes :: "jtext \<Rightarrow> nat option"
  ls_pending_key :: jtext
  ls_pending_name :: jtext
  ls_key_paths :: "jtext \<Rightarrow> jtext list option"
  ls_cycles :: "jtext \<Rightarrow> (jtext \<times> nat) option"

definition create_loop_state :: loop_state where
  "create_loop_state =
     \<lparr>ls_last_name = [], ls_last_signature = [], ls_consecutive = 0, ls_barren = (\<lambda>_. None), ls_futile = {},
      ls_applied = {}, ls_settled = {}, ls_strikes = (\<lambda>_. None), ls_pending_key = [],
      ls_pending_name = [], ls_key_paths = (\<lambda>_. None), ls_cycles = (\<lambda>_. None)\<rparr>"

definition reset_loop_state :: "loop_state \<Rightarrow> loop_state" where
  "reset_loop_state s =
     s\<lparr>ls_last_name := [], ls_last_signature := [], ls_consecutive := 0, ls_barren := (\<lambda>_. None),
       ls_futile := {}, ls_applied := {}, ls_settled := {}, ls_strikes := (\<lambda>_. None),
       ls_pending_key := [], ls_pending_name := [], ls_key_paths := (\<lambda>_. None), ls_cycles := (\<lambda>_. None)\<rparr>"

definition count_of :: "nat option \<Rightarrow> nat" where
  "count_of n = opt_default 0 n"

datatype verdict = VOk | VSoft jtext | VHard jtext

text \<open>\<open>checkRepeatedToolCall\<close>, the count in the state and the two flags.\<close>

definition count_call :: "jtext \<Rightarrow> jtext \<Rightarrow> loop_state \<Rightarrow> loop_state" where
  "count_call name signature s =
     s\<lparr>ls_consecutive := (if name = ls_last_name s \<and> signature = ls_last_signature s
                         then Suc (ls_consecutive s) else 1),
       ls_last_name := name, ls_last_signature := signature\<rparr>"

definition soft_warning :: "loop_config \<Rightarrow> loop_state \<Rightarrow> bool" where
  "soft_warning cfg s = (ls_consecutive s = soft_threshold cfg)"

definition hard_escalation :: "loop_config \<Rightarrow> loop_state \<Rightarrow> bool" where
  "hard_escalation cfg s = (hard_threshold cfg \<le> ls_consecutive s)"

definition call_key :: "loop_call \<Rightarrow> jtext" where
  "call_key call = call_name call @ 58 # tool_call_signature (call_input call)"

text \<open>A call the tool has declared a no-op.\<close>

definition futile_explanation :: "jtext \<Rightarrow> jtext \<Rightarrow> loop_state \<Rightarrow> jtext" where
  "futile_explanation name key s =
     (if key \<in> ls_settled s then unchanged_text name
      else if key \<in> ls_applied s then succeeded_text name else noop_text name)"

definition inspect_futile :: "loop_call \<Rightarrow> loop_state \<Rightarrow> verdict \<times> loop_state" where
  "inspect_futile call s =
     (let key = call_key call; strike = Suc (count_of (ls_strikes s key));
          s1 = s\<lparr>ls_strikes := (ls_strikes s)(key \<mapsto> strike)\<rparr>
      in if strike < FUTILE_STRIKE_LIMIT
         then (VSoft (futile_explanation (call_name call) key s @ [10, 10] @
                 steering_for (int strike) (call_name call) (copies_its_anchor (call_input call)) @ [10, 10] @
                 strike_warning (FUTILE_STRIKE_LIMIT - strike)),
               s1\<lparr>ls_settled := insert key (ls_settled s)\<rparr>)
         else (VHard (futile_hard_text (call_name call) strike), s1))"

text \<open>A call whose last answers were all the same.\<close>

definition inspect_cycle :: "loop_config \<Rightarrow> loop_call \<Rightarrow> nat \<Rightarrow> loop_state \<Rightarrow> verdict \<times> loop_state" where
  "inspect_cycle cfg call repeats s =
     (let name = call_name call; s1 = count_call name (tool_call_signature (call_input call)) s
      in if name \<in> set WRITE_CLASS_TOOL_NAMES \<and> CYCLE_HARD_LIMIT - 1 \<le> repeats
         then (VHard (cycle_hard_text name repeats), s1)
         else (VSoft (cycle_soft_text name repeats (steering_for (int repeats) name False)), s1))"

text \<open>A call sent again at once.\<close>

definition inspect_consecutive :: "loop_config \<Rightarrow> loop_call \<Rightarrow> loop_state \<Rightarrow> verdict \<times> loop_state" where
  "inspect_consecutive cfg call s =
     (let name = call_name call; signature = tool_call_signature (call_input call)
      in if call_moves_its_own_subject call
         then (VOk, s\<lparr>ls_last_name := name, ls_last_signature := signature, ls_consecutive := 1\<rparr>)
         else let s1 = count_call name signature s; n = ls_consecutive s1
              in if hard_escalation cfg s1 then (VHard (repeat_hard_text name n), s1)
                 else if soft_warning cfg s1
                      then (VSoft (repeat_soft_text name n (steering_for (int n - 2) name False)), s1)
                 else (VOk, s1))"

definition inspect_counted :: "loop_config \<Rightarrow> loop_call \<Rightarrow> loop_state \<Rightarrow> verdict \<times> loop_state" where
  "inspect_counted cfg call s =
     (let key = call_key call; name = call_name call; barren = count_of (ls_barren s key)
      in if key \<in> ls_futile s then inspect_futile call s
         else if STRIKE_LIMIT \<le> barren then (VHard (barren_hard_text name barren), s)
         else if 0 < barren
              then (VSoft (barren_soft_text name barren (steering_for (int barren) name False)
                     (strike_warning (STRIKE_LIMIT - barren))), s)
         else (case ls_cycles s key of
                 Some (answer, repeats) \<Rightarrow>
                   if CYCLE_REPEAT_LIMIT - 1 \<le> repeats then inspect_cycle cfg call repeats s
                   else inspect_consecutive cfg call s
               | None \<Rightarrow> inspect_consecutive cfg call s))"

definition inspect ::
  "(jtext \<Rightarrow> jtext) \<Rightarrow> loop_config \<Rightarrow> loop_call \<Rightarrow> loop_state \<Rightarrow> verdict \<times> loop_state" where
  "inspect lower cfg call s =
     (if call_name call \<in> set POLLING_TOOL_NAMES then (VOk, s\<lparr>ls_pending_key := []\<rparr>)
      else if call_name call \<in> set COMMAND_TOOL_NAMES
           then (VOk, s\<lparr>ls_pending_key := [], ls_last_name := call_name call, ls_last_signature := [],
                        ls_consecutive := 0\<rparr>)
      else let key = call_key call; paths = named_paths lower (call_input call);
               s1 = s\<lparr>ls_pending_key := key, ls_pending_name := call_name call\<rparr>
           in inspect_counted cfg call
                (if paths \<noteq> [] then s1\<lparr>ls_key_paths := (ls_key_paths s1)(key \<mapsto> paths)\<rparr> else s1))"

section \<open>Outcomes\<close>

definition note_answer :: "jtext \<Rightarrow> jtext option \<Rightarrow> loop_state \<Rightarrow> loop_state" where
  "note_answer key result s =
     (case result of
        None \<Rightarrow> s
      | Some r \<Rightarrow>
          let answer = normalize_result_signature r
          in s\<lparr>ls_cycles := (ls_cycles s)(key \<mapsto>
               (case ls_cycles s key of
                  Some (a, n) \<Rightarrow> if a = answer then (answer, Suc n) else (answer, 1)
                | None \<Rightarrow> (answer, 1)))\<rparr>)"

text \<open>The other calls that name a file the call names.\<close>

definition shares_file :: "jtext \<Rightarrow> loop_state \<Rightarrow> jtext \<Rightarrow> bool" where
  "shares_file key s other =
     (other \<noteq> key \<and>
      (case ls_key_paths s other of
         None \<Rightarrow> False
       | Some paths \<Rightarrow> list_ex (\<lambda>p. p \<in> set (opt_default [] (ls_key_paths s key))) paths))"

definition forget_verdicts :: "(jtext \<Rightarrow> bool) \<Rightarrow> loop_state \<Rightarrow> loop_state" where
  "forget_verdicts stale s =
     s\<lparr>ls_barren := (\<lambda>k. if stale k then None else ls_barren s k),
       ls_futile := {k \<in> ls_futile s. \<not> stale k}, ls_settled := {k \<in> ls_settled s. \<not> stale k},
       ls_strikes := (\<lambda>k. if stale k then None else ls_strikes s k)\<rparr>"

definition note_productive :: "jtext \<Rightarrow> loop_state \<Rightarrow> loop_state" where
  "note_productive key s =
     (let s1 = (if ls_pending_name s \<in> set WRITE_CLASS_TOOL_NAMES
                then forget_verdicts (shares_file key s) s else s);
          s2 = forget_verdicts (\<lambda>k. k = key) s1
      in s2\<lparr>ls_applied := insert key (ls_applied s2)\<rparr>)"

definition note_outcome :: "bool \<Rightarrow> bool \<Rightarrow> jtext option \<Rightarrow> loop_state \<Rightarrow> loop_state" where
  "note_outcome productive futile result s =
     (let key = ls_pending_key s
      in if key = [] then s
         else let s1 = note_answer key result s
              in if productive then note_productive key s1
                 else if futile then s1\<lparr>ls_futile := insert key (ls_futile s1)\<rparr>
                 else s1\<lparr>ls_barren := (ls_barren s1)(key \<mapsto> Suc (count_of (ls_barren s1 key)))\<rparr>)"

end
