(* ===== verification/LoopRuns.thy ===== *)
theory LoopRuns
  imports LoopDetection
begin

text \<open>
  What the repeated-call guard promises: a stop is always earned by the history of the call, a call
  that keeps failing is always stopped, an answer that differs in a revision number only is the
  same answer; and where it says more than it knows.
\<close>

section \<open>Answers\<close>

lemma hash_digit: "\<not> is_digit 35" "\<not> is_digit 110"
  by (simp_all add: is_digit_def)

lemma normalize_head:
  "cs \<noteq> [] \<Longrightarrow> \<exists>ds. normalize_result_signature cs = hd cs # ds"
  by (cases cs) auto

lemma normalize_head_digit:
  "(case normalize_result_signature cs of [] \<Rightarrow> False | d # _ \<Rightarrow> is_digit d) =
   (case cs of [] \<Rightarrow> False | d # _ \<Rightarrow> is_digit d)"
  using normalize_head [of cs] by (cases cs) auto

lemma normalize_idem [simp]:
  "normalize_result_signature (normalize_result_signature t) = normalize_result_signature t"
proof (induction t rule: normalize_result_signature.induct)
  case (2 c cs)
  show ?case
  proof (cases "c = 35 \<and> (case cs of [] \<Rightarrow> False | d # _ \<Rightarrow> is_digit d)")
    case True
    with 2(1) show ?thesis by (simp add: hash_digit)
  next
    case False
    have n: "normalize_result_signature (c # cs) = c # normalize_result_signature cs"
      unfolding normalize_result_signature.simps(2) if_not_P [OF False] ..
    have "\<not> (c = 35 \<and> (case normalize_result_signature cs of [] \<Rightarrow> False | d # _ \<Rightarrow> is_digit d))"
      unfolding normalize_head_digit by (rule False)
    then have "normalize_result_signature (c # normalize_result_signature cs) =
        c # normalize_result_signature (normalize_result_signature cs)"
      unfolding normalize_result_signature.simps(2) by (rule if_not_P)
    with n 2(2) [OF False] show ?thesis by simp
  qed
qed simp

section \<open>Runs\<close>

datatype loop_event = Inspect loop_call | Outcome bool bool "jtext option" | ResetLoop

text \<open>What happened, the latest first.\<close>

datatype loop_seen = Called loop_call | Judged jtext bool bool "jtext option" | Forgotten

definition loop_step ::
  "(jtext \<Rightarrow> jtext) \<Rightarrow> loop_config \<Rightarrow> loop_event \<Rightarrow> loop_state \<times> loop_seen list \<Rightarrow> loop_state \<times> loop_seen list" where
  "loop_step lower cfg e st =
     (case e of
        Inspect call \<Rightarrow> (snd (inspect lower cfg call (fst st)), Called call # snd st)
      | Outcome p f r \<Rightarrow> (note_outcome p f r (fst st), Judged (ls_pending_key (fst st)) p f r # snd st)
      | ResetLoop \<Rightarrow> (reset_loop_state (fst st), Forgotten # snd st))"

abbreviation loop_run :: "(jtext \<Rightarrow> jtext) \<Rightarrow> loop_config \<Rightarrow> loop_event list \<Rightarrow> loop_state \<times> loop_seen list" where
  "loop_run lower cfg es \<equiv> fold (loop_step lower cfg) es (create_loop_state, [])"

definition is_counted :: "loop_call \<Rightarrow> bool" where
  "is_counted call = (call_name call \<notin> set POLLING_TOOL_NAMES \<and> call_name call \<notin> set COMMAND_TOOL_NAMES)"

text \<open>The failures of a call since it last got anywhere.\<close>

fun failures :: "jtext \<Rightarrow> loop_seen list \<Rightarrow> nat" where
  "failures key [] = 0"
| "failures key (Judged k p f r # tr) =
     (if k = key then (if p then 0 else if f then failures key tr else Suc (failures key tr)) else failures key tr)"
| "failures key (Forgotten # tr) = 0"
| "failures key (Called c # tr) = failures key tr"

text \<open>Whether the tool has called it a no-op since then.\<close>

fun declared_noop :: "jtext \<Rightarrow> loop_seen list \<Rightarrow> bool" where
  "declared_noop key [] = False"
| "declared_noop key (Judged k p f r # tr) = (if k = key then \<not> p \<and> (f \<or> declared_noop key tr) else declared_noop key tr)"
| "declared_noop key (Forgotten # tr) = False"
| "declared_noop key (Called c # tr) = declared_noop key tr"

text \<open>How often it was sent since then, or since the guard was reset.\<close>

fun sent_since_success :: "jtext \<Rightarrow> loop_seen list \<Rightarrow> nat" where
  "sent_since_success key [] = 0"
| "sent_since_success key (Judged k p f r # tr) = (if k = key \<and> p then 0 else sent_since_success key tr)"
| "sent_since_success key (Forgotten # tr) = 0"
| "sent_since_success key (Called c # tr) =
     (if is_counted c \<and> call_key c = key then Suc (sent_since_success key tr) else sent_since_success key tr)"

fun sent_since_command :: "jtext \<Rightarrow> loop_seen list \<Rightarrow> nat" where
  "sent_since_command key [] = 0"
| "sent_since_command key (Judged k p f r # tr) = sent_since_command key tr"
| "sent_since_command key (Forgotten # tr) = 0"
| "sent_since_command key (Called c # tr) =
     (if call_name c \<in> set COMMAND_TOOL_NAMES then 0
      else if is_counted c \<and> call_key c = key then Suc (sent_since_command key tr)
      else sent_since_command key tr)"

text \<open>The last answer of a call and how often in a row it got it.\<close>

fun same_answers :: "jtext \<Rightarrow> loop_seen list \<Rightarrow> (jtext \<times> nat) option" where
  "same_answers key [] = None"
| "same_answers key (Judged k p f r # tr) =
     (case r of
        Some t \<Rightarrow>
          if k = key
          then Some (normalize_result_signature t,
                 case same_answers key tr of
                   Some (a, n) \<Rightarrow> if a = normalize_result_signature t then Suc n else 1
                 | None \<Rightarrow> 1)
          else same_answers key tr
      | None \<Rightarrow> same_answers key tr)"
| "same_answers key (Forgotten # tr) = None"
| "same_answers key (Called c # tr) = same_answers key tr"

definition last_key :: "loop_state \<Rightarrow> jtext" where
  "last_key s = ls_last_name s @ 58 # ls_last_signature s"

definition loop_ok :: "loop_state \<times> loop_seen list \<Rightarrow> bool" where
  "loop_ok st =
     (let (s, tr) = st
      in (\<forall>key. key \<noteq> [] \<longrightarrow> count_of (ls_barren s key) \<le> failures key tr \<and>
            (key \<in> ls_futile s \<longrightarrow> declared_noop key tr) \<and>
            count_of (ls_strikes s key) \<le> sent_since_success key tr \<and>
            ls_cycles s key = same_answers key tr) \<and>
         ls_consecutive s \<le> sent_since_command (last_key s) tr)"

lemma call_key_nonempty [simp]: "call_key call \<noteq> []"
  by (simp add: call_key_def)

section \<open>What an inspection changes\<close>

lemma count_call_frame [simp]:
  "ls_barren (count_call n g s) = ls_barren s" "ls_futile (count_call n g s) = ls_futile s"
  "ls_strikes (count_call n g s) = ls_strikes s" "ls_cycles (count_call n g s) = ls_cycles s"
  "ls_applied (count_call n g s) = ls_applied s" "ls_pending_key (count_call n g s) = ls_pending_key s"
  "ls_pending_name (count_call n g s) = ls_pending_name s" "ls_key_paths (count_call n g s) = ls_key_paths s"
  by (simp_all add: count_call_def)

lemmas inspect_defs = inspect_def inspect_counted_def inspect_futile_def inspect_cycle_def
  inspect_consecutive_def Let_def

lemma inspect_tallies [simp]:
  "ls_barren (snd (inspect lower cfg c s)) = ls_barren s"
  "ls_futile (snd (inspect lower cfg c s)) = ls_futile s"
  "ls_cycles (snd (inspect lower cfg c s)) = ls_cycles s"
  by (auto simp: inspect_defs split: option.split)

lemma inspect_pending:
  "ls_pending_key (snd (inspect lower cfg c s)) = (if is_counted c then call_key c else [])"
  "is_counted c \<Longrightarrow> ls_pending_name (snd (inspect lower cfg c s)) = call_name c"
  by (auto simp: inspect_defs is_counted_def split: option.split)

lemma inspect_strikes:
  "ls_strikes (snd (inspect lower cfg c s)) = ls_strikes s \<or>
   is_counted c \<and> ls_strikes (snd (inspect lower cfg c s)) =
     (ls_strikes s)(call_key c \<mapsto> Suc (count_of (ls_strikes s (call_key c))))"
  by (auto simp: inspect_defs is_counted_def split: option.split)

text \<open>The counter of consecutive calls: left, counted, begun anew, or cleared by a command.\<close>

definition consecutive_kept :: "loop_state \<Rightarrow> loop_state \<Rightarrow> bool" where
  "consecutive_kept s s' = (ls_consecutive s' = ls_consecutive s \<and> ls_last_name s' = ls_last_name s \<and>
     ls_last_signature s' = ls_last_signature s)"

definition counts_again :: "loop_call \<Rightarrow> loop_state \<Rightarrow> loop_state \<Rightarrow> bool" where
  "counts_again c s s' = (ls_last_name s' = call_name c \<and>
     ls_last_signature s' = tool_call_signature (call_input c) \<and>
     (ls_consecutive s' = 1 \<or>
      call_name c = ls_last_name s \<and> tool_call_signature (call_input c) = ls_last_signature s \<and>
      ls_consecutive s' = Suc (ls_consecutive s)))"

lemma counts_again_call: "counts_again c s (count_call (call_name c) (tool_call_signature (call_input c)) s)"
  by (simp add: counts_again_def count_call_def)

lemma inspect_consecutive_counts: "counts_again c s (snd (inspect_consecutive cfg c s))"
  using counts_again_call [of c s]
  by (simp add: inspect_consecutive_def Let_def) (simp add: counts_again_def)

lemma inspect_cycle_counts: "counts_again c s (snd (inspect_cycle cfg c n s))"
  using counts_again_call [of c s] by (simp add: inspect_cycle_def Let_def)

lemma inspect_counted_cases:
  "consecutive_kept s (snd (inspect_counted cfg c s)) \<or> counts_again c s (snd (inspect_counted cfg c s))"
proof -
  have "consecutive_kept s (snd (inspect_futile c s))"
    by (simp add: inspect_futile_def consecutive_kept_def Let_def)
  moreover have "consecutive_kept s s" by (simp add: consecutive_kept_def)
  ultimately show ?thesis
    using inspect_consecutive_counts inspect_cycle_counts
    by (simp add: inspect_counted_def Let_def split: option.split)
qed

lemma kept_trans:
  "consecutive_kept s t \<Longrightarrow> consecutive_kept t u \<Longrightarrow> consecutive_kept s u"
  "consecutive_kept s t \<Longrightarrow> counts_again c t u \<Longrightarrow> counts_again c s u"
  by (auto simp: consecutive_kept_def counts_again_def)

lemma inspect_consecutive_cases:
  "call_name c \<notin> set COMMAND_TOOL_NAMES \<and> consecutive_kept s (snd (inspect lower cfg c s)) \<or>
   ls_consecutive (snd (inspect lower cfg c s)) = 0 \<or>
   is_counted c \<and> counts_again c s (snd (inspect lower cfg c s))"
proof (cases "is_counted c")
  case True
  let ?s1 = "s\<lparr>ls_pending_key := call_key c, ls_pending_name := call_name c\<rparr>"
  let ?paths = "named_paths lower (call_input c)"
  let ?s2 = "if ?paths \<noteq> [] then ?s1\<lparr>ls_key_paths := (ls_key_paths ?s1)(call_key c \<mapsto> ?paths)\<rparr> else ?s1"
  have "inspect lower cfg c s = inspect_counted cfg c ?s2"
    using True by (simp add: inspect_def is_counted_def Let_def)
  then have i: "snd (inspect lower cfg c s) = snd (inspect_counted cfg c ?s2)" by (rule arg_cong)
  have k: "consecutive_kept s ?s2" by (simp add: consecutive_kept_def)
  from inspect_counted_cases [of ?s2 cfg c] show ?thesis
    unfolding i
  proof
    assume "consecutive_kept ?s2 (snd (inspect_counted cfg c ?s2))"
    from kept_trans(1) [OF k this] True show "call_name c \<notin> set COMMAND_TOOL_NAMES \<and>
        consecutive_kept s (snd (inspect_counted cfg c ?s2)) \<or>
        ls_consecutive (snd (inspect_counted cfg c ?s2)) = 0 \<or>
        is_counted c \<and> counts_again c s (snd (inspect_counted cfg c ?s2))"
      unfolding is_counted_def by blast
  next
    assume "counts_again c ?s2 (snd (inspect_counted cfg c ?s2))"
    from kept_trans(2) [OF k this] True show "call_name c \<notin> set COMMAND_TOOL_NAMES \<and>
        consecutive_kept s (snd (inspect_counted cfg c ?s2)) \<or>
        ls_consecutive (snd (inspect_counted cfg c ?s2)) = 0 \<or>
        is_counted c \<and> counts_again c s (snd (inspect_counted cfg c ?s2))"
      by blast
  qed
next
  case False
  have "js ''run_commands'' \<notin> set POLLING_TOOL_NAMES"
    by (simp add: POLLING_TOOL_NAMES_def js_def)
  with False show ?thesis
    by (auto simp: inspect_def is_counted_def consecutive_kept_def COMMAND_TOOL_NAMES_def)
qed

lemma loop_ok_inspect:
  assumes "loop_ok (s, tr)"
  shows "loop_ok (snd (inspect lower cfg c s), Called c # tr)"
proof -
  let ?s = "snd (inspect lower cfg c s)"
  have strikes: "count_of (ls_strikes ?s key) \<le> sent_since_success key (Called c # tr)" if "key \<noteq> []" for key
  proof -
    have "count_of (ls_strikes s key) \<le> sent_since_success key tr"
      using assms that by (simp add: loop_ok_def)
    with inspect_strikes [of lower cfg c s] show ?thesis
      by (auto simp: count_of_def)
  qed
  have cons: "ls_consecutive s \<le> sent_since_command (last_key s) tr"
    using assms by (simp add: loop_ok_def)
  have "ls_consecutive ?s \<le> sent_since_command (last_key ?s) (Called c # tr)"
    using inspect_consecutive_cases [of c s lower cfg]
  proof (elim disjE conjE)
    assume "call_name c \<notin> set COMMAND_TOOL_NAMES" "consecutive_kept s ?s"
    with cons show ?thesis by (auto simp: consecutive_kept_def last_key_def)
  next
    assume "ls_consecutive ?s = 0"
    then show ?thesis by simp
  next
    assume "is_counted c" "counts_again c s ?s"
    with cons show ?thesis by (auto simp: last_key_def call_key_def is_counted_def counts_again_def)
  qed
  with assms strikes show ?thesis by (simp add: loop_ok_def)
qed

section \<open>What an outcome changes\<close>

lemma forget_frame [simp]:
  "ls_cycles (forget_verdicts st s) = ls_cycles s" "ls_consecutive (forget_verdicts st s) = ls_consecutive s"
  "ls_last_name (forget_verdicts st s) = ls_last_name s"
  "ls_last_signature (forget_verdicts st s) = ls_last_signature s"
  "ls_pending_key (forget_verdicts st s) = ls_pending_key s"
  by (simp_all add: forget_verdicts_def)

lemma note_answer_frame [simp]:
  "ls_barren (note_answer k r s) = ls_barren s" "ls_futile (note_answer k r s) = ls_futile s"
  "ls_strikes (note_answer k r s) = ls_strikes s" "ls_consecutive (note_answer k r s) = ls_consecutive s"
  "ls_last_name (note_answer k r s) = ls_last_name s"
  "ls_last_signature (note_answer k r s) = ls_last_signature s"
  "ls_pending_name (note_answer k r s) = ls_pending_name s"
  "ls_key_paths (note_answer k r s) = ls_key_paths s"
  by (simp_all add: note_answer_def Let_def split: option.split)

lemma note_outcome_counter [simp]:
  "ls_consecutive (note_outcome p f r s) = ls_consecutive s"
  "ls_last_name (note_outcome p f r s) = ls_last_name s"
  "ls_last_signature (note_outcome p f r s) = ls_last_signature s"
  "last_key (note_outcome p f r s) = last_key s"
  by (simp_all add: note_outcome_def note_productive_def last_key_def Let_def)

lemma note_outcome_cycles:
  "ls_cycles (note_outcome p f r s) =
     (if ls_pending_key s = [] then ls_cycles s else ls_cycles (note_answer (ls_pending_key s) r s))"
  by (simp add: note_outcome_def note_productive_def Let_def)

lemma note_outcome_tallies:
  assumes "key \<noteq> []"
  shows "count_of (ls_barren (note_outcome p f r s) key) \<le>
      (if ls_pending_key s = key then (if p then 0 else if f then count_of (ls_barren s key)
         else Suc (count_of (ls_barren s key))) else count_of (ls_barren s key))"
    and "key \<in> ls_futile (note_outcome p f r s) \<Longrightarrow>
      (if ls_pending_key s = key then \<not> p \<and> (f \<or> key \<in> ls_futile s) else key \<in> ls_futile s)"
    and "count_of (ls_strikes (note_outcome p f r s) key) \<le>
      (if ls_pending_key s = key \<and> p then 0 else count_of (ls_strikes s key))"
  using assms
  by (auto simp: note_outcome_def note_productive_def forget_verdicts_def count_of_def Let_def
      split: if_splits)

lemma loop_ok_outcome:
  assumes "loop_ok (s, tr)"
  shows "loop_ok (note_outcome p f r s, Judged (ls_pending_key s) p f r # tr)"
proof -
  have old: "count_of (ls_barren s key) \<le> failures key tr" "key \<in> ls_futile s \<Longrightarrow> declared_noop key tr"
    "count_of (ls_strikes s key) \<le> sent_since_success key tr" "ls_cycles s key = same_answers key tr"
    if "key \<noteq> []" for key using assms that by (auto simp: loop_ok_def)
  have "ls_cycles (note_outcome p f r s) key = same_answers key (Judged (ls_pending_key s) p f r # tr)"
    if "key \<noteq> []" for key
    using old(4) [OF that] that
    by (auto simp: note_outcome_cycles note_answer_def Let_def split: option.splits)
  moreover have "count_of (ls_barren (note_outcome p f r s) key) \<le> failures key (Judged (ls_pending_key s) p f r # tr)"
    if "key \<noteq> []" for key
    using note_outcome_tallies(1) [OF that, of p f r s] old(1) [OF that] by (auto split: if_splits)
  moreover have "declared_noop key (Judged (ls_pending_key s) p f r # tr)"
    if "key \<noteq> []" "key \<in> ls_futile (note_outcome p f r s)" for key
    using note_outcome_tallies(2) [OF that] old(2) [OF that(1)] by (auto split: if_splits)
  moreover have "count_of (ls_strikes (note_outcome p f r s) key) \<le>
      sent_since_success key (Judged (ls_pending_key s) p f r # tr)" if "key \<noteq> []" for key
    using note_outcome_tallies(3) [OF that, of p f r s] old(3) [OF that] by (auto split: if_splits)
  moreover have "ls_consecutive s \<le> sent_since_command (last_key s) tr" using assms by (simp add: loop_ok_def)
  ultimately show ?thesis unfolding loop_ok_def by (simp del: failures.simps declared_noop.simps
      sent_since_success.simps same_answers.simps)
qed

lemma loop_ok_step: "loop_ok st \<Longrightarrow> loop_ok (loop_step lower cfg e st)"
proof (cases st)
  case (Pair s tr)
  assume ok: "loop_ok st"
  show ?thesis
  proof (cases e)
    case (Inspect c)
    with loop_ok_inspect [of s tr] ok Pair show ?thesis by (simp add: loop_step_def)
  next
    case (Outcome p f r)
    with loop_ok_outcome [of s tr] ok Pair show ?thesis by (simp add: loop_step_def)
  next
    case ResetLoop
    then show ?thesis by (simp add: loop_step_def loop_ok_def reset_loop_state_def count_of_def)
  qed
qed

interpretation loop_guard: invariant_machine "loop_step lower cfg" loop_ok for lower cfg
  by unfold_locales (rule loop_ok_step)

lemma loop_ok_run: "loop_ok (loop_run lower cfg es)"
  by (rule loop_guard.run_inv) (simp add: loop_ok_def create_loop_state_def count_of_def)

section \<open>A stop is earned\<close>

lemma consecutive_hard:
  "fst (inspect_consecutive cfg c s) = VHard m \<Longrightarrow>
    hard_threshold cfg \<le> ls_consecutive (snd (inspect_consecutive cfg c s)) \<and>
    last_key (snd (inspect_consecutive cfg c s)) = call_key c"
  by (auto simp: inspect_consecutive_def hard_escalation_def last_key_def call_key_def count_call_def Let_def
      split: if_splits)

lemma cycle_hard:
  "fst (inspect_cycle cfg c n s) = VHard m \<Longrightarrow>
    call_name c \<in> set WRITE_CLASS_TOOL_NAMES \<and> CYCLE_HARD_LIMIT - 1 \<le> n"
  by (auto simp: inspect_cycle_def Let_def split: if_splits)

lemma futile_hard:
  "fst (inspect_futile c s) = VHard m \<Longrightarrow> FUTILE_STRIKE_LIMIT \<le> Suc (count_of (ls_strikes s (call_key c)))"
  by (auto simp: inspect_futile_def Let_def split: if_splits)

lemma counted_hard:
  assumes "fst (inspect_counted cfg c s) = VHard m"
  shows "call_key c \<in> ls_futile s \<and> FUTILE_STRIKE_LIMIT \<le> Suc (count_of (ls_strikes s (call_key c))) \<or>
    STRIKE_LIMIT \<le> count_of (ls_barren s (call_key c)) \<or>
    call_name c \<in> set WRITE_CLASS_TOOL_NAMES \<and>
      (\<exists>a n. ls_cycles s (call_key c) = Some (a, n) \<and> CYCLE_HARD_LIMIT - 1 \<le> n) \<or>
    hard_threshold cfg \<le> ls_consecutive (snd (inspect_counted cfg c s)) \<and>
      last_key (snd (inspect_counted cfg c s)) = call_key c"
  using assms
  by (auto simp: inspect_counted_def Let_def split: if_splits option.splits
      dest: consecutive_hard cycle_hard [unfolded One_nat_def] futile_hard)

lemma inspect_is_counted:
  obtains (polling) "\<not> is_counted c" "fst (inspect lower cfg c s) = VOk"
  | (counted) s2 where "is_counted c" "inspect lower cfg c s = inspect_counted cfg c s2"
      "ls_futile s2 = ls_futile s" "ls_strikes s2 = ls_strikes s" "ls_barren s2 = ls_barren s"
      "ls_cycles s2 = ls_cycles s" "ls_consecutive s2 = ls_consecutive s"
      "ls_last_name s2 = ls_last_name s" "ls_last_signature s2 = ls_last_signature s"
proof (cases "is_counted c")
  case True
  let ?s1 = "s\<lparr>ls_pending_key := call_key c, ls_pending_name := call_name c\<rparr>"
  let ?paths = "named_paths lower (call_input c)"
  let ?s2 = "if ?paths \<noteq> [] then ?s1\<lparr>ls_key_paths := (ls_key_paths ?s1)(call_key c \<mapsto> ?paths)\<rparr> else ?s1"
  have "inspect lower cfg c s = inspect_counted cfg c ?s2"
    using True by (simp add: inspect_def is_counted_def Let_def)
  then show ?thesis by (rule counted [OF True]) simp_all
next
  case False
  then show ?thesis by (intro polling) (auto simp: inspect_def is_counted_def)
qed


section \<open>A call that keeps failing is stopped\<close>

text \<open>Another call in between, with its outcome: not a write that lands.\<close>

definition harmless :: "jtext \<Rightarrow> loop_call \<times> bool \<times> bool \<times> jtext option \<Rightarrow> bool" where
  "harmless key d = (case d of (c, p, f, r) \<Rightarrow>
     call_key c \<noteq> key \<and> \<not> (p \<and> call_name c \<in> set WRITE_CLASS_TOOL_NAMES))"

definition calls_between :: "(loop_call \<times> bool \<times> bool \<times> jtext option) list \<Rightarrow> loop_event list" where
  "calls_between ds = concat (map (\<lambda>(c, p, f, r). [Inspect c, Outcome p f r]) ds)"

definition failing_round ::
  "loop_call \<Rightarrow> jtext option \<times> (loop_call \<times> bool \<times> bool \<times> jtext option) list \<Rightarrow> loop_event list" where
  "failing_round c rd = [Inspect c, Outcome False False (fst rd)] @ calls_between (snd rd)"

definition barren_at_least :: "jtext \<Rightarrow> nat \<Rightarrow> loop_state \<Rightarrow> bool" where
  "barren_at_least key n s = (key \<notin> ls_futile s \<and> n \<le> count_of (ls_barren s key))"

lemma barren_call_between:
  assumes "barren_at_least key n s" and "harmless key (c, p, f, r)"
  shows "barren_at_least key n (note_outcome p f r (snd (inspect lower cfg c s)))"
proof -
  have k: "call_key c \<noteq> key" and w: "p \<Longrightarrow> call_name c \<notin> set WRITE_CLASS_TOOL_NAMES"
    using assms(2) by (auto simp: harmless_def)
  show ?thesis
  proof (cases "is_counted c")
    case True
    with assms(1) k w show ?thesis
      by (auto simp: barren_at_least_def note_outcome_def note_productive_def forget_verdicts_def
          inspect_pending Let_def)
  next
    case False
    with assms(1) show ?thesis by (simp add: barren_at_least_def note_outcome_def inspect_pending Let_def)
  qed
qed

lemma barren_calls_between:
  "barren_at_least key n s \<Longrightarrow> \<forall>d \<in> set ds. harmless key d \<Longrightarrow>
    barren_at_least key n (fst (fold (loop_step lower cfg) (calls_between ds) (s, tr)))"
proof (induction ds arbitrary: s tr)
  case (Cons d ds)
  obtain c p f r where d: "d = (c, p, f, r)" by (cases d)
  have "harmless key (c, p, f, r)" using Cons.prems(2) d by simp
  from Cons.IH [OF barren_call_between [OF Cons.prems(1) this]] Cons.prems(2) show ?case
    by (simp add: d calls_between_def loop_step_def)
qed (simp add: calls_between_def)

lemma barren_round:
  assumes "barren_at_least (call_key c) n s" and "is_counted c" and "\<forall>d \<in> set (snd rd). harmless (call_key c) d"
  shows "barren_at_least (call_key c) (Suc n) (fst (fold (loop_step lower cfg) (failing_round c rd) (s, tr)))"
proof -
  let ?s = "note_outcome False False (fst rd) (snd (inspect lower cfg c s))"
  have "barren_at_least (call_key c) (Suc n) ?s"
    using assms(1,2) by (simp add: barren_at_least_def note_outcome_def inspect_pending count_of_def Let_def)
  from barren_calls_between [OF this assms(3)] show ?thesis
    by (simp add: failing_round_def loop_step_def)
qed

lemma barren_rounds:
  "is_counted c \<Longrightarrow> \<forall>rd \<in> set rds. \<forall>d \<in> set (snd rd). harmless (call_key c) d \<Longrightarrow>
    barren_at_least (call_key c) n (fst st) \<Longrightarrow>
    barren_at_least (call_key c) (n + length rds)
      (fst (fold (loop_step lower cfg) (concat (map (failing_round c) rds)) st))"
proof (induction rds arbitrary: n st)
  case (Cons rd rds)
  have "barren_at_least (call_key c) (Suc n) (fst (fold (loop_step lower cfg) (failing_round c rd) (fst st, snd st)))"
    by (rule barren_round) (use Cons.prems in auto)
  from Cons.IH [OF Cons.prems(1) _ this [unfolded prod.collapse]] Cons.prems(2) show ?case
    by simp
qed simp

lemma barren_stops:
  "barren_at_least (call_key c) STRIKE_LIMIT s \<Longrightarrow> is_counted c \<Longrightarrow>
    \<exists>n. fst (inspect lower cfg c s) = VHard (barren_hard_text (call_name c) n)"
  by (cases rule: inspect_is_counted [of c lower cfg s])
    (auto simp: barren_at_least_def inspect_counted_def Let_def)


definition edit_call :: loop_call where
  "edit_call = \<lparr>call_name = js ''editor'', call_input = JNull\<rparr>"

definition read_call :: loop_call where
  "read_call = \<lparr>call_name = js ''read_files'', call_input = JNull\<rparr>"

lemma demo_calls:
  "is_counted edit_call" "is_counted read_call" "call_key read_call \<noteq> call_key edit_call"
  "call_name read_call \<notin> set WRITE_CLASS_TOOL_NAMES"
  "\<not> call_moves_its_own_subject edit_call" "\<not> call_moves_its_own_subject read_call"
  by (simp_all add: edit_call_def read_call_def is_counted_def POLLING_TOOL_NAMES_def COMMAND_TOOL_NAMES_def
      WRITE_CLASS_TOOL_NAMES_def call_key_def tool_call_signature_def call_moves_its_own_subject_def js_def)


text \<open>An edit that failed six times.\<close>

definition six_failures :: "loop_event list" where
  "six_failures = concat (map (failing_round edit_call) (replicate 6 (None, [])))"

lemma six_failures_stop:
  "\<exists>n. fst (inspect id DEFAULT_LOOP_CONFIG edit_call (fst (loop_run id DEFAULT_LOOP_CONFIG six_failures))) =
     VHard (barren_hard_text (js ''editor'') n)"
proof -
  have "barren_at_least (call_key edit_call) 0 (fst (create_loop_state, []))"
    by (simp add: barren_at_least_def create_loop_state_def)
  from barren_rounds [OF demo_calls(1) _ this, of "replicate 6 (None, [])" id DEFAULT_LOOP_CONFIG]
  have "barren_at_least (call_key edit_call) STRIKE_LIMIT (fst (loop_run id DEFAULT_LOOP_CONFIG six_failures))"
    by (simp add: STRIKE_LIMIT_def six_failures_def)
  from barren_stops [OF this demo_calls(1)] show ?thesis by (simp add: edit_call_def)
qed


section \<open>Where the counts say more than they know\<close>

definition looked :: "(jtext \<Rightarrow> jtext) \<Rightarrow> loop_call \<Rightarrow> loop_state \<Rightarrow> loop_state" where
  "looked lower c s =
     (let paths = named_paths lower (call_input c);
          s1 = s\<lparr>ls_pending_key := call_key c, ls_pending_name := call_name c\<rparr>
      in if paths \<noteq> [] then s1\<lparr>ls_key_paths := (ls_key_paths s1)(call_key c \<mapsto> paths)\<rparr> else s1)"

lemma inspect_looked: "is_counted c \<Longrightarrow> inspect lower cfg c s = inspect_counted cfg c (looked lower c s)"
  by (simp add: inspect_def is_counted_def looked_def Let_def)

lemma looked_frame [simp]:
  "ls_futile (looked lower c s) = ls_futile s" "ls_barren (looked lower c s) = ls_barren s"
  "ls_cycles (looked lower c s) = ls_cycles s" "ls_consecutive (looked lower c s) = ls_consecutive s"
  "ls_last_name (looked lower c s) = ls_last_name s"
  "ls_last_signature (looked lower c s) = ls_last_signature s"
  "ls_pending_key (looked lower c s) = call_key c" "ls_pending_name (looked lower c s) = call_name c"
  by (simp_all add: looked_def Let_def)

text \<open>The count the next call \<open>a\<close> would be given.\<close>

definition next_count :: "loop_call \<Rightarrow> loop_state \<Rightarrow> nat" where
  "next_count a s = (if call_name a = ls_last_name s \<and> tool_call_signature (call_input a) = ls_last_signature s
     then Suc (ls_consecutive s) else 1)"

lemma next_count_outcome: "next_count a (note_outcome p f r s) = next_count a s"
  by (simp add: next_count_def)

lemma count_call_next:
  "ls_consecutive (count_call (call_name a) (tool_call_signature (call_input a)) (looked lower a s)) = next_count a s"
  by (simp add: next_count_def count_call_def)

definition fresh_call :: "loop_call \<Rightarrow> loop_state \<Rightarrow> bool" where
  "fresh_call a s = (call_key a \<notin> ls_futile s \<and> ls_barren s (call_key a) = None \<and> ls_cycles s (call_key a) = None)"

definition alternated :: "loop_call \<Rightarrow> loop_call \<Rightarrow> nat \<Rightarrow> loop_state \<Rightarrow> bool" where
  "alternated a b n s = (fresh_call a s \<and> call_key b \<notin> ls_futile s \<and> ls_cycles s (call_key b) = None \<and>
     count_of (ls_barren s (call_key b)) = n \<and> next_count a s = max 1 n)"

definition alternation :: "loop_call \<Rightarrow> loop_call \<Rightarrow> loop_event list" where
  "alternation a b = [Inspect a, Outcome True False None, Inspect b, Outcome False False None]"

lemma fresh_call_inspect:
  assumes "is_counted a" and "\<not> call_moves_its_own_subject a" and "fresh_call a s"
  shows "inspect lower cfg a s =
    (let s1 = count_call (call_name a) (tool_call_signature (call_input a)) (looked lower a s)
     in (if hard_escalation cfg s1 then VHard (repeat_hard_text (call_name a) (ls_consecutive s1))
         else if soft_warning cfg s1
              then VSoft (repeat_soft_text (call_name a) (ls_consecutive s1)
                (steering_for (int (ls_consecutive s1) - 2) (call_name a) False))
              else VOk, s1))"
  using assms
  by (simp add: inspect_looked inspect_counted_def inspect_consecutive_def fresh_call_def count_of_def
      STRIKE_LIMIT_def Let_def)

lemma alternation_round:
  assumes "is_counted a" "is_counted b" "call_key a \<noteq> call_key b" "\<not> call_moves_its_own_subject a"
    "\<not> call_moves_its_own_subject b" "call_name a \<notin> set WRITE_CLASS_TOOL_NAMES"
    and "alternated a b n s" and "n < STRIKE_LIMIT"
  shows "alternated a b (Suc n) (fst (fold (loop_step lower cfg) (alternation a b) (s, tr)))"
proof -
  have differ: "\<not> (call_name a = call_name b \<and> tool_call_signature (call_input a) = tool_call_signature (call_input b))"
    using assms(3) by (auto simp: call_key_def)
  let ?s1 = "snd (inspect lower cfg a s)"
  have s1: "?s1 = count_call (call_name a) (tool_call_signature (call_input a)) (looked lower a s)"
    using assms(1,4,7) by (simp add: fresh_call_inspect alternated_def Let_def)
  let ?s2 = "note_outcome True False None ?s1"
  have s2: "fresh_call a ?s2" "call_key b \<notin> ls_futile ?s2" "ls_cycles ?s2 (call_key b) = None"
    "ls_barren ?s2 (call_key b) = ls_barren s (call_key b)" "ls_consecutive ?s2 = max 1 n"
    "ls_last_name ?s2 = call_name a" "ls_last_signature ?s2 = tool_call_signature (call_input a)"
    using assms(3,6,7) unfolding s1
    by (auto simp: note_outcome_def note_productive_def note_answer_def forget_verdicts_def fresh_call_def
        alternated_def next_count_def count_call_def Let_def)
  let ?s3 = "snd (inspect lower cfg b ?s2)"
  have keep: "fresh_call a (note_outcome False False None ?s3)"
    "call_key b \<notin> ls_futile (note_outcome False False None ?s3)"
    "ls_cycles (note_outcome False False None ?s3) (call_key b) = None"
    "count_of (ls_barren (note_outcome False False None ?s3) (call_key b)) = Suc n"
    using s2 assms(2,3,7)
    by (auto simp: note_outcome_def note_answer_def fresh_call_def inspect_pending alternated_def
        count_of_def Let_def)
  have "next_count a ?s3 = max 1 (Suc n)"
  proof (cases "n = 0")
    case True
    have "ls_barren ?s2 (call_key b) = None \<or> ls_barren ?s2 (call_key b) = Some 0"
      using s2(4) assms(7) True by (auto simp: alternated_def count_of_def opt_default_def split: option.splits)
    then have "inspect_counted cfg b (looked lower b ?s2) = inspect_consecutive cfg b (looked lower b ?s2)"
      using s2 by (auto simp: inspect_counted_def count_of_def STRIKE_LIMIT_def Let_def)
    then have "snd (inspect lower cfg b ?s2) =
        count_call (call_name b) (tool_call_signature (call_input b)) (looked lower b ?s2)"
      using assms(2,5) by (simp add: inspect_looked inspect_consecutive_def Let_def)
    then show ?thesis
      using differ True by (auto simp: next_count_def count_call_def)
  next
    case False
    have "count_of (ls_barren ?s2 (call_key b)) = n" using s2(4) assms(7) by (simp add: alternated_def)
    then have "snd (inspect lower cfg b ?s2) = looked lower b ?s2"
      using s2(2) assms(2,8) False by (simp add: inspect_looked inspect_counted_def Let_def)
    then show ?thesis using s2(5-7) False by (simp add: next_count_def)
  qed
  then have "next_count a (note_outcome False False None ?s3) = max 1 (Suc n)"
    by (simp only: next_count_outcome)
  with keep show ?thesis
    by (simp add: alternated_def alternation_def loop_step_def)
qed

lemma alternation_rounds:
  assumes "is_counted a" "is_counted b" "call_key a \<noteq> call_key b" "\<not> call_moves_its_own_subject a"
    "\<not> call_moves_its_own_subject b" "call_name a \<notin> set WRITE_CLASS_TOOL_NAMES" and "n \<le> STRIKE_LIMIT"
  shows "alternated a b n (fst (loop_run lower cfg (concat (replicate n (alternation a b)))))"
  using assms(7)
proof (induction n)
  case 0
  show ?case
    by (simp add: alternated_def fresh_call_def create_loop_state_def next_count_def count_of_def)
next
  case (Suc n)
  let ?st = "loop_run lower cfg (concat (replicate n (alternation a b)))"
  have "concat (replicate (Suc n) (alternation a b)) = concat (replicate n (alternation a b)) @ alternation a b"
    by (simp add: replicate_append_same [symmetric])
  then have run: "loop_run lower cfg (concat (replicate (Suc n) (alternation a b))) =
      fold (loop_step lower cfg) (alternation a b) (fst ?st, snd ?st)"
    by (simp only: fold_append comp_apply prod.collapse)
  show ?case
    unfolding run by (rule alternation_round [OF assms(1-6)]) (use Suc in auto)
qed

text \<open>
  A call that keeps failing does not interrupt another call's run of repeats: a successful call
  that alternates with a failing one, and is therefore never sent twice in a row, is stopped at its
  sixth time as five consecutive identical calls.
\<close>

theorem alternating_call_stopped:
  assumes "is_counted a" "is_counted b" "call_key a \<noteq> call_key b" "\<not> call_moves_its_own_subject a"
    "\<not> call_moves_its_own_subject b" "call_name a \<notin> set WRITE_CLASS_TOOL_NAMES"
  shows "fst (inspect lower DEFAULT_LOOP_CONFIG a
      (fst (loop_run lower DEFAULT_LOOP_CONFIG (concat (replicate 5 (alternation a b)))))) =
    VHard (repeat_hard_text (call_name a) 5)"
proof -
  let ?s = "fst (loop_run lower DEFAULT_LOOP_CONFIG (concat (replicate 5 (alternation a b))))"
  have s: "fresh_call a ?s" "next_count a ?s = 5"
    using alternation_rounds [OF assms, of 5 lower DEFAULT_LOOP_CONFIG]
    by (simp_all add: alternated_def STRIKE_LIMIT_def)
  have "ls_consecutive (count_call (call_name a) (tool_call_signature (call_input a)) (looked lower a ?s)) = 5"
    unfolding count_call_next by (rule s(2))
  with fresh_call_inspect [OF assms(1,4) s(1), of lower DEFAULT_LOOP_CONFIG] show ?thesis
    by (simp add: hard_escalation_def DEFAULT_LOOP_CONFIG_def Let_def)
qed

theorem alternating_call_stopped_witness:
  "fst (inspect id DEFAULT_LOOP_CONFIG read_call (fst (loop_run id DEFAULT_LOOP_CONFIG
     (concat (replicate 5 (alternation read_call edit_call)))))) = VHard (repeat_hard_text (js ''read_files'') 5)"
  using alternating_call_stopped [OF demo_calls(2,1,3,6,5,4), of id] by (simp add: read_call_def)

text \<open>
  The outcome of a call is credited to the call inspected last: of two calls running at once, the
  first one's failure counts against the second.
\<close>

lemma overlapping_outcomes:
  assumes "is_counted a" "is_counted b" "call_key a \<noteq> call_key b"
  shows "ls_barren (note_outcome False False None (snd (inspect lower cfg b (snd (inspect lower cfg a s)))))
    = (ls_barren s)(call_key b \<mapsto> Suc (count_of (ls_barren s (call_key b))))"
  using assms by (simp add: note_outcome_def inspect_pending Let_def note_answer_def)

end
