(* ===== verification/Snapshot.thy ===== *)
theory Snapshot
  imports Text
begin

text \<open>
  The undo of a transaction: \<open>sdk/packages/core/src/runtime/atomic/snapshot.ts\<close>. A directory is the
  list of its entries in the order \<open>readdir\<close> answers, a path is the list of its names below the root.
  \<open>sha\<close> is \<open>hashOf\<close>; \<open>through\<close> is what writing to something that is no regular file does, or below it (a
  link's target, a device), which may also throw.
\<close>

section \<open>The tree\<close>

type_synonym path = "jtext list"

text \<open>
  \<open>Locked_File\<close>: \<open>stat\<close> or \<open>readFile\<close> throws. \<open>Special\<close>: a link, a socket, a device. \<open>Closed_Folder\<close>:
  \<open>readdir\<close> throws.
\<close>

datatype tree =
    File bytes
  | Locked_File
  | Special
  | Folder "(jtext \<times> tree) list"
  | Closed_Folder

type_synonym entries = "(jtext \<times> tree) list"

definition SCAN_IGNORED_DIRECTORIES :: "jtext list" where
  "SCAN_IGNORED_DIRECTORIES = map js
     [''.git'', ''.hg'', ''.svn'', ''node_modules'', ''dist'', ''build'', ''out'', ''target'', ''.venv'',
      ''venv'', ''__pycache__'', ''.next'', ''.turbo'', ''.cache'', ''coverage'']"

text \<open>\<open>mkdir(dirname, recursive)\<close> and \<open>writeFile\<close>; nothing if one of them throws.\<close>

fun put_file ::
    "(path \<Rightarrow> bytes \<Rightarrow> entries option) \<Rightarrow> path \<Rightarrow> bytes \<Rightarrow> entries \<Rightarrow> entries option" where
  "put_file through [] body es = None"
| "put_file through [n] body es =
     (case map_of es n of
        None \<Rightarrow> Some (AList.update n (File body) es)
      | Some (File old) \<Rightarrow> Some (AList.update n (File body) es)
      | Some (Folder ts) \<Rightarrow> None
      | Some Closed_Folder \<Rightarrow> None
      | Some _ \<Rightarrow> through [n] body)"
| "put_file through (n # m # ns) body es =
     (case map_of es n of
        None \<Rightarrow> map_option (\<lambda>ts. AList.update n (Folder ts) es)
                  (put_file (\<lambda>p. through (n # p)) (m # ns) body [])
      | Some (Folder ts) \<Rightarrow> map_option (\<lambda>ts. AList.update n (Folder ts) es)
                              (put_file (\<lambda>p. through (n # p)) (m # ns) body ts)
      | Some Special \<Rightarrow> through (n # m # ns) body
      | Some _ \<Rightarrow> None)"

text \<open>\<open>rm(path, force)\<close> of a regular file.\<close>

fun drop_file :: "path \<Rightarrow> entries \<Rightarrow> entries" where
  "drop_file [] es = es"
| "drop_file [n] es = AList.delete n es"
| "drop_file (n # m # ns) es =
     (case map_of es n of
        Some (Folder ts) \<Rightarrow> AList.update n (Folder (drop_file (m # ns) ts)) es
      | _ \<Rightarrow> es)"

section \<open>Taking a snapshot\<close>

record limits =
  max_files :: nat
  max_file_bytes :: nat
  max_total_bytes :: nat

definition DEFAULT_LIMITS :: limits where
  "DEFAULT_LIMITS = \<lparr>max_files = 5000, max_file_bytes = 4 * 1024 * 1024, max_total_bytes = 128 * 1024 * 1024\<rparr>"

record snap =
  held_files :: "(path \<times> jtext \<times> bytes) list"
  skipped_files :: "path list"

text \<open>The locals of \<open>takeSnapshot\<close>: the snapshot and the bytes it holds.\<close>

type_synonym scan = "snap \<times> nat"

definition skip_file :: "path \<Rightarrow> scan \<Rightarrow> scan" where
  "skip_file p s = ((fst s)\<lparr>skipped_files := skipped_files (fst s) @ [p]\<rparr>, snd s)"

definition hold_file :: "(bytes \<Rightarrow> jtext) \<Rightarrow> path \<Rightarrow> bytes \<Rightarrow> scan \<Rightarrow> scan" where
  "hold_file sha p body s =
     ((fst s)\<lparr>held_files := AList.update p (sha body, body) (held_files (fst s))\<rparr>, snd s + length body)"

text \<open>One entry of a directory that is no directory.\<close>

definition scan_leaf :: "(bytes \<Rightarrow> jtext) \<Rightarrow> limits \<Rightarrow> path \<times> tree \<Rightarrow> scan \<Rightarrow> scan" where
  "scan_leaf sha b pt s =
     (case snd pt of
        File body \<Rightarrow>
          if length (held_files (fst s)) \<ge> max_files b \<or> snd s \<ge> max_total_bytes b \<or>
             length body > max_file_bytes b
          then skip_file (fst pt) s
          else hold_file sha (fst pt) body s
      | _ \<Rightarrow> skip_file (fst pt) s)"

lemma folder_size: "size_list (\<lambda>nt. size (snd nt)) ts \<le> size_list (size_prod (\<lambda>x. 0) size) ts"
  by (induction ts) auto

function walk :: "(bytes \<Rightarrow> jtext) \<Rightarrow> limits \<Rightarrow> path \<Rightarrow> entries \<Rightarrow> scan \<Rightarrow> scan" where
  "walk sha b dir [] s = s"
| "walk sha b dir ((n, t) # es) s =
     walk sha b dir es
       (case t of
          Folder ts \<Rightarrow>
            if n \<in> set SCAN_IGNORED_DIRECTORIES then s else walk sha b (dir @ [n]) ts s
        | Closed_Folder \<Rightarrow> s
        | leaf \<Rightarrow> scan_leaf sha b (dir @ [n], leaf) s)"
  by pat_completeness auto
termination by (relation "measure (\<lambda>(sha, b, dir, es, s). size_list (\<lambda>nt. size (snd nt)) es)")
  (auto simp: less_Suc_eq_le intro: order_trans [OF folder_size] le_SucI)

definition take_snapshot :: "(bytes \<Rightarrow> jtext) \<Rightarrow> limits \<Rightarrow> entries \<Rightarrow> snap" where
  "take_snapshot sha b es = fst (walk sha b [] es (\<lparr>held_files = [], skipped_files = []\<rparr>, 0))"

section \<open>Restoring\<close>

record restore_report =
  restored :: "path list"
  removed :: "path list"
  recreated :: "path list"
  uncovered :: "path list"

text \<open>The first loop: files put back or written over. The error is the path that could not be written.\<close>

fun put_back ::
    "(path \<Rightarrow> bytes \<Rightarrow> entries option) \<Rightarrow> snap \<Rightarrow> (path \<times> jtext \<times> bytes) list \<Rightarrow> entries \<Rightarrow>
     restore_report \<Rightarrow> entries \<times> (path + restore_report)" where
  "put_back through now [] es r = (es, Inr r)"
| "put_back through now ((p, h, body) # fs) es r =
     (case map_of (held_files now) p of
        None \<Rightarrow>
          (case put_file through p body es of
             None \<Rightarrow> (es, Inl p)
           | Some es' \<Rightarrow> put_back through now fs es' (r\<lparr>recreated := recreated r @ [p]\<rparr>))
      | Some (h', body') \<Rightarrow>
          if h' \<noteq> h
          then (case put_file through p body es of
                  None \<Rightarrow> (es, Inl p)
                | Some es' \<Rightarrow> put_back through now fs es' (r\<lparr>restored := restored r @ [p]\<rparr>))
          else put_back through now fs es r)"

text \<open>The second loop: files the snapshot does not hold are removed.\<close>

fun remove_new :: "snap \<Rightarrow> path list \<Rightarrow> entries \<Rightarrow> restore_report \<Rightarrow> entries \<times> restore_report" where
  "remove_new base [] es r = (es, r)"
| "remove_new base (p # ps) es r =
     (if map_of (held_files base) p = None
      then remove_new base ps (drop_file p es) (r\<lparr>removed := removed r @ [p]\<rparr>)
      else remove_new base ps es r)"

definition restore_snapshot ::
    "(bytes \<Rightarrow> jtext) \<Rightarrow> (path \<Rightarrow> bytes \<Rightarrow> entries option) \<Rightarrow> limits \<Rightarrow> snap \<Rightarrow> entries \<Rightarrow>
     entries \<times> (path + restore_report)" where
  "restore_snapshot sha through b base es =
     (let now = take_snapshot sha b es in
      case put_back through now (held_files base) es
             \<lparr>restored = [], removed = [], recreated = [], uncovered = skipped_files base\<rparr> of
        (es', Inl p) \<Rightarrow> (es', Inl p)
      | (es', Inr r) \<Rightarrow>
          (case remove_new base (map fst (held_files now)) es' r of (es'', r') \<Rightarrow> (es'', Inr r')))"

definition snapshot_changes :: "(bytes \<Rightarrow> jtext) \<Rightarrow> limits \<Rightarrow> snap \<Rightarrow> entries \<Rightarrow> (path \<times> bytes) list" where
  "snapshot_changes sha b base es =
     map (\<lambda>(p, h, body). (p, body))
       (filter (\<lambda>(p, h, body). map_option fst (map_of (held_files base) p) \<noteq> Some h)
         (held_files (take_snapshot sha b es)))"

definition snapshot_is_clean :: "(bytes \<Rightarrow> jtext) \<Rightarrow> limits \<Rightarrow> snap \<Rightarrow> entries \<Rightarrow> bool" where
  "snapshot_is_clean sha b base es =
     (let now = take_snapshot sha b es
      in length (held_files now) = length (held_files base) \<and>
         list_all (\<lambda>(p, h, body). map_option fst (map_of (held_files now) p) = Some h) (held_files base))"

section \<open>Looking up a path\<close>

lemma path_cases:
  obtains "p = []" | n where "p = [n]" | n m ns where "p = n # m # ns"
  by (metis neq_Nil_conv)

fun node_at :: "path \<Rightarrow> entries \<Rightarrow> tree option" where
  "node_at [] es = None"
| "node_at [n] es = map_of es n"
| "node_at (n # m # ns) es = (case map_of es n of Some (Folder ts) \<Rightarrow> node_at (m # ns) ts | _ \<Rightarrow> None)"

definition file_at :: "path \<Rightarrow> entries \<Rightarrow> bytes option" where
  "file_at p es = (case node_at p es of Some (File b) \<Rightarrow> Some b | _ \<Rightarrow> None)"

text \<open>A path at which a file can be written without \<open>through\<close>.\<close>

fun writable :: "path \<Rightarrow> entries \<Rightarrow> bool" where
  "writable [] es = False"
| "writable [n] es = (case map_of es n of None \<Rightarrow> True | Some (File b) \<Rightarrow> True | _ \<Rightarrow> False)"
| "writable (n # m # ns) es =
     (case map_of es n of None \<Rightarrow> True | Some (Folder ts) \<Rightarrow> writable (m # ns) ts | _ \<Rightarrow> False)"

lemma file_at_simps [simp]:
  "file_at [] es = None"
  "file_at [n] es = (case map_of es n of Some (File b) \<Rightarrow> Some b | _ \<Rightarrow> None)"
  "file_at (n # m # ns) es = (case map_of es n of Some (Folder ts) \<Rightarrow> file_at (m # ns) ts | _ \<Rightarrow> None)"
  by (auto simp: file_at_def split: option.splits tree.splits)

lemma file_at_Nil [simp]: "file_at p [] = None"
  by (cases p rule: path_cases) auto

lemma writable_Nil [simp]: "p \<noteq> [] \<Longrightarrow> writable p []"
  by (cases p rule: path_cases) auto

lemma put_file_defined: "writable p es \<Longrightarrow> \<exists>es'. put_file through p body es = Some es'"
proof (induction p es arbitrary: through rule: writable.induct)
  case (3 n m ns es)
  show ?case
  proof (cases "map_of es n")
    case None
    have "\<exists>ts. put_file th (m # ns) body [] = Some ts" for th
      using None
    proof (induction ns arbitrary: m th)
      case (Cons k ns)
      then show ?case by fastforce
    qed simp
    with None show ?thesis by fastforce
  next
    case (Some t)
    with 3 show ?thesis by (cases t) fastforce+
  qed
qed (auto split: option.splits tree.splits)

lemma put_file_at:
  "writable p es \<Longrightarrow> put_file through p body es = Some es' \<Longrightarrow>
   file_at q es' = (if q = p then Some body else file_at q es)"
proof (induction through p body es arbitrary: es' q rule: put_file.induct)
  case (2 through n body es)
  then have "es' = AList.update n (File body) es"
    by (auto split: option.splits tree.splits)
  then show ?case
    using 2 by (cases q rule: path_cases) (auto simp: update_conv' split: option.splits tree.splits)
next
  case (3 through n m ns body es)
  show ?case
  proof (cases "map_of es n")
    case None
    with 3(4) obtain ts where ts: "put_file (\<lambda>p. through (n # p)) (m # ns) body [] = Some ts"
      "es' = AList.update n (Folder ts) es" by auto
    from 3(1) [OF None _ ts(1)] have "file_at q ts = (if q = m # ns then Some body else None)" for q
      by simp
    with ts(2) None show ?thesis
      by (cases q rule: path_cases) (auto simp: update_conv' split: option.splits tree.splits)
  next
    case (Some t)
    with 3(3) obtain ts0 where t: "t = Folder ts0" and w: "writable (m # ns) ts0"
      by (cases t) auto
    with Some 3(4) obtain ts where ts: "put_file (\<lambda>p. through (n # p)) (m # ns) body ts0 = Some ts"
      "es' = AList.update n (Folder ts) es" by auto
    from 3(2) [OF Some t w ts(1)] have "file_at q ts = (if q = m # ns then Some body else file_at q ts0)" for q .
    with ts(2) Some t show ?thesis
      by (cases q rule: path_cases) (auto simp: update_conv' split: option.splits tree.splits)
  qed
qed simp

end
