(* ===== verification/Protocol.thy ===== *)
theory Protocol
  imports Prelude Text
begin

text \<open>
  What a model is told: \<open>sdk/packages/core/src/runtime/atomic/protocol.ts\<close>. The record of a
  transaction, the rules that open one, the record of the earlier ones, and the sentences that close
  one. An oracle is what \<open>oracle.ts\<close> declares; the texts are the source's.
\<close>

section \<open>Oracles, verdicts and outcomes\<close>

datatype must = Must_Match | Must_Not_Match

text \<open>\<open>Command label cwd reason command args expect must\<close> and \<open>Page label cwd reason path frames\<close>.\<close>

datatype check_oracle =
    Command (o_label: jtext) (o_cwd: jtext) (o_reason: jtext) jtext "jtext list" "jtext option" "must option"
  | Page (o_label: jtext) (o_cwd: jtext) (o_reason: jtext) jtext "int option"

fun is_page_oracle :: "check_oracle \<Rightarrow> bool" where
  "is_page_oracle (Page l c r p f) = True"
| "is_page_oracle _ = False"

fun o_expect :: "check_oracle \<Rightarrow> jtext option" where
  "o_expect (Command l c r x as e m) = e"
| "o_expect _ = None"

fun o_must :: "check_oracle \<Rightarrow> must option" where
  "o_must (Command l c r x as e m) = m"
| "o_must _ = None"

record oracle_verdict =
  v_passed :: bool
  v_exit_code :: "int option"
  v_output :: jtext
  v_timed_out :: bool
  v_unmatched :: bool
  v_summary :: "jtext option"

datatype verdict_source = Oracle_Source | Self_Declared | Undeclared

record tx_outcome =
  tx_number :: nat
  tx_kept :: bool
  tx_carried :: bool
  tx_source :: verdict_source
  tx_plan :: "jtext option"
  tx_account :: "jtext option"
  tx_evidence :: jtext

section \<open>Names and numbers\<close>

definition LAST_REVISION :: jtext where
  "LAST_REVISION = js ''last''"

definition PLAN_TOOL_NAME :: jtext where
  "PLAN_TOOL_NAME = js ''plan''"

definition PROPOSE_CHECK_TOOL_NAME :: jtext where
  "PROPOSE_CHECK_TOOL_NAME = js ''propose_check''"

definition RESTORE_FILE_TOOL_NAME :: jtext where
  "RESTORE_FILE_TOOL_NAME = js ''restore_file''"

definition RUN_CHECK_TOOL_NAME :: jtext where
  "RUN_CHECK_TOOL_NAME = js ''run_check''"

definition SUBMIT_TRANSACTION_TOOL_NAME :: jtext where
  "SUBMIT_TRANSACTION_TOOL_NAME = js ''submit_transaction''"

definition int_text :: "int \<Rightarrow> jtext" where
  "int_text n = (if n < 0 then js ''-'' @ decimal (nat (- n)) else decimal (nat n))"

text \<open>\<open>TX-\<close> and the number, padded to two digits.\<close>

definition tx_label :: "nat \<Rightarrow> jtext" where
  "tx_label n = js ''TX-'' @ (if n < 10 then js ''0'' else []) @ decimal n"

text \<open>A text that is set and, where the code trims it, not blank.\<close>

definition said :: "jtext option \<Rightarrow> jtext option" where
  "said t = (case t of None \<Rightarrow> None | Some s \<Rightarrow> if trim s = [] then None else Some (trim s))"

section \<open>The check, in words\<close>

definition describe_oracle_standard :: "check_oracle \<Rightarrow> jtext" where
  "describe_oracle_standard oc =
     (if is_page_oracle oc
      then js ''the verdict is that the page loads, runs its frames and throws nothing''
      else case o_expect oc of
        None \<Rightarrow> js ''its exit status is the verdict''
      | Some e \<Rightarrow> if e = [] then js ''its exit status is the verdict''
                  else (js ''the verdict is that it finishes cleanly AND its output matches /'' @
                       e @
                       js ''/''))"

definition describe_oracle_choice :: "check_oracle \<Rightarrow> jtext" where
  "describe_oracle_choice oc =
     (if o_reason oc = js ''named for this task''
      then js ''It was named for this task, so it is the standard the change is held to.''
      else (js ''It was chosen because '' @
           o_reason oc @
           js ''.''))"

section \<open>The record of earlier transactions\<close>

definition history_entry :: "tx_outcome \<Rightarrow> jtext list" where
  "history_entry out =
     [[], tx_label (tx_number out) @ js '' '' @ [EM_DASH] @ js '' '' @
        (if tx_kept out then js ''kept''
         else if tx_carried out then js ''carried, and its changes are still in place''
         else js ''discarded'') @
        (case tx_source out of
           Self_Declared \<Rightarrow> js '' (no check available)''
         | Undeclared \<Rightarrow> js '' (no check available, and you never said whether it worked)''
         | Oracle_Source \<Rightarrow> [])] @
     (case said (tx_plan out) of Some p \<Rightarrow> [js ''plan:'', p] | None \<Rightarrow> []) @
     (case said (tx_account out) of Some a \<Rightarrow> [js ''you said:'', a] | None \<Rightarrow> []) @
     (if trim (tx_evidence out) \<noteq> [] then [js ''result:'', trim (tx_evidence out)] else [])"

definition CHANGES_GONE :: jtext where
  "CHANGES_GONE =
     (js ''Those changes are gone: the files are as they were before that transaction. Do not '' @
     js ''repeat a plan that has already been discarded '' @
     [EM_DASH] @
     js '' if the same symptom is still there, the previous reading of it was wrong.'')"

definition CHANGES_GONE_NEVER_PASSED :: jtext where
  "CHANGES_GONE_NEVER_PASSED =
     (js ''Those changes are gone: the files are as they were before that transaction. Do not '' @
     js ''repeat a plan that has already been discarded. The check has not passed once across '' @
     js ''any of them, so either the same reading of the symptom keeps coming back wrong, or '' @
     js ''the check itself is not asking for what a fix would produce '' @
     [EM_DASH] @
     js '' the second is worth considering by now.'')"

definition describe_history :: "tx_outcome list \<Rightarrow> bool \<Rightarrow> jtext" where
  "describe_history h never_passed =
     join_lines ([js ''== WHAT EARLIER TRANSACTIONS TRIED ==''] @ concat (map history_entry h) @
       [[], if never_passed then CHANGES_GONE_NEVER_PASSED else CHANGES_GONE])"

section \<open>A check of the user's that never passed\<close>

definition STUCK_HOST_CHECK_AFTER :: nat where
  "STUCK_HOST_CHECK_AFTER = 3"

text \<open>The loop that counts the streak from the end: the outcomes before the last one, latest first.\<close>

fun same_evidence :: "jtext \<Rightarrow> tx_outcome list \<Rightarrow> nat" where
  "same_evidence t [] = 0"
| "same_evidence t (out # outs) = (if trim (tx_evidence out) \<noteq> t then 0 else Suc (same_evidence t outs))"

definition stuck_text :: "tx_outcome list \<Rightarrow> jtext \<Rightarrow> nat \<Rightarrow> tx_outcome \<Rightarrow> jtext" where
  "stuck_text h t s first = join_lines
     [(js ''== THE CHECK HAS JUDGED '' @
      decimal (length h) @
      js '' ATTEMPTS AND PASSED NONE ==''),
      [],
      (js ''This check is the gate to mark the task completed successfully. It was named for '' @
      js ''this task by the user and it will not change, so the question is not whether it is '' @
      js ''right. The question is what it has been telling you, which is not the same as what '' @
      js ''you have been reading it as.''),
      [],
      (js ''Its output has not changed since '' @
      tx_label (tx_number first) @
      js '' '' @
      [EM_DASH] @
      js '' the same text, byte for byte, across '' @
      decimal s @
      js '' attempts:''),
      [],
      t,
      [],
      (js ''Nothing you have edited is on the path the check takes. Whatever the file looks '' @
      js ''like where you have been working, the failure it reports is raised somewhere your '' @
      js ''changes have not reached. Before editing anything else, find where that output '' @
      js ''actually comes from '' @
      [EM_DASH] @
      js '' read it as text, locate the thing it names, and confirm you are looking at the '' @
      js ''code that produces it.''),
      [],
      js ''Say in one sentence where you now think it comes from. Then plan.'']"

definition describe_stuck_host_check :: "tx_outcome list \<Rightarrow> jtext option" where
  "describe_stuck_host_check h =
     (if length h < STUCK_HOST_CHECK_AFTER then None
      else if \<not> list_all (\<lambda>out. \<not> tx_kept out \<and> tx_source out = Oracle_Source) h then None
      else let t = trim (tx_evidence (last h)) in
        if t = [] then None
        else let s = Suc (same_evidence t (tl (rev h))) in
          if s < 2 then None else Some (stuck_text h t s (h ! (length h - s))))"

section \<open>Looking back\<close>

definition describe_post_mortem_request :: "nat \<Rightarrow> jtext" where
  "describe_post_mortem_request attempts =
     (let those = (if attempts = 1 then js ''that attempt'' else js ''those attempts'') in
      join_lines
     [js ''== BEFORE YOU PLAN, LOOK BACK =='',
      [],
      (js ''Call `'' @
      PLAN_TOOL_NAME @
      js ''` first. It answers WORKED, DID NOT and RE-USE for you, from what was actually '' @
      js ''recorded rather than from what you remember, and the plan you stated last time is '' @
      js ''still in it.''),
      [],
      (js ''Then open this transaction with a short retrospective on '' @
      those @
      js '' '' @
      [EM_DASH] @
      js '' four lines, before the plan, in your reply where the user can see it:''),
      [],
      (js ''  WORKED     - what you established that is still true. A symptom you located, a '' @
      js ''line you confirmed is fine, a reading of the file that held up. This survives the '' @
      js ''rollback even though the edits did not.''),
      (js ''  DID NOT    - which edit failed to move the check, and what the check said instead '' @
      js ''of what you expected.''),
      (js ''  RE-USE     - what you will carry into this attempt unchanged, so you do not spend '' @
      js ''the transaction rediscovering it.''),
      (js ''  DIFFERENT  - what you will do differently, named concretely. Not '' @
      [34] @
      js ''be more careful'' @
      [34] @
      js ''.''),
      [],
      (js ''DIFFERENT is this transaction's plan. A retrospective on its own is not one '' @
      [EM_DASH] @
      js '' state the new list through `'' @
      PLAN_TOOL_NAME @
      js ''` before your first edit, the way you did for the first transaction.''),
      [],
      (js ''Then read the check's last output again as text rather than as a verdict. Does it '' @
      js ''name the thing you were fixing? If it names something else, the plan that follows '' @
      js ''should be about what it names, not about what you were working on when it said so.''),
      [],
      (js ''The files are back to their starting state, but what you learned is not. That is '' @
      js ''the only thing this transaction begins with that the last one did not.'')])"

section \<open>The rules\<close>

record protocol_input =
  pi_transaction :: nat
  pi_max_changes :: int
  pi_max_transactions :: int
  pi_last_notice :: "jtext option"
  pi_check :: "check_oracle option"
  pi_can_propose_check :: bool
  pi_check_never_passed :: bool
  pi_can_replace_check :: bool
  pi_host_supplied_check :: bool
  pi_history :: "tx_outcome list"

definition rules_opening :: "protocol_input \<Rightarrow> jtext list" where
  "rules_opening i =
     (let lbl = tx_label (pi_transaction i) in
     [js ''== CHANGE PROTOCOL =='',
      [],
      (js ''You are working in transactions. This one is '' @
      lbl @
      js '' of at most '' @
      int_text (pi_max_transactions i) @
      js ''.''),
      [],
      (js ''This adds to your instructions; it does not replace them. Everything you were '' @
      js ''already told still applies '' @
      [EM_DASH] @
      js '' which tools you have, how to call them, how to verify your work. What follows '' @
      js ''governs only how changes are grouped and judged.''),
      [],
      (js ''Start by finding out what is actually wrong. Read the files involved and run the '' @
      js ''check before you plan anything: a plan written before you have read the code is a '' @
      js ''guess, and the WHERE below asks for text you have to have actually seen. Reading '' @
      js ''and running cost nothing from the budget below, so there is no reason to economise '' @
      js ''on them.''),
      [],
      (js ''Then state your plan as a numbered list of AT MOST '' @
      int_text (pi_max_changes i) @
      js '' changes. For each one give three things:''),
      js ''  WHERE - the function, or the exact text you will match on'',
      js ''  WHAT  - the single concrete edit you will make there'',
      js ''  WHY   - the specific symptom it removes'',
      [],
      (js ''A change is an edit to a file: after it, the file is different. Running a check, '' @
      js ''reading a file, or verifying the result is none of those, and must not take a '' @
      js ''number '' @
      [EM_DASH] @
      js '' you will do plenty of all three, and they cost nothing from this budget. If an '' @
      js ''item's WHAT does not name text being replaced, inserted or deleted, it is not a '' @
      js ''change and does not belong in the list.''),
      [],
      (js ''Then make exactly those changes, in that order, and nothing else. Do not fix '' @
      js ''anything you did not declare. Do not rewrite a whole function or a whole file: edit '' @
      js ''the smallest region that removes the symptom.''),
      [],
      (js ''Make them one at a time, not as a batch: after each edit, confirm it did what you '' @
      js ''intended before you start the next. Six edits that fail together leave you six '' @
      js ''things to undo and no way to tell which one was wrong. This governs edits only '' @
      [EM_DASH] @
      js '' reads, searches and commands change nothing and can be sent together freely, as '' @
      js ''many at a time as you find useful.''),
      [],
      (js ''Each of those edits is numbered as you make it, and `'' @
      RESTORE_FILE_TOOL_NAME @
      js ''` takes a `revision`: `'' @
      [34] @
      LAST_REVISION @
      [34] @
      js ''` undoes only your most recent change to a file and keeps everything before it, and '' @
      js ''a number goes back to any earlier point. So a single edit that goes wrong costs one '' @
      js ''step and not the transaction, and you are never choosing between keeping a mistake '' @
      js ''and throwing away the work that came before it.''),
      [],
      (js ''Put the same list into `'' @
      PLAN_TOOL_NAME @
      js ''` as well as into your reply, and mark each item `done` the moment its edit '' @
      js ''applies. It numbers them for you and hands the whole list back on every call, so '' @
      js ''you never have to remember what has already landed '' @
      [EM_DASH] @
      js '' and it survives a discarded transaction, which your own account of it does not.''),
      []])"

definition rules_with_check :: "jtext \<Rightarrow> check_oracle \<Rightarrow> jtext list" where
  "rules_with_check lbl oc =
     [if is_page_oracle oc
      then (js ''Run `'' @
           RUN_CHECK_TOOL_NAME @
           js ''` to '' @
           o_label oc @
           js '' '' @
           [EM_DASH] @
           js '' before you edit anything, so you see the failure in its own words, and again after '' @
           js ''each change.'')
      else (js ''Run `'' @
           o_label oc @
           js ''` and read what it says '' @
           [EM_DASH] @
           js '' before you edit anything, so you see the failure in its own words, and again after '' @
           js ''each change. `'' @
           RUN_CHECK_TOOL_NAME @
           js ''` runs the same check if you would rather not retype it.''),
      [],
      (js ''That check is what decides. It is run again when your turn ends, and '' @
      describe_oracle_standard oc @
      js '' '' @
      [EM_DASH] @
      js '' not your account of the change, and not the fact that the edit applied. '' @
      describe_oracle_choice oc),
      [],
      (js ''A program you write yourself is not that check and cannot take its place. A small '' @
      js ''helper to locate the fault is fine; running one in place of the check is not, '' @
      js ''because a program you wrote can only tell you what you already believe. If you have '' @
      js ''written more than one helper, or you are editing a helper rather than the file this '' @
      js ''task is about, stop and run the check.''),
      [],
      (js ''If it passes, '' @
      lbl @
      js '' is kept and the task is finished.''),
      [],
      (js ''If it does not, every change in '' @
      lbl @
      js '' is discarded. The files go back to exactly what they were when '' @
      lbl @
      js '' opened, and you get a new transaction with a record of what this one tried. You '' @
      js ''will never be asked to undo an edit yourself '' @
      [EM_DASH] @
      js '' that is done for you, mechanically, before the next transaction starts.'')]"

definition rules_proposing :: "jtext \<Rightarrow> jtext list" where
  "rules_proposing lbl =
     [(js ''Nothing in this workspace can be run to check the change, so as it stands you are '' @
      js ''the check '' @
      [EM_DASH] @
      js '' and your own account of your work is the weakest evidence there is. Name a better '' @
      js ''one: call `'' @
      PROPOSE_CHECK_TOOL_NAME @
      js ''` with the check that would show this task is done, and the user approves it or '' @
      js ''says what they want instead.''),
      [],
      (js ''Propose it as soon as you know what you are fixing, before you make the change. '' @
      js ''What is approved judges every attempt for the rest of the run and cannot be changed '' @
      js ''afterwards, so name the thing that would fail right now and pass once the fix lands.''),
      [],
      (js ''Once it is approved, `'' @
      RUN_CHECK_TOOL_NAME @
      js ''` runs it against the files as they stand, as often as you want. It settles nothing '' @
      js ''and rolls nothing back. Run it before you edit and after each change: a check you '' @
      js ''only meet at the end is one that can only throw the transaction away.''),
      [],
      (js ''Once a check is approved it is the only one that counts. Another program you write '' @
      js ''is not it and cannot take its place '' @
      [EM_DASH] @
      js '' approval is what makes a check the standard, and a program you wrote afterwards '' @
      js ''can only tell you what you already believe. A small helper to locate the fault is '' @
      js ''fine; if you have written more than one, or you are editing a helper rather than '' @
      js ''the file this task is about, stop and run `'' @
      RUN_CHECK_TOOL_NAME @
      js ''`.''),
      [],
      (js ''If no check is agreed, say plainly when you are done whether the change achieved '' @
      js ''what was asked and how you know. Answering '' @
      [34] @
      js ''yes'' @
      [34] @
      js '' because the edit applied is not knowing. If you cannot tell, say that instead '' @
      [EM_DASH] @
      js '' '' @
      lbl @
      js '' is then discarded and you get another transaction rather than a change nobody verified.'')]"

definition rules_without_check :: "jtext \<Rightarrow> jtext list" where
  "rules_without_check lbl =
     [js ''Nothing in this workspace can be run to check the change, so you are the check.'',
      [],
      (js ''When you are done, say plainly whether the change achieved what was asked, and how '' @
      js ''you know. Answering '' @
      [34] @
      js ''yes'' @
      [34] @
      js '' because the edit applied is not knowing. If you cannot tell, say that instead '' @
      [EM_DASH] @
      js '' '' @
      lbl @
      js '' is then discarded and you get another transaction rather than a change nobody verified.''),
      [],
      (js ''If it worked, '' @
      lbl @
      js '' is kept. If it did not, every change in it is discarded and the files go back to '' @
      js ''exactly what they were when it opened.'')]"

definition rules_replacing :: "jtext list" where
  "rules_replacing =
     [[],
      js ''== THE CHECK HAS NEVER PASSED =='',
      [],
      (js ''The check this run adopted has judged every attempt so far and has not passed once, '' @
      js ''on any files. Usually that means the change is not landing. It can also mean the '' @
      js ''check is wrong '' @
      [EM_DASH] @
      js '' that it asks for something no correct fix would produce, or that it never ran '' @
      js ''properly in the first place.''),
      [],
      (js ''Decide which. Read what the check actually reports, with `'' @
      RUN_CHECK_TOOL_NAME @
      js ''`, and look at it as a program rather than as a verdict. If it is wrong, call `'' @
      PROPOSE_CHECK_TOOL_NAME @
      js ''` once more with a replacement '' @
      [EM_DASH] @
      js '' this is the only chance to change it, and the replacement is held to the same '' @
      js ''standard: it must fail on the unmodified files. If the check is right and the '' @
      js ''change simply has not worked yet, say so and carry on fixing.'')]"

definition rules_history :: "protocol_input \<Rightarrow> jtext list" where
  "rules_history i =
     (if pi_history i = [] then []
      else [[], describe_history (pi_history i) (pi_check_never_passed i)] @
        (case if pi_host_supplied_check i then describe_stuck_host_check (pi_history i) else None of
           Some t \<Rightarrow> [[], t] | None \<Rightarrow> []) @
        [[], describe_post_mortem_request (length (pi_history i))])"

definition rules_ending :: "jtext \<Rightarrow> jtext list" where
  "rules_ending lbl =
     [[],
      js ''== HOW THIS TRANSACTION ENDS =='',
      [],
      (js ''When you have made the changes you planned and you are confident in them, call `'' @
      SUBMIT_TRANSACTION_TOOL_NAME @
      js ''`. That is what submits '' @
      lbl @
      js '', and it is the only thing that does. The check runs and the answer comes straight '' @
      js ''back to you in the same reply.''),
      [],
      (js ''You decide when. Take the turns you need: thinking a turn through, reading another '' @
      js ''file, running the check again '' @
      [EM_DASH] @
      js '' none of that ends anything, and none of it costs you a transaction. There is no '' @
      js ''credit for submitting early and no penalty for taking another look first.''),
      [],
      (js ''Ending your turn without calling anything does not submit and never has. If you do '' @
      js ''it repeatedly the run has to assume you have stopped, and '' @
      lbl @
      js '' gets submitted for you and judged exactly as it stands '' @
      [EM_DASH] @
      js '' which is strictly worse than submitting it yourself, because you do not get to '' @
      js ''finish first.'')]"

definition build_protocol_prompt :: "protocol_input \<Rightarrow> jtext" where
  "build_protocol_prompt i =
     (let lbl = tx_label (pi_transaction i) in
      join_lines (rules_opening i @
        (case pi_check i of
           Some oc \<Rightarrow> rules_with_check lbl oc
         | None \<Rightarrow> if pi_can_propose_check i then rules_proposing lbl else rules_without_check lbl) @
        (if pi_can_replace_check i then rules_replacing else []) @
        [[], (int_text (pi_max_changes i) @
             js '' is a hard limit and not a target. One change that removes one symptom is a better '' @
             js ''transaction than '' @
             int_text (pi_max_changes i) @
             js '' that might.'')] @
        (case pi_last_notice i of
           Some t \<Rightarrow> if t \<noteq> [] \<and> int (pi_transaction i) \<ge> pi_max_transactions i then [[], t] else []
         | None \<Rightarrow> []) @
        rules_history i @ rules_ending lbl))"

section \<open>Verdicts\<close>

text \<open>The verdict's last two sentences: no exit status, or one that is not zero.\<close>

definition verdict_exit :: "jtext \<Rightarrow> jtext \<Rightarrow> oracle_verdict option \<Rightarrow> jtext \<Rightarrow> jtext" where
  "verdict_exit lbl verb v tail =
     (case Option.bind v v_exit_code of
        None \<Rightarrow> (lbl @
                           js '' '' @
                           verb @
                           js '' '' @
                           [EM_DASH] @
                           js '' the check could not be run at all, so nothing was verified.'' @
                           tail)
      | Some c \<Rightarrow> (lbl @
                             js '' '' @
                             verb @
                             js '' '' @
                             [EM_DASH] @
                             js '' the check failed (exit '' @
                             int_text c @
                             js '').'' @
                             tail))"

definition describe_verdict ::
    "nat \<Rightarrow> bool \<Rightarrow> verdict_source \<Rightarrow> oracle_verdict option \<Rightarrow> bool \<Rightarrow> bool \<Rightarrow> jtext" where
  "describe_verdict n kept src v forced carried =
     (let lbl = tx_label n in
      if kept then
        (case src of
           Oracle_Source \<Rightarrow> (lbl @
           js '' kept '' @
           [EM_DASH] @
           js '' the check passed.'')
         | Self_Declared \<Rightarrow> (lbl @
         js '' kept '' @
         [EM_DASH] @
         js '' self-declared, nothing here could check it.'')
         | Undeclared \<Rightarrow>
             if forced then (lbl @
                            js '' kept but UNVERIFIED '' @
                            [EM_DASH] @
                            js '' the run was cut short before you said whether the change worked, and nothing here '' @
                            js ''could check it. The changes are on disk; check them before relying on them.'')
             else (lbl @
                  js '' kept but UNVERIFIED '' @
                  [EM_DASH] @
                  js '' nothing here could check the change and it was never stated to work. The changes '' @
                  js ''are on disk; check them before relying on them.''))
      else
        (let verb = (if carried then js ''carried'' else js ''discarded'');
             tail = (if carried then (js '' The check said something it has not said before in this run, so your changes stay '' @
             js ''on disk and the next transaction opens on top of them. Nothing has verified them: '' @
             js ''what you have is a different failure, not a fix.'')
                     else js '' Your files are back as they were.'')
         in if src = Self_Declared \<or> src = Undeclared then (lbl @
         js '' '' @
         verb @
         js '' '' @
         [EM_DASH] @
         js '' the change was not verified.'' @
         tail)
         else if (case v of Some w \<Rightarrow> v_timed_out w | None \<Rightarrow> False) then (lbl @
         js '' '' @
         verb @
         js '' '' @
         [EM_DASH] @
         js '' the check did not finish.'' @
         tail)
         else if (case v of Some w \<Rightarrow> v_unmatched w | None \<Rightarrow> False) then (lbl @
         js '' '' @
         verb @
         js '' '' @
         [EM_DASH] @
         js '' the check ran, and what it reported is not what this task counts as working.'' @
         tail)
         else case Option.bind v v_summary of
           Some s \<Rightarrow>
             if s \<noteq> [] then (lbl @
             js '' '' @
             verb @
             js '' '' @
             [EM_DASH] @
             js '' '' @
             s @
             tail)
             else verdict_exit lbl verb v tail
         | None \<Rightarrow> verdict_exit lbl verb v tail))"


section \<open>Ending a transaction that changed nothing\<close>

text \<open>The check that disagreed: its label and, if any, its output.\<close>

type_synonym failing_check = "jtext \<times> jtext option"

definition build_empty_attempt_prompt :: "nat \<Rightarrow> int \<Rightarrow> int \<Rightarrow> failing_check option \<Rightarrow> bool \<Rightarrow> jtext" where
  "build_empty_attempt_prompt n changes most chk never_began =
     (let lbl = tx_label n;
          left = max 1 (most - int n + 1);
          budget = (if left = 1 then (lbl @
          js '' is the last transaction you have'')
                    else (js ''you have '' @
                         decimal (nat left) @
                         js '' left, counting this one: '' @
                         lbl @
                         js '' of '' @
                         int_text most))
      in join_lines ([js ''== NOTHING WAS CHANGED =='',
        [],
        (js ''You ended '' @
        lbl @
        js '' without editing a single file, so there was nothing to judge. The transaction was '' @
        js ''not spent, it is still open, and '' @
        budget @
        js ''.'')] @
       (case chk of None \<Rightarrow> []
        | Some c \<Rightarrow>
           [[],
            (js ''`'' @
            fst c @
            js ''` was run for you at that boundary and it FAILED. The defect is still there, so the '' @
            js ''task is not done and this run is not over '' @
            [EM_DASH] @
            js '' ending your turn does not end it. What finishes this task is the check passing, '' @
            js ''not your account of the work.''),
            [],
            (js ''Take that as the state of the files, not as your diagnosis being done. It says the '' @
            js ''defect is still present; it does not tell you which line is wrong. Read the file.'')] @
           (case snd c of None \<Rightarrow> []
            | Some out \<Rightarrow> if out = [] then [] else [(js ''The check said:'' @
            [10] @
            out)])) @
       [[],
        (js ''Keep going. An empty submission is not a failed attempt '' @
        [EM_DASH] @
        js '' it is an attempt that has not happened yet, and nothing has been used up.'')] @
       (if never_began then
          [[],
           (js ''Nothing has been called in this transaction yet '' @
           [EM_DASH] @
           js '' not a read, not the check, not an edit. That is the thing to change in this turn: '' @
           js ''read the file you mean to change, or run the check. Not a description of doing it '' @
           [EM_DASH] @
           js '' the call itself.''),
           [],
           (js ''It is true that this costs you no transaction, and that is deliberate. It is not '' @
           js ''the same as costing nothing. The run has a wall clock, the turns are being counted, '' @
           js ''and a run that reasons its way to the end of that clock without calling anything '' @
           js ''finishes with the defect exactly where it started.'')]
        else []) @
       [[],
        (js ''State the plan as before '' @
        [EM_DASH] @
        js '' AT MOST '' @
        int_text changes @
        js '' changes, each with WHERE, WHAT and WHY '' @
        [EM_DASH] @
        js '' and then make it.''),
        [],
        (js ''If your edits are being refused, the refusal says why, and it is worth more than '' @
        js ''another read: an `old_text` that disagrees with the line range you named is the '' @
        js ''usual cause, so send one or the other, not both. If you cannot see the defect, run '' @
        js ''the linter on the file and act on the line it names rather than reading the whole '' @
        js ''file again.'')]))"

definition describe_empty_attempt :: "nat \<Rightarrow> bool \<Rightarrow> bool \<Rightarrow> jtext" where
  "describe_empty_attempt n continued never_began =
     (let lbl = tx_label n in
      if never_began then (lbl @
                          js '' was submitted with no tool called in it at all, so it was not attempted and is not '' @
                          js ''being spent. It stays open.'')
      else if continued then (lbl @
                             js '' was submitted with nothing changed, so it was not spent and is still open.'')
      else (lbl @
           js '' was submitted with nothing changed again, so it is being spent and closed rather '' @
           js ''than held open, and the run carries on with whatever transactions are left.''))"

definition describe_silent_turn :: "nat \<Rightarrow> int \<Rightarrow> int \<Rightarrow> bool \<Rightarrow> failing_check option \<Rightarrow> jtext" where
  "describe_silent_turn n silent before untouched chk =
     (let lbl = tx_label n;
          left = max 1 (before - silent)
      in join_lines ([(js ''Your turn ended without calling anything, so nothing was submitted. '' @
                      lbl @
                      js '' is still open and still yours.''),
        [],
        if untouched then js ''No file has been changed in it yet.''
        else (js ''The changes you have made are still in place '' @
             [EM_DASH] @
             js '' nothing has been judged and nothing rolled back.''),
        [],
        (js ''A transaction is submitted by calling `submit_transaction`, and only by that. Call '' @
        js ''it when you have made the changes you planned and you are confident in them: the '' @
        js ''check runs and the verdict comes straight back to you. If you are not there yet, '' @
        js ''keep working '' @
        [EM_DASH] @
        js '' `run_check` will tell you where you stand as often as you want, and it settles nothing.'')] @
       (case chk of None \<Rightarrow> []
        | Some c \<Rightarrow>
           [[],
            (js ''As things stand `'' @
            fst c @
            js ''` does not pass, so there is still work to do.'')] @
           (case snd c of None \<Rightarrow> []
            | Some out \<Rightarrow> if out = [] then [] else [(js ''It said:'' @
            [10] @
            out)])) @
       [[],
        if left = 1 then (js ''One more turn that calls nothing and this transaction will be submitted for you and '' @
                         js ''judged as it stands, which is a worse outcome than submitting it yourself.'')
        else (decimal (nat left) @
             js '' more turns that call nothing and this transaction will be submitted for you and '' @
             js ''judged as it stands.'')]))"

definition describe_never_started :: "nat \<Rightarrow> nat \<Rightarrow> jtext" where
  "describe_never_started n attempts =
     (let lbl = tx_label n in (lbl @
     js '' has now been submitted '' @
     decimal attempts @
     js '' times with no tool called in it at any point, so the run is stopping here. No '' @
     js ''transaction was spent and no change was attempted: this is a run that never started '' @
     js ''work, not a set of attempts that failed.''))"

section \<open>Turning the protocol off\<close>

record disengagement =
  d_transaction :: "nat option"
  d_verdict :: "jtext option"
  d_put_back :: "nat option"
  d_kept :: "bool option"

definition describe_disengagement :: "disengagement \<Rightarrow> jtext" where
  "describe_disengagement d =
     join_lines ([(js ''The user has turned the change protocol off. This is their decision about how this '' @
                  js ''session runs; it is not a verdict on your work, and nothing has gone wrong.''), []] @
      (case (d_transaction d, d_verdict d) of
         (Some n, Some (v # vs)) \<Rightarrow>
           (let lbl = tx_label n in
            [(lbl @
             js '' was open, so it was judged once as the protocol stopped, on the same terms it '' @
             js ''would have been judged on anyway: '' @
             (v # vs)), []] @
            (if d_kept d = Some False then
               (let files = (case d_put_back d of Some k \<Rightarrow> k | None \<Rightarrow> 0);
                    moved = (if files > 0
                             then (decimal files @
                             js '' file'' @
                             (if files = 1 then js '' was'' else js ''s were'') @
                             js '' put back'')
                             else js ''the files were put back'')
                in [(js ''So '' @
                    moved @
                    js '', and what you have read of them no longer describes what is on disk. Read a file '' @
                    js ''again before you edit it '' @
                    [EM_DASH] @
                    js '' an edit sent against what you remember will be refused, and that refusal is this, '' @
                    js ''not a fault.''), [],
                    (js ''What you found out in '' @
                    lbl @
                    js '' is still true even though its edits are gone. Do not simply make the same change '' @
                    js ''again: it has already been shown not to work.''), []])
             else [js ''Those changes are on disk and stay there.'', []]))
       | _ \<Rightarrow> [js ''No transaction was open, so nothing on disk has changed.'', []]) @
      [(js ''From here there are no transactions. No change budget, no attempt to fall back to, '' @
       js ''and no rollback: every edit you make applies at once and stays, and nothing will '' @
       js ''check it for you. `'' @
       SUBMIT_TRANSACTION_TOOL_NAME @
       js ''`, `'' @
       RUN_CHECK_TOOL_NAME @
       js ''`, `'' @
       PLAN_TOOL_NAME @
       js ''`, `'' @
       PROPOSE_CHECK_TOOL_NAME @
       js ''` and `'' @
       RESTORE_FILE_TOOL_NAME @
       js ''` have gone with it and calling one will fail.''),
       [],
       (js ''Carry on with the task you were given. Keep making one change at a time and '' @
       js ''confirming each one before the next '' @
       [EM_DASH] @
       js '' that was worth doing before the protocol was enforcing it, and it is worth doing '' @
       js ''now that nothing is.'')])"

section \<open>The streak of a stuck check\<close>

lemma same_evidence_takeWhile: "same_evidence t outs = length (takeWhile (\<lambda>out. trim (tx_evidence out) = t) outs)"
  by (induction outs) auto

definition same_as :: "jtext \<Rightarrow> tx_outcome \<Rightarrow> bool" where
  "same_as t out = (trim (tx_evidence out) = t)"

lemma streak_length:
  assumes "h \<noteq> []"
  shows "Suc (same_evidence (trim (tx_evidence (last h))) (tl (rev h))) =
    length (takeWhile (same_as (trim (tx_evidence (last h)))) (rev h))"
proof -
  have rev: "rev h = last h # tl (rev h)" using assms by (metis hd_rev list.collapse rev_is_Nil_conv)
  have same: "same_as t = (\<lambda>out. trim (tx_evidence out) = t)" for t
    by (rule ext) (simp add: same_as_def)
  show ?thesis by (subst (2) rev) (simp add: same same_evidence_takeWhile)
qed

lemma streak_split:
  assumes "h = pre @ mid" "mid \<noteq> []" "\<forall>out \<in> set mid. same_as e out" "pre = [] \<or> \<not> same_as e (last pre)"
  shows "takeWhile (same_as e) (rev h) = rev mid"
proof -
  have "takeWhile (same_as e) (rev pre) = []"
    using assms(4) by (cases pre rule: rev_cases) auto
  then show ?thesis using assms(1,3) takeWhile_append2 [of "rev mid" "same_as e" "rev pre"] by simp
qed

text \<open>The notice about a check of the user's is given exactly when at least three attempts were all
  judged by it and failed, and at least the last two printed the same; it names the first attempt of the
  unbroken streak of that output, and the streak's length.\<close>

theorem stuck_notice_names_streak:
  "describe_stuck_host_check h = Some n \<longleftrightarrow>
     (\<exists>pre mid e. h = pre @ mid \<and> 3 \<le> length h \<and> 2 \<le> length mid \<and> e \<noteq> [] \<and>
        list_all (\<lambda>out. \<not> tx_kept out \<and> tx_source out = Oracle_Source) h \<and>
        list_all (same_as e) mid \<and> (if pre = [] then True else \<not> same_as e (last pre)) \<and>
        n = stuck_text h e (length mid) (hd mid))"
  (is "?l = ?r")
proof
  assume l: ?l
  let ?e = "trim (tx_evidence (last h))"
  let ?k = "takeWhile (same_as ?e) (rev h)" and ?d = "dropWhile (same_as ?e) (rev h)"
  have h: "h \<noteq> []" "3 \<le> length h" "?e \<noteq> []" "list_all (\<lambda>out. \<not> tx_kept out \<and> tx_source out = Oracle_Source) h"
    using l by (auto simp: describe_stuck_host_check_def STUCK_HOST_CHECK_AFTER_def Let_def split: if_splits)
  have n: "2 \<le> length ?k" "n = stuck_text h ?e (length ?k) (h ! (length h - length ?k))"
    using l unfolding describe_stuck_host_check_def Let_def streak_length [OF h(1)] by (auto split: if_splits)
  have split: "h = rev ?d @ rev ?k" by (metis rev_append rev_rev_ident takeWhile_dropWhile_id)
  have "rev ?k \<noteq> []" using n(1) by auto
  then have "(rev ?d @ rev ?k) ! length ?d = hd (rev ?k)" by (simp add: nth_append hd_conv_nth)
  moreover have "length h - length ?k = length ?d" by (subst split) simp
  ultimately have "h ! (length h - length ?k) = hd (rev ?k)" using split by metis
  moreover have "if rev ?d = [] then True else \<not> same_as ?e (last (rev ?d))"
    using hd_dropWhile [of "same_as ?e" "rev h"] by (simp add: last_rev)
  moreover have "list_all (same_as ?e) (rev ?k)" by (auto simp: list_all_iff dest: set_takeWhileD)
  ultimately show ?r using split h n by (intro exI [of _ "rev ?d"] exI [of _ "rev ?k"] exI [of _ ?e]) simp
next
  assume ?r
  then obtain pre mid e where r: "h = pre @ mid" "3 \<le> length h" "2 \<le> length mid" "e \<noteq> []"
    "list_all (\<lambda>out. \<not> tx_kept out \<and> tx_source out = Oracle_Source) h" "list_all (same_as e) mid"
    "if pre = [] then True else \<not> same_as e (last pre)" "n = stuck_text h e (length mid) (hd mid)" by blast
  have mid: "mid \<noteq> []" using r(3) by auto
  then have e: "trim (tx_evidence (last h)) = e"
    using r(1,6) by (auto simp: list_all_iff same_as_def)
  have k: "length (takeWhile (same_as e) (rev h)) = length mid"
    using streak_split [OF r(1) mid] r(6,7) by (simp add: list_all_iff split: if_splits)
  have "h \<noteq> []" using r(1) mid by simp
  note s = streak_length [OF this, unfolded e k]
  have "h ! (length h - length mid) = hd mid" using r(1) mid by (simp add: nth_append hd_conv_nth)
  then show ?l
    unfolding describe_stuck_host_check_def Let_def e s using r by (simp add: STUCK_HOST_CHECK_AFTER_def)
qed

end
