(* ===== verification/Transactions.thy ===== *)
theory Transactions
  imports Snapshot Protocol Revisions
begin

text \<open>
  The protocol as a state machine the host drives: \<open>transaction-controller.ts\<close>. The record
  \<open>controller\<close> holds the fields of \<open>TransactionController\<close> and the tree it works on, one definition
  per method. What runs outside is a parameter: \<open>run\<close>, a check's verdict and what it does to the
  tree; the clock; \<open>through\<close> of the snapshot; \<open>note\<close>, the text of \<open>describeUnparseableChange\<close> where
  \<open>looksLikeSyntaxError\<close> holds. \<open>events\<close>, \<open>forgotten\<close> and \<open>carried_stamps\<close> record the host's callbacks.
\<close>

section \<open>State\<close>

datatype self_report = Self_Success | Self_Failure | Self_Unsure

record tx_report =
  rep_plan :: "jtext option"
  rep_account :: "jtext option"
  rep_self :: "self_report option"
  rep_forced :: bool

record settled_event =
  se_transaction :: nat
  se_kept :: bool
  se_carried :: "bool option"
  se_source :: verdict_source
  se_message :: jtext
  se_elapsed :: "int option"
  se_verdict :: "oracle_verdict option"
  se_restore :: "restore_report option"

text \<open>\<open>Empty_Submission number message continued\<close> is emitted by the session that owns the boundary.\<close>

datatype tx_event =
    Opened_Event nat "check_oracle option"
  | Adopted_Event nat check_oracle
  | Judging_Event nat "check_oracle option"
  | Empty_Submission nat jtext bool
  | Settled_Event settled_event

datatype settlement =
    Kept jtext "oracle_verdict option"
  | Not_Kept jtext "oracle_verdict option" restore_report bool "jtext option"

datatype tx_error = Not_Open | No_Check | Check_Frozen | Rollback_Threw path

record tx_options =
  opt_max_changes :: int
  opt_max_transactions :: int
  opt_oracle :: "check_oracle option"
  opt_allow_proposal :: bool
  opt_reconsidered_after :: "int option"
  opt_limits :: limits
  opt_forgets_reads :: bool
  opt_carries_stamps :: bool
  opt_last_words :: "jtext option"

record controller =
  disk :: entries
  outcomes :: "tx_outcome list"
  uncovered_paths :: "path list"
  revision_store :: revision_log
  base :: "snap option"
  opened_with :: "snap option"
  current :: nat
  opened_at :: "int option"
  adopted :: "check_oracle option"
  adopted_ever_passed :: bool
  discarded_since_adoption :: nat
  reconsidering :: bool
  check_outputs :: "jtext list"
  check_has_repeated :: bool
  carrying :: bool
  reconsiderations_used :: nat
  events :: "tx_event list"
  forgotten :: "path list"
  carried_stamps :: "(path \<times> jtext \<times> jtext) list"

definition new_controller :: "entries \<Rightarrow> revision_log \<Rightarrow> controller" where
  "new_controller es history0 =
     \<lparr>disk = es, outcomes = [], uncovered_paths = [], revision_store = history0, base = None, opened_with = None,
      current = 0, opened_at = None, adopted = None, adopted_ever_passed = False,
      discarded_since_adoption = 0, reconsidering = False, check_outputs = [], check_has_repeated = False,
      carrying = False, reconsiderations_used = 0, events = [], forgotten = [], carried_stamps = []\<rparr>"

type_synonym check_run = "check_oracle \<Rightarrow> entries \<Rightarrow> oracle_verdict \<times> entries"

definition emit :: "tx_event \<Rightarrow> controller \<Rightarrow> controller" where
  "emit e c = c\<lparr>events := events c @ [e]\<rparr>"

text \<open>\<open>Set.add\<close> of each path in turn.\<close>

definition add_uncovered :: "path list \<Rightarrow> controller \<Rightarrow> controller" where
  "add_uncovered ps c = c\<lparr>uncovered_paths := fold (\<lambda>p ps. if p \<in> set ps then ps else ps @ [p]) ps (uncovered_paths c)\<rparr>"

definition forget_reads :: "tx_options \<Rightarrow> restore_report \<Rightarrow> controller \<Rightarrow> controller" where
  "forget_reads ops r c =
     (if opt_forgets_reads ops then c\<lparr>forgotten := forgotten c @ restored r @ recreated r @ removed r\<rparr> else c)"

section \<open>The check\<close>

definition oracle_of :: "tx_options \<Rightarrow> controller \<Rightarrow> check_oracle option" where
  "oracle_of ops c = (case adopted c of Some oc \<Rightarrow> Some oc | None \<Rightarrow> opt_oracle ops)"

definition can_adopt_oracle :: "tx_options \<Rightarrow> controller \<Rightarrow> bool" where
  "can_adopt_oracle ops c = (oracle_of ops c = None \<or> reconsidering c)"

definition adopt_oracle :: "tx_options \<Rightarrow> check_oracle \<Rightarrow> controller \<Rightarrow> controller \<times> (tx_error + unit)" where
  "adopt_oracle ops oc c =
     (if \<not> can_adopt_oracle ops c then (c, Inl Check_Frozen)
      else (emit (Adopted_Event (current c) oc)
              (c\<lparr>adopted := Some oc, adopted_ever_passed := False, discarded_since_adoption := 0,
                 reconsidering := False,
                 reconsiderations_used :=
                   (if reconsidering c then Suc (reconsiderations_used c) else reconsiderations_used c)\<rparr>),
            Inr ()))"

definition note_check_output :: "jtext \<Rightarrow> controller \<Rightarrow> controller \<times> bool" where
  "note_check_output out c =
     (if trim out \<in> set (check_outputs c) then (c\<lparr>check_has_repeated := True\<rparr>, False)
      else (c\<lparr>check_outputs := check_outputs c @ [trim out]\<rparr>, True))"

text \<open>Running the check, noting what it says and whether it passes; with it, whether that is new.\<close>

definition judge :: "check_run \<Rightarrow> check_oracle \<Rightarrow> controller \<Rightarrow> controller \<times> oracle_verdict \<times> bool" where
  "judge run oc c =
     (case run oc (disk c) of (v, es) \<Rightarrow>
      case note_check_output (v_output v) (c\<lparr>disk := es\<rparr>) of (c', moved) \<Rightarrow>
        ((if v_passed v then c'\<lparr>adopted_ever_passed := True\<rparr> else c'), v, moved))"

definition run_check :: "tx_options \<Rightarrow> check_run \<Rightarrow> controller \<Rightarrow> controller \<times> (tx_error + oracle_verdict)" where
  "run_check ops run c =
     (if base c = None then (c, Inl Not_Open)
      else case oracle_of ops c of
        None \<Rightarrow> (c, Inl No_Check)
      | Some oc \<Rightarrow> (case judge run oc c of (c', v, moved) \<Rightarrow> (c', Inr v)))"

definition should_reconsider_check :: "tx_options \<Rightarrow> controller \<Rightarrow> bool" where
  "should_reconsider_check ops c =
     (let after = opt_default 0 (opt_reconsidered_after ops) in
      if after \<le> 0 then False
      else if adopted c = None \<or> opt_oracle ops \<noteq> None then False
      else if adopted_ever_passed c \<or> reconsiderations_used c > 0 then False
      else if int (current c) \<ge> opt_max_transactions ops then False
      else int (discarded_since_adoption c) \<ge> max 1 (min after (opt_max_transactions ops - 1)))"

section \<open>Against the base\<close>

definition stamps_of_edits ::
    "tx_options \<Rightarrow> (path \<Rightarrow> jtext option) \<Rightarrow> snap \<Rightarrow> snap \<Rightarrow> (path \<times> jtext) list" where
  "stamps_of_edits ops stamp b edited =
     (if \<not> opt_carries_stamps ops then []
      else List.map_filter
        (\<lambda>(p, h, body). if map_option fst (map_of (held_files b) p) = Some h then None
                        else map_option (Pair p) (stamp p))
        (held_files edited))"

definition carry_stamps ::
    "tx_options \<Rightarrow> (path \<Rightarrow> jtext option) \<Rightarrow> (path \<times> jtext) list \<Rightarrow> controller \<Rightarrow> controller" where
  "carry_stamps ops stamp before c =
     (if \<not> opt_carries_stamps ops then c
      else c\<lparr>carried_stamps := carried_stamps c @
        List.map_filter
          (\<lambda>(p, old). case stamp p of
             None \<Rightarrow> None
           | Some new \<Rightarrow> if new \<noteq> old then Some (p, old, new) else None) before\<rparr>)"

text \<open>\<open>stamp0\<close> and \<open>stamp1\<close>: the files' stamps before the first restore and after the second.\<close>

definition judge_against_base ::
    "(bytes \<Rightarrow> jtext) \<Rightarrow> (path \<Rightarrow> bytes \<Rightarrow> entries option) \<Rightarrow> tx_options \<Rightarrow> check_run \<Rightarrow>
     (path \<Rightarrow> jtext option) \<Rightarrow> (path \<Rightarrow> jtext option) \<Rightarrow> check_oracle \<Rightarrow> controller \<Rightarrow>
     controller \<times> (tx_error + oracle_verdict)" where
  "judge_against_base sha through ops run stamp0 stamp1 oc c =
     (case base c of
        None \<Rightarrow> (c, Inl Not_Open)
      | Some b \<Rightarrow>
          if snapshot_is_clean sha (opt_limits ops) b (disk c)
          then (case run oc (disk c) of (v, es) \<Rightarrow> (c\<lparr>disk := es\<rparr>, Inr v))
          else
            let edited = take_snapshot sha (opt_limits ops) (disk c);
                before = stamps_of_edits ops stamp0 b edited
            in case restore_snapshot sha through (opt_limits ops) b (disk c) of
                 (es1, Inl p) \<Rightarrow> (c\<lparr>disk := es1\<rparr>, Inl (Rollback_Threw p))
               | (es1, Inr r1) \<Rightarrow>
                   (case run oc es1 of (v, es2) \<Rightarrow>
                    case restore_snapshot sha through (opt_limits ops) edited es2 of
                      (es3, Inl p) \<Rightarrow> (c\<lparr>disk := es3\<rparr>, Inl (Rollback_Threw p))
                    | (es3, Inr r2) \<Rightarrow> (carry_stamps ops stamp1 before (c\<lparr>disk := es3\<rparr>), Inr v)))"

section \<open>Opening a transaction\<close>

definition is_untouched :: "(bytes \<Rightarrow> jtext) \<Rightarrow> tx_options \<Rightarrow> controller \<Rightarrow> bool" where
  "is_untouched sha ops c =
     (case opened_with c of
        None \<Rightarrow> True
      | Some s \<Rightarrow> snapshot_is_clean sha (opt_limits ops) s (disk c))"

definition opening_prompt :: "tx_options \<Rightarrow> controller \<Rightarrow> jtext" where
  "opening_prompt ops c = build_protocol_prompt
     \<lparr>pi_transaction = current c, pi_max_changes = opt_max_changes ops,
      pi_max_transactions = opt_max_transactions ops,
      pi_last_notice = (if int (current c) \<ge> opt_max_transactions ops then opt_last_words ops else None),
      pi_check = oracle_of ops c,
      pi_can_propose_check = (opt_allow_proposal ops \<and> can_adopt_oracle ops c),
      pi_check_never_passed = (adopted c \<noteq> None \<and> \<not> adopted_ever_passed c),
      pi_can_replace_check = (opt_allow_proposal ops \<and> reconsidering c),
      pi_host_supplied_check = (adopted c = None \<and> opt_oracle ops \<noteq> None),
      pi_history = outcomes c\<rparr>"

definition open_transaction :: "(bytes \<Rightarrow> jtext) \<Rightarrow> tx_options \<Rightarrow> int \<Rightarrow> controller \<Rightarrow> controller \<times> jtext" where
  "open_transaction sha ops now c =
     (let c1 = c\<lparr>current := Suc (current c), opened_at := Some now\<rparr>;
          c2 = c1\<lparr>reconsidering := should_reconsider_check ops c1\<rparr>;
          carried_base = (if carrying c2 then base c2 else None);
          c3 = c2\<lparr>carrying := False,
                  revision_store := (if carried_base = None then reset_log (revision_store c2) else revision_store c2)\<rparr>;
          found = take_snapshot sha (opt_limits ops) (disk c3);
          c4 = c3\<lparr>opened_with := Some found,
                  base := (case carried_base of Some b \<Rightarrow> Some b | None \<Rightarrow> Some found)\<rparr>;
          c5 = emit (Opened_Event (current c4) (oracle_of ops c4)) (add_uncovered (skipped_files found) c4)
      in (c5, opening_prompt ops c5))"

section \<open>Settling it\<close>

definition judge_self_report :: "self_report option \<Rightarrow> bool" where
  "judge_self_report r = (case r of None \<Rightarrow> True | Some s \<Rightarrow> s = Self_Success)"

definition NEVER_STATED :: jtext where
  "NEVER_STATED =
     js ''The change was never stated to work or not, and nothing here could check it.''"

definition NO_CHANGES :: jtext where
  "NO_CHANGES = js '' No files were changed.''"

definition source_of :: "tx_options \<Rightarrow> controller \<Rightarrow> tx_report \<Rightarrow> verdict_source" where
  "source_of ops c rep =
     (if oracle_of ops c \<noteq> None then Oracle_Source
      else if rep_self rep \<noteq> None \<or> said (rep_account rep) \<noteq> None then Self_Declared
      else Undeclared)"

text \<open>The verdict: whether to keep, the check's verdict, the evidence, and whether the answer is new.\<close>

definition decide ::
    "tx_options \<Rightarrow> check_run \<Rightarrow> tx_report \<Rightarrow> controller \<Rightarrow>
     controller \<times> bool \<times> oracle_verdict option \<times> jtext \<times> bool" where
  "decide ops run rep c =
     (case oracle_of ops c of
        Some oc \<Rightarrow> (case judge run oc c of (c', v, moved) \<Rightarrow> (c', v_passed v, Some v, v_output v, moved))
      | None \<Rightarrow> (c, judge_self_report (rep_self rep), None,
                 (if rep_self rep = None then NEVER_STATED else []), False))"

definition record_outcome ::
    "nat \<Rightarrow> bool \<Rightarrow> bool \<Rightarrow> verdict_source \<Rightarrow> tx_report \<Rightarrow> jtext \<Rightarrow> controller \<Rightarrow> controller" where
  "record_outcome n kept carried src rep evidence c =
     c\<lparr>outcomes := outcomes c @
       [\<lparr>tx_number = n, tx_kept = kept, tx_carried = carried, tx_source = src, tx_plan = rep_plan rep,
         tx_account = rep_account rep, tx_evidence = evidence\<rparr>]\<rparr>"

definition may_carry :: "tx_options \<Rightarrow> tx_report \<Rightarrow> bool \<Rightarrow> controller \<Rightarrow> bool" where
  "may_carry ops rep moved c =
     (moved \<and> check_has_repeated c \<and> \<not> rep_forced rep \<and> int (current c) < opt_max_transactions ops)"

definition NOTHING_RESTORED :: restore_report where
  "NOTHING_RESTORED = \<lparr>restored = [], removed = [], recreated = [], uncovered = []\<rparr>"

definition changed_something ::
    "(bytes \<Rightarrow> jtext) \<Rightarrow> tx_options \<Rightarrow> tx_report \<Rightarrow> snap \<Rightarrow> bool \<Rightarrow> controller \<Rightarrow> bool" where
  "changed_something sha ops rep opened moved c =
     (if adopted c \<noteq> None \<or> may_carry ops rep moved c
      then \<not> snapshot_is_clean sha (opt_limits ops) opened (disk c) else False)"

definition carries_on ::
    "(bytes \<Rightarrow> jtext) \<Rightarrow> tx_options \<Rightarrow> tx_report \<Rightarrow> snap \<Rightarrow> bool \<Rightarrow> controller \<Rightarrow> bool" where
  "carries_on sha ops rep opened moved c =
     (may_carry ops rep moved c \<and> changed_something sha ops rep opened moved c)"

definition count_discarded :: "bool \<Rightarrow> controller \<Rightarrow> controller" where
  "count_discarded changed c =
     (if adopted c \<noteq> None \<and> changed
      then c\<lparr>discarded_since_adoption := Suc (discarded_since_adoption c)\<rparr> else c)"

text \<open>
  The failed half: after the verdict, a carry or a rollback, the record and perhaps the next
  transaction. \<open>b\<close> is the base, \<open>opened\<close> the tree as the transaction found it.
\<close>

definition settle_failed ::
    "(bytes \<Rightarrow> jtext) \<Rightarrow> (path \<Rightarrow> bytes \<Rightarrow> entries option) \<Rightarrow> (jtext \<Rightarrow> (path \<times> bytes) list \<Rightarrow> jtext option) \<Rightarrow>
     tx_options \<Rightarrow> int \<Rightarrow> int option \<Rightarrow> verdict_source \<Rightarrow> tx_report \<Rightarrow> snap \<Rightarrow> snap \<Rightarrow>
     oracle_verdict option \<Rightarrow> jtext \<Rightarrow> bool \<Rightarrow> controller \<Rightarrow> controller \<times> (tx_error + settlement)" where
  "settle_failed sha through note_of ops now elapsed src rep b opened v evidence moved c =
     (let n = current c;
          carried = carries_on sha ops rep opened moved c;
          c2 = (count_discarded (changed_something sha ops rep opened moved c) c)\<lparr>carrying := carried\<rparr>;
          message = describe_verdict n False src v (rep_forced rep) carried;
          discarded = (case note_of evidence (snapshot_changes sha (opt_limits ops) b (disk c2)) of
                         Some t \<Rightarrow> message @ [10, 10] @ t
                       | None \<Rightarrow> message)
      in case (if carried then (disk c2, Inr NOTHING_RESTORED)
               else restore_snapshot sha through (opt_limits ops) b (disk c2)) of
           (es, Inl p) \<Rightarrow> (c2\<lparr>disk := es\<rparr>, Inl (Rollback_Threw p))
         | (es, Inr r) \<Rightarrow>
             (let c3 = forget_reads ops r (add_uncovered (uncovered r) (c2\<lparr>disk := es\<rparr>));
                  c4 = emit (Settled_Event
                         \<lparr>se_transaction = n, se_kept = False, se_carried = Some carried, se_source = src,
                          se_message = discarded, se_elapsed = elapsed, se_verdict = v, se_restore = Some r\<rparr>)
                       (record_outcome n False carried src rep evidence c3)
              in if int n \<ge> opt_max_transactions ops
                 then (c4\<lparr>base := None, opened_with := None\<rparr>, Inr (Not_Kept discarded v r False None))
                 else (case open_transaction sha ops now c4 of
                         (c5, prompt) \<Rightarrow> (c5, Inr (Not_Kept discarded v r carried (Some prompt))))))"

definition settle_kept ::
    "(bytes \<Rightarrow> jtext) \<Rightarrow> tx_options \<Rightarrow> int option \<Rightarrow> verdict_source \<Rightarrow> tx_report \<Rightarrow> snap \<Rightarrow>
     oracle_verdict option \<Rightarrow> jtext \<Rightarrow> controller \<Rightarrow> controller \<times> (tx_error + settlement)" where
  "settle_kept sha ops elapsed src rep opened v evidence c =
     (let n = current c;
          untouched = snapshot_is_clean sha (opt_limits ops) opened (disk c);
          line = describe_verdict n True src v (rep_forced rep) False;
          message = (if untouched then line @ NO_CHANGES else line)
      in (emit (Settled_Event
            \<lparr>se_transaction = n, se_kept = True, se_carried = None, se_source = src, se_message = message,
             se_elapsed = elapsed, se_verdict = v, se_restore = None\<rparr>)
            (record_outcome n True False src rep evidence c),
          Inr (Kept message v)))"

text \<open>\<open>now\<close>: the clock when \<open>settle\<close> starts; \<open>later\<close>: when it opens the next transaction.\<close>

definition settle ::
    "(bytes \<Rightarrow> jtext) \<Rightarrow> (path \<Rightarrow> bytes \<Rightarrow> entries option) \<Rightarrow> (jtext \<Rightarrow> (path \<times> bytes) list \<Rightarrow> jtext option) \<Rightarrow>
     tx_options \<Rightarrow> check_run \<Rightarrow> int \<Rightarrow> int \<Rightarrow> tx_report \<Rightarrow> controller \<Rightarrow> controller \<times> (tx_error + settlement)" where
  "settle sha through note_of ops run now later rep c =
     (case base c of
        None \<Rightarrow> (c, Inl Not_Open)
      | Some b \<Rightarrow>
          (let opened = opt_default b (opened_with c);
               elapsed = map_option (\<lambda>t. now - t) (opened_at c);
               src = source_of ops c rep
           in case decide ops run rep (emit (Judging_Event (current c) (oracle_of ops c)) c) of
                (c1, kept, v, evidence, moved) \<Rightarrow>
                  if kept then settle_kept sha ops elapsed src rep opened v evidence c1
                  else settle_failed sha through note_of ops later elapsed src rep b opened v evidence moved c1))"

section \<open>Discarding it unjudged\<close>

definition discard ::
    "(bytes \<Rightarrow> jtext) \<Rightarrow> (path \<Rightarrow> bytes \<Rightarrow> entries option) \<Rightarrow> tx_options \<Rightarrow> controller \<Rightarrow>
     controller \<times> (tx_error + restore_report option)" where
  "discard sha through ops c =
     (case base c of
        None \<Rightarrow> (c, Inr None)
      | Some b \<Rightarrow>
          (case restore_snapshot sha through (opt_limits ops) b (disk c) of
             (es, Inl p) \<Rightarrow> (c\<lparr>disk := es\<rparr>, Inl (Rollback_Threw p))
           | (es, Inr r) \<Rightarrow>
               (forget_reads ops r
                  (c\<lparr>disk := es, base := None, opened_with := None, revision_store := reset_log (revision_store c)\<rparr>),
                Inr (Some r))))"

end
