(* ===== verification/Undo.thy ===== *)
theory Undo
  imports Snapshot "HOL-Library.Sublist"
begin

text \<open>
  What a rollback gives back. Where a snapshot covers the tree at both ends, restoring it leaves the
  files that the snapshot found, and touches nothing in the directories it does not look into. The
  interface \<open>undo\<close> is what a transaction relies on; the snapshot provides it.
\<close>

section \<open>Writing and removing\<close>

definition apart :: "path \<Rightarrow> path \<Rightarrow> bool" where
  "apart p q = (p = q \<or> (\<not> prefix p q \<and> \<not> prefix q p))"

lemma apart_Cons [simp]: "apart (n # p) (k # q) \<longleftrightarrow> n \<noteq> k \<or> apart p q"
  by (auto simp: apart_def)

lemma put_file_writable:
  "writable p es \<Longrightarrow> put_file through p body es = Some es' \<Longrightarrow> writable q es \<Longrightarrow> apart p q \<Longrightarrow> writable q es'"
proof (induction through p body es arbitrary: es' q rule: put_file.induct)
  case (2 through n body es)
  then have "es' = AList.update n (File body) es"
    by (auto split: option.splits tree.splits)
  with 2 show ?case
    by (cases q rule: path_cases) (auto simp: update_conv' apart_def split: option.splits tree.splits)
next
  case (3 through n m ns body es)
  obtain ts0 ts where ts: "put_file (\<lambda>p. through (n # p)) (m # ns) body ts0 = Some ts"
    "es' = AList.update n (Folder ts) es" "writable (m # ns) ts0"
    and t: "map_of es n = None \<and> ts0 = [] \<or> map_of es n = Some (Folder ts0)"
  proof (cases "map_of es n")
    case None
    with 3(4) that show thesis by force
  next
    case (Some t)
    with 3(3,4) that show thesis by (cases t) auto
  qed
  have step: "writable q ts" if q: "writable q ts0" "apart (m # ns) q" for q
    using t
  proof
    assume t: "map_of es n = None \<and> ts0 = []"
    show ?thesis
      by (rule 3(1)) (use t ts q in auto)
  next
    assume t: "map_of es n = Some (Folder ts0)"
    show ?thesis
      by (rule 3(2) [OF t refl]) (use ts q in auto)
  qed
  show ?case
  proof (cases q rule: path_cases)
    case (3 k l ls)
    then show ?thesis
      using \<open>writable q es\<close> \<open>apart (n # m # ns) q\<close> t ts(2) step [of "l # ls"]
      by (auto simp: update_conv' split: option.splits tree.splits)
  qed (use \<open>writable q es\<close> \<open>apart (n # m # ns) q\<close> ts(2) in \<open>auto simp: update_conv' apart_def\<close>)
qed simp

lemma drop_file_at:
  "file_at p es = Some b \<Longrightarrow> file_at q (drop_file p es) = (if q = p then None else file_at q es)"
proof (induction p es arbitrary: q rule: drop_file.induct)
  case (2 n es)
  then show ?case
    by (cases q rule: path_cases) (auto simp: delete_conv' split: option.splits tree.splits)
next
  case (3 n m ns es)
  then obtain ts where ts: "map_of es n = Some (Folder ts)" "file_at (m # ns) ts = Some b"
    by (auto split: option.splits tree.splits)
  from 3(1) [OF ts(1) refl ts(2)] ts(1) show ?case
    by (cases q rule: path_cases) (auto simp: update_conv' split: option.splits tree.splits)
qed simp

lemma put_back_result:
  "distinct (map fst fs) \<Longrightarrow>
   (\<And>p h b. (p, h, b) \<in> set fs \<Longrightarrow> writable p es) \<Longrightarrow>
   (\<And>p q. p \<in> fst ` set fs \<Longrightarrow> q \<in> fst ` set fs \<Longrightarrow> apart p q) \<Longrightarrow>
   (\<And>p h b b'. (p, h, b) \<in> set fs \<Longrightarrow> map_of (held_files now) p = Some (h, b') \<Longrightarrow> file_at p es = Some b) \<Longrightarrow>
   \<exists>es' r'. put_back through now fs es r = (es', Inr r') \<and>
     (\<forall>q. file_at q es' = (case map_of fs q of Some (h, b) \<Rightarrow> Some b | None \<Rightarrow> file_at q es))"
proof (induction fs arbitrary: es r)
  case (Cons x fs)
  obtain p h b where x: "x = (p, h, b)" by (cases x) auto
  have w: "writable p es" using Cons.prems(2) [of p h b] x by simp
  show ?case
  proof (cases "\<exists>b'. map_of (held_files now) p = Some (h, b')")
    case True
    then have here: "file_at p es = Some b" using Cons.prems(4) x by auto
    have "\<exists>es' r'. put_back through now fs es r = (es', Inr r') \<and>
        (\<forall>q. file_at q es' = (case map_of fs q of Some (h, b) \<Rightarrow> Some b | None \<Rightarrow> file_at q es))"
    proof (rule Cons.IH)
      show "file_at q es = Some c" if "(q, h', c) \<in> set fs" "map_of (held_files now) q = Some (h', b')" for q h' c b'
        using Cons.prems(4) [of q h' c b'] that by simp
      show "distinct (map fst fs)" using Cons.prems(1) by simp
      show "writable q es" if "(q, h', c) \<in> set fs" for q h' c
        using Cons.prems(2) [of q h' c] that by simp
      show "apart q k" if "q \<in> fst ` set fs" "k \<in> fst ` set fs" for q k
        using Cons.prems(3) [of q k] that by simp
    qed
    moreover have "map_of fs p = None" using Cons.prems(1) x by (simp add: map_of_eq_None_iff)
    ultimately show ?thesis using True here by (auto simp: x)
  next
    case False
    obtain es1 where es1: "put_file through p b es = Some es1"
      using put_file_defined [OF w] by blast
    note at = put_file_at [OF w es1]
    define r1 where "r1 = (if map_of (held_files now) p = None then r\<lparr>recreated := recreated r @ [p]\<rparr>
      else r\<lparr>restored := restored r @ [p]\<rparr>)"
    have step: "put_back through now (x # fs) es r = put_back through now fs es1 r1"
      using False es1 by (auto simp: x r1_def split: option.splits)
    have other: "q \<noteq> p" if "q \<in> fst ` set fs" for q
      using that Cons.prems(1) x by auto
    have "\<exists>es' r'. put_back through now fs es1 r1 = (es', Inr r') \<and>
        (\<forall>q. file_at q es' = (case map_of fs q of Some (h, b) \<Rightarrow> Some b | None \<Rightarrow> file_at q es1))"
    proof (rule Cons.IH)
      fix q h' b'
      assume q: "(q, h', b') \<in> set fs"
      then have "q \<in> fst ` set fs" by force
      then have "apart p q" using Cons.prems(3) [of p q] x by simp
      moreover have "writable q es" using Cons.prems(2) [of q h' b'] q by simp
      ultimately show "writable q es1" using put_file_writable [OF w es1] by blast
      fix b''
      assume "map_of (held_files now) q = Some (h', b'')"
      then have "file_at q es = Some b'" using Cons.prems(4) [of q h' b' b''] q by simp
      moreover have "q \<noteq> p" using other [of q] \<open>q \<in> fst ` set fs\<close> by simp
      ultimately show "file_at q es1 = Some b'" by (simp add: at)
    next
      show "distinct (map fst fs)" using Cons.prems(1) by simp
      show "apart q k" if "q \<in> fst ` set fs" "k \<in> fst ` set fs" for q k
        using Cons.prems(3) [of q k] that by simp
    qed
    then obtain es' r' where rest: "put_back through now fs es1 r1 = (es', Inr r')"
      "\<And>q. file_at q es' = (case map_of fs q of Some (h, b) \<Rightarrow> Some b | None \<Rightarrow> file_at q es1)"
      by blast
    have "map_of fs p = None" using Cons.prems(1) x by (simp add: map_of_eq_None_iff)
    with rest(2) have "file_at q es' = (case map_of (x # fs) q of Some (h, b) \<Rightarrow> Some b | None \<Rightarrow> file_at q es)" for q
      by (simp add: x at split: option.split)
    with step rest(1) show ?thesis by simp
  qed
qed simp

lemma remove_new_result:
  "distinct ps \<Longrightarrow>
   (\<And>p. p \<in> set ps \<Longrightarrow> map_of (held_files base) p = None \<Longrightarrow> file_at p es \<noteq> None) \<Longrightarrow>
   \<exists>es' r'. remove_new base ps es r = (es', r') \<and>
     (\<forall>q. file_at q es' =
       (if q \<in> set ps \<and> map_of (held_files base) q = None then None else file_at q es))"
proof (induction ps arbitrary: es r)
  case (Cons p ps)
  show ?case
  proof (cases "map_of (held_files base) p")
    case None
    then obtain b where "file_at p es = Some b" using Cons.prems(2) [of p] by auto
    note at = drop_file_at [OF this]
    have "\<exists>es' r'. remove_new base ps (drop_file p es) (r\<lparr>removed := removed r @ [p]\<rparr>) = (es', r') \<and>
       (\<forall>q. file_at q es' =
         (if q \<in> set ps \<and> map_of (held_files base) q = None then None else file_at q (drop_file p es)))"
    proof (rule Cons.IH)
      show "distinct ps" using Cons.prems(1) by simp
      show "file_at q (drop_file p es) \<noteq> None" if "q \<in> set ps" "map_of (held_files base) q = None" for q
        using Cons.prems(1) Cons.prems(2) [of q] that by (auto simp: at)
    qed
    with None show ?thesis by (auto simp: at)
  next
    case (Some hb)
    have "\<exists>es' r'. remove_new base ps es r = (es', r') \<and>
       (\<forall>q. file_at q es' = (if q \<in> set ps \<and> map_of (held_files base) q = None then None else file_at q es))"
    proof (rule Cons.IH)
      show "distinct ps" using Cons.prems(1) by simp
      show "file_at q es \<noteq> None" if "q \<in> set ps" "map_of (held_files base) q = None" for q
        using Cons.prems(2) [of q] that by simp
    qed
    with Some show ?thesis by auto
  qed
qed simp

section \<open>What a scan holds\<close>

text \<open>No name occurs twice in a directory, and every directory that is looked into can be read.\<close>

function readable :: "entries \<Rightarrow> bool" where
  "readable [] = True"
| "readable ((n, t) # es) =
     (n \<notin> fst ` set es \<and> readable es \<and>
      (case t of Folder ts \<Rightarrow> n \<in> set SCAN_IGNORED_DIRECTORIES \<or> readable ts | Closed_Folder \<Rightarrow> False | _ \<Rightarrow> True))"
  by pat_completeness auto
termination by (relation "measure (size_list (\<lambda>nt. size (snd nt)))")
  (auto simp: less_Suc_eq_le intro: order_trans [OF folder_size] le_SucI)

text \<open>A path whose directories are all looked into.\<close>

definition scanned :: "path \<Rightarrow> bool" where
  "scanned p = list_all (\<lambda>n. n \<notin> set SCAN_IGNORED_DIRECTORIES) (butlast p)"

lemma scanned_simps [simp]:
  "scanned []" "scanned [n]"
  "scanned (n # m # ns) \<longleftrightarrow> n \<notin> set SCAN_IGNORED_DIRECTORIES \<and> scanned (m # ns)"
  by (simp_all add: scanned_def)

text \<open>The file a scan of the directory \<open>dir\<close> finds under a path.\<close>

definition found :: "path \<Rightarrow> entries \<Rightarrow> path \<Rightarrow> bytes option" where
  "found dir es q =
     (if prefix dir q \<and> scanned (drop (length dir) q) then file_at (drop (length dir) q) es else None)"

lemma found_Nil [simp]: "found dir [] q = None"
  by (simp add: found_def)

lemma found_under: "found dir es (dir @ p) = (if scanned p then file_at p es else None)"
  by (simp add: found_def)

lemma found_elsewhere: "\<not> prefix dir q \<Longrightarrow> found dir es q = None"
  by (simp add: found_def)

lemma file_at_no_entry: "n \<notin> fst ` set es \<Longrightarrow> file_at (n # p) es = None"
  by (cases p) (auto simp: map_of_eq_None_iff [THEN iffD2])

lemma found_Cons:
  assumes "n \<notin> fst ` set es"
  shows "found dir ((n, t) # es) q =
    (case (case t of
        File b \<Rightarrow> if q = dir @ [n] then Some b else None
      | Folder ts \<Rightarrow> if n \<in> set SCAN_IGNORED_DIRECTORIES then None else found (dir @ [n]) ts q
      | _ \<Rightarrow> None) of Some b \<Rightarrow> Some b | None \<Rightarrow> found dir es q)"
proof (cases "prefix dir q")
  case True
  then obtain p where q: "q = dir @ p" by (auto simp: prefix_def)
  show ?thesis
  proof (cases p rule: path_cases)
    case (3 k m ns)
    have under: "found (dir @ [n]) ts (dir @ n # p') = (if scanned p' then file_at p' ts else None)" for ts p'
      using found_under [of "dir @ [n]" ts p'] by simp
    have away: "found (dir @ [n]) ts (dir @ k # p') = None" if "k \<noteq> n" for ts p'
      using that by (intro found_elsewhere) simp
    show ?thesis
    proof (cases "k = n")
      case True
      then show ?thesis
        using assms by (cases t) (auto simp: q 3 found_under under map_of_eq_None_iff [THEN iffD2] split: option.splits)
    next
      case False
      then show ?thesis by (cases t) (simp_all add: q 3 found_under away)
    qed
  qed (use assms in \<open>cases t; auto simp: q found_under found_def map_of_eq_None_iff [THEN iffD2] split: option.splits tree.splits\<close>)+
next
  case False
  then have "\<not> prefix (dir @ [n]) q" by (metis append_prefixD)
  with False show ?thesis by (cases t) (auto simp: found_elsewhere)
qed

lemma walk_skips: "prefix (skipped_files (fst s)) (skipped_files (fst (walk sha b dir es s)))"
proof (induction sha b dir es s rule: walk.induct)
  case (2 sha b dir n t es s)
  have "prefix (skipped_files (fst s)) (skipped_files (fst (case t of
          Folder ts \<Rightarrow>
            if n \<in> set SCAN_IGNORED_DIRECTORIES then s else walk sha b (dir @ [n]) ts s
        | Closed_Folder \<Rightarrow> s
        | leaf \<Rightarrow> scan_leaf sha b (dir @ [n], leaf) s)))"
    using 2(1) by (cases t) (simp_all add: scan_leaf_def skip_file_def hold_file_def)
  from prefix_order.trans [OF this 2(2)] show ?case by simp
qed simp

lemma walk_held:
  "readable es \<Longrightarrow> skipped_files (fst (walk sha b dir es s)) = [] \<Longrightarrow>
   map_of (held_files (fst (walk sha b dir es s))) q =
     (case found dir es q of Some body \<Rightarrow> Some (sha body, body) | None \<Rightarrow> map_of (held_files (fst s)) q)"
proof (induction sha b dir es s arbitrary: q rule: walk.induct)
  case (2 sha b dir n t es s)
  define s1 where "s1 = (case t of
          Folder ts \<Rightarrow>
            if n \<in> set SCAN_IGNORED_DIRECTORIES then s else walk sha b (dir @ [n]) ts s
        | Closed_Folder \<Rightarrow> s
        | leaf \<Rightarrow> scan_leaf sha b (dir @ [n], leaf) s)"
  have w: "walk sha b dir ((n, t) # es) s = walk sha b dir es s1"
    by (simp add: s1_def)
  have n: "n \<notin> fst ` set es" and es: "readable es"
    using 2(3) by simp_all
  have none: "skipped_files (fst s1) = []"
    using walk_skips [of s1 sha b dir es] 2(4) w by simp
  have later: "map_of (held_files (fst (walk sha b dir es s1))) q =
      (case found dir es q of Some body \<Rightarrow> Some (sha body, body) | None \<Rightarrow> map_of (held_files (fst s1)) q)"
    by (rule 2(2) [OF es, folded s1_def]) (use 2(4) w in simp)
  show ?case
  proof (cases t)
    case (File body)
    then have "fst s1 = fst (hold_file sha (dir @ [n]) body s)"
      using none by (auto simp: s1_def scan_leaf_def skip_file_def split: if_splits)
    moreover have "found dir es (dir @ [n]) = None"
      using n by (simp add: found_under map_of_eq_None_iff [THEN iffD2])
    ultimately show ?thesis
      unfolding w later found_Cons [OF n] using File
      by (auto simp: hold_file_def update_conv' split: option.splits)
  next
    case (Folder ts)
    show ?thesis
    proof (cases "n \<in> set SCAN_IGNORED_DIRECTORIES")
      case True
      then have "s1 = s" using Folder by (simp add: s1_def)
      then show ?thesis unfolding w later found_Cons [OF n] using Folder True by (simp split: option.split)
    next
      case False
      have here: "map_of (held_files (fst s1)) q = (case found (dir @ [n]) ts q of
          Some body \<Rightarrow> Some (sha body, body) | None \<Rightarrow> map_of (held_files (fst s)) q)"
        using 2(1) [OF Folder False] 2(3) none False by (simp add: Folder s1_def)
      have "found dir es q = None" if "found (dir @ [n]) ts q \<noteq> None"
      proof -
        have "prefix (dir @ [n]) q" using that by (rule contrapos_np) (rule found_elsewhere)
        then obtain p where "q = dir @ n # p" by (auto simp: prefix_def)
        then show ?thesis using n by (simp add: found_under file_at_no_entry)
      qed
      then show ?thesis
        unfolding w later found_Cons [OF n] using Folder False here by (auto split: option.splits)
    qed
  qed (use 2(3) none in \<open>auto simp: s1_def scan_leaf_def skip_file_def split: if_splits\<close>)
qed simp

lemma walk_distinct:
  "distinct (map fst (held_files (fst s))) \<Longrightarrow> distinct (map fst (held_files (fst (walk sha b dir es s))))"
proof (induction sha b dir es s rule: walk.induct)
  case (2 sha b dir n t es s)
  show ?case
    unfolding walk.simps
  proof (rule 2(2))
    show "distinct (map fst (held_files (fst (case t of
          Folder ts \<Rightarrow>
            if n \<in> set SCAN_IGNORED_DIRECTORIES then s else walk sha b (dir @ [n]) ts s
        | Closed_Folder \<Rightarrow> s
        | leaf \<Rightarrow> scan_leaf sha b (dir @ [n], leaf) s))))"
      using 2(1,3) by (cases t) (auto simp: scan_leaf_def skip_file_def hold_file_def distinct_update)
  qed
qed simp

lemma take_snapshot_holds:
  assumes "readable es" "skipped_files (take_snapshot sha b es) = []"
  shows "map_of (held_files (take_snapshot sha b es)) p =
    (if scanned p then map_option (\<lambda>body. (sha body, body)) (file_at p es) else None)"
proof -
  have "found [] es p = (if scanned p then file_at p es else None)"
    using found_under [of "[]" es p] by simp
  then show ?thesis
    using walk_held [OF assms(1), of sha b "[]" "(\<lparr>held_files = [], skipped_files = []\<rparr>, 0)" p] assms(2)
    by (auto simp: take_snapshot_def split: option.splits)
qed

lemma take_snapshot_distinct: "distinct (map fst (held_files (take_snapshot sha b es)))"
  unfolding take_snapshot_def by (rule walk_distinct) simp

text \<open>Two files of one tree are never one below the other.\<close>

lemma file_at_below: "file_at p es \<noteq> None \<Longrightarrow> k \<noteq> [] \<Longrightarrow> file_at (p @ k) es = None"
proof (induction p es arbitrary: k rule: node_at.induct)
  case (2 n es)
  then show ?case by (cases k) (auto split: option.splits tree.splits)
qed (auto split: option.splits tree.splits)

lemma file_at_apart: "file_at p es \<noteq> None \<Longrightarrow> file_at q es \<noteq> None \<Longrightarrow> apart p q"
  using file_at_below [of p es] file_at_below [of q es] unfolding apart_def prefix_def
  by (metis append_Nil2)

section \<open>Rolling back\<close>

text \<open>Where a snapshot holds everything it looks at, and the paths it holds can be written.\<close>

definition restorable :: "(bytes \<Rightarrow> jtext) \<Rightarrow> limits \<Rightarrow> entries \<Rightarrow> entries \<Rightarrow> bool" where
  "restorable sha b es0 es1 =
     (readable es0 \<and> skipped_files (take_snapshot sha b es0) = [] \<and>
      readable es1 \<and> skipped_files (take_snapshot sha b es1) = [] \<and>
      list_all (\<lambda>(p, h). writable p es1) (held_files (take_snapshot sha b es0)))"

lemma undo_files:
  assumes "restorable sha b es0 es1" and "inj sha"
  shows "\<exists>es2 r. restore_snapshot sha through b (take_snapshot sha b es0) es1 = (es2, Inr r) \<and>
    (\<forall>p. file_at p es2 = (if scanned p then file_at p es0 else file_at p es1))"
proof -
  let ?base = "take_snapshot sha b es0" and ?now = "take_snapshot sha b es1"
  note base = take_snapshot_holds [of es0 sha b] and now = take_snapshot_holds [of es1 sha b]
  have ok: "readable es0" "skipped_files ?base = []" "readable es1" "skipped_files ?now = []"
    and w: "list_all (\<lambda>(p, h). writable p es1) (held_files ?base)"
    using assms(1) by (simp_all add: restorable_def)
  have mem: "file_at p es0 = Some body \<and> h = sha body \<and> scanned p" if "(p, h, body) \<in> set (held_files ?base)" for p h body
    using map_of_is_SomeI [OF take_snapshot_distinct that] base [OF ok(1,2), of p]
    by (auto split: if_splits)
  obtain es' r' where first: "put_back through ?now (held_files ?base) es1
      \<lparr>restored = [], removed = [], recreated = [], uncovered = skipped_files ?base\<rparr> = (es', Inr r')"
    and at: "\<And>q. file_at q es' = (case map_of (held_files ?base) q of Some (h, b) \<Rightarrow> Some b | None \<Rightarrow> file_at q es1)"
  proof -
    have "\<exists>es' r'. put_back through ?now (held_files ?base) es1
        \<lparr>restored = [], removed = [], recreated = [], uncovered = skipped_files ?base\<rparr> = (es', Inr r') \<and>
      (\<forall>q. file_at q es' = (case map_of (held_files ?base) q of Some (h, b) \<Rightarrow> Some b | None \<Rightarrow> file_at q es1))"
    proof (rule put_back_result)
      show "distinct (map fst (held_files ?base))" by (rule take_snapshot_distinct)
      show "writable p es1" if "(p, h, body) \<in> set (held_files ?base)" for p h body
        using w that by (auto simp: list_all_iff)
      show "apart p q" if "p \<in> fst ` set (held_files ?base)" "q \<in> fst ` set (held_files ?base)" for p q
        using that mem by (intro file_at_apart [of _ es0]) fastforce+
      show "file_at p es1 = Some body" if "(p, h, body) \<in> set (held_files ?base)"
        "map_of (held_files ?now) p = Some (h, body')" for p h body body'
        using mem [OF that(1)] that(2) now [OF ok(3,4), of p] assms(2)
        by (auto split: if_splits dest: injD)
    qed
    with that show thesis by blast
  qed
  have held: "q \<in> set (map fst (held_files ?now)) \<longleftrightarrow> scanned q \<and> file_at q es1 \<noteq> None" for q
    using now [OF ok(3,4), of q] map_of_eq_None_iff [of "held_files ?now" q] by (auto split: if_splits)
  obtain es'' r'' where second: "remove_new ?base (map fst (held_files ?now)) es' r' = (es'', r'')"
    and at': "\<And>q. file_at q es'' = (if q \<in> set (map fst (held_files ?now)) \<and> map_of (held_files ?base) q = None
      then None else file_at q es')"
  proof -
    have "\<exists>es'' r''. remove_new ?base (map fst (held_files ?now)) es' r' = (es'', r'') \<and>
      (\<forall>q. file_at q es'' = (if q \<in> set (map fst (held_files ?now)) \<and> map_of (held_files ?base) q = None
        then None else file_at q es'))"
    proof (rule remove_new_result)
      show "distinct (map fst (held_files ?now))" by (rule take_snapshot_distinct)
      show "file_at p es' \<noteq> None" if "p \<in> set (map fst (held_files ?now))" "map_of (held_files ?base) p = None" for p
        using that held [of p] by (simp add: at)
    qed
    with that show thesis by blast
  qed
  have "file_at p es'' = (if scanned p then file_at p es0 else file_at p es1)" for p
    unfolding at' at held base [OF ok(1,2)] by (auto split: option.splits)
  then show ?thesis using first second by (simp add: restore_snapshot_def)
qed

lemma clean_files:
  assumes "readable es0" "skipped_files (take_snapshot sha b es0) = []"
    and "readable es1" "skipped_files (take_snapshot sha b es1) = []" and "inj sha"
  shows "snapshot_is_clean sha b (take_snapshot sha b es0) es1 \<longleftrightarrow>
    (\<forall>p. scanned p \<longrightarrow> file_at p es0 = file_at p es1)"
proof -
  let ?B = "held_files (take_snapshot sha b es0)" and ?N = "held_files (take_snapshot sha b es1)"
  note base = take_snapshot_holds [OF assms(1,2)] and now = take_snapshot_holds [OF assms(3,4)]
  have keys: "p \<in> fst ` set ?B \<longleftrightarrow> scanned p \<and> file_at p es0 \<noteq> None"
    "p \<in> fst ` set ?N \<longleftrightarrow> scanned p \<and> file_at p es1 \<noteq> None" for p
    using base [of p] now [of p] map_of_eq_None_iff [of ?B p] map_of_eq_None_iff [of ?N p]
    by (auto split: if_splits)
  have size: "length ?B = card (fst ` set ?B)" "length ?N = card (fst ` set ?N)"
    using distinct_card [OF take_snapshot_distinct, of sha b es0] distinct_card [OF take_snapshot_distinct, of sha b es1]
    by simp_all
  have mem: "(p, h, body) \<in> set ?B \<longleftrightarrow> scanned p \<and> file_at p es0 = Some body \<and> h = sha body" for p h body
    using map_of_eq_Some_iff [OF take_snapshot_distinct, of sha b es0 p "(h, body)"] base [of p]
    by (auto split: if_splits)
  have same: "(\<exists>c. map_of ?N p = Some (sha body, c)) \<longleftrightarrow> file_at p es1 = Some body" if "scanned p" for p body
    using now [of p] that assms(5) by (cases "file_at p es1") (auto dest: injD)
  have clean: "snapshot_is_clean sha b (take_snapshot sha b es0) es1 \<longleftrightarrow> length ?N = length ?B \<and>
      (\<forall>p body. scanned p \<longrightarrow> file_at p es0 = Some body \<longrightarrow> file_at p es1 = Some body)"
    unfolding snapshot_is_clean_def Let_def list_all_iff by (auto simp: mem same Ball_def)
  show ?thesis
  proof
    assume "snapshot_is_clean sha b (take_snapshot sha b es0) es1"
    then have len: "length ?N = length ?B" and sub: "\<And>p body. scanned p \<Longrightarrow> file_at p es0 = Some body \<Longrightarrow> file_at p es1 = Some body"
      unfolding clean by blast+
    have "fst ` set ?B \<subseteq> fst ` set ?N" using sub unfolding subset_eq Ball_def keys by blast
    then have "fst ` set ?B = fst ` set ?N" using len size by (intro card_subset_eq) simp_all
    then show "\<forall>p. scanned p \<longrightarrow> file_at p es0 = file_at p es1"
      using sub keys by (metis not_None_eq)
  next
    assume same: "\<forall>p. scanned p \<longrightarrow> file_at p es0 = file_at p es1"
    then have "fst ` set ?B = fst ` set ?N" unfolding set_eq_iff keys by metis
    then show "snapshot_is_clean sha b (take_snapshot sha b es0) es1" using same by (simp add: clean size)
  qed
qed

text \<open>C31: Where the snapshot held everything it looked at, the scan of the changed tree too, and every
  held path can still be written, a rollback succeeds and leaves every file of the scanned directories
  with the content it had, no file that was not there, and the ignored directories as they are.\<close>

theorem restore_exact:
  assumes "restorable sha b es0 es1" and "inj sha"
  shows "\<exists>es2 r. restore_snapshot sha through b (take_snapshot sha b es0) es1 = (es2, Inr r) \<and>
    (\<forall>p. file_at p es2 = (if scanned p then file_at p es0 else file_at p es1))"
  using assms by (rule undo_files)

text \<open>Nothing-has-changed, which compares sizes and hashes, is the equality of all scanned files.\<close>

theorem snapshot_is_clean_iff:
  assumes "readable es0" "skipped_files (take_snapshot sha b es0) = []"
    and "readable es1" "skipped_files (take_snapshot sha b es1) = []" and "inj sha"
  shows "snapshot_is_clean sha b (take_snapshot sha b es0) es1 \<longleftrightarrow>
    (\<forall>p. scanned p \<longrightarrow> file_at p es0 = file_at p es1)"
  using assms by (rule clean_files)

section \<open>Examples\<close>

definition SAMPLE_BEFORE :: entries where
  "SAMPLE_BEFORE =
     [(js ''a'', File [1, 2]), (js ''d'', Folder [(js ''b'', File [3])]), (js ''.git'', Folder [(js ''x'', File [9])])]"

definition SAMPLE_AFTER :: entries where
  "SAMPLE_AFTER = [(js ''a'', File [7]), (js ''c'', File [5]), (js ''.git'', Folder [(js ''x'', File [8])])]"

definition sample_sha :: "bytes \<Rightarrow> jtext" where
  "sample_sha = map ucast"

definition no_through :: "path \<Rightarrow> bytes \<Rightarrow> entries option" where
  "no_through p body = None"

lemma inj_sample_sha: "inj sample_sha"
proof -
  have "inj (ucast :: 8 word \<Rightarrow> 16 word)" by (rule inj_on_inverseI [where g = ucast]) (rule bit_word_eqI, simp add: bit_simps)
  then show ?thesis unfolding sample_sha_def by (simp add: inj_mapI)
qed

lemma sample_restorable: "restorable sample_sha DEFAULT_LIMITS SAMPLE_BEFORE SAMPLE_AFTER"
  by (simp add: restorable_def take_snapshot_def SAMPLE_BEFORE_def SAMPLE_AFTER_def scan_leaf_def
      hold_file_def skip_file_def DEFAULT_LIMITS_def SCAN_IGNORED_DIRECTORIES_def js_def)

theorem restore_exact_witness:
  "\<exists>es2 r. restore_snapshot sample_sha no_through DEFAULT_LIMITS
      (take_snapshot sample_sha DEFAULT_LIMITS SAMPLE_BEFORE) SAMPLE_AFTER = (es2, Inr r) \<and>
    file_at [js ''a''] es2 = Some [1, 2] \<and> file_at [js ''d'', js ''b''] es2 = Some [3] \<and>
    file_at [js ''c''] es2 = None \<and> file_at [js ''.git'', js ''x''] es2 = Some [8]"
proof -
  obtain es2 r where r: "restore_snapshot sample_sha no_through DEFAULT_LIMITS
      (take_snapshot sample_sha DEFAULT_LIMITS SAMPLE_BEFORE) SAMPLE_AFTER = (es2, Inr r)"
    and at: "\<And>p. file_at p es2 = (if scanned p then file_at p SAMPLE_BEFORE else file_at p SAMPLE_AFTER)"
    using restore_exact [OF sample_restorable inj_sample_sha, of no_through] by blast
  have "file_at [js ''a''] es2 = Some [1, 2]" "file_at [js ''d'', js ''b''] es2 = Some [3]"
    "file_at [js ''c''] es2 = None" "file_at [js ''.git'', js ''x''] es2 = Some [8]"
    unfolding at by (simp_all add: SAMPLE_BEFORE_def SAMPLE_AFTER_def SCAN_IGNORED_DIRECTORIES_def js_def)
  with r show ?thesis by blast
qed

theorem snapshot_is_clean_iff_witness:
  "\<not> snapshot_is_clean sample_sha DEFAULT_LIMITS
      (take_snapshot sample_sha DEFAULT_LIMITS SAMPLE_BEFORE) SAMPLE_AFTER"
proof -
  have "scanned [js ''a''] \<and> file_at [js ''a''] SAMPLE_BEFORE \<noteq> file_at [js ''a''] SAMPLE_AFTER"
    by (simp add: SAMPLE_BEFORE_def SAMPLE_AFTER_def)
  then show ?thesis
    using snapshot_is_clean_iff [of SAMPLE_BEFORE sample_sha DEFAULT_LIMITS SAMPLE_AFTER]
      sample_restorable inj_sample_sha unfolding restorable_def by blast
qed

section \<open>Where a rollback is not one\<close>

lemma removed_kept: "remove_new base ps es r = (es', r') \<Longrightarrow> set (removed r) \<subseteq> set (removed r')"
  by (induction ps arbitrary: es r) (fastforce split: if_splits)+

lemma remove_new_uncovered: "remove_new base ps es r = (es', r') \<Longrightarrow> uncovered r' = uncovered r"
  by (induction ps arbitrary: es r) (auto split: if_splits)

lemma put_back_uncovered: "put_back through now fs es r = (es', Inr r') \<Longrightarrow> uncovered r' = uncovered r"
  by (induction fs arbitrary: es r) (auto split: if_splits option.splits)

lemma remove_new_all:
  "remove_new base ps es r = (es', r') \<Longrightarrow> p \<in> set ps \<Longrightarrow> map_of (held_files base) p = None \<Longrightarrow>
   p \<in> set (removed r')"
proof (induction ps arbitrary: es r)
  case (Cons q ps)
  show ?case
  proof (cases "q = p")
    case True
    with Cons.prems removed_kept [of base ps "drop_file p es" "r\<lparr>removed := removed r @ [p]\<rparr>" es' r']
    show ?thesis by simp
  next
    case False
    with Cons show ?thesis by (simp split: if_splits)
  qed
qed simp

lemma drop_file_none: "q = p \<or> file_at q es = None \<Longrightarrow> file_at q (drop_file p es) = None"
proof (induction p es arbitrary: q rule: drop_file.induct)
  case (2 n es)
  then show ?case
    by (cases q rule: path_cases) (auto simp: delete_conv' split: option.splits tree.splits)
next
  case (3 n m ns es)
  show ?case
  proof (cases "\<exists>ts. map_of es n = Some (Folder ts)")
    case True
    then obtain ts where ts: "map_of es n = Some (Folder ts)" by blast
    with 3 show ?thesis
      by (cases q rule: path_cases) (auto simp: update_conv' split: option.splits tree.splits)
  next
    case False
    then show ?thesis
      using 3(2) by (cases q rule: path_cases) (auto split: option.splits tree.splits)
  qed
qed auto

lemma remove_new_gone:
  "remove_new base ps es r = (es', r') \<Longrightarrow> file_at p es = None \<or> p \<in> set ps \<and> map_of (held_files base) p = None \<Longrightarrow>
   file_at p es' = None"
proof (induction ps arbitrary: es r)
  case (Cons q ps)
  show ?case
  proof (cases "map_of (held_files base) q = None")
    case True
    have "file_at p (drop_file q es) = None \<or> p \<in> set ps \<and> map_of (held_files base) p = None"
      using Cons.prems(2) drop_file_none [of p q es] by auto
    then show ?thesis using Cons.IH Cons.prems(1) True by simp
  next
    case False
    then show ?thesis using Cons by auto
  qed
qed simp

text \<open>C34: A file that the snapshot skipped, because it was too large, beyond a limit or a link, and that the scan
  before the rollback can hold, is gone after the rollback, which reports it as removed and as not covered too.\<close>

theorem uncovered_file_is_removed:
  assumes "p \<in> set (skipped_files base)" "map_of (held_files base) p = None"
    and "p \<in> fst ` set (held_files (take_snapshot sha b es))"
    and "restore_snapshot sha through b base es = (es', Inr r)"
  shows "file_at p es' = None \<and> p \<in> set (removed r) \<and> p \<in> set (uncovered r)"
proof -
  let ?now = "take_snapshot sha b es"
  obtain es1 r1 where first: "put_back through ?now (held_files base) es
      \<lparr>restored = [], removed = [], recreated = [], uncovered = skipped_files base\<rparr> = (es1, Inr r1)"
    and second: "remove_new base (map fst (held_files ?now)) es1 r1 = (es', r)"
    using assms(4) by (auto simp: restore_snapshot_def Let_def split: prod.splits sum.splits)
  have "p \<in> set (removed r)"
    using assms(2,3) by (intro remove_new_all [OF second]) simp_all
  moreover have "file_at p es' = None"
    using assms(2,3) by (intro remove_new_gone [OF second]) simp
  ultimately show ?thesis
    using remove_new_uncovered [OF second] put_back_uncovered [OF first] assms(1) by simp
qed

text \<open>A file over the limit that the transaction shortened: gone after the rollback.\<close>

theorem uncovered_file_is_removed_witness:
  "\<exists>r. restore_snapshot sample_sha no_through (DEFAULT_LIMITS\<lparr>max_file_bytes := 2\<rparr>)
     (take_snapshot sample_sha (DEFAULT_LIMITS\<lparr>max_file_bytes := 2\<rparr>) [(js ''a'', File [1, 2, 3])])
     [(js ''a'', File [1])] = ([], Inr r) \<and>
   [js ''a''] \<in> set (removed r) \<and> [js ''a''] \<in> set (uncovered r)"
proof -
  let ?b = "DEFAULT_LIMITS\<lparr>max_file_bytes := 2\<rparr>"
  let ?base = "take_snapshot sample_sha ?b [(js ''a'', File [1, 2, 3])]"
  note defs = take_snapshot_def scan_leaf_def hold_file_def skip_file_def DEFAULT_LIMITS_def
  obtain r where r: "restore_snapshot sample_sha no_through ?b ?base [(js ''a'', File [1])] = ([], Inr r)"
    by (simp add: restore_snapshot_def defs)
  have "file_at [js ''a''] [] = None \<and> [js ''a''] \<in> set (removed r) \<and> [js ''a''] \<in> set (uncovered r)"
    by (rule uncovered_file_is_removed [OF _ _ _ r]) (simp_all add: defs)
  with r show ?thesis by blast
qed

text \<open>A new file that is larger than the limit stays, and the report does not name it.\<close>

lemma large_new_file_stays:
  "\<exists>r. restore_snapshot sample_sha no_through (DEFAULT_LIMITS\<lparr>max_file_bytes := 2\<rparr>)
     (take_snapshot sample_sha (DEFAULT_LIMITS\<lparr>max_file_bytes := 2\<rparr>) []) [(js ''a'', File [1, 2, 3])] =
       ([(js ''a'', File [1, 2, 3])], Inr r) \<and>
     removed r = [] \<and> uncovered r = []"
  by (simp add: restore_snapshot_def take_snapshot_def scan_leaf_def hold_file_def skip_file_def DEFAULT_LIMITS_def)

text \<open>A file that became a directory: the rollback throws half way, with the first file put back.\<close>

lemma folder_stops_rollback:
  "restore_snapshot sample_sha no_through DEFAULT_LIMITS
     (take_snapshot sample_sha DEFAULT_LIMITS [(js ''a'', File [1]), (js ''b'', File [2])])
     [(js ''a'', File [3]), (js ''b'', Folder []), (js ''c'', File [4])] =
   ([(js ''a'', File [1]), (js ''b'', Folder []), (js ''c'', File [4])], Inl [js ''b''])"
  by (simp add: restore_snapshot_def take_snapshot_def scan_leaf_def hold_file_def skip_file_def sample_sha_def
      DEFAULT_LIMITS_def SCAN_IGNORED_DIRECTORIES_def js_def)

end
