(* ===== verification/Tidy.thy ===== *)
theory Tidy
  imports Undo
begin

text \<open>
  The interface a transaction relies on, \<open>undo\<close>, and the workspaces where the snapshot keeps it: the
  files that are scanned lie at the paths of a list none of which is below another, and the limits
  have room for that many files of the size allowed.
\<close>

section \<open>The interface\<close>

locale undo =
  fixes take :: "'d \<Rightarrow> 's" and restore :: "'s \<Rightarrow> 'd \<Rightarrow> 'd \<times> ('e + 'r)" and unchanged :: "'s \<Rightarrow> 'd \<Rightarrow> bool"
    and good :: "'d \<Rightarrow> bool" and view :: "'d \<Rightarrow> 'v"
  assumes restores: "good d0 \<Longrightarrow> good d1 \<Longrightarrow> \<exists>d2 r. restore (take d0) d1 = (d2, Inr r) \<and> good d2 \<and> view d2 = view d0"
    and compares: "good d0 \<Longrightarrow> good d1 \<Longrightarrow> unchanged (take d0) d1 \<longleftrightarrow> view d0 = view d1"
begin

lemma restore_result:
  assumes "good d0" "good d1" "restore (take d0) d1 = (d2, out)"
  shows "good d2 \<and> view d2 = view d0 \<and> (\<exists>r. out = Inr r)"
  using restores [OF assms(1,2)] assms(3) by auto

text \<open>There and back: the base, whatever happens to it, then the edits again.\<close>

lemma there_and_back:
  assumes "good d0" "good d1" "good d2"
  obtains d r d' r' where "restore (take d0) d1 = (d, Inr r)" "view d = view d0"
    "restore (take d1) d2 = (d', Inr r')" "view d' = view d1" "good d'"
  using restores [OF assms(1,2)] restores [OF assms(2,3)] by blast

lemma restored_unchanged:
  assumes "good d0" "good d1" "restore (take d0) d1 = (d2, out)"
  shows "unchanged (take d0) d2"
  using restore_result [OF assms] compares [OF assms(1)] by auto

end

section \<open>Tidy trees\<close>

function tidy :: "path list \<Rightarrow> nat \<Rightarrow> path \<Rightarrow> entries \<Rightarrow> bool" where
  "tidy A m dir [] = True"
| "tidy A m dir ((n, t) # es) =
     (n \<notin> fst ` set es \<and> tidy A m dir es \<and>
      (case t of
         File body \<Rightarrow> dir @ [n] \<in> set A \<and> length body \<le> m
       | Folder ts \<Rightarrow> dir @ [n] \<notin> set A \<and> (n \<in> set SCAN_IGNORED_DIRECTORIES \<or> tidy A m (dir @ [n]) ts)
       | _ \<Rightarrow> False))"
  by pat_completeness auto
termination by (relation "measure (\<lambda>(A, m, dir, es). size_list (\<lambda>nt. size (snd nt)) es)")
  (auto simp: less_Suc_eq_le intro: order_trans [OF folder_size] le_SucI)

definition tidy_node :: "path list \<Rightarrow> nat \<Rightarrow> path \<Rightarrow> jtext \<Rightarrow> tree \<Rightarrow> bool" where
  "tidy_node A m dir n t = (case t of
         File body \<Rightarrow> dir @ [n] \<in> set A \<and> length body \<le> m
       | Folder ts \<Rightarrow> dir @ [n] \<notin> set A \<and> (n \<in> set SCAN_IGNORED_DIRECTORIES \<or> tidy A m (dir @ [n]) ts)
       | _ \<Rightarrow> False)"

text \<open>Room for the paths, which are scanned and none of them below another.\<close>

definition fits :: "limits \<Rightarrow> path list \<Rightarrow> nat \<Rightarrow> bool" where
  "fits b A m =
     (list_all (\<lambda>p. p \<noteq> [] \<and> scanned p \<and> list_all (apart p) A) A \<and>
      length A \<le> max_files b \<and> m \<le> max_file_bytes b \<and> length A * m < max_total_bytes b)"

definition covered :: "(bytes \<Rightarrow> jtext) \<Rightarrow> limits \<Rightarrow> path list \<Rightarrow> nat \<Rightarrow> entries \<Rightarrow> bool" where
  "covered sha b A m es = (inj sha \<and> fits b A m \<and> tidy A m [] es)"

definition scan_view :: "entries \<Rightarrow> path \<Rightarrow> bytes option" where
  "scan_view es p = (if scanned p then file_at p es else None)"

lemma tidy_Cons: "tidy A m dir ((n, t) # es) \<longleftrightarrow> n \<notin> fst ` set es \<and> tidy A m dir es \<and> tidy_node A m dir n t"
  by (simp add: tidy_node_def)

lemma tidy_map_of: "tidy A m dir es \<Longrightarrow> map_of es n = Some t \<Longrightarrow> tidy_node A m dir n t"
  by (induction es) (auto simp: tidy_Cons simp del: tidy.simps(2) split: if_splits)

lemma tidy_update: "tidy A m dir es \<Longrightarrow> tidy_node A m dir n t \<Longrightarrow> tidy A m dir (AList.update n t es)"
  by (induction es) (force simp: tidy_Cons dom_update simp del: tidy.simps(2))+

lemma tidy_delete: "tidy A m dir es \<Longrightarrow> tidy A m dir (AList.delete n es)"
  by (induction es) (auto simp: tidy_Cons AList.delete_eq simp del: tidy.simps(2))

lemma apart_below: "apart (dir @ [n]) (dir @ n # k # ks) = False"
  by (simp add: apart_def)

lemma tidy_readable: "tidy A m dir es \<Longrightarrow> readable es"
  by (induction A m dir es rule: tidy.induct) (auto split: tree.splits)

lemma tidy_file: "tidy A m dir es \<Longrightarrow> found dir es q = Some body \<Longrightarrow> q \<in> set A \<and> length body \<le> m"
proof (induction A m dir es rule: tidy.induct)
  case (2 A m dir n t es)
  have n: "n \<notin> fst ` set es" using 2(3) by simp
  show ?case
    using 2 unfolding found_Cons [OF n] by (cases t) (auto split: if_splits option.splits)
qed simp

section \<open>Writing and removing keep a tree tidy\<close>

lemma apart_prefix: "apart (dir @ [n]) (dir @ n # k # ks) = False"
  by (simp add: apart_def)

lemma put_file_tidy:
  assumes A: "list_all (\<lambda>p. p \<noteq> [] \<and> scanned p \<and> list_all (apart p) A) A"
  shows "tidy A m dir es \<Longrightarrow> dir @ p \<in> set A \<Longrightarrow> p \<noteq> [] \<Longrightarrow> length body \<le> m \<Longrightarrow>
    writable p es \<and> (\<forall>es'. put_file through p body es = Some es' \<longrightarrow> tidy A m dir es')"
proof (induction through p body es arbitrary: dir rule: put_file.induct)
  case (2 through n body es)
  then have "tidy_node A m dir n (File body)" by (simp add: tidy_node_def)
  with 2 tidy_update [of A m dir es n "File body"] show ?case
    by (auto simp: tidy_node_def dest: tidy_map_of [of _ _ _ _ n] split: option.splits tree.splits)
next
  case (3 through n k ks body es)
  have path: "(dir @ [n]) @ k # ks \<in> set A" using 3(4) by simp
  have "scanned (dir @ n # k # ks)" using A 3(4) by (auto simp: list_all_iff)
  then have looked: "n \<notin> set SCAN_IGNORED_DIRECTORIES" by (simp add: scanned_def butlast_append)
  have out: "dir @ [n] \<notin> set A"
    using A 3(4) apart_prefix [of dir n k ks] by (auto simp: list_all_iff)
  show ?case
  proof (cases "map_of es n")
    case None
    from 3(1) [OF None _ path] 3(6)
    have "\<forall>ts. put_file (\<lambda>p. through (n # p)) (k # ks) body [] = Some ts \<longrightarrow> tidy A m (dir @ [n]) ts" by simp
    then show ?thesis using None out 3(3) by (auto simp: tidy_node_def intro!: tidy_update)
  next
    case (Some t)
    with 3(3) have "tidy_node A m dir n t" by (rule tidy_map_of)
    then obtain ts where t: "t = Folder ts" and ts: "tidy A m (dir @ [n]) ts"
      using out looked by (cases t) (auto simp: tidy_node_def)
    from 3(2) [OF Some t ts path] 3(6)
    have "writable (k # ks) ts"
      "\<forall>ts'. put_file (\<lambda>p. through (n # p)) (k # ks) body ts = Some ts' \<longrightarrow> tidy A m (dir @ [n]) ts'" by simp_all
    then show ?thesis using Some t out 3(3) by (auto simp: tidy_node_def intro!: tidy_update)
  qed
qed simp

lemma drop_file_tidy: "tidy A m dir es \<Longrightarrow> tidy A m dir (drop_file p es)"
proof (induction p es arbitrary: dir rule: drop_file.induct)
  case (3 n k ks es)
  show ?case
  proof (cases "\<exists>ts. map_of es n = Some (Folder ts)")
    case True
    then obtain ts where ts: "map_of es n = Some (Folder ts)" by blast
    from tidy_map_of [OF 3(2) ts] 3(1) [OF ts refl, of "dir @ [n]"]
    have "tidy_node A m dir n (Folder (drop_file (k # ks) ts))" by (auto simp: tidy_node_def)
    then show ?thesis using ts 3(2) by (simp add: tidy_update)
  next
    case False
    then have "drop_file (n # k # ks) es = es" by (auto split: option.splits tree.splits)
    then show ?thesis using 3(2) by simp
  qed
qed (simp_all add: tidy_delete)

lemma remove_new_tidy: "tidy A m [] es \<Longrightarrow> remove_new b ps es r = (es', r') \<Longrightarrow> tidy A m [] es'"
proof (induction ps arbitrary: es r)
  case (Cons p ps)
  show ?case
  proof (cases "map_of (held_files b) p")
    case None
    with Cons.prems show ?thesis by (intro Cons.IH [OF drop_file_tidy]) simp_all
  qed (use Cons in simp)
qed simp

lemma put_back_tidy:
  assumes A: "list_all (\<lambda>p. p \<noteq> [] \<and> scanned p \<and> list_all (apart p) A) A"
  shows "list_all (\<lambda>(p, h, body). p \<in> set A \<and> length body \<le> m) fs \<Longrightarrow> tidy A m [] es \<Longrightarrow>
    put_back through now fs es r = (es', out) \<Longrightarrow> tidy A m [] es'"
proof (induction fs arbitrary: es r)
  case (Cons x fs)
  obtain p h body where x: "x = (p, h, body)" by (cases x) auto
  have p: "p \<in> set A" "length body \<le> m" "p \<noteq> []" using Cons.prems(1) A by (auto simp: x list_all_iff)
  have step: "tidy A m [] es1" if "put_file through p body es = Some es1" for es1
    using put_file_tidy [OF A Cons.prems(2), of p body through] p that by simp
  show ?case
    using Cons.prems Cons.IH step by (auto simp: x split: option.splits if_splits)
qed simp

section \<open>Nothing is skipped\<close>

lemma found_below: "found (dir @ [n]) ts q \<noteq> None \<Longrightarrow> n \<notin> fst ` set es \<Longrightarrow> found dir es q = None"
proof -
  assume found: "found (dir @ [n]) ts q \<noteq> None" and n: "n \<notin> fst ` set es"
  have "prefix (dir @ [n]) q" using found by (rule contrapos_np) (rule found_elsewhere)
  then obtain p where "q = dir @ n # p" by (auto simp: prefix_def)
  then show "found dir es q = None" using n by (simp add: found_under file_at_no_entry)
qed

lemma update_new: "k \<notin> fst ` set al \<Longrightarrow> AList.update k v al = al @ [(k, v)]"
  by (induction al) auto

definition room :: "path list \<Rightarrow> nat \<Rightarrow> scan \<Rightarrow> bool" where
  "room A m s =
     (skipped_files (fst s) = [] \<and> distinct (map fst (held_files (fst s))) \<and>
      fst ` set (held_files (fst s)) \<subseteq> set A \<and> snd s \<le> length (held_files (fst s)) * m)"

lemma room_hold:
  assumes "room A m s" "q \<in> set A" "q \<notin> fst ` set (held_files (fst s))" "length body \<le> m"
    and "length A \<le> max_files b" "m \<le> max_file_bytes b" "length A * m < max_total_bytes b"
  shows "scan_leaf sha b (q, File body) s = hold_file sha q body s \<and> room A m (hold_file sha q body s)"
proof -
  let ?H = "held_files (fst s)"
  have "card (insert q (fst ` set ?H)) \<le> card (set A)"
    using assms(1,2) by (intro card_mono) (auto simp: room_def)
  moreover have "card (fst ` set ?H) = length ?H"
    using assms(1) distinct_card [of "map fst ?H"] by (simp add: room_def)
  ultimately have free: "length ?H < length A"
    using assms(3) card_length [of A] by simp
  have "snd s \<le> length ?H * m" using assms(1) by (simp add: room_def)
  also have "\<dots> \<le> length A * m" using free by (intro mult_right_mono) simp_all
  finally have "snd s < max_total_bytes b" using assms(7) by simp
  then have "scan_leaf sha b (q, File body) s = hold_file sha q body s"
    using assms free by (simp add: scan_leaf_def)
  moreover have "room A m (hold_file sha q body s)"
    using assms(1-4) by (auto simp: room_def hold_file_def update_new)
  ultimately show ?thesis by blast
qed

lemma walk_room:
  "tidy A m dir es \<Longrightarrow> room A m s \<Longrightarrow> (\<forall>q \<in> fst ` set (held_files (fst s)). found dir es q = None) \<Longrightarrow>
    length A \<le> max_files b \<Longrightarrow> m \<le> max_file_bytes b \<Longrightarrow> length A * m < max_total_bytes b \<Longrightarrow>
    room A m (walk sha b dir es s) \<and>
    (\<forall>q \<in> fst ` set (held_files (fst (walk sha b dir es s))).
       q \<in> fst ` set (held_files (fst s)) \<or> found dir es q \<noteq> None)"
proof (induction sha b dir es s rule: walk.induct)
  case (2 sha b dir n t es s)
  define s1 where "s1 = (case t of
          Folder ts \<Rightarrow>
            if n \<in> set SCAN_IGNORED_DIRECTORIES then s else walk sha b (dir @ [n]) ts s
        | Closed_Folder \<Rightarrow> s
        | leaf \<Rightarrow> scan_leaf sha b (dir @ [n], leaf) s)"
  have w: "walk sha b dir ((n, t) # es) s = walk sha b dir es s1"
    by (simp add: s1_def)
  have n: "n \<notin> fst ` set es" and es: "tidy A m dir es" using 2(3) by simp_all
  note cons = found_Cons [OF n]
  have old: "found dir es q = None" if "q \<in> fst ` set (held_files (fst s))" for q
    using 2(5) that cons [of dir t q] by (auto split: option.splits)
  have step: "room A m s1 \<and> (\<forall>q \<in> fst ` set (held_files (fst s1)).
      found dir es q = None \<and> (q \<in> fst ` set (held_files (fst s)) \<or> found dir ((n, t) # es) q \<noteq> None))"
  proof (cases t)
    case (File body)
    have new: "dir @ [n] \<notin> fst ` set (held_files (fst s))"
      using 2(5) cons [of dir t "dir @ [n]"] File by auto
    have "found dir es (dir @ [n]) = None" using n by (simp add: found_under map_of_eq_None_iff [THEN iffD2])
    moreover have "s1 = hold_file sha (dir @ [n]) body s \<and> room A m (hold_file sha (dir @ [n]) body s)"
      using room_hold [OF 2(4) _ new _ 2(6-8), of body sha] 2(3) File by (simp add: s1_def)
    ultimately show ?thesis
      using old new cons [of dir t] File by (auto simp: hold_file_def update_new)
  next
    case (Folder ts)
    show ?thesis
    proof (cases "n \<in> set SCAN_IGNORED_DIRECTORIES")
      case True
      then show ?thesis using Folder 2(4) old by (simp add: s1_def)
    next
      case False
      have s1: "s1 = walk sha b (dir @ [n]) ts s" using Folder False by (simp add: s1_def)
      have "tidy A m (dir @ [n]) ts" using 2(3) Folder False by simp
      moreover have "\<forall>q \<in> fst ` set (held_files (fst s)). found (dir @ [n]) ts q = None"
        using 2(5) Folder False by (auto simp: cons split: option.splits)
      ultimately have inner: "room A m s1" "\<forall>q \<in> fst ` set (held_files (fst s1)).
          q \<in> fst ` set (held_files (fst s)) \<or> found (dir @ [n]) ts q \<noteq> None"
        using 2(1) [OF Folder False _ 2(4) _ 2(6-8)] unfolding s1 by blast+
      have both: "found dir es q = None \<and> (q \<in> fst ` set (held_files (fst s)) \<or> found dir ((n, t) # es) q \<noteq> None)"
        if q: "q \<in> fst ` set (held_files (fst s1))" for q
      proof (cases "q \<in> fst ` set (held_files (fst s))")
        case True
        then show ?thesis using old by simp
      next
        case False
        then have "found (dir @ [n]) ts q \<noteq> None" using inner(2) q by blast
        then show ?thesis
          using found_below [OF _ n] Folder \<open>n \<notin> set SCAN_IGNORED_DIRECTORIES\<close> by (auto simp: cons)
      qed
      show ?thesis by (rule conjI [OF inner(1)], rule ballI, rule both)
    qed
  qed (use 2(3) in simp_all)
  note after = step [THEN conjunct2, THEN bspec]
  have none: "\<forall>q \<in> fst ` set (held_files (fst s1)). found dir es q = None"
    by (rule ballI) (rule after [THEN conjunct1])
  note rest = 2(2) [folded s1_def, OF es step [THEN conjunct1] none 2(6-8)]
  have more: "found dir ((n, t) # es) q \<noteq> None" if "found dir es q \<noteq> None" for q
    using that unfolding cons by (simp split: option.split)
  show ?case
    unfolding w
  proof (intro conjI ballI)
    show "room A m (walk sha b dir es s1)" by (rule rest [THEN conjunct1])
    fix q
    assume "q \<in> fst ` set (held_files (fst (walk sha b dir es s1)))"
    from rest [THEN conjunct2, THEN bspec, OF this]
    show "q \<in> fst ` set (held_files (fst s)) \<or> found dir ((n, t) # es) q \<noteq> None"
      by (rule disjE) (rule after [THEN conjunct2], assumption, rule disjI2, rule more)
  qed
qed simp

lemma tidy_nothing_skipped:
  assumes "fits b A m" "tidy A m [] es"
  shows "skipped_files (take_snapshot sha b es) = []"
  using walk_room [of A m "[]" es "(\<lparr>held_files = [], skipped_files = []\<rparr>, 0)" b sha] assms
  by (simp add: take_snapshot_def room_def fits_def)

section \<open>The snapshot is an undo\<close>

lemma covered_held:
  assumes "covered sha b A m es" "(p, h, body) \<in> set (held_files (take_snapshot sha b es))"
  shows "p \<in> set A \<and> length body \<le> m \<and> p \<noteq> []"
proof -
  have ok: "readable es" "skipped_files (take_snapshot sha b es) = []" "tidy A m [] es"
    using assms(1) tidy_readable tidy_nothing_skipped by (auto simp: covered_def)
  have "map_of (held_files (take_snapshot sha b es)) p = Some (h, body)"
    using assms(2) take_snapshot_distinct by simp
  then have "found [] es p = Some body"
    using take_snapshot_holds [OF ok(1,2), of p] by (auto simp: found_def split: if_splits)
  with tidy_file [OF ok(3)] show ?thesis using assms(1) by (auto simp: covered_def fits_def list_all_iff)
qed

lemma covered_restorable:
  assumes "covered sha b A m es0" "covered sha b A m es1"
  shows "restorable sha b es0 es1"
proof -
  have A: "list_all (\<lambda>p. p \<noteq> [] \<and> scanned p \<and> list_all (apart p) A) A" and t: "tidy A m [] es1"
    using assms(2) by (simp_all add: covered_def fits_def)
  have "writable p es1" if "(p, h, body) \<in> set (held_files (take_snapshot sha b es0))" for p h body
    using put_file_tidy [OF A t, of p "[]"] covered_held [OF assms(1) that] by simp
  then show ?thesis
    using assms tidy_readable tidy_nothing_skipped by (auto simp: restorable_def covered_def list_all_iff)
qed

lemma covered_restore:
  assumes "covered sha b A m es0" "covered sha b A m es1"
  shows "\<exists>es2 r. restore_snapshot sha through b (take_snapshot sha b es0) es1 = (es2, Inr r) \<and>
    covered sha b A m es2 \<and> scan_view es2 = scan_view es0"
proof -
  let ?base = "take_snapshot sha b es0" and ?now = "take_snapshot sha b es1"
  have A: "list_all (\<lambda>p. p \<noteq> [] \<and> scanned p \<and> list_all (apart p) A) A" and t: "tidy A m [] es1"
    and inj: "inj sha" using assms(2) by (simp_all add: covered_def fits_def)
  obtain es2 r where r: "restore_snapshot sha through b ?base es1 = (es2, Inr r)"
    and at: "\<And>p. file_at p es2 = (if scanned p then file_at p es0 else file_at p es1)"
    using undo_files [OF covered_restorable [OF assms] inj, of through] by blast
  have fs: "list_all (\<lambda>(p, h, body). p \<in> set A \<and> length body \<le> m) (held_files ?base)"
    using covered_held [OF assms(1)] by (auto simp: list_all_iff)
  obtain es' r' where "put_back through ?now (held_files ?base) es1
      \<lparr>restored = [], removed = [], recreated = [], uncovered = skipped_files ?base\<rparr> = (es', Inr r')"
    "remove_new ?base (map fst (held_files ?now)) es' r' = (es2, r)"
    using r by (auto simp: restore_snapshot_def Let_def split: prod.splits sum.splits)
  then have "tidy A m [] es2" using put_back_tidy [OF A fs t] remove_new_tidy by blast
  with r at assms show ?thesis by (auto simp: covered_def scan_view_def fun_eq_iff)
qed

lemma covered_clean:
  assumes "covered sha b A m es0" "covered sha b A m es1"
  shows "snapshot_is_clean sha b (take_snapshot sha b es0) es1 \<longleftrightarrow> scan_view es0 = scan_view es1"
proof -
  have "snapshot_is_clean sha b (take_snapshot sha b es0) es1 \<longleftrightarrow>
      (\<forall>p. scanned p \<longrightarrow> file_at p es0 = file_at p es1)"
    using assms tidy_readable tidy_nothing_skipped by (intro clean_files) (auto simp: covered_def)
  then show ?thesis by (auto simp: scan_view_def fun_eq_iff)
qed

interpretation rollback: undo "take_snapshot sha b" "restore_snapshot sha through b" "snapshot_is_clean sha b"
    "covered sha b A m" scan_view
  for sha through b A m
  by unfold_locales (rule covered_restore covered_clean; assumption)+

section \<open>Well-formed workspaces\<close>

text \<open>C35: A rollback between two covered trees never throws and leaves a covered tree: directories stay
  directories, every scanned file lies at one of the paths and within the size.\<close>

theorem rollback_stays_covered:
  assumes "covered sha b A m es0" "covered sha b A m es1"
    and "restore_snapshot sha through b (take_snapshot sha b es0) es1 = (es2, out)"
  shows "covered sha b A m es2 \<and> (\<exists>r. out = Inr r)"
  using rollback.restore_result [OF assms] by blast

theorem rollback_stays_covered_witness:
  "\<exists>es2 r. restore_snapshot sample_sha no_through DEFAULT_LIMITS
      (take_snapshot sample_sha DEFAULT_LIMITS [(js ''a'', File [1])])
      [(js ''d'', Folder [(js ''b'', File [2])])] = (es2, Inr r) \<and>
    tidy [[js ''a''], [js ''d'', js ''b'']] 4 [] es2"
proof -
  let ?A = "[[js ''a''], [js ''d'', js ''b'']]"
  have cov: "covered sample_sha DEFAULT_LIMITS ?A 4 [(js ''a'', File [1])]"
    "covered sample_sha DEFAULT_LIMITS ?A 4 [(js ''d'', Folder [(js ''b'', File [2])])]"
    using inj_sample_sha
    by (simp_all add: covered_def fits_def DEFAULT_LIMITS_def SCAN_IGNORED_DIRECTORIES_def apart_def js_def)
  obtain es2 out where r: "restore_snapshot sample_sha no_through DEFAULT_LIMITS
      (take_snapshot sample_sha DEFAULT_LIMITS [(js ''a'', File [1])])
      [(js ''d'', Folder [(js ''b'', File [2])])] = (es2, out)" by (metis surj_pair)
  from rollback_stays_covered [OF cov r] r show ?thesis by (auto simp: covered_def)
qed

end
