(* ===== verification/TransactionRuns.thy ===== *)
theory TransactionRuns
  imports Transactions Tidy
begin

text \<open>
  A task driven through the protocol, \<open>transaction-runner.ts\<close>, and what the controller keeps: what a
  rollback gives back, when work is carried, the freeze of the check, the budget of transactions.
\<close>

section \<open>The fields each step changes\<close>

lemma emit_fields [simp]:
  "disk (emit e c) = disk c" "outcomes (emit e c) = outcomes c" "base (emit e c) = base c"
  "opened_with (emit e c) = opened_with c" "current (emit e c) = current c" "opened_at (emit e c) = opened_at c"
  "adopted (emit e c) = adopted c" "adopted_ever_passed (emit e c) = adopted_ever_passed c"
  "discarded_since_adoption (emit e c) = discarded_since_adoption c" "reconsidering (emit e c) = reconsidering c"
  "check_outputs (emit e c) = check_outputs c" "check_has_repeated (emit e c) = check_has_repeated c"
  "carrying (emit e c) = carrying c" "reconsiderations_used (emit e c) = reconsiderations_used c"
  "events (emit e c) = events c @ [e]" "uncovered_paths (emit e c) = uncovered_paths c"
  "revision_store (emit e c) = revision_store c"
  by (simp_all add: emit_def)

lemma add_uncovered_fields [simp]:
  "disk (add_uncovered ps c) = disk c" "outcomes (add_uncovered ps c) = outcomes c" "base (add_uncovered ps c) = base c"
  "opened_with (add_uncovered ps c) = opened_with c" "current (add_uncovered ps c) = current c"
  "opened_at (add_uncovered ps c) = opened_at c"
  "adopted (add_uncovered ps c) = adopted c" "adopted_ever_passed (add_uncovered ps c) = adopted_ever_passed c"
  "discarded_since_adoption (add_uncovered ps c) = discarded_since_adoption c"
  "reconsidering (add_uncovered ps c) = reconsidering c" "check_outputs (add_uncovered ps c) = check_outputs c"
  "check_has_repeated (add_uncovered ps c) = check_has_repeated c" "carrying (add_uncovered ps c) = carrying c"
  "reconsiderations_used (add_uncovered ps c) = reconsiderations_used c" "events (add_uncovered ps c) = events c"
  "revision_store (add_uncovered ps c) = revision_store c"
  by (simp_all add: add_uncovered_def)

lemma forget_reads_fields [simp]:
  "disk (forget_reads ops r c) = disk c" "outcomes (forget_reads ops r c) = outcomes c"
  "base (forget_reads ops r c) = base c" "opened_with (forget_reads ops r c) = opened_with c"
  "current (forget_reads ops r c) = current c" "adopted (forget_reads ops r c) = adopted c"
  "adopted_ever_passed (forget_reads ops r c) = adopted_ever_passed c"
  "discarded_since_adoption (forget_reads ops r c) = discarded_since_adoption c"
  "reconsidering (forget_reads ops r c) = reconsidering c" "check_outputs (forget_reads ops r c) = check_outputs c"
  "check_has_repeated (forget_reads ops r c) = check_has_repeated c" "carrying (forget_reads ops r c) = carrying c"
  "reconsiderations_used (forget_reads ops r c) = reconsiderations_used c"
  "events (forget_reads ops r c) = events c" "uncovered_paths (forget_reads ops r c) = uncovered_paths c"
  "revision_store (forget_reads ops r c) = revision_store c"
  by (simp_all add: forget_reads_def)

lemma record_outcome_fields [simp]:
  "disk (record_outcome n k ca src rep ev c) = disk c" "base (record_outcome n k ca src rep ev c) = base c"
  "opened_with (record_outcome n k ca src rep ev c) = opened_with c"
  "current (record_outcome n k ca src rep ev c) = current c" "adopted (record_outcome n k ca src rep ev c) = adopted c"
  "reconsidering (record_outcome n k ca src rep ev c) = reconsidering c"
  "carrying (record_outcome n k ca src rep ev c) = carrying c"
  "reconsiderations_used (record_outcome n k ca src rep ev c) = reconsiderations_used c"
  "discarded_since_adoption (record_outcome n k ca src rep ev c) = discarded_since_adoption c"
  "events (record_outcome n k ca src rep ev c) = events c"
  "outcomes (record_outcome n k ca src rep ev c) = outcomes c @
     [\<lparr>tx_number = n, tx_kept = k, tx_carried = ca, tx_source = src, tx_plan = rep_plan rep,
       tx_account = rep_account rep, tx_evidence = ev\<rparr>]"
  by (simp_all add: record_outcome_def)

lemma note_check_output_fields [simp]:
  "disk (fst (note_check_output t c)) = disk c" "outcomes (fst (note_check_output t c)) = outcomes c"
  "base (fst (note_check_output t c)) = base c" "opened_with (fst (note_check_output t c)) = opened_with c"
  "current (fst (note_check_output t c)) = current c" "adopted (fst (note_check_output t c)) = adopted c"
  "reconsidering (fst (note_check_output t c)) = reconsidering c" "carrying (fst (note_check_output t c)) = carrying c"
  "reconsiderations_used (fst (note_check_output t c)) = reconsiderations_used c"
  "discarded_since_adoption (fst (note_check_output t c)) = discarded_since_adoption c"
  "events (fst (note_check_output t c)) = events c"
  "snd (note_check_output t c) = (trim t \<notin> set (check_outputs c))"
  by (simp_all add: note_check_output_def)

lemma note_check_output_repeated:
  "snd (note_check_output t c) \<Longrightarrow> check_has_repeated (fst (note_check_output t c)) = check_has_repeated c"
  by (simp add: note_check_output_def split: if_splits)

lemma judge_result:
  assumes "judge run oc c = (c', v, moved)"
  shows "v = fst (run oc (disk c))" "disk c' = snd (run oc (disk c))" "outcomes c' = outcomes c" "base c' = base c"
    "opened_with c' = opened_with c" "current c' = current c" "adopted c' = adopted c"
    "reconsidering c' = reconsidering c" "carrying c' = carrying c"
    "reconsiderations_used c' = reconsiderations_used c" "events c' = events c"
    "discarded_since_adoption c' = discarded_since_adoption c"
    "moved = (trim (v_output v) \<notin> set (check_outputs c))" "moved \<Longrightarrow> check_has_repeated c' = check_has_repeated c"
  using assms by (auto simp: judge_def note_check_output_def split: prod.splits if_splits)

lemma open_fields [simp]:
  "disk (fst (open_transaction sha ops now c)) = disk c"
  "outcomes (fst (open_transaction sha ops now c)) = outcomes c"
  "current (fst (open_transaction sha ops now c)) = Suc (current c)"
  "carrying (fst (open_transaction sha ops now c)) = False"
  "adopted (fst (open_transaction sha ops now c)) = adopted c"
  "reconsiderations_used (fst (open_transaction sha ops now c)) = reconsiderations_used c"
  "opened_with (fst (open_transaction sha ops now c)) = Some (take_snapshot sha (opt_limits ops) (disk c))"
  "base (fst (open_transaction sha ops now c)) =
     (if carrying c \<and> base c \<noteq> None then base c else Some (take_snapshot sha (opt_limits ops) (disk c)))"
  by (auto simp: open_transaction_def Let_def split: option.splits)

section \<open>A task\<close>

record attempt_result =
  at_plan :: "jtext option"
  at_account :: "jtext option"
  at_self :: "self_report option"
  at_aborted :: bool
  at_forced :: bool

text \<open>
  What answers outside, by the number of the transaction: the attempt on the prompt and the tree, the
  user's confirmation, the check, and the clock when the attempt ends and when the next one opens.
\<close>

record task_world =
  w_attempt :: "nat \<Rightarrow> jtext \<Rightarrow> entries \<Rightarrow> attempt_result \<times> entries"
  w_confirm :: "nat \<Rightarrow> self_report option"
  w_run :: "nat \<Rightarrow> check_run"
  w_ended :: "nat \<Rightarrow> int"
  w_reopened :: "nat \<Rightarrow> int"

datatype stop_reason = Stopped_Kept | Stopped_Exhausted | Stopped_Aborted

record task_result =
  task_succeeded :: bool
  task_transactions :: "tx_outcome list"
  task_stopped :: stop_reason
  task_pending :: "snap option"
  task_uncovered :: "path list"

definition task_end :: "stop_reason \<Rightarrow> controller \<Rightarrow> task_result" where
  "task_end why c =
     \<lparr>task_succeeded = (why = Stopped_Kept), task_transactions = outcomes c, task_stopped = why,
      task_pending = (if why = Stopped_Aborted then base c else None), task_uncovered = uncovered_paths c\<rparr>"

definition settle_attempt ::
    "(bytes \<Rightarrow> jtext) \<Rightarrow> (path \<Rightarrow> bytes \<Rightarrow> entries option) \<Rightarrow> (jtext \<Rightarrow> (path \<times> bytes) list \<Rightarrow> jtext option) \<Rightarrow>
     tx_options \<Rightarrow> task_world \<Rightarrow> attempt_result \<Rightarrow> controller \<Rightarrow> controller \<times> (tx_error + settlement)" where
  "settle_attempt sha through note_of ops w res c =
     (let n = current c;
          self = (if opt_oracle ops \<noteq> None \<or> at_self res \<noteq> None then at_self res else w_confirm w n)
      in settle sha through note_of ops (w_run w n) (w_ended w n) (w_reopened w n)
           \<lparr>rep_plan = at_plan res, rep_account = at_account res, rep_self = self, rep_forced = at_forced res\<rparr> c)"

lemma decide_result:
  assumes "decide ops run rep c = (c', kept, v, evidence, moved)"
  shows "outcomes c' = outcomes c" "base c' = base c" "opened_with c' = opened_with c" "current c' = current c"
    "adopted c' = adopted c" "reconsidering c' = reconsidering c" "carrying c' = carrying c"
    "reconsiderations_used c' = reconsiderations_used c" "events c' = events c"
    "discarded_since_adoption c' = discarded_since_adoption c"
    "disk c' = (case oracle_of ops c of Some oc \<Rightarrow> snd (run oc (disk c)) | None \<Rightarrow> disk c)"
    "kept = (case oracle_of ops c of Some oc \<Rightarrow> v_passed (fst (run oc (disk c))) | None \<Rightarrow> judge_self_report (rep_self rep))"
    "moved \<Longrightarrow> check_has_repeated c' = check_has_repeated c"
    "moved = (case oracle_of ops c of Some oc \<Rightarrow> trim (v_output (fst (run oc (disk c)))) \<notin> set (check_outputs c) | None \<Rightarrow> False)"
  using assms by (auto simp: decide_def split: option.splits prod.splits dest: judge_result)

lemma open_result:
  assumes "open_transaction sha ops now c = (c', p)"
  shows "disk c' = disk c \<and> outcomes c' = outcomes c \<and> current c' = Suc (current c) \<and> \<not> carrying c' \<and>
    adopted c' = adopted c \<and> reconsiderations_used c' = reconsiderations_used c \<and>
    opened_with c' = Some (take_snapshot sha (opt_limits ops) (disk c)) \<and>
    base c' = (if carrying c \<and> base c \<noteq> None then base c else Some (take_snapshot sha (opt_limits ops) (disk c)))"
  using open_fields [of sha ops now c] assms by simp

lemma count_discarded_fields [simp]:
  "disk (count_discarded ch c) = disk c" "outcomes (count_discarded ch c) = outcomes c"
  "base (count_discarded ch c) = base c" "opened_with (count_discarded ch c) = opened_with c"
  "current (count_discarded ch c) = current c" "adopted (count_discarded ch c) = adopted c"
  "reconsiderations_used (count_discarded ch c) = reconsiderations_used c"
  "reconsidering (count_discarded ch c) = reconsidering c" "events (count_discarded ch c) = events c"
  by (simp_all add: count_discarded_def)

text \<open>How a failed transaction ends.\<close>

definition failed_outcome :: "controller \<Rightarrow> bool \<Rightarrow> controller \<Rightarrow> bool" where
  "failed_outcome c carried c' =
     (\<exists>out. outcomes c' = outcomes c @ [out] \<and> tx_number out = current c \<and> \<not> tx_kept out \<and> tx_carried out = carried)"

lemma settle_failed_result:
  assumes "settle_failed sha through note_of ops now elapsed src rep b opened v evidence moved c = (c', Inr st)"
    and "base c = Some b"
  obtains
    (exhausted) msg r where "st = Not_Kept msg v r False None" "int (current c) \<ge> opt_max_transactions ops"
      "restore_snapshot sha through (opt_limits ops) b (disk c) = (disk c', Inr r)" "base c' = None"
      "current c' = current c" "failed_outcome c False c'"
  | (rolled_back) msg r prompt where "st = Not_Kept msg v r False (Some prompt)"
      "int (current c) < opt_max_transactions ops" "\<not> carries_on sha ops rep opened moved c"
      "restore_snapshot sha through (opt_limits ops) b (disk c) = (disk c', Inr r)"
      "base c' = Some (take_snapshot sha (opt_limits ops) (disk c'))"
      "opened_with c' = Some (take_snapshot sha (opt_limits ops) (disk c'))"
      "current c' = Suc (current c)" "failed_outcome c False c'"
  | (carried) msg prompt where "st = Not_Kept msg v NOTHING_RESTORED True (Some prompt)"
      "int (current c) < opt_max_transactions ops" "carries_on sha ops rep opened moved c"
      "disk c' = disk c" "base c' = Some b"
      "opened_with c' = Some (take_snapshot sha (opt_limits ops) (disk c'))"
      "current c' = Suc (current c)" "failed_outcome c True c'"
proof (cases "carries_on sha ops rep opened moved c")
  case True
  then have room: "int (current c) < opt_max_transactions ops" by (simp add: carries_on_def may_carry_def)
  with assms True
  have "\<exists>msg prompt. st = Not_Kept msg v NOTHING_RESTORED True (Some prompt) \<and> disk c' = disk c \<and>
      base c' = Some b \<and> opened_with c' = Some (take_snapshot sha (opt_limits ops) (disk c')) \<and>
      current c' = Suc (current c) \<and> failed_outcome c True c'"
    by (auto simp: settle_failed_def Let_def failed_outcome_def split: prod.splits dest!: open_result)
  with carried [OF _ room True] show thesis by blast
next
  case False
  show thesis
  proof (cases "int (current c) \<ge> opt_max_transactions ops")
    case True
    with assms False
    have "\<exists>msg r. st = Not_Kept msg v r False None \<and>
        restore_snapshot sha through (opt_limits ops) b (disk c) = (disk c', Inr r) \<and> base c' = None \<and>
        current c' = current c \<and> failed_outcome c False c'"
      by (auto simp: settle_failed_def Let_def failed_outcome_def split: prod.splits sum.splits)
    with exhausted [OF _ True] show thesis by blast
  next
    case less: False
    with assms False
    have "\<exists>msg r prompt. st = Not_Kept msg v r False (Some prompt) \<and>
        restore_snapshot sha through (opt_limits ops) b (disk c) = (disk c', Inr r) \<and>
        base c' = Some (take_snapshot sha (opt_limits ops) (disk c')) \<and>
        opened_with c' = Some (take_snapshot sha (opt_limits ops) (disk c')) \<and>
        current c' = Suc (current c) \<and> failed_outcome c False c'"
      by (auto simp: settle_failed_def Let_def failed_outcome_def split: prod.splits sum.splits dest!: open_result)
    moreover have "int (current c) < opt_max_transactions ops" using less by simp
    ultimately show thesis using rolled_back False by blast
  qed
qed

text \<open>The tree the check leaves, and its answer.\<close>

definition checked_tree :: "tx_options \<Rightarrow> check_run \<Rightarrow> controller \<Rightarrow> entries" where
  "checked_tree ops run c = (case oracle_of ops c of Some oc \<Rightarrow> snd (run oc (disk c)) | None \<Rightarrow> disk c)"

definition accepted :: "tx_options \<Rightarrow> check_run \<Rightarrow> tx_report \<Rightarrow> controller \<Rightarrow> bool" where
  "accepted ops run rep c = (case oracle_of ops c of
     Some oc \<Rightarrow> v_passed (fst (run oc (disk c))) | None \<Rightarrow> judge_self_report (rep_self rep))"

definition new_answer :: "tx_options \<Rightarrow> check_run \<Rightarrow> controller \<Rightarrow> bool" where
  "new_answer ops run c = (case oracle_of ops c of
     Some oc \<Rightarrow> trim (v_output (fst (run oc (disk c)))) \<notin> set (check_outputs c) | None \<Rightarrow> False)"

text \<open>A carry: a new answer of a check that repeats itself, not forced, with a transaction left and files changed.\<close>

definition carry_condition ::
    "(bytes \<Rightarrow> jtext) \<Rightarrow> tx_options \<Rightarrow> check_run \<Rightarrow> tx_report \<Rightarrow> controller \<Rightarrow> bool" where
  "carry_condition sha ops run rep c =
     (new_answer ops run c \<and> check_has_repeated c \<and> \<not> rep_forced rep \<and>
      int (current c) < opt_max_transactions ops \<and>
      (case opened_with c of
         Some s \<Rightarrow> \<not> snapshot_is_clean sha (opt_limits ops) s (checked_tree ops run c)
       | None \<Rightarrow> base c \<noteq> None \<and> \<not> snapshot_is_clean sha (opt_limits ops) (the (base c)) (checked_tree ops run c)))"

lemma settle_result:
  assumes "settle sha through note_of ops run now later rep c = (c', Inr st)"
  obtains b where "base c = Some b" and
    "(\<exists>msg v. st = Kept msg v \<and> accepted ops run rep c \<and> disk c' = checked_tree ops run c \<and> base c' = Some b \<and>
        current c' = current c \<and>
        (\<exists>out. outcomes c' = outcomes c @ [out] \<and> tx_number out = current c \<and> tx_kept out)) \<or>
     (\<exists>msg v r. st = Not_Kept msg v r False None \<and> \<not> accepted ops run rep c \<and>
        int (current c) \<ge> opt_max_transactions ops \<and>
        restore_snapshot sha through (opt_limits ops) b (checked_tree ops run c) = (disk c', Inr r) \<and>
        base c' = None \<and> current c' = current c \<and> failed_outcome c False c') \<or>
     (\<exists>msg v r prompt. st = Not_Kept msg v r False (Some prompt) \<and> \<not> accepted ops run rep c \<and>
        \<not> carry_condition sha ops run rep c \<and> int (current c) < opt_max_transactions ops \<and>
        restore_snapshot sha through (opt_limits ops) b (checked_tree ops run c) = (disk c', Inr r) \<and>
        base c' = Some (take_snapshot sha (opt_limits ops) (disk c')) \<and>
        opened_with c' = base c' \<and> current c' = Suc (current c) \<and> failed_outcome c False c') \<or>
     (\<exists>msg v prompt. st = Not_Kept msg v NOTHING_RESTORED True (Some prompt) \<and> \<not> accepted ops run rep c \<and>
        carry_condition sha ops run rep c \<and> int (current c) < opt_max_transactions ops \<and>
        disk c' = checked_tree ops run c \<and> base c' = Some b \<and>
        opened_with c' = Some (take_snapshot sha (opt_limits ops) (disk c')) \<and>
        current c' = Suc (current c) \<and> failed_outcome c True c')"
proof (cases "base c")
  case None
  with assms show thesis by (simp add: settle_def)
next
  case (Some b)
  let ?c = "emit (Judging_Event (current c) (oracle_of ops c)) c"
  obtain c1 kept v evidence moved where d: "decide ops run rep ?c = (c1, kept, v, evidence, moved)"
    by (metis prod_cases5)
  have or: "oracle_of ops ?c = oracle_of ops c" by (simp add: oracle_of_def)
  note dr = decide_result [OF d, unfolded or emit_fields]
  have kept: "kept = accepted ops run rep c" by (simp add: dr accepted_def)
  have tree: "disk c1 = checked_tree ops run c" by (simp add: dr checked_tree_def)
  have cc: "carries_on sha ops rep (opt_default b (opened_with c)) moved c1 = carry_condition sha ops run rep c"
    using Some dr(13,14)
    by (auto simp: carries_on_def changed_something_def may_carry_def carry_condition_def new_answer_def
        tree dr opt_default_def split: option.splits)
  show thesis
  proof (cases kept)
    case True
    with assms Some d have "settle_kept sha ops (map_option (\<lambda>t. now - t) (opened_at c)) (source_of ops c rep) rep
        (opt_default b (opened_with c)) v evidence c1 = (c', Inr st)"
      by (simp add: settle_def Let_def)
    then show thesis
      using Some kept True tree dr by (intro that [of b]) (auto simp: settle_kept_def Let_def)
  next
    case False
    with assms Some d have failed: "settle_failed sha through note_of ops later
        (map_option (\<lambda>t. now - t) (opened_at c)) (source_of ops c rep) rep b
        (opt_default b (opened_with c)) v evidence moved c1 = (c', Inr st)"
      by (simp add: settle_def Let_def)
    have "failed_outcome c1 ca c' \<longleftrightarrow> failed_outcome c ca c'" for ca by (simp add: failed_outcome_def dr)
    note same = this kept False tree dr(4) cc
    from failed show thesis
      by (rule settle_failed_result) (use Some dr same in \<open>auto intro!: that [of b]\<close>)
  qed
qed

lemma settle_attempt_next:
  assumes "settle_attempt sha through note_of ops w res c = (c', Inr (Not_Kept msg v r carried (Some prompt)))"
  shows "int (current c) < opt_max_transactions ops \<and> current c' = Suc (current c)"
  using assms unfolding settle_attempt_def Let_def by (elim settle_result) auto

section \<open>The loop\<close>

function run_loop ::
    "(bytes \<Rightarrow> jtext) \<Rightarrow> (path \<Rightarrow> bytes \<Rightarrow> entries option) \<Rightarrow> (jtext \<Rightarrow> (path \<times> bytes) list \<Rightarrow> jtext option) \<Rightarrow>
     tx_options \<Rightarrow> task_world \<Rightarrow> jtext \<Rightarrow> controller \<Rightarrow> controller \<times> (tx_error + task_result)" where
  "run_loop sha through note_of ops w prompt c =
     (case w_attempt w (current c) prompt (disk c) of
        (res, es) \<Rightarrow>
          if at_aborted res then (c\<lparr>disk := es\<rparr>, Inr (task_end Stopped_Aborted (c\<lparr>disk := es\<rparr>)))
          else (case settle_attempt sha through note_of ops w res (c\<lparr>disk := es\<rparr>) of
                  (c', Inl e) \<Rightarrow> (c', Inl e)
                | (c', Inr (Kept msg v)) \<Rightarrow> (c', Inr (task_end Stopped_Kept c'))
                | (c', Inr (Not_Kept msg v r carried None)) \<Rightarrow> (c', Inr (task_end Stopped_Exhausted c'))
                | (c', Inr (Not_Kept msg v r carried (Some prompt'))) \<Rightarrow>
                    run_loop sha through note_of ops w prompt' c'))"
  by pat_completeness auto

termination
  by (relation "measure (\<lambda>(sha, through, note_of, ops, w, prompt, c). nat (opt_max_transactions ops - int (current c)))")
    (auto dest!: settle_attempt_next sym [of _ "settle_attempt _ _ _ _ _ _ _"])

declare run_loop.simps [simp del]

definition run_atomic_task ::
    "(bytes \<Rightarrow> jtext) \<Rightarrow> (path \<Rightarrow> bytes \<Rightarrow> entries option) \<Rightarrow> (jtext \<Rightarrow> (path \<times> bytes) list \<Rightarrow> jtext option) \<Rightarrow>
     tx_options \<Rightarrow> task_world \<Rightarrow> int \<Rightarrow> entries \<Rightarrow> revision_log \<Rightarrow> controller \<times> (tx_error + task_result)" where
  "run_atomic_task sha through note_of ops w now es history0 =
     (case open_transaction sha ops now (new_controller es history0) of
        (c, prompt) \<Rightarrow> run_loop sha through note_of ops w prompt c)"

section \<open>A rule for the loop\<close>

text \<open>An invariant at the start of every attempt, and the four ways a task ends.\<close>

lemma run_loop_rule:
  assumes "run_loop sha through note_of ops w prompt c = (c', out)" and "I c"
    and "\<And>c res es c1 msg v r ca p prompt. I c \<Longrightarrow> w_attempt w (current c) prompt (disk c) = (res, es) \<Longrightarrow>
      settle_attempt sha through note_of ops w res (c\<lparr>disk := es\<rparr>) = (c1, Inr (Not_Kept msg v r ca (Some p))) \<Longrightarrow> I c1"
  obtains
    (aborted) c0 prompt res es where "I c0" "w_attempt w (current c0) prompt (disk c0) = (res, es)"
      "at_aborted res" "c' = c0\<lparr>disk := es\<rparr>" "out = Inr (task_end Stopped_Aborted c')"
  | (threw) c0 prompt res es e where "I c0" "w_attempt w (current c0) prompt (disk c0) = (res, es)"
      "settle_attempt sha through note_of ops w res (c0\<lparr>disk := es\<rparr>) = (c', Inl e)" "out = Inl e"
  | (kept) c0 prompt res es msg v where "I c0" "w_attempt w (current c0) prompt (disk c0) = (res, es)"
      "settle_attempt sha through note_of ops w res (c0\<lparr>disk := es\<rparr>) = (c', Inr (Kept msg v))"
      "out = Inr (task_end Stopped_Kept c')"
  | (exhausted) c0 prompt res es msg v r ca where "I c0" "w_attempt w (current c0) prompt (disk c0) = (res, es)"
      "settle_attempt sha through note_of ops w res (c0\<lparr>disk := es\<rparr>) = (c', Inr (Not_Kept msg v r ca None))"
      "out = Inr (task_end Stopped_Exhausted c')"
proof -
  have "thesis" if "run_loop sha through note_of ops w prompt c = (c', out)" "I c" for prompt c
    using that
  proof (induction "nat (opt_max_transactions ops - int (current c))" arbitrary: prompt c rule: less_induct)
    case less
    obtain res es where at: "w_attempt w (current c) prompt (disk c) = (res, es)" by (metis surj_pair)
    obtain c1 o1 where set: "settle_attempt sha through note_of ops w res (c\<lparr>disk := es\<rparr>) = (c1, o1)"
      by (metis surj_pair)
    note run = less.prems(1) [unfolded run_loop.simps [of _ _ _ _ _ prompt c] at set prod.case]
    show thesis
    proof (cases "at_aborted res")
      case True
      with run aborted [OF less.prems(2) at True] show thesis by auto
    next
      case False
      note go = run [unfolded if_not_P [OF False]]
      show thesis
      proof (cases o1)
        case (Inl e)
        with go set threw [OF less.prems(2) at] show thesis by auto
      next
        case (Inr st)
        show thesis
        proof (cases st)
          case (Kept msg v)
          with go set Inr kept [OF less.prems(2) at] show thesis by auto
        next
          case (Not_Kept msg v r ca p)
          show thesis
          proof (cases p)
            case None
            with go set Inr Not_Kept exhausted [OF less.prems(2) at] show thesis by auto
          next
            case (Some prompt')
            note nxt = set [unfolded Inr Not_Kept Some]
            have "nat (opt_max_transactions ops - int (current c1)) < nat (opt_max_transactions ops - int (current c))"
              using settle_attempt_next [OF nxt] by simp
            moreover have "run_loop sha through note_of ops w prompt' c1 = (c', out)"
              using go by (simp add: Inr Not_Kept Some)
            ultimately show thesis using less.hyps assms(3) [OF less.prems(2) at nxt] by blast
          qed
        qed
      qed
    qed
  qed
  with assms(1,2) show thesis by blast
qed

section \<open>The budget of transactions\<close>

text \<open>The transactions are numbered from one and at most as many as allowed, and only the last is kept.\<close>

definition task_ok :: "tx_options \<Rightarrow> task_result \<Rightarrow> bool" where
  "task_ok ops t =
     (let hs = task_transactions t; most = max 1 (opt_max_transactions ops)
      in map tx_number hs = [1..<Suc (length hs)] \<and> int (length hs) \<le> most \<and>
         (case task_stopped t of
            Stopped_Kept \<Rightarrow> hs \<noteq> [] \<and> tx_kept (last hs) \<and> list_all (\<lambda>h. \<not> tx_kept h) (butlast hs)
          | Stopped_Exhausted \<Rightarrow> int (length hs) = most \<and> list_all (\<lambda>h. \<not> tx_kept h) hs
          | Stopped_Aborted \<Rightarrow> int (length hs) < most \<and> list_all (\<lambda>h. \<not> tx_kept h) hs) \<and>
         task_succeeded t = (task_stopped t = Stopped_Kept))"

lemma failed_outcome_append:
  "failed_outcome c ca c' \<Longrightarrow> map tx_number (outcomes c) = [1..<current c] \<Longrightarrow> 1 \<le> current c \<Longrightarrow>
   list_all (\<lambda>h. \<not> tx_kept h) (outcomes c) \<Longrightarrow>
   map tx_number (outcomes c') = [1..<Suc (current c)] \<and> list_all (\<lambda>h. \<not> tx_kept h) (outcomes c') \<and>
   length (outcomes c') = current c"
proof -
  assume a: "failed_outcome c ca c'" "map tx_number (outcomes c) = [1..<current c]" "1 \<le> current c"
    "list_all (\<lambda>h. \<not> tx_kept h) (outcomes c)"
  from a(2) have "length (outcomes c) = current c - 1" by (metis length_map length_upt)
  with a show ?thesis by (auto simp: failed_outcome_def)
qed


definition numbered_outcomes :: "tx_options \<Rightarrow> controller \<Rightarrow> bool" where
  "numbered_outcomes ops c =
     (map tx_number (outcomes c) = [1..<current c] \<and> 1 \<le> current c \<and>
      int (current c) \<le> max 1 (opt_max_transactions ops) \<and> list_all (\<lambda>h. \<not> tx_kept h) (outcomes c))"

lemma numbered_outcomes_disk [simp]: "numbered_outcomes ops (c\<lparr>disk := es\<rparr>) = numbered_outcomes ops c"
  by (simp add: numbered_outcomes_def)

lemma numbered_length: "numbered_outcomes ops c \<Longrightarrow> Suc (length (outcomes c)) = current c"
  unfolding numbered_outcomes_def by (metis Suc_diff_1 length_map length_upt less_eq_Suc_le One_nat_def)

text \<open>What an attempt's settlement does to the record.\<close>

lemma settle_attempt_record:
  assumes "settle_attempt sha through note_of ops w res c = (c', Inr st)"
  shows "(case st of
      Kept msg v \<Rightarrow> \<exists>out. outcomes c' = outcomes c @ [out] \<and> tx_number out = current c \<and> tx_kept out
    | Not_Kept msg v r ca None \<Rightarrow> failed_outcome c False c' \<and> int (current c) \<ge> opt_max_transactions ops
    | Not_Kept msg v r ca (Some p) \<Rightarrow> failed_outcome c ca c' \<and> int (current c) < opt_max_transactions ops \<and>
        current c' = Suc (current c))"
  using assms unfolding settle_attempt_def Let_def by (elim settle_result) auto

lemma task_record:
  assumes "run_loop sha through note_of ops w prompt c = (c', Inr t)" "numbered_outcomes ops c"
  shows "task_ok ops t"
  using assms(1,2)
proof (rule run_loop_rule)
  fix c res es c1 msg v r ca p prompt
  assume "numbered_outcomes ops c"
    "settle_attempt sha through note_of ops w res (c\<lparr>disk := es\<rparr>) = (c1, Inr (Not_Kept msg v r ca (Some p)))"
  with settle_attempt_record [OF this(2)] show "numbered_outcomes ops c1"
    using failed_outcome_append [of "c\<lparr>disk := es\<rparr>" ca c1] by (auto simp: numbered_outcomes_def)
next
  fix c0 prompt res es
  assume c0: "numbered_outcomes ops c0" "at_aborted res" "c' = c0\<lparr>disk := es\<rparr>" "Inr t = Inr (task_end Stopped_Aborted c')"
  then show "task_ok ops t"
    using numbered_length [OF c0(1)] by (auto simp: task_ok_def task_end_def Let_def numbered_outcomes_def simp del: upt_Suc)
next
  fix c0 prompt res es msg v
  assume c0: "numbered_outcomes ops c0" "Inr t = Inr (task_end Stopped_Kept c')"
    and set: "settle_attempt sha through note_of ops w res (c0\<lparr>disk := es\<rparr>) = (c', Inr (Kept msg v))"
  from settle_attempt_record [OF set] c0 show "task_ok ops t"
    using numbered_length [OF c0(1)] by (auto simp: task_ok_def task_end_def Let_def numbered_outcomes_def upt_Suc_append simp del: upt_Suc)
next
  fix c0 prompt res es msg v r ca
  assume c0: "numbered_outcomes ops c0" "Inr t = Inr (task_end Stopped_Exhausted c')"
    and set: "settle_attempt sha through note_of ops w res (c0\<lparr>disk := es\<rparr>) = (c', Inr (Not_Kept msg v r ca None))"
  from settle_attempt_record [OF set] c0 show "task_ok ops t"
    using numbered_length [OF c0(1)] failed_outcome_append [of "c0\<lparr>disk := es\<rparr>" False c']
    by (auto simp: task_ok_def task_end_def Let_def numbered_outcomes_def simp del: upt_Suc)
qed simp

lemma new_controller_fields [simp]:
  "disk (new_controller es history0) = es" "outcomes (new_controller es history0) = []"
  "base (new_controller es history0) = None" "current (new_controller es history0) = 0"
  "carrying (new_controller es history0) = False" "adopted (new_controller es history0) = None"
  "reconsidering (new_controller es history0) = False" "reconsiderations_used (new_controller es history0) = 0"
  "events (new_controller es history0) = []" "check_outputs (new_controller es history0) = []"
  "check_has_repeated (new_controller es history0) = False"
  by (simp_all add: new_controller_def)

end
