(* ===== verification/TransactionSteps.thy ===== *)
theory TransactionSteps
  imports TransactionRuns
begin

text \<open>
  Any sequence of the controller's operations, with edits of the tree between them: the machine on which
  the freeze of the check is an invariant.
\<close>

section \<open>The machine\<close>

datatype tx_step =
    Step_Edit entries
  | Step_Open int
  | Step_Settle check_run int int tx_report
  | Step_Adopt check_oracle
  | Step_Run_Check check_run
  | Step_Against_Base check_run "path \<Rightarrow> jtext option" "path \<Rightarrow> jtext option" check_oracle
  | Step_Discard

fun tx_apply ::
    "(bytes \<Rightarrow> jtext) \<Rightarrow> (path \<Rightarrow> bytes \<Rightarrow> entries option) \<Rightarrow> (jtext \<Rightarrow> (path \<times> bytes) list \<Rightarrow> jtext option) \<Rightarrow>
     tx_options \<Rightarrow> tx_step \<Rightarrow> controller \<Rightarrow> controller" where
  "tx_apply sha through note_of ops (Step_Edit es) c = c\<lparr>disk := es\<rparr>"
| "tx_apply sha through note_of ops (Step_Open now) c = fst (open_transaction sha ops now c)"
| "tx_apply sha through note_of ops (Step_Settle run now later rep) c =
     fst (settle sha through note_of ops run now later rep c)"
| "tx_apply sha through note_of ops (Step_Adopt oc) c = fst (adopt_oracle ops oc c)"
| "tx_apply sha through note_of ops (Step_Run_Check run) c = fst (run_check ops run c)"
| "tx_apply sha through note_of ops (Step_Against_Base run stamp0 stamp1 oc) c =
     fst (judge_against_base sha through ops run stamp0 stamp1 oc c)"
| "tx_apply sha through note_of ops Step_Discard c = fst (discard sha through ops c)"

section \<open>The freeze\<close>

definition is_adoption :: "tx_event \<Rightarrow> bool" where
  "is_adoption e = (case e of Adopted_Event n oc \<Rightarrow> True | _ \<Rightarrow> False)"

definition adoptions :: "controller \<Rightarrow> nat" where
  "adoptions c = length (filter is_adoption (events c))"

definition frozen_check :: "tx_options \<Rightarrow> controller \<Rightarrow> bool" where
  "frozen_check ops c =
     (adoptions c = (if adopted c = None then 0 else Suc (reconsiderations_used c)) \<and>
      reconsiderations_used c \<le> 1 \<and>
      (reconsidering c \<longrightarrow> adopted c \<noteq> None \<and> reconsiderations_used c = 0 \<and> opt_default 0 (opt_reconsidered_after ops) > 0) \<and>
      (adopted c \<noteq> None \<longrightarrow> opt_oracle ops = None) \<and>
      (reconsiderations_used c > 0 \<longrightarrow> adopted c \<noteq> None \<and> opt_default 0 (opt_reconsidered_after ops) > 0))"

lemma open_freeze:
  "events (fst (open_transaction sha ops now c)) =
     events c @ [Opened_Event (Suc (current c)) (oracle_of ops c)]"
  "reconsidering (fst (open_transaction sha ops now c)) =
     should_reconsider_check ops (c\<lparr>current := Suc (current c), opened_at := Some now\<rparr>)"
  by (simp_all add: open_transaction_def Let_def oracle_of_def)

lemma frozen_open: "frozen_check ops c \<Longrightarrow> frozen_check ops (fst (open_transaction sha ops now c))"
  by (auto simp: frozen_check_def adoptions_def open_freeze is_adoption_def should_reconsider_check_def Let_def
      split: if_splits)

text \<open>The invariant reads five fields, so the operations on others keep it.\<close>

lemma frozen_steps [simp]:
  "frozen_check ops (c\<lparr>disk := d\<rparr>) = frozen_check ops c"
  "frozen_check ops (c\<lparr>carrying := cy\<rparr>) = frozen_check ops c"
  "frozen_check ops (c\<lparr>base := b, opened_with := ow\<rparr>) = frozen_check ops c"
  "frozen_check ops (c\<lparr>adopted_ever_passed := True\<rparr>) = frozen_check ops c"
  "frozen_check ops (add_uncovered ps c) = frozen_check ops c"
  "frozen_check ops (forget_reads ops' r c) = frozen_check ops c"
  "frozen_check ops (record_outcome n k ca src rep ev c) = frozen_check ops c"
  "frozen_check ops (count_discarded ch c) = frozen_check ops c"
  "frozen_check ops (fst (note_check_output t c)) = frozen_check ops c"
  by (simp_all add: frozen_check_def adoptions_def)

lemma frozen_carry_stamps [simp]: "frozen_check ops (carry_stamps ops' stamp before c) = frozen_check ops c"
  by (cases "opt_carries_stamps ops'") (simp_all add: carry_stamps_def frozen_check_def adoptions_def)

lemma frozen_emit [simp]: "\<not> is_adoption e \<Longrightarrow> frozen_check ops (emit e c) = frozen_check ops c"
  by (simp add: frozen_check_def adoptions_def)

lemma is_adoption_simps [simp]:
  "\<not> is_adoption (Settled_Event se)" "\<not> is_adoption (Judging_Event n oc)" "\<not> is_adoption (Opened_Event n oc)"
  by (simp_all add: is_adoption_def)

lemma frozen_open_result: "open_transaction sha ops now c = (c', p) \<Longrightarrow> frozen_check ops c \<Longrightarrow> frozen_check ops c'"
  using frozen_open [of ops c sha now] by simp

lemma frozen_judge: "judge run oc c = (c', v, moved) \<Longrightarrow> frozen_check ops c \<Longrightarrow> frozen_check ops c'"
  using judge_result [of run oc c c' v moved] by (auto simp: frozen_check_def adoptions_def)

lemma frozen_settle_failed:
  "frozen_check ops c \<Longrightarrow>
   frozen_check ops (fst (settle_failed sha through note_of ops now elapsed src rep b opened v evidence moved c))"
  unfolding settle_failed_def Let_def
  by (auto split: prod.splits sum.splits elim!: frozen_open_result)

lemma frozen_settle:
  assumes "frozen_check ops c"
  shows "frozen_check ops (fst (settle sha through note_of ops run now later rep c))"
proof -
  have "frozen_check ops c1" if "decide ops run rep (emit (Judging_Event n oc) c) = (c1, kept, v, ev, moved)" for n oc c1 kept v ev moved
    using that assms by (auto simp: decide_def split: option.splits prod.splits elim!: frozen_judge)
  then show ?thesis
    using assms unfolding settle_def Let_def
    by (auto simp: settle_kept_def Let_def frozen_settle_failed split: option.splits prod.splits)
qed

lemma frozen_adopt: "frozen_check ops c \<Longrightarrow> frozen_check ops (fst (adopt_oracle ops oc c))"
  by (auto simp: adopt_oracle_def can_adopt_oracle_def oracle_of_def frozen_check_def adoptions_def is_adoption_def
      split: option.splits)

lemma frozen_step: "frozen_check ops c \<Longrightarrow> frozen_check ops (tx_apply sha through note_of ops e c)"
proof (cases e)
  case (Step_Run_Check run)
  then show ?thesis if "frozen_check ops c"
    using that by (auto simp: run_check_def split: option.splits prod.splits elim!: frozen_judge)
next
  case Step_Discard
  then show ?thesis if "frozen_check ops c"
    using that by (auto simp: discard_def frozen_check_def adoptions_def split: option.splits prod.splits sum.splits)
qed (auto simp: frozen_open frozen_settle frozen_adopt judge_against_base_def Let_def
    split: option.splits prod.splits sum.splits)

interpretation check_freeze: invariant_machine "tx_apply sha through note_of ops" "frozen_check ops"
  for sha through note_of ops
  by unfold_locales (rule frozen_step)

text \<open>C29: In any sequence of operations a check is taken on at most twice, never where the host supplied
  one, and a second time only where reconsidering is switched on, once.\<close>

theorem check_is_frozen:
  "adoptions (fold (tx_apply sha through note_of ops) steps (new_controller es history0)) \<le>
    (if opt_oracle ops \<noteq> None then 0 else if opt_default 0 (opt_reconsidered_after ops) > 0 then 2 else 1)"
proof -
  have "frozen_check ops (new_controller es history0)"
    by (simp add: frozen_check_def adoptions_def)
  then have "frozen_check ops (fold (tx_apply sha through note_of ops) steps (new_controller es history0))"
    by (rule check_freeze.run_inv)
  then show ?thesis by (auto simp: frozen_check_def split: if_splits)
qed

end
