(* ===== verification/TransactionUndo.thy ===== *)
theory TransactionUndo
  imports TransactionRuns
begin

text \<open>
  What the protocol promises about the files, on the interface \<open>undo\<close> that the snapshot provides:
  a task that spends its transactions leaves the workspace as it found it, work is carried under one
  condition, and a check against the base leaves the edits in place.
\<close>

section \<open>A task that ends without a kept transaction\<close>

text \<open>The attempts and the check leave the workspace covered.\<close>

definition stays_covered :: "(bytes \<Rightarrow> jtext) \<Rightarrow> limits \<Rightarrow> path list \<Rightarrow> nat \<Rightarrow> task_world \<Rightarrow> bool" where
  "stays_covered sha b A m w =
     ((\<forall>n prompt d. covered sha b A m d \<longrightarrow> covered sha b A m (snd (w_attempt w n prompt d))) \<and>
      (\<forall>n oc d. covered sha b A m d \<longrightarrow> covered sha b A m (snd (w_run w n oc d))))"

text \<open>The base holds the files \<open>v\<close>, and the tree is covered.\<close>

definition based :: "(bytes \<Rightarrow> jtext) \<Rightarrow> limits \<Rightarrow> path list \<Rightarrow> nat \<Rightarrow> (path \<Rightarrow> bytes option) \<Rightarrow> controller \<Rightarrow> bool" where
  "based sha b A m v c =
     ((\<exists>d0. covered sha b A m d0 \<and> scan_view d0 = v \<and> base c = Some (take_snapshot sha b d0)) \<and>
      covered sha b A m (disk c))"

lemma based_disk: "based sha b A m v c \<Longrightarrow> covered sha b A m d \<Longrightarrow> based sha b A m v (c\<lparr>disk := d\<rparr>)"
  by (auto simp: based_def)

lemma attempt_covered:
  assumes "based sha b A m v c" "stays_covered sha b A m w" "w_attempt w (current c) prompt (disk c) = (res, es)"
  shows "covered sha b A m es"
  using assms unfolding based_def stays_covered_def by (metis snd_conv)

lemma settle_failed_returns:
  assumes "restore_snapshot sha through (opt_limits ops) b (disk c) = (d, Inr r)"
  shows "\<exists>c' st. settle_failed sha through note_of ops now elapsed src rep b opened v evidence moved c = (c', Inr st)"
  using assms
  by (cases "carries_on sha ops rep opened moved c"; cases "int (current c) \<ge> opt_max_transactions ops")
    (auto simp: settle_failed_def Let_def split: prod.splits)

lemma settle_returns:
  assumes "base c = Some b"
    and "restore_snapshot sha through (opt_limits ops) b (checked_tree ops run c) = (d, Inr r)"
  shows "\<exists>c' st. settle sha through note_of ops run now later rep c = (c', Inr st)"
proof -
  let ?c = "emit (Judging_Event (current c) (oracle_of ops c)) c"
  obtain c1 kept v evidence moved where d: "decide ops run rep ?c = (c1, kept, v, evidence, moved)"
    by (metis prod_cases5)
  have "oracle_of ops ?c = oracle_of ops c" by (simp add: oracle_of_def)
  with decide_result(11) [OF d] have "disk c1 = checked_tree ops run c" by (simp add: checked_tree_def split: option.splits)
  with assms d settle_failed_returns [of sha through ops b c1] show ?thesis
    by (cases kept) (auto simp: settle_def settle_kept_def Let_def)
qed

lemma settle_based:
  assumes "based sha (opt_limits ops) A m v c" and "covered sha (opt_limits ops) A m (checked_tree ops run c)"
    and "settle sha through note_of ops run now later rep c = (c', out)"
  shows "\<exists>st. out = Inr st \<and>
    (case st of
       Not_Kept msg vd r ca None \<Rightarrow> scan_view (disk c') = v
     | Not_Kept msg vd r ca (Some p) \<Rightarrow> based sha (opt_limits ops) A m v c'
     | _ \<Rightarrow> True)"
proof -
  let ?b = "opt_limits ops"
  obtain d0 where d0: "covered sha ?b A m d0" "scan_view d0 = v" "base c = Some (take_snapshot sha ?b d0)"
    using assms(1) by (auto simp: based_def)
  obtain d r where d: "restore_snapshot sha through ?b (take_snapshot sha ?b d0) (checked_tree ops run c) = (d, Inr r)"
    "covered sha ?b A m d" "scan_view d = v"
    using rollback.restores [OF d0(1) assms(2), of through] d0(2) by blast
  obtain st where st: "out = Inr st"
    using settle_returns [OF d0(3) d(1)] assms(3) by (metis prod.inject)
  from assms(3) [unfolded st] show ?thesis
    by (rule settle_result) (use d0 d assms(2) st in \<open>auto simp: based_def\<close>)
qed

lemma settle_attempt_based:
  assumes "based sha (opt_limits ops) A m v c" "stays_covered sha (opt_limits ops) A m w"
    and "settle_attempt sha through note_of ops w res c = (c', out)"
  shows "\<exists>st. out = Inr st \<and>
    (case st of
       Not_Kept msg vd r ca None \<Rightarrow> scan_view (disk c') = v
     | Not_Kept msg vd r ca (Some p) \<Rightarrow> based sha (opt_limits ops) A m v c'
     | _ \<Rightarrow> True)"
proof -
  have "covered sha (opt_limits ops) A m (checked_tree ops (w_run w (current c)) c)"
    using assms(1,2) by (auto simp: checked_tree_def based_def stays_covered_def split: option.splits)
  with assms(1) assms(3) [unfolded settle_attempt_def Let_def] show ?thesis by (intro settle_based)
qed

lemma task_based:
  assumes "run_loop sha through note_of ops w prompt c = (c', out)" "based sha (opt_limits ops) A m v c"
    and w: "stays_covered sha (opt_limits ops) A m w"
  shows "\<exists>t. out = Inr t \<and> (task_stopped t = Stopped_Exhausted \<longrightarrow> scan_view (disk c') = v)"
  using assms(1,2)
proof (rule run_loop_rule)
  fix c res es c1 msg vd r ca p prompt
  assume c: "based sha (opt_limits ops) A m v c" and at: "w_attempt w (current c) prompt (disk c) = (res, es)"
    and set: "settle_attempt sha through note_of ops w res (c\<lparr>disk := es\<rparr>) = (c1, Inr (Not_Kept msg vd r ca (Some p)))"
  have "covered sha (opt_limits ops) A m es" by (rule attempt_covered [OF c w at])
  from settle_attempt_based [OF based_disk [OF c this] w set] show "based sha (opt_limits ops) A m v c1" by simp
next
  fix c0 prompt res es e
  assume c: "based sha (opt_limits ops) A m v c0" and at: "w_attempt w (current c0) prompt (disk c0) = (res, es)"
    and set: "settle_attempt sha through note_of ops w res (c0\<lparr>disk := es\<rparr>) = (c', Inl e)"
  have "covered sha (opt_limits ops) A m es" by (rule attempt_covered [OF c w at])
  from settle_attempt_based [OF based_disk [OF c this] w set] show ?thesis by simp
next
  fix c0 prompt res es msg vd r ca
  assume c: "based sha (opt_limits ops) A m v c0" and at: "w_attempt w (current c0) prompt (disk c0) = (res, es)"
    and set: "settle_attempt sha through note_of ops w res (c0\<lparr>disk := es\<rparr>) = (c', Inr (Not_Kept msg vd r ca None))"
    and "out = Inr (task_end Stopped_Exhausted c')"
  have "covered sha (opt_limits ops) A m es" by (rule attempt_covered [OF c w at])
  from settle_attempt_based [OF based_disk [OF c this] w set] show ?thesis
    using \<open>out = _\<close> by simp
qed (simp_all add: task_end_def)

lemma atomic_task_based:
  assumes "covered sha (opt_limits ops) A m es" and "stays_covered sha (opt_limits ops) A m w"
  shows "\<exists>c t. run_atomic_task sha through note_of ops w now es history0 = (c, Inr t) \<and>
    (task_stopped t = Stopped_Exhausted \<longrightarrow> scan_view (disk c) = scan_view es)"
proof -
  let ?o = "open_transaction sha ops now (new_controller es history0)"
  have "based sha (opt_limits ops) A m (scan_view es) (fst ?o)"
    using assms(1) by (auto simp: based_def)
  moreover obtain c out where "run_loop sha through note_of ops w (snd ?o) (fst ?o) = (c, out)"
    by (metis surj_pair)
  ultimately show ?thesis
    using task_based [OF _ _ assms(2)] by (fastforce simp: run_atomic_task_def split: prod.splits)
qed

text \<open>C13: Where the attempts and the check keep the workspace covered, a task always returns, whatever it
  carries and rolls back, and one that spends all its transactions leaves every scanned file as it was
  when the task began.\<close>

theorem exhausted_task_undone:
  assumes "covered sha (opt_limits ops) A m es" and "stays_covered sha (opt_limits ops) A m w"
  shows "\<exists>c t. run_atomic_task sha through note_of ops w now es history0 = (c, Inr t) \<and>
    (task_stopped t = Stopped_Exhausted \<longrightarrow> scan_view (disk c) = scan_view es)"
  using assms by (rule atomic_task_based)

section \<open>When work is carried\<close>

lemma settle_carries:
  assumes "settle sha through note_of ops run now later rep c = (c', Inr st)" "\<not> accepted ops run rep c"
  shows "if carry_condition sha ops run rep c
    then (\<exists>msg v p. st = Not_Kept msg v NOTHING_RESTORED True (Some p)) \<and>
      disk c' = checked_tree ops run c \<and> base c' = base c
    else (\<exists>msg v r p b. st = Not_Kept msg v r False p \<and> base c = Some b \<and>
      restore_snapshot sha through (opt_limits ops) b (checked_tree ops run c) = (disk c', Inr r))"
  using assms(1)
  by (rule settle_result) (use assms(2) in \<open>auto simp: carry_condition_def\<close>)

text \<open>C30: A failed transaction is carried exactly when the check said something new, had repeated itself
  before, the end was not forced, a transaction is left and files changed since it opened; then its files
  stay with the older base, else the files of the base are put back.\<close>

theorem work_is_carried_iff:
  assumes "settle sha through note_of ops run now later rep c = (c', Inr st)" "\<not> accepted ops run rep c"
  shows "if carry_condition sha ops run rep c
    then (\<exists>msg v p. st = Not_Kept msg v NOTHING_RESTORED True (Some p)) \<and>
      disk c' = checked_tree ops run c \<and> base c' = base c
    else (\<exists>msg v r p b. st = Not_Kept msg v r False p \<and> base c = Some b \<and>
      restore_snapshot sha through (opt_limits ops) b (checked_tree ops run c) = (disk c', Inr r))"
  using assms by (rule settle_carries)

section \<open>A check against the base\<close>

lemma carry_stamps_disk [simp]: "disk (carry_stamps ops stamp before c) = disk c"
  by (simp add: carry_stamps_def)

lemma base_check_covered:
  assumes "base c = Some (take_snapshot sha (opt_limits ops) d0)"
    and "covered sha (opt_limits ops) A m d0" "covered sha (opt_limits ops) A m (disk c)"
    and run: "\<And>d. covered sha (opt_limits ops) A m d \<Longrightarrow> covered sha (opt_limits ops) A m (snd (run oc d))"
  shows "\<exists>c' d1. judge_against_base sha through ops run stamp0 stamp1 oc c = (c', Inr (fst (run oc d1))) \<and>
    scan_view d1 = scan_view d0 \<and>
    (if scan_view (disk c) = scan_view d0 then disk c' = snd (run oc (disk c))
     else scan_view (disk c') = scan_view (disk c)) \<and>
    covered sha (opt_limits ops) A m (disk c')"
proof (cases "scan_view (disk c) = scan_view d0")
  case True
  then have "snapshot_is_clean sha (opt_limits ops) (take_snapshot sha (opt_limits ops) d0) (disk c)"
    using rollback.compares [OF assms(2,3)] by simp
  then show ?thesis
    using True assms(1) run [OF assms(3)]
    by (auto simp: judge_against_base_def split: prod.splits intro!: exI [of _ "disk c"])
next
  case False
  then have changed: "\<not> snapshot_is_clean sha (opt_limits ops) (take_snapshot sha (opt_limits ops) d0) (disk c)"
    using rollback.compares [OF assms(2,3)] by auto
  obtain d1 r1 where d1: "restore_snapshot sha through (opt_limits ops) (take_snapshot sha (opt_limits ops) d0) (disk c) = (d1, Inr r1)"
    "covered sha (opt_limits ops) A m d1" "scan_view d1 = scan_view d0"
    using rollback.restores [OF assms(2,3), of through] by blast
  obtain d2 r2 where d2: "restore_snapshot sha through (opt_limits ops)
      (take_snapshot sha (opt_limits ops) (disk c)) (snd (run oc d1)) = (d2, Inr r2)" "scan_view d2 = scan_view (disk c)"
    "covered sha (opt_limits ops) A m d2"
    using rollback.restores [OF assms(3) run [OF d1(2)], of through] by blast
  show ?thesis
    using changed assms(1) d1 d2 False
    by (auto simp: judge_against_base_def Let_def split: prod.splits intro!: exI [of _ d1])
qed

lemma base_check:
  assumes "base c = Some (take_snapshot sha (opt_limits ops) d0)"
    and "covered sha (opt_limits ops) A m d0" "covered sha (opt_limits ops) A m (disk c)"
    and run: "\<And>d. covered sha (opt_limits ops) A m d \<Longrightarrow> covered sha (opt_limits ops) A m (snd (run oc d))"
  shows "\<exists>c' d1. judge_against_base sha through ops run stamp0 stamp1 oc c = (c', Inr (fst (run oc d1))) \<and>
    scan_view d1 = scan_view d0 \<and>
    (if scan_view (disk c) = scan_view d0 then disk c' = snd (run oc (disk c))
     else scan_view (disk c') = scan_view (disk c))"
  using base_check_covered [of c sha ops d0 A m run oc through stamp0 stamp1] assms by metis

text \<open>A check that is tried against the base runs on the base's files; if the transaction has changed
  any, the edits are back afterwards, whatever the check did to the files.\<close>

theorem base_check_leaves_edits:
  assumes "base c = Some (take_snapshot sha (opt_limits ops) d0)"
    and "covered sha (opt_limits ops) A m d0" "covered sha (opt_limits ops) A m (disk c)"
    and run: "\<And>d. covered sha (opt_limits ops) A m d \<Longrightarrow> covered sha (opt_limits ops) A m (snd (run oc d))"
  shows "\<exists>c' d1. judge_against_base sha through ops run stamp0 stamp1 oc c = (c', Inr (fst (run oc d1))) \<and>
    scan_view d1 = scan_view d0 \<and>
    (if scan_view (disk c) = scan_view d0 then disk c' = snd (run oc (disk c))
     else scan_view (disk c') = scan_view (disk c))"
  using assms by (rule base_check)

section \<open>What the next prompt says\<close>

definition CHANGES_ARE_GONE :: jtext where
  "CHANGES_ARE_GONE = js ''Those changes are gone: the files are as they were before that transaction.''"

lemma join_lines_infix: "x \<in> set xs \<Longrightarrow> \<exists>a b. join_lines xs = a @ x @ b"
proof (induction xs rule: join_lines.induct)
  case (2 t)
  then show ?case by (intro exI [of _ "[]"]) simp
next
  case (3 t u us)
  show ?case
  proof (cases "x = t")
    case True
    then show ?thesis using append_Nil [of "t @ _"] by auto
  next
    case False
    with 3 obtain a b where "join_lines (u # us) = a @ x @ b" by auto
    then show ?thesis by (intro exI [of _ "t @ [10] @ a"] exI [of _ b]) simp
  qed
qed simp

lemma infix_trans: "\<exists>a b. t = a @ x @ b \<Longrightarrow> \<exists>a b. x = a @ y @ b \<Longrightarrow> \<exists>a b. t = a @ y @ (b :: jtext)"
  by (metis append.assoc)

lemma prompt_says_gone:
  assumes "outcomes c \<noteq> []"
  shows "\<exists>a b. opening_prompt ops c = a @ CHANGES_ARE_GONE @ b"
proof -
  have start: "js ''Those changes are gone: the files are as they were before that transaction. Do not '' =
      CHANGES_ARE_GONE @ js '' Do not ''"
    unfolding CHANGES_ARE_GONE_def js_append [symmetric] by simp
  have gone: "\<exists>a b. (if np then CHANGES_GONE_NEVER_PASSED else CHANGES_GONE) = a @ CHANGES_ARE_GONE @ b" for np
    unfolding CHANGES_GONE_NEVER_PASSED_def CHANGES_GONE_def start
    by (rule exI [of _ "[]"]) (cases np; simp)
  have hist: "\<exists>a b. describe_history h np = a @ CHANGES_ARE_GONE @ b" for h np
    unfolding describe_history_def by (rule infix_trans [OF join_lines_infix gone [of np]]) auto
  show ?thesis
    unfolding opening_prompt_def build_protocol_prompt_def Let_def
    by (rule infix_trans [OF join_lines_infix hist
        [of "outcomes c" "adopted c \<noteq> None \<and> \<not> adopted_ever_passed c"]]) (use assms in \<open>auto simp: rules_history_def\<close>)
qed

lemma settle_failed_prompt:
  "settle_failed sha through note_of ops now elapsed src rep b opened v evidence moved c =
     (c', Inr (Not_Kept msg v' r ca (Some p))) \<Longrightarrow> p = opening_prompt ops c'"
  by (auto simp: settle_failed_def Let_def open_transaction_def split: prod.splits sum.splits if_splits)

lemma settle_prompt:
  assumes "settle sha through note_of ops run now later rep c = (c', Inr (Not_Kept msg v r ca (Some p)))"
  shows "p = opening_prompt ops c'"
  using assms by (auto simp: settle_def Let_def settle_kept_def split: option.splits prod.splits if_splits
      dest: settle_failed_prompt)

text \<open>After a carried transaction the files are the ones the check left, and the next prompt says
  that its changes are gone.\<close>

theorem carried_prompt_says_gone:
  assumes "settle sha through note_of ops run now later rep c = (c', Inr (Not_Kept msg v r True (Some p)))"
  shows "disk c' = checked_tree ops run c \<and> (\<exists>a b. p = a @ CHANGES_ARE_GONE @ b)"
proof -
  have "disk c' = checked_tree ops run c" "outcomes c' \<noteq> []"
    using assms by (auto elim!: settle_result simp: failed_outcome_def)
  then show ?thesis using prompt_says_gone settle_prompt [OF assms] by blast
qed

section \<open>What stays behind\<close>

lemma open_discarded [simp]:
  "discarded_since_adoption (fst (open_transaction sha ops now c)) = discarded_since_adoption c"
  by (simp add: open_transaction_def Let_def)

lemma settle_failed_counts:
  assumes set: "settle_failed sha through note_of ops now elapsed src rep b opened v evidence moved c =
      (c', Inr (Not_Kept msg v' r True (Some p)))"
    and "base c = Some b" "adopted c \<noteq> None"
  shows "discarded_since_adoption c' = Suc (discarded_since_adoption c)"
proof -
  have co: "carries_on sha ops rep opened moved c"
    using set assms(2) by (rule settle_failed_result) simp_all
  then have room: "changed_something sha ops rep opened moved c" "\<not> int (current c) \<ge> opt_max_transactions ops"
    by (auto simp: carries_on_def may_carry_def)
  let ?c2 = "(count_discarded True c)\<lparr>carrying := True\<rparr>"
  have "discarded_since_adoption c' = discarded_since_adoption (?c2\<lparr>disk := disk c\<rparr>)"
    using set co room unfolding settle_failed_def Let_def
    by (auto split: prod.splits dest!: arg_cong [where f = "\<lambda>x. discarded_since_adoption (fst x)"])
  then show ?thesis using assms(3) by (simp add: count_discarded_def)
qed

text \<open>A carried attempt counts as one that was thrown away.\<close>

lemma carried_counts_as_discarded:
  assumes "settle sha through note_of ops run now later rep c = (c', Inr (Not_Kept msg v r True (Some p)))"
    and "adopted c \<noteq> None"
  shows "discarded_since_adoption c' = Suc (discarded_since_adoption c)"
proof -
  obtain b where b: "base c = Some b" using assms(1) by (elim settle_result) auto
  obtain c1 kept vd evidence moved where d: "decide ops run rep (emit (Judging_Event (current c) (oracle_of ops c)) c) =
      (c1, kept, vd, evidence, moved)" by (metis prod_cases5)
  have "\<not> kept" using assms(1) b d by (auto simp: settle_def settle_kept_def Let_def)
  with assms(1) b d have "settle_failed sha through note_of ops later (map_option (\<lambda>t. now - t) (opened_at c))
      (source_of ops c rep) rep b (opt_default b (opened_with c)) vd evidence moved c1 =
      (c', Inr (Not_Kept msg v r True (Some p)))" by (simp add: settle_def Let_def)
  from settle_failed_counts [OF this] b assms(2) decide_result(2,5,10) [OF d] show ?thesis by simp
qed

text \<open>A kept transaction leaves its base behind, so that \<open>pending\<close> answers it and \<open>discard\<close> would undo it.\<close>

lemma kept_stays_pending:
  assumes "settle sha through note_of ops run now later rep c = (c', Inr (Kept msg v))"
  shows "base c' = base c \<and> base c' \<noteq> None"
  using assms by (rule settle_result) auto

section \<open>The budget\<close>

text \<open>C21: A task ends with its transactions numbered from one, at most as many as allowed: kept with
  exactly the last one kept, exhausted with all of them spent and none kept, or aborted with one to spare.\<close>

theorem task_stays_in_budget:
  assumes "run_atomic_task sha through note_of ops w now es history0 = (c, Inr t)"
  shows "task_ok ops t"
proof -
  let ?o = "open_transaction sha ops now (new_controller es history0)"
  have "run_loop sha through note_of ops w (snd ?o) (fst ?o) = (c, Inr t)"
    using assms by (simp add: run_atomic_task_def split: prod.splits)
  then show ?thesis by (rule task_record) (simp add: numbered_outcomes_def)
qed

section \<open>Examples\<close>

text \<open>Two paths; a file at the first is changed and one at the second added, twice, and never believed in.\<close>

definition SAMPLE_PATHS :: "path list" where
  "SAMPLE_PATHS = [[js ''a''], [js ''b'']]"

definition SAMPLE_START :: entries where
  "SAMPLE_START = [(js ''a'', File [1])]"

definition SAMPLE_EDITED :: entries where
  "SAMPLE_EDITED = [(js ''a'', File [2]), (js ''b'', File [3])]"

definition SAMPLE_VERDICT :: oracle_verdict where
  "SAMPLE_VERDICT = \<lparr>v_passed = False, v_exit_code = Some 1, v_output = js ''one'', v_timed_out = False,
     v_unmatched = False, v_summary = None\<rparr>"

definition SAMPLE_CHECK :: check_oracle where
  "SAMPLE_CHECK = Command (js ''npm test'') [] [] (js ''npm'') [js ''test''] None None"

definition sample_run :: check_run where
  "sample_run oc d = (SAMPLE_VERDICT, d)"

definition sample_world :: task_world where
  "sample_world = \<lparr>w_attempt = \<lambda>n prompt d.
       (\<lparr>at_plan = None, at_account = None, at_self = Some Self_Unsure, at_aborted = False, at_forced = False\<rparr>,
        SAMPLE_EDITED),
     w_confirm = \<lambda>n. None, w_run = \<lambda>n. sample_run, w_ended = int, w_reopened = int\<rparr>"

definition sample_options :: "check_oracle option \<Rightarrow> tx_options" where
  "sample_options oc = \<lparr>opt_max_changes = 6, opt_max_transactions = 2, opt_oracle = oc, opt_allow_proposal = False,
     opt_reconsidered_after = None, opt_limits = DEFAULT_LIMITS, opt_forgets_reads = True, opt_carries_stamps = False,
     opt_last_words = None\<rparr>"

definition no_note :: "jtext \<Rightarrow> (path \<times> bytes) list \<Rightarrow> jtext option" where
  "no_note t ps = None"

definition SAMPLE_LOG :: revision_log where
  "SAMPLE_LOG = \<lparr>rl_logs = [], rl_blobs = [], rl_last_span = Map.empty, rl_span = 0, rl_max_file = 0, rl_max_total = 0\<rparr>"

lemma sample_limits [simp]:
  "opt_limits (sample_options oc) = DEFAULT_LIMITS" "opt_oracle (sample_options oc) = oc"
  "opt_max_transactions (sample_options oc) = 2"
  by (simp_all add: sample_options_def)

lemma sample_covered:
  "covered sample_sha DEFAULT_LIMITS SAMPLE_PATHS 4 SAMPLE_START"
  "covered sample_sha DEFAULT_LIMITS SAMPLE_PATHS 4 SAMPLE_EDITED"
  using inj_sample_sha
  by (simp_all add: covered_def fits_def SAMPLE_PATHS_def SAMPLE_START_def SAMPLE_EDITED_def DEFAULT_LIMITS_def
      apart_def js_def)

lemma sample_stays: "stays_covered sample_sha DEFAULT_LIMITS SAMPLE_PATHS 4 sample_world"
  using sample_covered by (simp add: stays_covered_def sample_world_def sample_run_def)

lemma sample_exhausted:
  assumes "run_atomic_task sample_sha no_through no_note (sample_options oc) sample_world now es SAMPLE_LOG = (c, Inr t)"
  shows "task_stopped t = Stopped_Exhausted"
proof -
  have never: "\<not> accepted (sample_options oc) (w_run sample_world n) \<lparr>rep_plan = p, rep_account = a, rep_self = Some Self_Unsure, rep_forced = f\<rparr> c0"
    for n p a f c0
    by (simp add: accepted_def sample_world_def sample_run_def SAMPLE_VERDICT_def judge_self_report_def split: option.splits)
  obtain prompt c0 where "run_loop sample_sha no_through no_note (sample_options oc) sample_world prompt c0 = (c, Inr t)"
    using assms by (auto simp: run_atomic_task_def split: prod.splits)
  then show ?thesis
  proof (rule run_loop_rule [where I = "\<lambda>c. True"])
    fix c0 prompt res es msg v
    assume at: "w_attempt sample_world (current c0) prompt (disk c0) = (res, es)"
      and set: "settle_attempt sample_sha no_through no_note (sample_options oc) sample_world res (c0\<lparr>disk := es\<rparr>) = (c, Inr (Kept msg v))"
    have res: "at_self res = Some Self_Unsure" using at by (auto simp: sample_world_def)
    from set [unfolded settle_attempt_def Let_def res] show ?thesis
      by (rule settle_result) (use never in \<open>auto split: if_splits\<close>)
  qed (auto simp: task_end_def sample_world_def)
qed

theorem exhausted_task_undone_witness:
  "\<exists>c t. run_atomic_task sample_sha no_through no_note (sample_options None) sample_world 0 SAMPLE_START SAMPLE_LOG = (c, Inr t) \<and>
     task_stopped t = Stopped_Exhausted \<and>
     file_at [js ''a''] (disk c) = Some [1] \<and> file_at [js ''b''] (disk c) = None"
proof -
  obtain c t where r: "run_atomic_task sample_sha no_through no_note (sample_options None) sample_world 0 SAMPLE_START SAMPLE_LOG = (c, Inr t)"
    and same: "task_stopped t = Stopped_Exhausted \<longrightarrow> scan_view (disk c) = scan_view SAMPLE_START"
    using exhausted_task_undone [of sample_sha "sample_options None" SAMPLE_PATHS 4 SAMPLE_START sample_world]
      sample_covered(1) sample_stays by (metis sample_limits)
  have "scan_view (disk c) [js ''a''] = Some [1]" "scan_view (disk c) [js ''b''] = None"
    using same sample_exhausted [OF r] by (simp_all add: scan_view_def SAMPLE_START_def js_def)
  then show ?thesis using r sample_exhausted [OF r] by (simp add: scan_view_def)
qed

theorem task_stays_in_budget_witness:
  "\<exists>c t. run_atomic_task sample_sha no_through no_note (sample_options None) sample_world 0 SAMPLE_START SAMPLE_LOG = (c, Inr t) \<and>
     length (task_transactions t) = 2"
proof -
  obtain c t where r: "run_atomic_task sample_sha no_through no_note (sample_options None) sample_world 0 SAMPLE_START SAMPLE_LOG = (c, Inr t)"
    using atomic_task_based [of sample_sha "sample_options None" SAMPLE_PATHS 4 SAMPLE_START sample_world]
      sample_covered(1) sample_stays by (metis sample_limits)
  show ?thesis
    using task_stays_in_budget [OF r] r sample_exhausted [OF r] by (auto simp: task_ok_def Let_def sample_options_def)
qed

text \<open>A transaction whose files have been edited, and whose check has repeated itself.\<close>

definition sample_open :: controller where
  "sample_open = (fst (open_transaction sample_sha (sample_options (Some SAMPLE_CHECK)) 0 (new_controller SAMPLE_START SAMPLE_LOG)))
     \<lparr>disk := SAMPLE_EDITED, check_has_repeated := True\<rparr>"

definition SAMPLE_REPORT :: tx_report where
  "SAMPLE_REPORT = \<lparr>rep_plan = None, rep_account = None, rep_self = None, rep_forced = False\<rparr>"

lemma sample_open_fields [simp]:
  "base sample_open = Some (take_snapshot sample_sha DEFAULT_LIMITS SAMPLE_START)"
  "opened_with sample_open = Some (take_snapshot sample_sha DEFAULT_LIMITS SAMPLE_START)"
  "disk sample_open = SAMPLE_EDITED" "current sample_open = 1" "check_has_repeated sample_open"
  "adopted sample_open = None" "check_outputs sample_open = []"
  by (simp_all add: sample_open_def open_transaction_def Let_def add_uncovered_def emit_def)

lemma sample_edited_differs: "scan_view SAMPLE_EDITED \<noteq> scan_view SAMPLE_START"
proof
  assume "scan_view SAMPLE_EDITED = scan_view SAMPLE_START"
  then have "scan_view SAMPLE_EDITED [js ''a''] = scan_view SAMPLE_START [js ''a'']" by simp
  then show False by (simp add: scan_view_def SAMPLE_EDITED_def SAMPLE_START_def)
qed

lemma sample_checked: "checked_tree (sample_options (Some SAMPLE_CHECK)) sample_run sample_open = SAMPLE_EDITED"
  by (simp add: checked_tree_def oracle_of_def sample_run_def)

lemma sample_carries:
  "carry_condition sample_sha (sample_options (Some SAMPLE_CHECK)) sample_run SAMPLE_REPORT sample_open"
  "\<not> accepted (sample_options (Some SAMPLE_CHECK)) sample_run SAMPLE_REPORT sample_open"
  using rollback.compares [OF sample_covered] sample_edited_differs
  by (auto simp: carry_condition_def sample_checked new_answer_def SAMPLE_REPORT_def oracle_of_def
      accepted_def sample_run_def SAMPLE_VERDICT_def)

lemma sample_settles:
  "\<exists>c' st. settle sample_sha no_through no_note (sample_options (Some SAMPLE_CHECK)) sample_run 1 2 SAMPLE_REPORT sample_open = (c', Inr st)"
proof -
  obtain d r where "restore_snapshot sample_sha no_through DEFAULT_LIMITS (take_snapshot sample_sha DEFAULT_LIMITS SAMPLE_START) SAMPLE_EDITED = (d, Inr r)"
    using rollback.restores [OF sample_covered, of no_through] by blast
  then show ?thesis
    by (intro settle_returns [where b = "take_snapshot sample_sha DEFAULT_LIMITS SAMPLE_START"]) (simp_all add: sample_checked)
qed

theorem work_is_carried_iff_witness:
  "\<exists>c' st. settle sample_sha no_through no_note (sample_options (Some SAMPLE_CHECK)) sample_run 1 2 SAMPLE_REPORT sample_open = (c', Inr st) \<and>
     (\<exists>msg v p. st = Not_Kept msg v NOTHING_RESTORED True (Some p)) \<and> disk c' = SAMPLE_EDITED"
proof -
  obtain c' st where s: "settle sample_sha no_through no_note (sample_options (Some SAMPLE_CHECK)) sample_run 1 2 SAMPLE_REPORT sample_open = (c', Inr st)"
    using sample_settles by blast
  from work_is_carried_iff [OF s sample_carries(2)] s show ?thesis
    by (simp add: sample_carries(1) sample_checked)
qed

theorem carried_prompt_says_gone_witness:
  "\<exists>c' msg v r p. settle sample_sha no_through no_note (sample_options (Some SAMPLE_CHECK)) sample_run 1 2 SAMPLE_REPORT sample_open =
       (c', Inr (Not_Kept msg v r True (Some p))) \<and>
     disk c' = SAMPLE_EDITED \<and> (\<exists>a b. p = a @ CHANGES_ARE_GONE @ b)"
proof -
  obtain c' st where "settle sample_sha no_through no_note (sample_options (Some SAMPLE_CHECK)) sample_run 1 2 SAMPLE_REPORT sample_open = (c', Inr st)"
    using sample_settles by blast
  with settle_carries [OF this sample_carries(2)] sample_carries(1) obtain msg v p where
    s: "settle sample_sha no_through no_note (sample_options (Some SAMPLE_CHECK)) sample_run 1 2 SAMPLE_REPORT sample_open =
      (c', Inr (Not_Kept msg v NOTHING_RESTORED True (Some p)))" by auto
  from carried_prompt_says_gone [OF s] s show ?thesis by (auto simp: sample_checked)
qed

theorem base_check_leaves_edits_witness:
  "\<exists>c'. judge_against_base sample_sha no_through (sample_options None) sample_run (\<lambda>p. None) (\<lambda>p. None) SAMPLE_CHECK sample_open =
      (c', Inr SAMPLE_VERDICT) \<and> scan_view (disk c') = scan_view SAMPLE_EDITED"
proof -
  have "\<exists>c' d1. judge_against_base sample_sha no_through (sample_options None) sample_run (\<lambda>p. None) (\<lambda>p. None) SAMPLE_CHECK sample_open =
      (c', Inr (fst (sample_run SAMPLE_CHECK d1))) \<and>
    scan_view d1 = scan_view SAMPLE_START \<and>
    (if scan_view (disk sample_open) = scan_view SAMPLE_START then disk c' = snd (sample_run SAMPLE_CHECK (disk sample_open))
     else scan_view (disk c') = scan_view (disk sample_open))"
    by (rule base_check_leaves_edits [where A = SAMPLE_PATHS and m = 4])
      (simp_all add: sample_covered, simp add: sample_run_def)
  then show ?thesis using sample_edited_differs by (auto simp: sample_run_def)
qed

end
