(* ===== verification/Checks.thy ===== *)
theory Checks
  imports Protocol Json PatchContext
begin

text \<open>
  The check that judges a transaction: \<open>sdk/packages/core/src/runtime/atomic/oracle.ts\<close>. Which check a
  workspace has, and the verdict that a run of it gives. What the file system holds, \<open>toLowerCase\<close>
  (\<open>lower\<close>), regular expressions (\<open>matches\<close>: nothing if the pattern does not compile), the process that
  runs and the page check are parameters.
\<close>

section \<open>Finding a check\<close>

text \<open>The workspace root: its path, the names that exist in it, \<open>package.json\<close> if it parses, the \<open>Makefile\<close>
  if it can be read.\<close>

record workspace =
  ws_root :: jtext
  ws_exists :: "jtext \<Rightarrow> bool"
  ws_package :: "json option"
  ws_makefile :: "jtext option"

record oracle_sources =
  src_manual :: "jtext option"
  src_explicit :: "jtext option"
  src_expect :: "jtext option"

definition detect_node_runner :: "workspace \<Rightarrow> jtext" where
  "detect_node_runner ws =
     (if ws_exists ws (js ''bun.lockb'') then js ''bun''
      else if ws_exists ws (js ''bun.lock'') then js ''bun''
      else if ws_exists ws (js ''pnpm-lock.yaml'') then js ''pnpm''
      else if ws_exists ws (js ''yarn.lock'') then js ''yarn''
      else js ''npm'')"

definition SCRIPT_PREFERENCE :: "jtext list" where
  "SCRIPT_PREFERENCE = map js [''typecheck'', ''check-types'', ''tsc'', ''test'', ''build'', ''lint'']"

definition shell_oracle :: "bool \<Rightarrow> jtext \<Rightarrow> jtext \<Rightarrow> jtext \<Rightarrow> jtext option \<Rightarrow> check_oracle" where
  "shell_oracle win line cwd reason expect =
     Command line cwd reason (if win then js ''cmd'' else js ''sh'')
       (if win then [js ''/c'', line] else [js ''-c'', line]) (said expect) None"

definition PAGE_ORACLE_PREFIX :: jtext where
  "PAGE_ORACLE_PREFIX = js ''cline:page ''"

definition named_page_oracle ::
    "(jtext \<Rightarrow> jtext) \<Rightarrow> jtext \<Rightarrow> jtext \<Rightarrow> jtext \<Rightarrow> check_oracle option" where
  "named_page_oracle lower line cwd reason =
     (if \<not> starts PAGE_ORACLE_PREFIX (lower line) then None
      else let file = trim (drop (length PAGE_ORACLE_PREFIX) line)
        in if file = [] then None
           else Some (Page (js ''load `'' @
                           file @
                           js ''` and check that it runs'') cwd reason file None))"

definition named_oracle :: "(jtext \<Rightarrow> jtext) \<Rightarrow> bool \<Rightarrow> jtext \<Rightarrow> jtext \<Rightarrow> jtext \<Rightarrow> jtext option \<Rightarrow> check_oracle" where
  "named_oracle lower win line cwd reason expect =
     (case named_page_oracle lower line cwd reason of
        Some oc \<Rightarrow> oc | None \<Rightarrow> shell_oracle win line cwd reason expect)"

text \<open>\<open>pkg.scripts\<close>, if it is an object, and whether a member of it is a string.\<close>

definition package_scripts :: "json option \<Rightarrow> (jtext \<times> json) list option" where
  "package_scripts pkg =
     (case pkg of
        Some (JObj ms) \<Rightarrow> (case map_of ms (js ''scripts'') of Some (JObj ss) \<Rightarrow> Some ss | _ \<Rightarrow> None)
      | _ \<Rightarrow> None)"

definition has_script :: "(jtext \<times> json) list \<Rightarrow> jtext \<Rightarrow> bool" where
  "has_script ss name = (case map_of ss name of Some (JStr s) \<Rightarrow> True | _ \<Rightarrow> False)"

text \<open>The expression \<open>^target:\<close> with the flag \<open>m\<close>; \<open>fresh\<close>: at the start of a line.\<close>

definition LINE_TERMINATORS :: "16 word list" where
  "LINE_TERMINATORS = [10, 13, 0x2028, 0x2029]"

fun has_target :: "jtext \<Rightarrow> bool \<Rightarrow> jtext \<Rightarrow> bool" where
  "has_target t fresh [] = False"
| "has_target t fresh (c # cs) =
     ((fresh \<and> starts (t @ js '':'') (c # cs)) \<or> has_target t (c \<in> set LINE_TERMINATORS) cs)"

definition discover_oracle ::
    "(jtext \<Rightarrow> jtext) \<Rightarrow> bool \<Rightarrow> workspace \<Rightarrow> oracle_sources \<Rightarrow> check_oracle option" where
  "discover_oracle lower win ws srcs =
     (let root = ws_root ws;
          scripts = package_scripts (ws_package ws);
          runner = detect_node_runner ws
      in case said (src_manual srcs) of
        Some line \<Rightarrow> Some (named_oracle lower win line root (js ''named for this task'') (src_expect srcs))
      | None \<Rightarrow>
      (case said (src_explicit srcs) of
        Some line \<Rightarrow> Some (named_oracle lower win line root (js ''named in settings'') (src_expect srcs))
      | None \<Rightarrow>
      (case Option.bind scripts (\<lambda>ss. List.find (has_script ss) SCRIPT_PREFERENCE) of
        Some name \<Rightarrow> Some (Command (runner @
        js '' run '' @
        name) root
            (js ''package.json defines a `'' @
            name @
            js ''` script'') runner [js ''run'', name] None None)
      | None \<Rightarrow>
      if ws_exists ws (js ''Cargo.toml'') then
        Some (Command (js ''cargo test'') root (js ''Cargo.toml at the workspace root'') (js ''cargo'')
          [js ''test'', js ''--quiet''] None None)
      else if ws_exists ws (js ''go.mod'') then
        Some (Command (js ''go test ./...'') root (js ''go.mod at the workspace root'') (js ''go'')
          [js ''test'', js ''./...''] None None)
      else (case List.find (ws_exists ws) [js ''pyproject.toml'', js ''pytest.ini'', js ''tox.ini''] of
        Some marker \<Rightarrow> Some (Command (js ''pytest'') root (marker @
        js '' at the workspace root'') (js ''python3'')
          [js ''-m'', js ''pytest'', js ''-q''] None None)
      | None \<Rightarrow>
      if ws_exists ws (js ''tsconfig.json'') then
        Some (Command (js ''tsc --noEmit'') root (js ''tsconfig.json at the workspace root'') (js ''npx'')
          [js ''tsc'', js ''--noEmit''] None None)
      else if ws_exists ws (js ''Makefile'') then
        map_option (\<lambda>t. Command (js ''make '' @
        t) root (js ''Makefile has a `'' @
        t @
        js ''` target'') (js ''make'') [t] None None)
          (List.find (\<lambda>t. has_target t True (opt_default [] (ws_makefile ws))) [js ''test'', js ''check''])
      else None))))"

section \<open>Running it\<close>

definition DEFAULT_ORACLE_TIMEOUT_MS :: nat where
  "DEFAULT_ORACLE_TIMEOUT_MS = 120000"

definition MAX_ORACLE_OUTPUT :: nat where
  "MAX_ORACLE_OUTPUT = 8000"

definition truncate_output :: "jtext \<Rightarrow> jtext" where
  "truncate_output out =
     (let t = trim_right out in
      if length t > MAX_ORACLE_OUTPUT then (take MAX_ORACLE_OUTPUT t @
      [10] @
      [ELLIPSIS] @
      js '' ('' @
      decimal (length t - MAX_ORACLE_OUTPUT) @
      js '' more characters)'')
      else t)"

definition output_says_it_passed :: "(jtext \<Rightarrow> jtext \<Rightarrow> bool option) \<Rightarrow> check_oracle \<Rightarrow> jtext \<Rightarrow> bool" where
  "output_says_it_passed matches oc out =
     (case o_expect oc of
        None \<Rightarrow> True
      | Some e \<Rightarrow>
          if e = [] then True
          else (case matches e out of
                  None \<Rightarrow> False
                | Some m \<Rightarrow> if o_must oc = Some Must_Not_Match then \<not> m else m))"

text \<open>How \<open>execFile\<close> ends: a clean exit, or the error it rejects with. A code is a number or a string such
  as \<open>ENOENT\<close>.\<close>

datatype exit_code = Exit_Number int | Exit_String jtext

record run_failure =
  rf_code :: "exit_code option"
  rf_killed :: bool
  rf_signal :: "jtext option"
  rf_stdout :: "jtext option"
  rf_stderr :: "jtext option"
  rf_message :: "jtext option"

datatype process_end = Exited jtext jtext | Rejected run_failure

definition finished_verdict :: "(jtext \<Rightarrow> jtext \<Rightarrow> bool option) \<Rightarrow> check_oracle \<Rightarrow> jtext \<Rightarrow> oracle_verdict" where
  "finished_verdict matches oc combined =
     (let matched = output_says_it_passed matches oc combined in
      \<lparr>v_passed = matched, v_exit_code = Some 0,
       v_output =
         (if matched then truncate_output combined
          else truncate_output combined @ [10, 10] @
            (if o_must oc = Some Must_Not_Match
             then (js ''The check ran and finished cleanly, but its output matches /'' @
                  opt_default (js ''undefined'') (o_expect oc) @
                  js ''/, and it must not match /'' @
                  opt_default (js ''undefined'') (o_expect oc) @
                  js ''/ for this task to count as working.'')
             else (js ''The check ran and finished cleanly, but its output does not match /'' @
                  opt_default (js ''undefined'') (o_expect oc) @
                  js ''/, which is what this task counts as working.''))),
       v_timed_out = False, v_unmatched = (\<not> matched), v_summary = None\<rparr>)"

definition rejected_verdict :: "nat \<Rightarrow> run_failure \<Rightarrow> oracle_verdict" where
  "rejected_verdict timeout_ms f =
     (let timed_out = (rf_killed f \<or> rf_signal f = Some (js ''SIGTERM''));
          both = opt_default [] (rf_stdout f) @ opt_default [] (rf_stderr f);
          output = truncate_output (if both \<noteq> [] then both else opt_default [] (rf_message f))
      in \<lparr>v_passed = False,
          v_exit_code = (case rf_code f of Some (Exit_Number n) \<Rightarrow> Some n | _ \<Rightarrow> None),
          v_output = (if timed_out then (output @
          [10, 10] @
          js ''The oracle was still running after '' @
          decimal ((timeout_ms + 500) div 1000) @
          js ''s and was stopped. An unfinished check is not a pass.'') else output),
          v_timed_out = timed_out, v_unmatched = False, v_summary = None\<rparr>)"

text \<open>What \<open>checkPage\<close> answers.\<close>

record page_result =
  pr_ok :: bool
  pr_frames_run :: int
  pr_error :: jtext

text \<open>The page's file: the error that reading it gives, or what the check of its source answers.\<close>

definition page_verdict :: "jtext \<Rightarrow> jtext + page_result \<Rightarrow> oracle_verdict" where
  "page_verdict p answer =
     (case answer of
        Inl message \<Rightarrow>
          \<lparr>v_passed = False, v_exit_code = None, v_output = message, v_timed_out = False, v_unmatched = False,
           v_summary = Some (js ''the check could not read '' @
                            p @
                            js '', so nothing was verified.'')\<rparr>
      | Inr r \<Rightarrow>
          if pr_ok r then
            \<lparr>v_passed = True, v_exit_code = Some 0,
             v_output = (p @
                        js '' loaded and ran '' @
                        int_text (pr_frames_run r) @
                        js '' frame(s) with no errors.''),
             v_timed_out = False, v_unmatched = False, v_summary = None\<rparr>
          else
            \<lparr>v_passed = False, v_exit_code = Some 1, v_output = (p @
            js '': '' @
            pr_error r @
            (if pr_frames_run r > 0 then js '' (after '' @ int_text (pr_frames_run r) @ js '' frame(s))'' else [])),
             v_timed_out = False, v_unmatched = False, v_summary = Some (js ''the page did not run: '' @
             pr_error r)\<rparr>)"

text \<open>\<open>process\<close> runs a command with its arguments, \<open>page\<close> reads and checks a page.\<close>

fun run_oracle ::
    "(jtext \<Rightarrow> jtext \<Rightarrow> bool option) \<Rightarrow> (jtext \<Rightarrow> jtext list \<Rightarrow> process_end) \<Rightarrow>
     (jtext \<Rightarrow> int option \<Rightarrow> jtext + page_result) \<Rightarrow> nat \<Rightarrow> check_oracle \<Rightarrow> oracle_verdict" where
  "run_oracle matches process page timeout_ms (Page l cwd r p frames) = page_verdict p (page p frames)"
| "run_oracle matches process page timeout_ms (Command l cwd r cmd args e m) =
     (case process cmd args of
        Exited out err \<Rightarrow> finished_verdict matches (Command l cwd r cmd args e m) (out @ err)
      | Rejected f \<Rightarrow> rejected_verdict timeout_ms f)"

end
