(* ===== verification/RunChecks.thy ===== *)
theory RunChecks
  imports Checks
begin

text \<open>
  Checks on demand: \<open>run-check-tool.ts\<close>, \<open>stalled-checks.ts\<close> and \<open>check-first-edits.ts\<close> of
  \<open>sdk/packages/core/src/runtime/atomic/\<close>. The tool that runs the check and counts its runs, the counter of checks
  over files nobody changes, and the gate that holds the first edits of a transaction. The transaction's number,
  which the three read off the controller when they are called, is an argument.
\<close>

section \<open>Stalled checks\<close>

definition DEFAULT_MAX_CHECKS_WITHOUT_EDIT :: nat where
  "DEFAULT_MAX_CHECKS_WITHOUT_EDIT = 3"

definition DEFAULT_MAX_CHECKS_BEFORE_SETTLING :: nat where
  "DEFAULT_MAX_CHECKS_BEFORE_SETTLING = 5"

datatype stalled_verdict = Stalled_Ok | Stalled_Nudge | Stalled_Settle

record stalled =
  st_seen :: nat
  st_streak :: nat
  st_nudged :: bool

definition new_stalled :: "nat \<Rightarrow> stalled" where
  "new_stalled tx = \<lparr>st_seen = tx, st_streak = 0, st_nudged = False\<rparr>"

text \<open>\<open>source.max\<close> and \<open>source.settleAt\<close>, or what stands for them.\<close>

definition nudge_at :: "nat option \<Rightarrow> nat" where
  "nudge_at most = opt_default DEFAULT_MAX_CHECKS_WITHOUT_EDIT most"

definition settle_at :: "nat option \<Rightarrow> nat option \<Rightarrow> nat" where
  "settle_at most at_count = opt_default (max (nudge_at most + 1)
     (DEFAULT_MAX_CHECKS_BEFORE_SETTLING - DEFAULT_MAX_CHECKS_WITHOUT_EDIT + nudge_at most)) at_count"

definition sync_stalled :: "nat \<Rightarrow> stalled \<Rightarrow> stalled" where
  "sync_stalled tx s = (if tx \<noteq> st_seen s then \<lparr>st_seen = tx, st_streak = 0, st_nudged = False\<rparr> else s)"

definition stalled_changed :: "nat \<Rightarrow> stalled \<Rightarrow> stalled" where
  "stalled_changed tx s = (sync_stalled tx s)\<lparr>st_streak := 0\<rparr>"

definition stalled_checked :: "nat option \<Rightarrow> nat option \<Rightarrow> nat \<Rightarrow> bool \<Rightarrow> stalled \<Rightarrow> stalled \<times> stalled_verdict" where
  "stalled_checked most at_count tx passed s0 =
     (let s = sync_stalled tx s0 in
      if passed then (s\<lparr>st_streak := 0\<rparr>, Stalled_Ok)
      else let n = Suc (st_streak s); s' = s\<lparr>st_streak := n\<rparr> in
        if n \<ge> settle_at most at_count then (s', Stalled_Settle)
        else if n \<ge> nudge_at most \<and> \<not> st_nudged s then (s'\<lparr>st_nudged := True\<rparr>, Stalled_Nudge)
        else (s', Stalled_Ok))"

definition describe_stalled_check_nudge :: "nat \<Rightarrow> jtext \<Rightarrow> jtext" where
  "describe_stalled_check_nudge runs label = join_lines
     [(js ''That was `'' @
      label @
      js ''` run '' @
      decimal runs @
      js '' times in a row over files that have not changed since the run before it. It cannot '' @
      js ''tell you anything the first of them did not, and running it again will not either.''),
      [],
      (js ''Change something or look somewhere else. `check_file` is the sharper instrument '' @
      js ''here: it lists every problem in the file rather than the first one, and where '' @
      js ''brackets cross it names the line that is wrong rather than the line the parser gave '' @
      js ''up on.''),
      [],
      js ''The transaction is still open, and this is not a verdict on it.'']"

definition describe_stalled_checks :: "nat \<Rightarrow> jtext \<Rightarrow> jtext" where
  "describe_stalled_checks runs label = join_lines
     [(js ''That was `'' @
      label @
      js ''` run '' @
      decimal runs @
      js '' times in a row over files that have not changed since the run before it, so it '' @
      js ''cannot tell you anything the first of them did not.''),
      [],
      (js ''Re-reading the same failure is not progress, and the transaction is judged here '' @
      js ''rather than left open on it.'')]"

text \<open>The tools \<open>withChangeSignal\<close> wraps: a call to one of them counts as a change, whatever it does.\<close>

definition CHANGING_TOOLS :: "jtext list" where
  "CHANGING_TOOLS = [js ''editor'', js ''apply_patch'', RESTORE_FILE_TOOL_NAME]"

section \<open>The gate before the first edit\<close>

record check_gate =
  cg_seen :: nat
  cg_check_run :: bool
  cg_held :: bool
  cg_held_iteration :: "nat option"

definition new_gate :: "nat \<Rightarrow> check_gate" where
  "new_gate tx = \<lparr>cg_seen = tx, cg_check_run = False, cg_held = False, cg_held_iteration = None\<rparr>"

definition EDITING_TOOLS :: "jtext list" where
  "EDITING_TOOLS = [js ''editor'', js ''apply_patch'']"

definition sync_gate :: "nat \<Rightarrow> check_gate \<Rightarrow> check_gate" where
  "sync_gate tx g = (if tx \<noteq> cg_seen g then new_gate tx else g)"

definition describe_check_first :: "jtext \<Rightarrow> bool \<Rightarrow> jtext" where
  "describe_check_first label already_run = join_lines
     ([js ''That edit was not made. Nothing has changed on disk.'', []] @
      (if already_run
       then [(js ''You have run the check, which is the right way to open a transaction '' @
             [EM_DASH] @
             js '' this is not asking you to run it again. What is missing is the plan.''), [],
             (js ''State it before you edit: a numbered list, each entry naming WHERE, WHAT and WHY. '' @
             js ''Put it in your reply, so it is on the record and the user can see it, not only in '' @
             js ''your reasoning.'')]
       else [(js ''Run `'' @
             RUN_CHECK_TOOL_NAME @
             js ''` first '' @
             [EM_DASH] @
             js '' it runs '' @
             label @
             js '' '' @
             [EM_DASH] @
             js '' and read what it reports. It is the failure this transaction is judged on, and '' @
             js ''reading the source is not a substitute for it: a file can look wrong in one place '' @
             js ''and fail in another, and the edit you were about to make would have been aimed at '' @
             js ''whichever one you happened to read.''), [],
             (js ''Then state your plan before you edit: a numbered list, each entry naming WHERE, '' @
             js ''WHAT and WHY. State it in your reply, so it is on the record and the user can see '' @
             js ''it, not only in your reasoning.'')]) @
      [[], (js ''After that, make the edit. This is asked once per transaction and not again '' @
           [EM_DASH] @
           js '' the next edit goes through whatever you decide.'')])"

definition gate_check_run :: "nat \<Rightarrow> check_gate \<Rightarrow> check_gate" where
  "gate_check_run tx g = (sync_gate tx g)\<lparr>cg_check_run := True\<rparr>"

text \<open>An edit: what it is told instead of being made, or nothing when it goes through.\<close>

definition gate_edit :: "jtext \<Rightarrow> nat \<Rightarrow> nat \<Rightarrow> check_gate \<Rightarrow> check_gate \<times> jtext option" where
  "gate_edit label tx iteration g0 =
     (let g = sync_gate tx g0 in
      if cg_held g
      then (g, if cg_held_iteration g \<noteq> None \<and> Some iteration = cg_held_iteration g
               then Some (describe_check_first label (cg_check_run g)) else None)
      else (g\<lparr>cg_held := True, cg_held_iteration := Some iteration\<rparr>,
            Some (describe_check_first label (cg_check_run g))))"

section \<open>The tool\<close>

definition MAX_CHECKS_PER_TRANSACTION :: nat where
  "MAX_CHECKS_PER_TRANSACTION = 10"

record check_counter =
  rc_counted_for :: nat
  rc_runs :: nat

definition new_counter :: check_counter where
  "new_counter = \<lparr>rc_counted_for = 0, rc_runs = 0\<rparr>"

definition describe_check_run :: "oracle_verdict \<Rightarrow> jtext \<Rightarrow> jtext" where
  "describe_check_run v label =
     (let out = trim (v_output v);
          head = (if v_passed v then (js ''The check passed: `'' @
          label @
          js ''`.'') else (js ''The check failed: `'' @
          label @
          js ''`.''));
          tail = (if v_passed v then (js ''Nothing was settled '' @
          [EM_DASH] @
          js '' say so and finish, and it will be run once more when you do.'')
                  else (js ''Nothing was rolled back: the transaction is open and your changes are still there. '' @
                       js ''Fix what it named and run it again.''))
      in join_lines ([head] @ (if out = [] then [] else [10 # out @ [10]]) @ [tail]))"

definition NO_CHECK_YET :: jtext where
  "NO_CHECK_YET = (js ''There is no check yet. Propose one with `propose_check` and, once the user approves '' @
                  js ''it, this runs it.'')"

definition NO_CHECK_HERE :: jtext where
  "NO_CHECK_HERE = (js ''There is no check to run in this workspace, so your own account of the work is the '' @
                   js ''verdict. Say plainly whether the change worked and how you know.'')"

definition TOO_MANY_CHECKS :: jtext where
  "TOO_MANY_CHECKS = (js ''The check has been run '' @
                     decimal MAX_CHECKS_PER_TRANSACTION @
                     js '' times in this transaction without the task closing. Running it again will not tell '' @
                     js ''you anything the last result did not. Either make a different change, or say '' @
                     js ''plainly that you cannot get it to pass.'')"

definition check_not_run :: "jtext \<Rightarrow> jtext" where
  "check_not_run message = (js ''The check could not be run: '' @
                           message @
                           js ''. It will still be run when you finish, so this is not a reason to stop.'')"

definition count_for :: "nat \<Rightarrow> check_counter \<Rightarrow> check_counter" where
  "count_for tx rc = (if tx \<noteq> rc_counted_for rc then \<lparr>rc_counted_for = tx, rc_runs = 0\<rparr> else rc)"

text \<open>
  \<open>execute\<close>: \<open>run\<close> is the controller's \<open>runCheck\<close>, \<open>show_error\<close> the text of what it throws, \<open>on_run\<close> what the
  session adds; what \<open>on_run\<close> throws the tool throws.
\<close>

definition run_check_tool ::
    "('e \<Rightarrow> jtext) \<Rightarrow> ('s \<Rightarrow> 's \<times> ('e + oracle_verdict)) \<Rightarrow>
     (oracle_verdict \<Rightarrow> check_oracle \<Rightarrow> 's \<Rightarrow> 's \<times> ('e + jtext option)) \<Rightarrow> bool \<Rightarrow>
     check_oracle option \<Rightarrow> nat \<Rightarrow> check_counter \<Rightarrow> 's \<Rightarrow> check_counter \<times> 's \<times> ('e + jtext)" where
  "run_check_tool show_error run on_run can_propose oc tx rc0 s =
     (case oc of
        None \<Rightarrow> (rc0, s, Inr (if can_propose then NO_CHECK_YET else NO_CHECK_HERE))
      | Some oracle_now \<Rightarrow>
          (let rc = count_for tx rc0 in
           if rc_runs rc \<ge> MAX_CHECKS_PER_TRANSACTION then (rc, s, Inr TOO_MANY_CHECKS)
           else let rc' = rc\<lparr>rc_runs := Suc (rc_runs rc)\<rparr> in
             (case run s of
                (s1, Inl e) \<Rightarrow> (rc', s1, Inr (check_not_run (show_error e)))
              | (s1, Inr v) \<Rightarrow>
                  (case on_run v oracle_now s1 of
                     (s2, Inl e) \<Rightarrow> (rc', s2, Inl e)
                   | (s2, Inr added) \<Rightarrow>
                       (rc', s2, Inr (join_with [10, 10] (filter (\<lambda>t. t \<noteq> [])
                          (describe_check_run v (o_label oracle_now) #
                           (case added of Some t \<Rightarrow> [t] | None \<Rightarrow> []))))))))) "

section \<open>What a streak counts\<close>

text \<open>What reaches the counter: a check with its outcome, or a change, each with the transaction it falls in.\<close>

datatype stalled_call = Check_Ran bool | File_Changed

fun stalled_step :: "nat option \<Rightarrow> nat option \<Rightarrow> nat \<times> stalled_call \<Rightarrow> stalled \<Rightarrow> stalled" where
  "stalled_step most at_count (tx, Check_Ran passed) s = fst (stalled_checked most at_count tx passed s)"
| "stalled_step most at_count (tx, File_Changed) s = stalled_changed tx s"

text \<open>The checks that failed in a transaction since its last change or pass.\<close>

definition failed_since_change :: "nat \<Rightarrow> (nat \<times> stalled_call) list \<Rightarrow> nat" where
  "failed_since_change tx es = length (takeWhile (\<lambda>e. e = (tx, Check_Ran False)) (rev es))"

lemma stalled_checked_fields [simp]:
  "st_seen (fst (stalled_checked most at_count tx passed s)) = tx"
  "st_streak (fst (stalled_checked most at_count tx passed s)) =
     (if passed then 0 else Suc (st_streak (sync_stalled tx s)))"
  by (simp_all add: stalled_checked_def sync_stalled_def Let_def)

lemma sync_streak: "st_streak (sync_stalled tx s) = (if tx = st_seen s then st_streak s else 0)"
  by (simp add: sync_stalled_def)

lemma stalled_changed_fields [simp]:
  "st_seen (stalled_changed tx s) = tx" "st_streak (stalled_changed tx s) = 0"
  by (simp_all add: stalled_changed_def sync_stalled_def)

lemma streak_counts:
  "st_streak (sync_stalled tx (fold (stalled_step most at_count) es (new_stalled tx0))) = failed_since_change tx es"
proof (induction es arbitrary: tx rule: rev_induct)
  case Nil
  show ?case by (simp add: failed_since_change_def new_stalled_def sync_stalled_def)
next
  case (snoc e es)
  obtain t call where e: "e = (t, call)" by (cases e)
  show ?case
  proof (cases call)
    case (Check_Ran passed)
    then show ?thesis using e snoc [of t] by (auto simp: failed_since_change_def sync_streak)
  next
    case File_Changed
    then show ?thesis using e by (auto simp: failed_since_change_def sync_streak)
  qed
qed

lemma checked_verdict:
  "snd (stalled_checked most at_count tx passed s) = Stalled_Settle \<longleftrightarrow>
   \<not> passed \<and> settle_at most at_count \<le> Suc (st_streak (sync_stalled tx s))"
  by (simp add: stalled_checked_def Let_def)

text \<open>C14: Whatever checks and changes came before, in whatever transactions, a check closes its transaction
  exactly when it fails and, with the checks of the same transaction that failed before it since the last change
  and the last pass, makes up the number at which the transaction is closed.\<close>

theorem stalled_settles_iff:
  "snd (stalled_checked most at_count tx passed (fold (stalled_step most at_count) es (new_stalled tx0))) = Stalled_Settle \<longleftrightarrow>
   \<not> passed \<and> settle_at most at_count \<le> Suc (failed_since_change tx es)"
  by (simp add: checked_verdict streak_counts)

section \<open>The nudge comes first\<close>

text \<open>With the thresholds the host does not raise by hand, a streak that has reached the nudge has had it.\<close>

definition warned :: "nat option \<Rightarrow> stalled \<Rightarrow> bool" where
  "warned most s = (nudge_at most \<le> st_streak s \<longrightarrow> st_nudged s \<or> nudge_at most = 0)"

lemma settle_after_nudge: "nudge_at most < settle_at most None"
  by (simp add: settle_at_def)

lemma warned_step: "warned most s \<Longrightarrow> warned most (stalled_step most None e s)"
proof (cases e)
  case (Pair t call)
  assume w: "warned most s"
  have "st_streak (sync_stalled t s) \<le> st_streak s" by (simp add: sync_streak)
  have sync: "warned most (sync_stalled t s)" using w by (auto simp: warned_def sync_stalled_def)
  show ?thesis
  proof (cases call)
    case (Check_Ran passed)
    have "\<not> passed \<Longrightarrow> settle_at most None \<le> Suc (st_streak (sync_stalled t s)) \<Longrightarrow>
        nudge_at most \<le> st_streak (sync_stalled t s)"
      using settle_after_nudge [of most] by simp
    then show ?thesis
      using Pair Check_Ran sync by (auto simp: warned_def stalled_checked_def Let_def)
  next
    case File_Changed
    then show ?thesis using Pair by (auto simp: warned_def)
  qed
qed

interpretation stall_warning: invariant_machine "stalled_step most None" "warned most" for most
  by unfold_locales (rule warned_step)

lemma settled_was_nudged:
  assumes "snd (stalled_checked most None tx passed (fold (stalled_step most None) es (new_stalled tx0))) = Stalled_Settle"
    and "nudge_at most \<noteq> 0"
  shows "st_nudged (sync_stalled tx (fold (stalled_step most None) es (new_stalled tx0)))"
proof -
  let ?s = "fold (stalled_step most None) es (new_stalled tx0)"
  have "warned most ?s"
    by (rule stall_warning.run_inv) (use assms in \<open>simp add: warned_def new_stalled_def\<close>)
  moreover have "nudge_at most \<le> st_streak (sync_stalled tx ?s)"
    using assms(1) settle_after_nudge [of most] by (simp add: checked_verdict)
  ultimately show ?thesis using assms(2) by (auto simp: warned_def sync_stalled_def split: if_splits)
qed

section \<open>What the gate holds\<close>

text \<open>A transaction's edits in order, each with the iteration of its turn: which are refused.\<close>

fun gate_edits :: "jtext \<Rightarrow> nat \<Rightarrow> nat list \<Rightarrow> check_gate \<Rightarrow> bool list" where
  "gate_edits label tx [] g = []"
| "gate_edits label tx (i # is) g =
     (case gate_edit label tx i g of (g', told) \<Rightarrow> (told \<noteq> None) # gate_edits label tx is g')"

lemma held_gate_edits:
  "cg_seen g = tx \<Longrightarrow> cg_held g \<Longrightarrow> cg_held_iteration g = Some i0 \<Longrightarrow>
   gate_edits label tx is g = map (\<lambda>i. i = i0) is"
  by (induction "is") (auto simp: gate_edit_def sync_gate_def Let_def)

text \<open>Of the edits of a transaction the gate refuses those of the turn that made the first one, all of them,
  and every later edit whose turn has the same number, which a later run of the session counts again from one.\<close>

theorem first_turn_is_held:
  assumes "cg_seen g \<noteq> tx"
  shows "gate_edits label tx is g = map (\<lambda>i. i = hd is) is"
proof (cases "is")
  case (Cons i js)
  have "gate_edits label tx js \<lparr>cg_seen = tx, cg_check_run = False, cg_held = True, cg_held_iteration = Some i\<rparr> =
      map (\<lambda>j. j = i) js"
    by (rule held_gate_edits) simp_all
  then show ?thesis
    using Cons assms by (simp add: gate_edit_def sync_gate_def Let_def new_gate_def)
qed simp

theorem first_turn_is_held_witness:
  "gate_edits (js ''make'') 2 [3, 3, 4, 5, 3] (new_gate 1) = [True, True, False, False, True]"
  using first_turn_is_held [of "new_gate 1" 2 "js ''make''" "[3, 3, 4, 5, 3]"] by (simp add: new_gate_def)

end
