(* ===== verification/CheckProposals.thy ===== *)
theory CheckProposals
  imports Checks TransactionUndo
begin

text \<open>
  A check the model proposes: \<open>sdk/packages/core/src/runtime/atomic/proposal.ts\<close> and
  \<open>propose-check-tool.ts\<close>. Reading a proposal off the call, judging the verdict a candidate gives on
  the unmodified files, and the tool that asks the user and adopts the check. \<open>path.relative\<close> after
  \<open>path.resolve\<close> (\<open>relative\<close>), \<open>path.isAbsolute\<close> and the error of \<open>new RegExp\<close> are parameters.
\<close>

section \<open>Proposals\<close>

datatype proposal_kind = Page_Kind | Command_Kind

record check_proposal =
  cp_kind :: proposal_kind
  cp_path :: "jtext option"
  cp_command :: "jtext option"
  cp_expect :: "jtext option"
  cp_reason :: jtext

definition MAX_CHECK_PROPOSALS :: nat where
  "MAX_CHECK_PROPOSALS = 2"

definition DEFAULT_CHECK_RECONSIDERED_AFTER :: int where
  "DEFAULT_CHECK_RECONSIDERED_AFTER = 2"

text \<open>\<open>fieldOf(raw[name])\<close> of the call's input.\<close>

definition field_of :: "json \<Rightarrow> jtext \<Rightarrow> jtext option" where
  "field_of input name =
     (case input of
        JObj ms \<Rightarrow> (case map_of ms name of Some (JStr s) \<Rightarrow> said (Some s) | _ \<Rightarrow> None)
      | _ \<Rightarrow> None)"

definition inside_workspace :: "(jtext \<Rightarrow> jtext) \<Rightarrow> (jtext \<Rightarrow> bool) \<Rightarrow> jtext \<Rightarrow> bool" where
  "inside_workspace relative is_absolute candidate =
     (let r = relative candidate in r \<noteq> [] \<and> \<not> starts (js ''..'') r \<and> \<not> is_absolute r)"

definition ends_with :: "jtext \<Rightarrow> jtext \<Rightarrow> bool" where
  "ends_with t s = (drop (length t - length s) t = s)"

text \<open>\<open>/\.(html?|js|cjs)$/i\<close>.\<close>

definition page_name :: "jtext \<Rightarrow> bool" where
  "page_name f = list_ex (ends_with (ascii_lower f)) [js ''.htm'', js ''.html'', js ''.js'', js ''.cjs'']"

definition read_page_proposal ::
    "(jtext \<Rightarrow> jtext) \<Rightarrow> (jtext \<Rightarrow> bool) \<Rightarrow> json \<Rightarrow> jtext \<Rightarrow> jtext + check_proposal" where
  "read_page_proposal relative is_absolute input reason =
     (case field_of input (js ''path'') of
        None \<Rightarrow> Inl (js ''`path` is missing. Name the file to load, relative to the workspace root.'')
      | Some f \<Rightarrow>
          if \<not> inside_workspace relative is_absolute f then Inl (js ''`path` must be inside the workspace. `'' @
          f @
          js ''` is not.'')
          else if \<not> page_name f then Inl (js ''This check loads a page or a script: `'' @
          f @
          js ''` is neither. Use `kind: '' @
          [34] @
          js ''command'' @
          [34] @
          js ''` for anything else.'')
          else Inr \<lparr>cp_kind = Page_Kind, cp_path = Some f, cp_command = None, cp_expect = None, cp_reason = reason\<rparr>)"

definition read_command_proposal :: "(jtext \<Rightarrow> jtext option) \<Rightarrow> json \<Rightarrow> jtext \<Rightarrow> jtext + check_proposal" where
  "read_command_proposal regex_error input reason =
     (case field_of input (js ''command'') of
        None \<Rightarrow> Inl (js ''`command` is missing. Give the exact line to run.'')
      | Some cmd \<Rightarrow>
          (let e = field_of input (js ''expect'') in
           case Option.bind e regex_error of
             Some message \<Rightarrow> Inl (js ''`expect` is not a valid regular expression: '' @
             message @
             js ''. It is matched against the output in this process, so it is a pattern and never a '' @
             js ''command.'')
           | None \<Rightarrow> Inr \<lparr>cp_kind = Command_Kind, cp_path = None, cp_command = Some cmd, cp_expect = e, cp_reason = reason\<rparr>))"

definition read_check_proposal ::
    "(jtext \<Rightarrow> jtext) \<Rightarrow> (jtext \<Rightarrow> bool) \<Rightarrow> (jtext \<Rightarrow> jtext option) \<Rightarrow> json \<Rightarrow> jtext + check_proposal" where
  "read_check_proposal relative is_absolute regex_error input =
     (case field_of input (js ''reason'') of
        None \<Rightarrow> Inl (js ''`reason` is missing. Say what this check demonstrates about the task, in one sentence '' @
        [EM_DASH] @
        js '' the user reads it to decide.'')
      | Some reason \<Rightarrow>
          (let page = read_page_proposal relative is_absolute input reason;
               cmd = read_command_proposal regex_error input reason;
               names_path = field_of input (js ''path'') \<noteq> None;
               names_command = field_of input (js ''command'') \<noteq> None
           in case field_of input (js ''kind'') of
                Some d \<Rightarrow>
                  if d = js ''page'' then page
                  else if d = js ''command'' then cmd
                  else Inl (js ''`kind` must be '' @
                           [34] @
                           js ''page'' @
                           [34] @
                           js '' (load a file and run it '' @
                           [EM_DASH] @
                           js '' needs nothing installed) or '' @
                           [34] @
                           js ''command'' @
                           [34] @
                           js '' (a line for the shell). `'' @
                           d @
                           js ''` is neither.'')
              | None \<Rightarrow>
                  if names_path \<and> \<not> names_command then page
                  else if names_command \<and> \<not> names_path then cmd
                  else if names_path \<and> names_command
                  then Inl (js ''This proposal gives both `path` and `command`, so it is two different checks. Set '' @
                           js ''`kind` to '' @
                           [34] @
                           js ''page'' @
                           [34] @
                           js '' or '' @
                           [34] @
                           js ''command'' @
                           [34] @
                           js '' to say which one you mean.'')
                  else Inl (js ''`kind` must be '' @
                           [34] @
                           js ''page'' @
                           [34] @
                           js '' (load a file and run it '' @
                           [EM_DASH] @
                           js '' needs nothing installed) or '' @
                           [34] @
                           js ''command'' @
                           [34] @
                           js '' (a line for the shell), and the proposal needs the matching `path` or `command` with it.'')))"

definition describe_check_proposal :: "check_proposal \<Rightarrow> jtext" where
  "describe_check_proposal p =
     (let lead = (js ''Cline runs this itself after every attempt, start to finish. You are not asked to '' @
                 js ''test anything, now or later.'')
      in join_lines
        (if cp_kind p = Page_Kind then
           [lead, [],
            (js ''It loads `'' @
            opt_default (js ''undefined'') (cp_path p) @
            js ''` here in Cline '' @
            [EM_DASH] @
            js '' no browser window opens '' @
            [EM_DASH] @
            js '' runs its scripts, and fails if the file does not parse, throws, or never draws a frame.''), [],
            (js ''Cline's reason for choosing it: '' @
            cp_reason p)]
         else
           [lead, [],
            js ''It runs this command, unattended, and judges the change by it:'',
            (js ''    '' @
            opt_default (js ''undefined'') (cp_command p)),
            (case cp_expect p of
               Some e \<Rightarrow> (js ''It has to finish cleanly AND its output has to match /'' @
               e @
               js ''/.'')
             | None \<Rightarrow> js ''It has to finish cleanly.''),
            [],
            (js ''Cline's reason for choosing it: '' @
            cp_reason p)]))"

definition APPROVED_REASON :: jtext where
  "APPROVED_REASON = js ''proposed for this task and approved by you''"

definition proposal_to_oracle :: "bool \<Rightarrow> jtext \<Rightarrow> check_proposal \<Rightarrow> check_oracle" where
  "proposal_to_oracle win dir p =
     (if cp_kind p = Page_Kind then
        Page (js ''load `'' @
             opt_default (js ''undefined'') (cp_path p) @
             js ''` and check that it runs'') dir APPROVED_REASON (opt_default [] (cp_path p)) None
      else let line = opt_default [] (cp_command p)
        in Command line dir APPROVED_REASON (if win then js ''cmd'' else js ''sh'')
             (if win then [js ''/c'', line] else [js ''-c'', line]) (cp_expect p) None)"

definition same_proposal :: "check_proposal \<Rightarrow> check_proposal \<Rightarrow> bool" where
  "same_proposal a b =
     (cp_kind a = cp_kind b \<and> cp_path a = cp_path b \<and> cp_command a = cp_command b \<and> cp_expect a = cp_expect b)"

section \<open>A candidate's verdict\<close>

text \<open>Some position of a text where a predicate holds of what follows, and of the character before it.\<close>

fun somewhere :: "(16 word option \<Rightarrow> jtext \<Rightarrow> bool) \<Rightarrow> 16 word option \<Rightarrow> jtext \<Rightarrow> bool" where
  "somewhere P before [] = P before []"
| "somewhere P before (c # cs) = (P before (c # cs) \<or> somewhere P (Some c) cs)"

text \<open>\<open>SyntaxError\<close> after at most \<open>n\<close> further characters.\<close>

definition syntax_error_within :: "nat \<Rightarrow> jtext \<Rightarrow> bool" where
  "syntax_error_within n t = list_ex (\<lambda>i. starts (js ''SyntaxError'') (drop i t)) [0..<Suc (min n (length t))]"

text \<open>\<open>[eval]:\<close> and a number, then the error: the digits may be given back, all but one.\<close>

definition node_program_error :: "16 word option \<Rightarrow> jtext \<Rightarrow> bool" where
  "node_program_error before t =
     list_ex (\<lambda>h. starts h t \<and>
         (let r = drop (length h) t; ds = length (takeWhile is_digit r)
          in ds > 0 \<and> syntax_error_within (ds - 1 + 2000) (drop 1 r)))
       [js ''[eval]:'', js ''[stdin]:'', js ''[worker eval]:'']"

definition shell_line_error :: "16 word option \<Rightarrow> jtext \<Rightarrow> bool" where
  "shell_line_error before t =
     ((before = None \<or> before = Some 10) \<and>
      list_ex (\<lambda>h. starts h t \<and>
         (let r = drop (length h) t; ds = length (takeWhile is_digit r)
          in ds > 0 \<and> starts (js '': syntax error'') (drop ds r)))
       [js ''sh: line '', js ''sh: -c: line '', js ''bash: line '', js ''bash: -c: line '',
        js ''dash: line '', js ''dash: -c: line '', js ''zsh: line '', js ''zsh: -c: line ''])"

definition python_program_error :: "16 word option \<Rightarrow> jtext \<Rightarrow> bool" where
  "python_program_error before t =
     (let h = js ''File '' @ [34] @ js ''<string>'' @ [34]
      in starts h t \<and> syntax_error_within 2000 (drop (length h) t))"

definition read_broken_check :: "oracle_verdict \<Rightarrow> jtext option" where
  "read_broken_check v =
     (if v_exit_code v = Some 127 then Some (js ''the command was not found on this machine'')
      else if somewhere node_program_error None (v_output v) then Some (js ''node could not parse the program given to `-e`'')
      else if somewhere shell_line_error None (v_output v) then Some (js ''the shell could not parse the line'')
      else if contains_text (js ''syntax error near unexpected token'') (v_output v) \<or>
              contains_text (js ''unexpected EOF while looking for matching'') (v_output v)
      then Some (js ''the shell could not parse the line'')
      else if somewhere python_program_error None (v_output v) then Some (js ''python could not parse the program given to `-c`'')
      else None)"

definition said_or_none :: "oracle_verdict \<Rightarrow> jtext" where
  "said_or_none v = (if trim (v_output v) = [] then js ''no output'' else trim (v_output v))"

text \<open>Nothing if the candidate is usable, else the problem with it.\<close>

definition judge_candidate_check :: "oracle_verdict \<Rightarrow> check_proposal \<Rightarrow> jtext option" where
  "judge_candidate_check v p =
     (if v_passed v then
        (if cp_kind p = Command_Kind \<and> cp_expect p = None
         then Some (js ''That check exited cleanly on the files as they were before any edit, and with no '' @
                   js ''`expect` its exit code is the whole verdict '' @
                   [EM_DASH] @
                   js '' so it would keep any change at all. It printed: '' @
                   said_or_none v @
                   js ''. Propose it again with an `expect` that matches only the output of a working state.'')
         else Some (js ''That check already passes on the files as they were before any edit, so it cannot '' @
                   js ''tell a fix from no fix at all. Propose one that fails right now and passes once the '' @
                   js ''change lands.''))
      else if v_timed_out v then Some (js ''That check did not finish in the time it is given, so it cannot judge an attempt. '' @
      js ''Propose something faster.'')
      else if v_exit_code v = None then Some (js ''That check could not be run here at all, so it would judge nothing: '' @
      said_or_none v @
      js ''. Propose something that exists on this machine '' @
      [EM_DASH] @
      js '' `kind: '' @
      [34] @
      js ''page'' @
      [34] @
      js ''` needs nothing installed.'')
      else map_option (\<lambda>what. (js ''That check did not run: '' @
      what @
      js '', so it would fail on any files at all, fixed or not. It said: '' @
      said_or_none v @
      js ''. Fix the check itself, or propose a simpler one '' @
      [EM_DASH] @
      js '' `kind: '' @
      [34] @
      js ''page'' @
      [34] @
      js ''` needs nothing quoted or escaped.'')) (read_broken_check v))"

section \<open>The tool\<close>

record propose_state =
  ps_spent :: nat
  ps_in_force :: "check_proposal option"
  ps_granted :: nat
  ps_granted_for :: bool

definition new_propose_state :: propose_state where
  "new_propose_state = \<lparr>ps_spent = 0, ps_in_force = None, ps_granted = 0, ps_granted_for = False\<rparr>"

text \<open>What asking the user gives: an exception, a refusal with or without words, an approval.\<close>

datatype approval = Approval_Threw | Declined "jtext option" | Approved

definition CHECK_IS_FROZEN :: jtext where
  "CHECK_IS_FROZEN = (js ''This run already has a check and it is frozen for the rest of the run. Make your '' @
                     js ''change and let the check judge it.'')"

definition NO_ROUNDS_LEFT :: jtext where
  "NO_ROUNDS_LEFT = (js ''Every proposal this run allows has been put to the user without one being taken on, '' @
                    js ''so it has no check and your own account of the work is the verdict. Do not propose '' @
                    js ''again '' @
                    [EM_DASH] @
                    js '' say plainly whether the change worked and how you know.'')"

definition SAME_CHECK_AGAIN :: jtext where
  "SAME_CHECK_AGAIN = (js ''That is the check this run already has. It is being reconsidered because it has '' @
                      js ''never passed '' @
                      [EM_DASH] @
                      js '' propose a different one, or say the check is right and carry on fixing the change.'')"

definition LAST_ROUND :: jtext where
  "LAST_ROUND = (js ''That was the last round, so this run has no check and your own account of the work '' @
                js ''is the verdict.'')"

definition PROPOSE_ONE_MORE :: jtext where
  "PROPOSE_ONE_MORE = (js ''Propose one more, taking that into account. If you cannot think of a better one, '' @
                      js ''carry on without a check and say so.'')"

definition declined_text :: "nat \<Rightarrow> jtext option \<Rightarrow> jtext" where
  "declined_text spent feedback = join_with [32]
     ([js ''The user did not approve that check.''] @
      (case said feedback of Some t \<Rightarrow> [(js ''They said: '' @
      t)] | None \<Rightarrow> []) @
      [if int MAX_CHECK_PROPOSALS - int spent > 0 then PROPOSE_ONE_MORE else LAST_ROUND])"

definition unusable_text :: "nat \<Rightarrow> jtext \<Rightarrow> jtext" where
  "unusable_text spent problem = join_with [32]
     [(js ''The user approved that check, but it was tried against the files as they were '' @
      js ''before your changes and it does not work as a check. '' @
      problem),
      if int MAX_CHECK_PROPOSALS - int spent > 0 then js ''Propose one more.'' else LAST_ROUND]"

definition adopted_text :: "check_oracle \<Rightarrow> jtext" where
  "adopted_text oc = join_with [32]
     [(js ''Approved. Every attempt from here is judged by: '' @
      o_label oc @
      js ''.''),
      (js ''Run it whenever you want with `run_check` '' @
      [EM_DASH] @
      js '' it settles nothing and rolls nothing back '' @
      [EM_DASH] @
      js '' and it is run once more when you finish, where it decides rather than your account '' @
      js ''of the change.''),
      (js ''It is fixed for the rest of the run, so make the change work rather than proposing '' @
      js ''something easier '' @
      [EM_DASH] @
      js '' if it turns out never to pass at all, you will be asked about it rather than '' @
      js ''getting to swap it now.'')]"

text \<open>The round that reconsidering grants, once while it lasts.\<close>

definition grant_round :: "controller \<Rightarrow> propose_state \<Rightarrow> propose_state" where
  "grant_round c ps =
     (if reconsidering c
      then (if ps_granted_for ps then ps else ps\<lparr>ps_granted := Suc (ps_granted ps), ps_granted_for := True\<rparr>)
      else ps\<lparr>ps_granted_for := False\<rparr>)"

definition adopt_proposal ::
    "tx_options \<Rightarrow> check_proposal \<Rightarrow> check_oracle \<Rightarrow> propose_state \<Rightarrow> controller \<Rightarrow>
     propose_state \<times> controller \<times> jtext" where
  "adopt_proposal ops p oc ps c =
     (case adopt_oracle ops oc c of
        (c', Inl e) \<Rightarrow> (ps, c', (js ''That check was approved but could not be taken on, so the run keeps the check it '' @
        js ''already had.''))
      | (c', Inr u) \<Rightarrow> (ps\<lparr>ps_in_force := Some p\<rparr>, c', adopted_text oc))"

text \<open>
  \<open>execute\<close>: \<open>most\<close> is \<open>options.maxProposals\<close>, \<open>answer\<close> what the user says, \<open>against\<close> the controller's
  \<open>judgeAgainstBase\<close>.
\<close>

definition propose_check ::
    "(jtext \<Rightarrow> jtext) \<Rightarrow> (jtext \<Rightarrow> bool) \<Rightarrow> (jtext \<Rightarrow> jtext option) \<Rightarrow> bool \<Rightarrow> jtext \<Rightarrow> nat option \<Rightarrow> tx_options \<Rightarrow>
     (check_oracle \<Rightarrow> controller \<Rightarrow> controller \<times> (tx_error + oracle_verdict)) \<Rightarrow> approval \<Rightarrow> json \<Rightarrow>
     propose_state \<Rightarrow> controller \<Rightarrow> propose_state \<times> controller \<times> jtext" where
  "propose_check relative is_absolute regex_error win dir most ops against answer input ps0 c =
     (let ps = grant_round c ps0 in
      if \<not> can_adopt_oracle ops c then (ps, c, CHECK_IS_FROZEN)
      else if ps_spent ps \<ge> opt_default MAX_CHECK_PROPOSALS most + ps_granted ps then (ps, c, NO_ROUNDS_LEFT)
      else case read_check_proposal relative is_absolute regex_error input of
        Inl problem \<Rightarrow> (ps, c, (js ''That proposal cannot be used. '' @
        problem))
      | Inr p \<Rightarrow>
          if reconsidering c \<and> (case ps_in_force ps of Some q \<Rightarrow> same_proposal q p | None \<Rightarrow> False)
          then (ps, c, SAME_CHECK_AGAIN)
          else (case answer of
             Approval_Threw \<Rightarrow> (ps, c, (js ''The user could not be asked about that check, so the run continues without one. Say '' @
             js ''plainly whether your change worked and how you know.''))
           | Declined feedback \<Rightarrow>
               (let ps' = ps\<lparr>ps_spent := Suc (ps_spent ps)\<rparr> in (ps', c, declined_text (ps_spent ps') feedback))
           | Approved \<Rightarrow>
               (let oc = proposal_to_oracle win dir p in
                case against oc c of
                  (c', Inr v) \<Rightarrow>
                    (case judge_candidate_check v p of
                       Some problem \<Rightarrow>
                         (let ps' = ps\<lparr>ps_spent := Suc (ps_spent ps)\<rparr> in (ps', c', unusable_text (ps_spent ps') problem))
                     | None \<Rightarrow> adopt_proposal ops p oc ps c')
                | (c', Inl e) \<Rightarrow> adopt_proposal ops p oc ps c')))"

section \<open>What is adopted\<close>

lemma against_keeps_check:
  "judge_against_base sha through ops run stamp0 stamp1 oc c = (c', x) \<Longrightarrow>
   adopted c' = adopted c \<and> reconsidering c' = reconsidering c"
  by (auto simp: judge_against_base_def carry_stamps_def Let_def split: option.splits if_splits prod.splits sum.splits)

lemma usable_check:
  "judge_candidate_check v p = None \<Longrightarrow>
   \<not> v_passed v \<and> \<not> v_timed_out v \<and> v_exit_code v \<noteq> None \<and> v_exit_code v \<noteq> Some 127"
  by (auto simp: judge_candidate_check_def read_broken_check_def split: if_splits)

lemma adopt_proposal_result:
  "adopt_proposal ops p oc ps c = (ps', c', msg) \<Longrightarrow> adopted c' = adopted c \<or> adopted c' = Some oc"
  by (auto simp: adopt_proposal_def adopt_oracle_def split: if_splits)

lemma propose_adopts:
  assumes "propose_check relative is_absolute regex_error win dir most ops
      (judge_against_base sha through ops run stamp0 stamp1) answer input ps c = (ps', c', msg)"
    and "adopted c' \<noteq> adopted c"
  obtains p c1 x where "answer = Approved" "can_adopt_oracle ops c"
    "read_check_proposal relative is_absolute regex_error input = Inr p"
    "judge_against_base sha through ops run stamp0 stamp1 (proposal_to_oracle win dir p) c = (c1, x)"
    "\<And>v. x = Inr v \<Longrightarrow> judge_candidate_check v p = None"
    "adopted c' = Some (proposal_to_oracle win dir p)"
proof -
  obtain p where p: "answer = Approved" "can_adopt_oracle ops c"
    "read_check_proposal relative is_absolute regex_error input = Inr p"
    using assms by (auto simp: propose_check_def Let_def split: if_splits sum.splits approval.splits)
  obtain c1 x where a: "judge_against_base sha through ops run stamp0 stamp1 (proposal_to_oracle win dir p) c = (c1, x)"
    by (cases "judge_against_base sha through ops run stamp0 stamp1 (proposal_to_oracle win dir p) c") auto
  note kept = against_keeps_check [OF a]
  have "(\<forall>v. x = Inr v \<longrightarrow> judge_candidate_check v p = None) \<and> adopted c' = Some (proposal_to_oracle win dir p)"
  proof (cases x)
    case (Inl e)
    then show ?thesis
      using assms p a kept adopt_proposal_result
      by (auto simp: propose_check_def Let_def split: if_splits) (metis adopt_proposal_result)+
  next
    case (Inr v)
    then show ?thesis
      using assms p a kept
      by (auto simp: propose_check_def Let_def split: if_splits option.splits) (metis adopt_proposal_result)+
  qed
  then show thesis using that p a by blast
qed

text \<open>C16: A check the model proposes comes into force only if the user approved it, none was in force or the one
  in force is being reconsidered, and, where it could be tried on the files as they were before the edits, it
  ran there to its end and failed.\<close>

theorem adopted_check_failed_first:
  assumes "propose_check relative is_absolute regex_error win dir most ops
      (judge_against_base sha through ops run stamp0 stamp1) answer input ps c = (ps', c', msg)"
    and "adopted c' \<noteq> adopted c"
  shows "answer = Approved \<and> can_adopt_oracle ops c \<and>
    (\<exists>p. read_check_proposal relative is_absolute regex_error input = Inr p \<and>
       adopted c' = Some (proposal_to_oracle win dir p) \<and>
       (\<forall>c1 v. judge_against_base sha through ops run stamp0 stamp1 (proposal_to_oracle win dir p) c = (c1, Inr v) \<longrightarrow>
          \<not> v_passed v \<and> \<not> v_timed_out v \<and> v_exit_code v \<noteq> None \<and> v_exit_code v \<noteq> Some 127))"
proof -
  obtain p c1 x where p: "answer = Approved" "can_adopt_oracle ops c"
    "read_check_proposal relative is_absolute regex_error input = Inr p"
    "judge_against_base sha through ops run stamp0 stamp1 (proposal_to_oracle win dir p) c = (c1, x)"
    "\<And>v. x = Inr v \<Longrightarrow> judge_candidate_check v p = None" "adopted c' = Some (proposal_to_oracle win dir p)"
    using propose_adopts [OF assms] by blast
  show ?thesis using p usable_check [OF p(5)] by auto
qed

text \<open>The number of rounds the caller asks for is not the number the texts count: with one round, a refusal
  asks for another proposal, and every other call is turned away.\<close>

lemma one_round_is_not_the_last:
  assumes "can_adopt_oracle ops c" "\<not> reconsidering c"
    and "read_check_proposal relative is_absolute regex_error input = Inr p"
    and "propose_check relative is_absolute regex_error win dir (Some 1) ops against (Declined None) input
           new_propose_state c = (ps', c', msg)"
  shows "c' = c \<and> msg = join_with [32] [js ''The user did not approve that check.'', PROPOSE_ONE_MORE] \<and>
    propose_check relative is_absolute regex_error win dir (Some 1) ops against answer input' ps' c =
      (ps', c, NO_ROUNDS_LEFT)"
  using assms
  by (auto simp: propose_check_def Let_def new_propose_state_def grant_round_def declined_text_def said_def
      MAX_CHECK_PROPOSALS_def)

definition SAMPLE_PROPOSAL :: json where
  "SAMPLE_PROPOSAL = JObj [(js ''kind'', JStr (js ''command'')), (js ''command'', JStr (js ''make'')),
     (js ''reason'', JStr (js ''it builds''))]"

definition SAMPLE_READ :: check_proposal where
  "SAMPLE_READ = \<lparr>cp_kind = Command_Kind, cp_path = None, cp_command = Some (js ''make''), cp_expect = None,
     cp_reason = js ''it builds''\<rparr>"

lemma sample_proposal: "read_check_proposal id (\<lambda>p. False) (\<lambda>e. None) SAMPLE_PROPOSAL = Inr SAMPLE_READ"
  by (simp add: read_check_proposal_def read_command_proposal_def field_of_def SAMPLE_PROPOSAL_def SAMPLE_READ_def
      said_def js_def trim_def trim_left_def is_space_def word_le_nat_alt)

lemma sample_usable: "judge_candidate_check SAMPLE_VERDICT p = None"
  by (simp add: judge_candidate_check_def SAMPLE_VERDICT_def read_broken_check_def js_def contains_text_def
      node_program_error_def shell_line_error_def python_program_error_def starts_def word_le_nat_alt)

theorem adopted_check_failed_first_witness:
  "\<exists>ps c' msg. propose_check id (\<lambda>p. False) (\<lambda>e. None) False [] None (sample_options None)
       (judge_against_base sample_sha no_through (sample_options None) sample_run (\<lambda>p. None) (\<lambda>p. None))
       Approved SAMPLE_PROPOSAL new_propose_state sample_open = (ps, c', msg) \<and>
     adopted c' = Some (proposal_to_oracle False [] SAMPLE_READ)"
proof -
  let ?oc = "proposal_to_oracle False [] SAMPLE_READ"
  let ?against = "judge_against_base sample_sha no_through (sample_options None) sample_run (\<lambda>p. None) (\<lambda>p. None)"
  have "\<exists>c1 d1. ?against ?oc sample_open = (c1, Inr (fst (sample_run ?oc d1))) \<and> scan_view d1 = scan_view SAMPLE_START \<and>
    (if scan_view (disk sample_open) = scan_view SAMPLE_START then disk c1 = snd (sample_run ?oc (disk sample_open))
     else scan_view (disk c1) = scan_view (disk sample_open))"
    by (rule base_check [where A = SAMPLE_PATHS and m = 4])
      (simp_all add: sample_covered, simp add: sample_run_def)
  then obtain c1 where base: "?against ?oc sample_open = (c1, Inr SAMPLE_VERDICT)"
    by (auto simp: sample_run_def)
  have free: "can_adopt_oracle (sample_options None) sample_open" "can_adopt_oracle (sample_options None) c1"
    using against_keeps_check [OF base] by (simp_all add: can_adopt_oracle_def oracle_of_def)
  obtain ps c' msg where run: "propose_check id (\<lambda>p. False) (\<lambda>e. None) False [] None (sample_options None) ?against
       Approved SAMPLE_PROPOSAL new_propose_state sample_open = (ps, c', msg)"
    by (cases "propose_check id (\<lambda>p. False) (\<lambda>e. None) False [] None (sample_options None) ?against
       Approved SAMPLE_PROPOSAL new_propose_state sample_open") auto
  have "adopted c' = Some ?oc"
    using run free
    by (auto simp: propose_check_def Let_def sample_proposal sample_usable base new_propose_state_def grant_round_def
        MAX_CHECK_PROPOSALS_def adopt_proposal_def adopt_oracle_def split: if_splits option.splits)
  then have "adopted c' \<noteq> adopted sample_open" by simp
  from adopted_check_failed_first [OF run this] run show ?thesis
    by (auto simp: sample_proposal)
qed

end
