(* ===== verification/PlanTool.thy ===== *)
theory PlanTool
  imports Protocol Json PatchContext
begin

text \<open>
  The plan a task holds: \<open>sdk/packages/core/src/runtime/atomic/plan-tool.ts\<close>. Its items with what happened to them
  in the transactions that have closed, the texts that show them, and the tool. The number of the open
  transaction, which the tool reads off the controller at each call, is an argument.
\<close>

section \<open>Items\<close>

datatype item_status = Item_Pending | Item_Done | Item_Failed

record plan_attempt =
  pa_transaction :: nat
  pa_status :: item_status
  pa_note :: "jtext option"

record plan_item =
  pl_id :: nat
  pl_where :: jtext
  pl_what :: jtext
  pl_why :: jtext
  pl_status :: item_status
  pl_note :: "jtext option"
  pl_history :: "plan_attempt list"

definition MAX_FIELD_CHARS :: nat where
  "MAX_FIELD_CHARS = 400"

definition MAX_DECLARATIONS_PER_TRANSACTION :: nat where
  "MAX_DECLARATIONS_PER_TRANSACTION = 3"

text \<open>A member of what the call sends; what is no object has none.\<close>

definition json_member :: "json \<Rightarrow> jtext \<Rightarrow> json option" where
  "json_member v name = (case v of JObj ms \<Rightarrow> map_of ms name | _ \<Rightarrow> None)"

definition trim_field :: "json option \<Rightarrow> jtext" where
  "trim_field v = (case v of Some (JStr s) \<Rightarrow> take MAX_FIELD_CHARS (trim s) | _ \<Rightarrow> [])"

section \<open>How the plan reads\<close>

text \<open>A note is shown unless it is empty.\<close>

definition shown_note :: "jtext option \<Rightarrow> jtext option" where
  "shown_note n = (if n = Some [] then None else n)"

definition attempt_text :: "plan_attempt \<Rightarrow> jtext" where
  "attempt_text a =
     (if pa_status a = Item_Done then js ''landed'' else js ''failed'') @ js '' in '' @ tx_label (pa_transaction a) @
     (case shown_note (pa_note a) of Some t \<Rightarrow> js '' ('' @ t @ js '')'' | None \<Rightarrow> [])"

definition was_rolled_back :: "plan_item \<Rightarrow> bool" where
  "was_rolled_back it = (pl_status it = Item_Pending \<and> list_ex (\<lambda>a. pa_status a = Item_Done) (pl_history it))"

definition describe_item_history :: "plan_item \<Rightarrow> jtext" where
  "describe_item_history it =
     (if pl_history it = [] then []
      else js ''  '' @ [EM_DASH] @ js '' '' @ join_with (js ''; '') (map attempt_text (pl_history it)) @
           (if was_rolled_back it then js '', rolled back'' else []))"

definition status_mark :: "item_status \<Rightarrow> jtext" where
  "status_mark st = (case st of Item_Pending \<Rightarrow> js ''[ ]'' | Item_Done \<Rightarrow> js ''[x]'' | Item_Failed \<Rightarrow> js ''[!]'')"

text \<open>The attempts of the transaction that closed; whether one of them ended so.\<close>

definition attempts_in :: "nat \<Rightarrow> plan_item \<Rightarrow> plan_attempt list" where
  "attempts_in ended it = filter (\<lambda>a. pa_transaction a = ended) (pl_history it)"

definition ended_so :: "item_status \<Rightarrow> nat \<Rightarrow> plan_item \<Rightarrow> bool" where
  "ended_so st ended it = list_ex (\<lambda>a. pa_status a = st) (attempts_in ended it)"

definition item_name :: "plan_item \<Rightarrow> jtext" where
  "item_name it = js ''#'' @ decimal (pl_id it) @ js '' '' @ pl_what it"

definition noted_name :: "nat \<Rightarrow> plan_item \<Rightarrow> jtext" where
  "noted_name ended it =
     (case attempts_in ended it of
        [] \<Rightarrow> item_name it
      | a # as \<Rightarrow> (case shown_note (pa_note (last (a # as))) of
          Some t \<Rightarrow> item_name it @ js '' '' @ [EM_DASH] @ js '' '' @ t
        | None \<Rightarrow> item_name it))"

definition render_retrospective :: "plan_item list \<Rightarrow> nat \<Rightarrow> jtext" where
  "render_retrospective items ended =
     (let landed = filter (ended_so Item_Done ended) items;
          refused = filter (\<lambda>it. ended_so Item_Failed ended it \<and> \<not> ended_so Item_Done ended it) items;
          untouched = filter (\<lambda>it. attempts_in ended it = []) items
      in join_lines
        [(tx_label ended @
         js '' is closed and its edits are gone. What it established is not, and this is the '' @
         js ''record of it '' @
         [EM_DASH] @
         js '' you do not have to reconstruct it.''),
         [],
         (if landed \<noteq> [] then (js ''  WORKED   '' @
         join_with (js ''; '') (map (noted_name ended) landed) @
         js '' '' @
         [EM_DASH] @
         js '' these applied cleanly before the rollback, so the edit itself is known good.'')
          else js ''  WORKED   nothing was marked as landed.''),
         (if refused \<noteq> [] then (js ''  DID NOT  '' @
         join_with (js ''; '') (map (noted_name ended) refused))
          else js ''  DID NOT  nothing was marked as failed.''),
         (if untouched \<noteq> [] then (js ''  RE-USE   '' @
         join_with (js ''; '') (map item_name untouched) @
         js '' '' @
         [EM_DASH] @
         js '' never attempted, still open.'')
          else js ''  RE-USE   every item was attempted.''),
         (js ''  DIFFERENT  '' @
         [EM_DASH] @
         js '' yours to write. State it as the plan below, not as prose.'')])"

definition item_lines :: "plan_item \<Rightarrow> jtext" where
  "item_lines it = join_lines
     [status_mark (pl_status it) @ js '' '' @ decimal (pl_id it) @ js ''. '' @ pl_what it,
      js ''      where: '' @ pl_where it,
      js ''      why:   '' @ pl_why it @
        (case shown_note (pl_note it) of Some t \<Rightarrow> 10 # js ''      note: '' @ t | None \<Rightarrow> []) @ describe_item_history it]"

definition with_status :: "item_status \<Rightarrow> plan_item list \<Rightarrow> nat" where
  "with_status st items = length (filter (\<lambda>it. pl_status it = st) items)"

definition render_plan :: "plan_item list \<Rightarrow> nat \<Rightarrow> jtext" where
  "render_plan items tx =
     (if items = [] then js ''No plan stated yet. Send `changes` with the list of edits you intend to make.''
      else join_lines
        ([(js ''Plan for TX-'' @
          ((if tx < 10 then js ''0'' else []) @ decimal tx) @
          js '' '' @
          [EM_DASH] @
          js '' '' @
          decimal (length items) @
          js '' change'' @
          (if length items = 1 then [] else js ''s'') @
          js '': '' @
          decimal (with_status Item_Done items) @
          js '' landed, '' @
          decimal (with_status Item_Failed items) @
          js '' failed, '' @
          decimal (length items - with_status Item_Done items - with_status Item_Failed items) @
          js '' still to do.''),
          []] @ map item_lines items))"

section \<open>The tool\<close>

record plan_state =
  pt_items :: "plan_item list"
  pt_last :: nat
  pt_declarations :: nat
  pt_closed :: "nat option"

definition new_plan_state :: "nat \<Rightarrow> plan_state" where
  "new_plan_state tx = \<lparr>pt_items = [], pt_last = tx, pt_declarations = 0, pt_closed = None\<rparr>"

definition close_item :: "nat \<Rightarrow> plan_item \<Rightarrow> plan_item" where
  "close_item ended it =
     it\<lparr>pl_history := (if pl_status it \<noteq> Item_Pending
          then pl_history it @ [\<lparr>pa_transaction = ended, pa_status = pl_status it, pa_note = pl_note it\<rparr>]
          else pl_history it),
        pl_status := Item_Pending, pl_note := None\<rparr>"

definition roll_over :: "nat \<Rightarrow> plan_state \<Rightarrow> plan_state" where
  "roll_over ended s =
     s\<lparr>pt_items := map (close_item ended) (pt_items s), pt_declarations := 0,
       pt_closed := (if pt_items s \<noteq> [] then Some ended else pt_closed s)\<rparr>"

definition sync_plan :: "nat \<Rightarrow> plan_state \<Rightarrow> plan_state" where
  "sync_plan tx s = (if tx \<noteq> pt_last s then (roll_over (pt_last s) s)\<lparr>pt_last := tx\<rparr> else s)"

text \<open>The retrospective, if one is owed, before what the call says.\<close>

definition with_retrospective :: "plan_state \<Rightarrow> jtext \<Rightarrow> bool \<Rightarrow> plan_state \<times> jtext" where
  "with_retrospective s rest clearing =
     (case pt_closed s of
        None \<Rightarrow> (s, rest)
      | Some ended \<Rightarrow>
          (if clearing then s\<lparr>pt_closed := None\<rparr> else s, render_retrospective (pt_items s) ended @ [10, 10] @ rest))"

text \<open>\<open>Number.isInteger\<close> on the text \<open>String\<close> gives a number.\<close>

definition integer_text :: "jtext \<Rightarrow> bool" where
  "integer_text t = (contains_text (js ''e+'') t \<or> list_all (\<lambda>c. is_digit c \<or> c = 45) t)"

definition status_word :: "item_status \<Rightarrow> jtext" where
  "status_word st = (if st = Item_Done then js ''done'' else js ''failed'')"

definition set_status :: "nat \<Rightarrow> item_status \<Rightarrow> jtext \<Rightarrow> plan_item list \<Rightarrow> plan_item list" where
  "set_status i st note_text items =
     items[i := (items ! i)\<lparr>pl_status := st, pl_note := (if note_text = [] then None else Some note_text)\<rparr>]"

definition mark_item :: "json \<Rightarrow> item_status \<Rightarrow> jtext \<Rightarrow> nat \<Rightarrow> plan_state \<Rightarrow> plan_state \<times> jtext" where
  "mark_item v st note_text tx s =
     (case v of
        JNum t \<Rightarrow>
          if \<not> integer_text t
          then (s, (js ''`'' @
                   status_word st @
                   js ''` needs the number of a plan item. '' @
                   render_plan (pt_items s) tx))
          else (case find_index (\<lambda>it. decimal (pl_id it) = t) (pt_items s) of
            None \<Rightarrow>
              (s, if pt_items s = [] then js ''There is no plan yet, so there is no item to mark. Send `changes` first.''
                  else (js ''There is no item '' @
                       t @
                       js '' in this plan.'' @
                       [10, 10] @
                       render_plan (pt_items s) tx))
          | Some i \<Rightarrow>
              (let s' = s\<lparr>pt_items := set_status i st note_text (pt_items s)\<rparr>
               in with_retrospective s' (render_plan (pt_items s') tx) False))
      | _ \<Rightarrow> (s, (js ''`'' @
                            status_word st @
                            js ''` needs the number of a plan item. '' @
                            render_plan (pt_items s) tx)))"

definition read_entry :: "json \<Rightarrow> (jtext \<times> jtext \<times> jtext) option" where
  "read_entry raw =
     (let w = trim_field (json_member raw (js ''where'')); x = trim_field (json_member raw (js ''what''));
          y = trim_field (json_member raw (js ''why''))
      in if w = [] \<or> x = [] \<or> y = [] then None else Some (w, x, y))"

fun read_entries :: "json list \<Rightarrow> (jtext \<times> jtext \<times> jtext) list option" where
  "read_entries [] = Some []"
| "read_entries (raw # raws) =
     (case read_entry raw of
        None \<Rightarrow> None
      | Some e \<Rightarrow> map_option ((#) e) (read_entries raws))"

text \<open>The new item takes the state of the first old one with its \<open>what\<close>.\<close>

definition restated :: "plan_item list \<Rightarrow> nat \<Rightarrow> jtext \<times> jtext \<times> jtext \<Rightarrow> plan_item" where
  "restated previous i e =
     (case e of (w, x, y) \<Rightarrow>
      (case List.find (\<lambda>it. pl_what it = x) previous of
         None \<Rightarrow> \<lparr>pl_id = Suc i, pl_where = w, pl_what = x, pl_why = y, pl_status = Item_Pending, pl_note = None, pl_history = []\<rparr>
       | Some m \<Rightarrow> \<lparr>pl_id = Suc i, pl_where = w, pl_what = x, pl_why = y, pl_status = pl_status m, pl_note = pl_note m,
           pl_history = pl_history m\<rparr>))"

definition restate_plan :: "plan_item list \<Rightarrow> (jtext \<times> jtext \<times> jtext) list \<Rightarrow> plan_item list" where
  "restate_plan previous es = map (\<lambda>(i, e). restated previous i e) (enumerate 0 es)"

definition declare_plan :: "int \<Rightarrow> nat \<Rightarrow> json \<Rightarrow> plan_state \<Rightarrow> plan_state \<times> jtext" where
  "declare_plan max_changes tx v s =
     (case v of
        JArr raws \<Rightarrow>
          if pt_declarations s \<ge> MAX_DECLARATIONS_PER_TRANSACTION
          then (s, (js ''You have stated a plan '' @
                   decimal MAX_DECLARATIONS_PER_TRANSACTION @
                   js '' times in this transaction. Restating it is not progress '' @
                   [EM_DASH] @
                   js '' the plan below is the one you have. Mark items `done` as they land, and make the '' @
                   js ''next change.'' @
                   [10, 10] @
                   render_plan (pt_items s) tx))
          else (case read_entries raws of
            None \<Rightarrow> (s, (js ''Every entry needs all three of `where`, `what` and `why`. An entry missing one of '' @
            js ''them is not a change anyone can check.''))
          | Some es \<Rightarrow>
              if es = [] then (s, js ''An empty list is not a plan. Send the changes you intend to make.'')
              else if int (length es) > max_changes then (s, (js ''That is '' @
              decimal (length es) @
              js '' changes and this transaction allows '' @
              int_text max_changes @
              js ''. Send the '' @
              int_text max_changes @
              js '' that matter most; the rest can have a transaction of their own.''))
              else (let s' = s\<lparr>pt_items := restate_plan (pt_items s) es, pt_declarations := Suc (pt_declarations s)\<rparr>
                    in with_retrospective s' (render_plan (pt_items s') tx) True))
      | _ \<Rightarrow> (s, js ''`changes` is a list of entries, each naming where, what and why.''))"

text \<open>\<open>execute\<close>.\<close>

definition plan_call :: "int \<Rightarrow> nat \<Rightarrow> json \<Rightarrow> plan_state \<Rightarrow> plan_state \<times> jtext" where
  "plan_call max_changes tx input s0 =
     (let s = sync_plan tx s0; note_text = trim_field (json_member input (js ''note'')) in
      case json_member input (js ''done'') of
        Some v \<Rightarrow> mark_item v Item_Done note_text tx s
      | None \<Rightarrow>
      (case json_member input (js ''failed'') of
        Some v \<Rightarrow> mark_item v Item_Failed note_text tx s
      | None \<Rightarrow>
      (case json_member input (js ''changes'') of
        Some v \<Rightarrow> declare_plan max_changes tx v s
      | None \<Rightarrow> with_retrospective s (render_plan (pt_items s) tx) False)))"

section \<open>The plan is bounded\<close>

definition field_ok :: "jtext \<Rightarrow> bool" where
  "field_ok t = (t \<noteq> [] \<and> length t \<le> MAX_FIELD_CHARS)"

definition item_ok :: "plan_item \<Rightarrow> bool" where
  "item_ok it = (field_ok (pl_where it) \<and> field_ok (pl_what it) \<and> field_ok (pl_why it) \<and>
     (\<forall>a \<in> set (pl_history it). pa_status a \<noteq> Item_Pending))"

definition plan_ok :: "int \<Rightarrow> plan_state \<Rightarrow> bool" where
  "plan_ok max_changes s =
     (map pl_id (pt_items s) = [1..<Suc (length (pt_items s))] \<and> list_all item_ok (pt_items s) \<and>
      (pt_items s \<noteq> [] \<longrightarrow> int (length (pt_items s)) \<le> max_changes) \<and>
      pt_declarations s \<le> MAX_DECLARATIONS_PER_TRANSACTION)"

lemma trim_field_bound: "length (trim_field v) \<le> MAX_FIELD_CHARS"
  by (auto simp: trim_field_def split: option.splits json.splits)

lemma read_entry_ok: "read_entry raw = Some (w, x, y) \<Longrightarrow> field_ok w \<and> field_ok x \<and> field_ok y"
  by (auto simp: read_entry_def Let_def field_ok_def trim_field_bound split: if_splits)

lemma read_entries_ok:
  "read_entries raws = Some es \<Longrightarrow> (w, x, y) \<in> set es \<Longrightarrow> field_ok w \<and> field_ok x \<and> field_ok y"
proof (induction raws arbitrary: es)
  case (Cons raw raws)
  from Cons.prems(1) obtain e rest where e: "read_entry raw = Some e" "read_entries raws = Some rest" "es = e # rest"
    by (auto split: option.splits)
  then show ?case using Cons.prems(2) Cons.IH [of rest] read_entry_ok [of raw w x y] by auto
qed simp

lemma restated_fields [simp]:
  "pl_id (restated previous i e) = Suc i" "pl_where (restated previous i e) = fst e"
  "pl_what (restated previous i e) = fst (snd e)" "pl_why (restated previous i e) = snd (snd e)"
  by (cases e, simp add: restated_def split: option.split)+

lemma restate_length [simp]: "length (restate_plan previous es) = length es"
  by (simp add: restate_plan_def)

lemma restate_nth: "i < length es \<Longrightarrow> restate_plan previous es ! i = restated previous i (es ! i)"
  by (simp add: restate_plan_def nth_enumerate_eq)

lemma restate_ids [simp]: "map pl_id (restate_plan previous es) = [1..<Suc (length es)]"
  by (rule nth_equalityI) (simp_all add: restate_nth del: upt_Suc)

lemma find_member: "List.find P xs = Some x \<Longrightarrow> x \<in> set xs \<and> P x"
  by (auto simp: find_Some_iff)

lemma restate_items:
  assumes "it' \<in> set (restate_plan previous es)"
  obtains w x y where "(w, x, y) \<in> set es" "pl_where it' = w" "pl_what it' = x" "pl_why it' = y"
    "case List.find (\<lambda>it. pl_what it = x) previous of
       None \<Rightarrow> pl_status it' = Item_Pending \<and> pl_note it' = None \<and> pl_history it' = []
     | Some m \<Rightarrow> pl_status it' = pl_status m \<and> pl_note it' = pl_note m \<and> pl_history it' = pl_history m"
proof -
  from assms obtain i w x y where e: "(i, w, x, y) \<in> set (enumerate 0 es)" "it' = restated previous i (w, x, y)"
    by (auto simp: restate_plan_def)
  have "(w, x, y) \<in> set es" using e(1) nth_mem [of i es] by (auto simp: in_set_enumerate_eq)
  then show thesis using that e(2) by (auto simp: restated_def split: option.splits)
qed

lemma restate_ok:
  assumes "list_all item_ok previous" and "\<And>w x y. (w, x, y) \<in> set es \<Longrightarrow> field_ok w \<and> field_ok x \<and> field_ok y"
  shows "list_all item_ok (restate_plan previous es)"
  unfolding list_all_iff
proof
  fix it'
  assume "it' \<in> set (restate_plan previous es)"
  then show "item_ok it'"
  proof (rule restate_items)
    fix w x y
    assume "(w, x, y) \<in> set es" "pl_where it' = w" "pl_what it' = x" "pl_why it' = y"
      and st: "case List.find (\<lambda>it. pl_what it = x) previous of
       None \<Rightarrow> pl_status it' = Item_Pending \<and> pl_note it' = None \<and> pl_history it' = []
     | Some m \<Rightarrow> pl_status it' = pl_status m \<and> pl_note it' = pl_note m \<and> pl_history it' = pl_history m"
    moreover have "\<forall>a \<in> set (pl_history it'). pa_status a \<noteq> Item_Pending"
      using st assms(1) by (auto simp: list_all_iff item_ok_def split: option.splits dest!: find_member)
    ultimately show ?thesis using assms(2) [of w x y] by (auto simp: item_ok_def)
  qed
qed

lemma close_item_fields [simp]:
  "pl_id (close_item ended it) = pl_id it" "pl_where (close_item ended it) = pl_where it"
  "pl_what (close_item ended it) = pl_what it" "pl_why (close_item ended it) = pl_why it"
  "pl_status (close_item ended it) = Item_Pending"
  by (simp_all add: close_item_def)

lemma close_item_ok: "item_ok it \<Longrightarrow> item_ok (close_item ended it)"
  by (auto simp: item_ok_def) (auto simp: close_item_def split: if_splits)

lemma sync_ok: "plan_ok m s \<Longrightarrow> plan_ok m (sync_plan tx s)"
  by (auto simp: plan_ok_def sync_plan_def roll_over_def list_all_iff close_item_ok comp_def)

lemma set_status_fields:
  "i < length items \<Longrightarrow> map pl_id (set_status i st t items) = map pl_id items"
  "i < length items \<Longrightarrow> map pl_what (set_status i st t items) = map pl_what items"
  "i < length items \<Longrightarrow> map pl_history (set_status i st t items) = map pl_history items"
  "length (set_status i st t items) = length items"
  by (auto simp: set_status_def map_update intro!: list_update_same_conv [THEN iffD2])

lemma list_all_update: "list_all P xs \<Longrightarrow> P y \<Longrightarrow> list_all P (xs[i := y])"
  by (auto simp: list_all_iff dest!: set_update_subset_insert [THEN subsetD])

lemma set_status_ok:
  assumes "i < length items" and "list_all item_ok items"
  shows "list_all item_ok (set_status i st t items)"
proof -
  have "item_ok (items ! i)" using assms by (simp add: list_all_length)
  then have "item_ok ((items ! i)\<lparr>pl_status := st, pl_note := (if t = [] then None else Some t)\<rparr>)"
    by (simp add: item_ok_def)
  then show ?thesis unfolding set_status_def using assms(2) by (intro list_all_update)
qed

lemma with_retrospective_fields [simp]:
  "pt_items (fst (with_retrospective s t b)) = pt_items s"
  "pt_declarations (fst (with_retrospective s t b)) = pt_declarations s"
  "pt_last (fst (with_retrospective s t b)) = pt_last s"
  by (simp_all add: with_retrospective_def split: option.splits)

lemma with_retrospective_ok [simp]: "plan_ok m (fst (with_retrospective s t b)) = plan_ok m s"
  by (simp add: plan_ok_def)

lemma mark_ok: "plan_ok m s \<Longrightarrow> plan_ok m (fst (mark_item v st t tx s))"
proof (cases v)
  case (JNum n)
  assume ok: "plan_ok m s"
  show ?thesis
  proof (cases "find_index (\<lambda>it. decimal (pl_id it) = n) (pt_items s)")
    case None
    then show ?thesis using ok JNum by (simp add: mark_item_def del: find_index_None)
  next
    case (Some i)
    then have "i < length (pt_items s)" by (simp add: find_index_Some)
    then have "plan_ok m (s\<lparr>pt_items := set_status i st t (pt_items s)\<rparr>)"
      using ok by (auto simp: plan_ok_def set_status_fields set_status_ok simp flip: length_0_conv)
    then show ?thesis using ok JNum Some by (simp add: mark_item_def Let_def)
  qed
qed (simp_all add: mark_item_def)

lemma declare_ok: "plan_ok m s \<Longrightarrow> plan_ok m (fst (declare_plan m tx v s))"
proof (cases v)
  case (JArr raws)
  assume ok: "plan_ok m s"
  show ?thesis
  proof (cases "read_entries raws")
    case None
    then show ?thesis using ok JArr by (simp add: declare_plan_def)
  next
    case (Some es)
    have "pt_declarations s < MAX_DECLARATIONS_PER_TRANSACTION \<Longrightarrow> int (length es) \<le> m \<Longrightarrow>
        plan_ok m (s\<lparr>pt_items := restate_plan (pt_items s) es, pt_declarations := Suc (pt_declarations s)\<rparr>)"
      using ok restate_ok [of "pt_items s" es] read_entries_ok [OF Some] by (auto simp: plan_ok_def)
    then show ?thesis using ok JArr Some by (auto simp: declare_plan_def Let_def)
  qed
qed (simp_all add: declare_plan_def)

lemma plan_call_ok: "plan_ok m s \<Longrightarrow> plan_ok m (fst (plan_call m tx input s))"
  using sync_ok [of m s tx] by (simp add: plan_call_def Let_def mark_ok declare_ok split: option.split)

definition plan_step :: "int \<Rightarrow> nat \<times> json \<Rightarrow> plan_state \<Rightarrow> plan_state" where
  "plan_step max_changes e s = fst (plan_call max_changes (fst e) (snd e) s)"

interpretation plan_machine: invariant_machine "plan_step m" "plan_ok m" for m
  by unfold_locales (simp add: plan_step_def plan_call_ok)

text \<open>C36: After any calls, in whatever transactions, the plan's items are numbered from one without a gap, there are
  no more of them than changes allowed, every field says something and is at most 400 long, and the record holds
  no attempt without an outcome.\<close>

theorem plan_is_bounded: "plan_ok m (fold (plan_step m) calls (new_plan_state tx))"
  by (rule plan_machine.run_inv) (simp add: plan_ok_def new_plan_state_def MAX_DECLARATIONS_PER_TRANSACTION_def)

section \<open>What is on the record stays there\<close>

lemma set_status_member:
  assumes "it' \<in> set (set_status i st t items)" and "i < length items"
  obtains it where "it \<in> set items" "pl_what it' = pl_what it" "pl_history it' = pl_history it"
proof -
  from assms obtain k where k: "k < length items" "it' = set_status i st t items ! k"
    by (auto simp: in_set_conv_nth set_status_fields)
  then show thesis
    using that [of "items ! k"] assms(2) by (cases "k = i") (simp_all add: set_status_def)
qed

text \<open>The two items of a plan that share their \<open>what\<close> are one, if no two share it.\<close>

lemma same_what: "distinct (map pl_what items) \<Longrightarrow> a \<in> set items \<Longrightarrow> b \<in> set items \<Longrightarrow> pl_what a = pl_what b \<Longrightarrow> a = b"
  by (simp add: distinct_map inj_on_def)

lemma declare_items:
  "pt_items (fst (declare_plan m tx v s)) = pt_items s \<or>
   (\<exists>es. pt_items (fst (declare_plan m tx v s)) = restate_plan (pt_items s) es)"
  by (auto simp: declare_plan_def Let_def split: json.split option.split)

lemma mark_items:
  "pt_items (fst (mark_item v st t tx s)) = pt_items s \<or>
   (\<exists>i < length (pt_items s). pt_items (fst (mark_item v st t tx s)) = set_status i st t (pt_items s))"
  by (auto simp: mark_item_def Let_def split: json.split option.split dest: find_index_Some)

lemma declare_keeps:
  assumes "distinct (map pl_what (pt_items s))" "it \<in> set (pt_items s)"
    and "it' \<in> set (pt_items (fst (declare_plan m tx v s)))" "pl_what it' = pl_what it"
  shows "pl_history it' = pl_history it"
  using declare_items [of m tx v s]
proof
  assume "pt_items (fst (declare_plan m tx v s)) = pt_items s"
  then show ?thesis using assms same_what by metis
next
  assume "\<exists>es. pt_items (fst (declare_plan m tx v s)) = restate_plan (pt_items s) es"
  then obtain es where "it' \<in> set (restate_plan (pt_items s) es)" using assms(3) by auto
  then show ?thesis
  proof (rule restate_items)
    fix w x y
    assume x: "pl_what it' = x" and st: "case List.find (\<lambda>it. pl_what it = x) (pt_items s) of
       None \<Rightarrow> pl_status it' = Item_Pending \<and> pl_note it' = None \<and> pl_history it' = []
     | Some m \<Rightarrow> pl_status it' = pl_status m \<and> pl_note it' = pl_note m \<and> pl_history it' = pl_history m"
    obtain k where k: "List.find (\<lambda>it. pl_what it = x) (pt_items s) = Some k"
      using x assms(2,4) by (cases "List.find (\<lambda>it. pl_what it = x) (pt_items s)") (auto simp: find_None_iff)
    then have "k = it" using find_member [OF k] same_what [OF assms(1)] assms(2,4) x by auto
    then show ?thesis using st k by simp
  qed
qed

lemma mark_keeps:
  assumes "distinct (map pl_what (pt_items s))" "it \<in> set (pt_items s)"
    and "it' \<in> set (pt_items (fst (mark_item v st t tx s)))" "pl_what it' = pl_what it"
  shows "pl_history it' = pl_history it"
  using mark_items [of v st t tx s]
proof
  assume "pt_items (fst (mark_item v st t tx s)) = pt_items s"
  then show ?thesis using assms same_what by metis
next
  assume "\<exists>i < length (pt_items s). pt_items (fst (mark_item v st t tx s)) = set_status i st t (pt_items s)"
  then obtain i where i: "i < length (pt_items s)" "it' \<in> set (set_status i st t (pt_items s))"
    using assms(3) by auto
  from i(2,1) show ?thesis
    by (rule set_status_member) (use assms same_what in metis)
qed

lemma call_keeps:
  assumes "distinct (map pl_what (pt_items s))" "it \<in> set (pt_items s)"
    and "it' \<in> set (pt_items (fst (plan_call m tx input s)))" "pl_what it' = pl_what it"
  shows "pl_history it' = pl_history (if tx = pt_last s then it else close_item (pt_last s) it)"
proof -
  let ?s = "sync_plan tx s" and ?it = "if tx = pt_last s then it else close_item (pt_last s) it"
  have items: "pt_items ?s = (if tx = pt_last s then pt_items s else map (close_item (pt_last s)) (pt_items s))"
    by (simp add: sync_plan_def roll_over_def)
  have d: "distinct (map pl_what (pt_items ?s))" using assms(1) by (simp add: items comp_def)
  have it: "?it \<in> set (pt_items ?s)" using assms(2) by (simp add: items)
  have w: "pl_what it' = pl_what ?it" using assms(4) by simp
  have bare: "it' \<in> set (pt_items ?s) \<Longrightarrow> pl_history it' = pl_history ?it"
    using same_what [OF d _ it] w by metis
  show ?thesis
    using assms(3) declare_keeps [OF d it _ w] mark_keeps [OF d it _ w] bare
    by (auto simp: plan_call_def Let_def split: option.splits)
qed

text \<open>C20: Whatever the call, an item that is still in the plan after it, by its \<open>what\<close>, has on record all it had, and
  if the call is the first of another transaction also how it ended in the one that closed, provided that no two
  items of the plan share their \<open>what\<close>.\<close>

theorem outcome_stays_on_record:
  assumes "distinct (map pl_what (pt_items s))" "it \<in> set (pt_items s)"
    and "it' \<in> set (pt_items (fst (plan_call m tx input s)))" "pl_what it' = pl_what it"
  shows "pl_history it' = pl_history it @
    (if tx = pt_last s \<or> pl_status it = Item_Pending then []
     else [\<lparr>pa_transaction = pt_last s, pa_status = pl_status it, pa_note = pl_note it\<rparr>])"
  using call_keeps [OF assms] by (auto simp: close_item_def)

definition SAMPLE_ITEM :: plan_item where
  "SAMPLE_ITEM = \<lparr>pl_id = 1, pl_where = js ''f'', pl_what = js ''w'', pl_why = js ''y'', pl_status = Item_Done,
     pl_note = Some (js ''ok''), pl_history = []\<rparr>"

definition SAMPLE_PLAN :: plan_state where
  "SAMPLE_PLAN = \<lparr>pt_items = [SAMPLE_ITEM], pt_last = 1, pt_declarations = 1, pt_closed = None\<rparr>"

theorem outcome_stays_on_record_witness:
  "\<exists>it. pt_items (fst (plan_call 6 2 (JObj []) SAMPLE_PLAN)) = [it] \<and> pl_status it = Item_Pending \<and>
     pl_history it = [\<lparr>pa_transaction = 1, pa_status = Item_Done, pa_note = Some (js ''ok'')\<rparr>]"
proof -
  have items: "pt_items (fst (plan_call 6 2 (JObj []) SAMPLE_PLAN)) = [close_item 1 SAMPLE_ITEM]"
    by (simp add: plan_call_def json_member_def sync_plan_def roll_over_def SAMPLE_PLAN_def)
  have "pl_history (close_item 1 SAMPLE_ITEM) = pl_history SAMPLE_ITEM @
    (if 2 = pt_last SAMPLE_PLAN \<or> pl_status SAMPLE_ITEM = Item_Pending then []
     else [\<lparr>pa_transaction = pt_last SAMPLE_PLAN, pa_status = pl_status SAMPLE_ITEM, pa_note = pl_note SAMPLE_ITEM\<rparr>])"
    by (rule outcome_stays_on_record [of SAMPLE_PLAN SAMPLE_ITEM _ 6 2 "JObj []"])
      (simp_all add: items, simp_all add: SAMPLE_PLAN_def)
  then show ?thesis using items by (simp add: SAMPLE_PLAN_def SAMPLE_ITEM_def)
qed

text \<open>Two items with one \<open>what\<close>: restating the plan as it is gives the second the state of the first.\<close>

lemma twin_takes_the_state:
  assumes "pl_what a = pl_what b" "pl_status a = Item_Done" "pl_status b = Item_Pending"
  shows "map pl_status (restate_plan [a, b] (map (\<lambda>it. (pl_where it, pl_what it, pl_why it)) [a, b])) =
    [Item_Done, Item_Done]"
  using assms by (simp add: restate_plan_def restated_def)

text \<open>The retrospective that a new plan is answered with is made from the new plan: with nothing kept of the old
  one, what landed is not named.\<close>

lemma retrospective_forgets:
  assumes "\<And>it e. it \<in> set (pt_items s) \<Longrightarrow> e \<in> set es \<Longrightarrow> pl_what it \<noteq> fst (snd e)"
  shows "filter (ended_so Item_Done n) (restate_plan (pt_items s) es) = []"
proof -
  have "\<not> ended_so Item_Done n it'" if "it' \<in> set (restate_plan (pt_items s) es)" for it'
    using that
  proof (rule restate_items)
    fix w x y
    assume "(w, x, y) \<in> set es" and st: "case List.find (\<lambda>it. pl_what it = x) (pt_items s) of
       None \<Rightarrow> pl_status it' = Item_Pending \<and> pl_note it' = None \<and> pl_history it' = []
     | Some m \<Rightarrow> pl_status it' = pl_status m \<and> pl_note it' = pl_note m \<and> pl_history it' = pl_history m"
    then have "List.find (\<lambda>it. pl_what it = x) (pt_items s) = None"
      using assms by (fastforce simp: find_None_iff)
    then show ?thesis using st by (simp add: ended_so_def attempts_in_def)
  qed
  then show ?thesis by (simp add: filter_empty_conv)
qed

end
