(* ===== verification/PlanText.thy ===== *)
theory PlanText
  imports PatchContext Checks "HOL-Library.Sublist"
begin

text \<open>
  Finding the plan in what a model wrote: \<open>sdk/packages/core/src/runtime/atomic/plan-text.ts\<close> and
  \<open>plan-capture.ts\<close>. The regular expressions are written out as what they accept of one line.
\<close>

section \<open>Lines\<close>

definition MAX_PLAN_CHARS :: nat where
  "MAX_PLAN_CHARS = 4000"

definition is_word :: "16 word \<Rightarrow> bool" where
  "is_word c = (is_digit c \<or> (65 \<le> c \<and> c \<le> 90) \<or> (97 \<le> c \<and> c \<le> 122) \<or> c = 95)"

text \<open>A word boundary after what has been matched.\<close>

definition word_ends :: "jtext \<Rightarrow> bool" where
  "word_ends t = (case t of [] \<Rightarrow> True | c # cs \<Rightarrow> \<not> is_word c)"

text \<open>At most so many white-space characters, then the rest.\<close>

definition indented :: "nat \<Rightarrow> jtext \<Rightarrow> jtext option" where
  "indented n t = (if length (takeWhile is_space t) \<le> n then Some (trim_left t) else None)"

text \<open>\<open>(?:TX-?\d+\s*[-:\<emdash>]?\s*)?\<close>\<close>

definition skip_tx :: "jtext \<Rightarrow> jtext" where
  "skip_tx t =
     (if starts (js ''tx'') (ascii_lower t) then
        let r = drop 2 t; r' = (if starts (js ''-'') r then drop 1 r else r)
        in if takeWhile is_digit r' = [] then t
           else let u = trim_left (dropWhile is_digit r')
             in (case u of c # cs \<Rightarrow> if c = 45 \<or> c = 58 \<or> c = EM_DASH then trim_left cs else u | [] \<Rightarrow> [])
      else t)"

text \<open>\<open>#{1,6}\s*\<close>, with the indentation before it: what follows.\<close>

definition heading_rest :: "jtext \<Rightarrow> jtext option" where
  "heading_rest line =
     (case indented 3 line of
        None \<Rightarrow> None
      | Some t \<Rightarrow> (let n = length (takeWhile (\<lambda>c. c = 35) t) in if 1 \<le> n \<and> n \<le> 6 then Some (drop n t) else None))"

definition skip_bold :: "jtext \<Rightarrow> jtext" where
  "skip_bold t = (if starts (js ''**'') t \<or> starts (js ''__'') t then drop 2 t else t)"

text \<open>\<open>PLAN_HEADING\<close>. Without hashes and stars, all the white space before the word may be matched by the
  middle of the expression.\<close>

definition plan_heading :: "jtext \<Rightarrow> bool" where
  "plan_heading line =
     (let t = trim_left line;
          u = (case heading_rest line of Some r \<Rightarrow> trim_left r | None \<Rightarrow> t);
          bold_at_margin = (heading_rest line \<noteq> None \<or> indented 3 line \<noteq> None);
          v = skip_tx (trim_left (if bold_at_margin then skip_bold u else u))
      in starts (js ''plan'') (ascii_lower v) \<and> word_ends (drop 4 v))"

definition other_heading :: "jtext \<Rightarrow> bool" where
  "other_heading line = (case heading_rest line of Some (c # cs) \<Rightarrow> is_space c | _ \<Rightarrow> False)"

definition list_item :: "jtext \<Rightarrow> bool" where
  "list_item line =
     (case indented 6 line of
        None \<Rightarrow> False
      | Some t \<Rightarrow>
          (let n = length (takeWhile is_digit t);
               rest = (if 1 \<le> n \<and> n \<le> 2 then (case drop n t of c # cs \<Rightarrow> if c = 46 \<or> c = 41 then Some cs else None | [] \<Rightarrow> None)
                       else (case t of c # cs \<Rightarrow> if c = 45 \<or> c = 42 \<or> c = 43 then Some cs else None | [] \<Rightarrow> None))
           in case rest of
                Some (c # cs) \<Rightarrow> is_space c \<and> trim_left cs \<noteq> []
              | _ \<Rightarrow> False))"

definition table_row :: "jtext \<Rightarrow> bool" where
  "table_row line =
     (case indented 6 line of
        Some (c # cs) \<Rightarrow>
          (let r = trim_right cs
           in c = 124 \<and> r \<noteq> [] \<and> last r = 124 \<and> list_all (\<lambda>d. d \<notin> set LINE_TERMINATORS) (butlast r))
      | _ \<Rightarrow> False)"

text \<open>\<open>\bword\b\<close> somewhere, whatever the case; \<open>fresh\<close>: no word character comes before.\<close>

fun has_word :: "jtext \<Rightarrow> bool \<Rightarrow> jtext \<Rightarrow> bool" where
  "has_word w fresh [] = False"
| "has_word w fresh (c # cs) =
     ((fresh \<and> starts w (ascii_lower (c # cs)) \<and> word_ends (drop (length w) (c # cs))) \<or> has_word w (\<not> is_word c) cs)"

definition names_all_three :: "jtext \<Rightarrow> bool" where
  "names_all_three t = (has_word (js ''where'') True t \<and> has_word (js ''what'') True t \<and> has_word (js ''why'') True t)"

definition has_structure :: "jtext list \<Rightarrow> bool" where
  "has_structure lines = list_ex (\<lambda>l. list_item l \<or> table_row l) lines"

section \<open>The plan of a text\<close>

definition is_blank :: "jtext \<Rightarrow> bool" where
  "is_blank l = (trim l = [])"

text \<open>The loop of \<open>takeBlock\<close>, with the count of blank lines before.\<close>

fun block_lines :: "nat \<Rightarrow> jtext list \<Rightarrow> jtext list" where
  "block_lines blanks [] = []"
| "block_lines blanks (l # ls) =
     (if other_heading l \<and> \<not> plan_heading l then []
      else if is_blank l then (if Suc blanks \<ge> 2 then [] else l # block_lines (Suc blanks) ls)
      else l # block_lines 0 ls)"

definition take_block :: "jtext list \<Rightarrow> jtext list" where
  "take_block ls = rev (dropWhile is_blank (rev (block_lines 0 ls)))"

definition finish_plan :: "jtext list \<Rightarrow> jtext option" where
  "finish_plan block =
     (if \<not> has_structure block then None
      else let plan = trim (join_lines block) in
        if plan = [] then None
        else if length plan > MAX_PLAN_CHARS
        then Some (trim_right (take MAX_PLAN_CHARS plan) @ [10, ELLIPSIS])
        else Some plan)"

text \<open>The first loop: nothing, or what the function returns.\<close>

fun announced_plan :: "jtext list \<Rightarrow> jtext option option" where
  "announced_plan [] = None"
| "announced_plan (l # ls) =
     (let block = take_block ls in
      if plan_heading l \<and> block \<noteq> [] \<and> names_all_three (join_lines block)
      then Some (finish_plan (l # block)) else announced_plan ls)"

text \<open>The second loop: after a block that names too little it goes on behind the line that follows the block.\<close>

function listed_plan :: "jtext list \<Rightarrow> jtext option" where
  "listed_plan [] = None"
| "listed_plan (l # ls) =
     (if \<not> list_item l \<and> \<not> table_row l then listed_plan ls
      else let block = l # take_block ls in
        if names_all_three (join_lines block) then finish_plan block
        else listed_plan (drop (length block) ls))"
  by pat_completeness auto

termination
  by (relation "measure length") auto

definition read_plan :: "jtext option \<Rightarrow> jtext option" where
  "read_plan text_opt =
     (case text_opt of
        None \<Rightarrow> None
      | Some t \<Rightarrow>
          if t = [] then None
          else (case announced_plan (split_lf t) of
                  Some answer \<Rightarrow> answer
                | None \<Rightarrow> listed_plan (split_lf t)))"

section \<open>Noticing it\<close>

datatype message_role = Assistant_Role | Other_Role

datatype message_part = Text_Part jtext | Reasoning_Part jtext | Other_Part

type_synonym message = "message_role \<times> message_part list"

fun part_text :: "bool \<Rightarrow> message_part \<Rightarrow> jtext option" where
  "part_text reasoning (Text_Part t) = (if reasoning then None else Some t)"
| "part_text reasoning (Reasoning_Part t) = (if reasoning then Some t else None)"
| "part_text reasoning Other_Part = None"

definition parts_text :: "bool \<Rightarrow> message option \<Rightarrow> jtext" where
  "parts_text reasoning m =
     (case m of None \<Rightarrow> [] | Some (r, ps) \<Rightarrow> trim (join_lines (List.map_filter (part_text reasoning) ps)))"

definition current_assistant_message :: "message list option \<Rightarrow> message option" where
  "current_assistant_message ms =
     (case ms of None \<Rightarrow> None | Some l \<Rightarrow> List.find (\<lambda>m. fst m = Assistant_Role) (rev l))"

datatype plan_source = From_Reply | From_Reasoning

record plan_capture =
  pc_seen :: nat
  pc_reported :: bool

definition new_capture :: "nat \<Rightarrow> plan_capture" where
  "new_capture tx = \<lparr>pc_seen = tx, pc_reported = False\<rparr>"

text \<open>\<open>note\<close>, with what it hands to \<open>onPlan\<close>.\<close>

definition capture_plan ::
    "nat \<Rightarrow> message list option \<Rightarrow> plan_capture \<Rightarrow> plan_capture \<times> (jtext \<times> plan_source) option" where
  "capture_plan tx messages pc0 =
     (let pc = (if tx \<noteq> pc_seen pc0 then new_capture tx else pc0) in
      if pc_reported pc then (pc, None)
      else let m = current_assistant_message messages in
        case read_plan (Some (parts_text False m)) of
          Some p \<Rightarrow> (pc\<lparr>pc_reported := True\<rparr>, Some (p, From_Reply))
        | None \<Rightarrow>
            (case read_plan (Some (parts_text True m)) of
               Some p \<Rightarrow> (pc\<lparr>pc_reported := True\<rparr>, Some (p, From_Reasoning))
             | None \<Rightarrow> (pc, None)))"

section \<open>What a plan is\<close>

lemma block_lines_prefix: "prefix (block_lines n ls) ls"
  by (induction ls arbitrary: n) auto

lemma drop_blank_prefix: "prefix (rev (dropWhile P (rev xs))) xs"
proof -
  have "xs = rev (dropWhile P (rev xs)) @ rev (takeWhile P (rev xs))"
    by (metis rev_append rev_rev_ident takeWhile_dropWhile_id)
  then show ?thesis by (metis prefixI)
qed

lemma take_block_prefix: "prefix (take_block ls) ls"
  unfolding take_block_def using drop_blank_prefix block_lines_prefix prefix_order.trans by metis

lemma join_lines_append: "xs \<noteq> [] \<Longrightarrow> ys \<noteq> [] \<Longrightarrow> join_lines (xs @ ys) = join_lines xs @ 10 # join_lines ys"
  by (induction xs rule: join_lines.induct) (auto simp: neq_Nil_conv)

lemma join_sublist: "sublist xs ys \<Longrightarrow> sublist (join_lines xs) (join_lines ys)"
proof -
  assume "sublist xs ys"
  then obtain a b where ys: "ys = a @ xs @ b" by (auto simp: sublist_def)
  consider "xs = []" | "xs \<noteq> []" "a = []" "b = []" | "xs \<noteq> []" "a \<noteq> []" "b = []" |
    "xs \<noteq> []" "a = []" "b \<noteq> []" | "xs \<noteq> []" "a \<noteq> []" "b \<noteq> []" by blast
  then show ?thesis
  proof cases
    case 5
    have "join_lines ys = (join_lines a @ [10]) @ join_lines xs @ (10 # join_lines b)"
      using 5 by (simp add: ys join_lines_append)
    then show ?thesis by (metis sublist_def)
  next
    case 3
    have "join_lines ys = (join_lines a @ [10]) @ join_lines xs @ []" using 3 by (simp add: ys join_lines_append)
    then show ?thesis by (metis sublist_def)
  next
    case 4
    have "join_lines ys = [] @ join_lines xs @ (10 # join_lines b)" using 4 by (simp add: ys join_lines_append)
    then show ?thesis by (metis sublist_def)
  qed (simp_all add: ys)
qed

lemma trim_left_suffix: "\<exists>a. t = a @ trim_left t \<and> list_all is_space a"
  unfolding trim_left_def
  by (metis takeWhile_dropWhile_id list_all_iff set_takeWhileD)

lemma trim_inside: "\<exists>a b. t = a @ trim t @ b \<and> list_all is_space a \<and> list_all is_space b"
proof -
  obtain a where a: "t = a @ trim_left t" "list_all is_space a" using trim_left_suffix by blast
  obtain b where b: "rev (trim_left t) = b @ trim_left (rev (trim_left t))" "list_all is_space b"
    using trim_left_suffix by blast
  have "trim_left t = trim t @ rev b" using b(1) unfolding trim_def by (metis rev_append rev_rev_ident)
  then show ?thesis using a b(2) by (metis list_all_rev)
qed

subsection \<open>The three words\<close>

definition plain_word :: "jtext \<Rightarrow> bool" where
  "plain_word w = (w \<noteq> [] \<and> list_all (\<lambda>c. \<not> is_space c) w)"

lemma lower_space: "is_space c \<Longrightarrow> \<not> (65 \<le> c \<and> c \<le> 90)"
  by (auto simp: is_space_def word_le_nat_alt)

lemma space_not_word: "is_space c \<Longrightarrow> \<not> is_word c"
  by (auto simp: is_space_def is_word_def is_digit_def word_le_nat_alt)

lemma ascii_lower_length [simp]: "length (ascii_lower t) = length t"
  by (simp add: ascii_lower_def)

lemma lower_text_append: "ascii_lower (a @ b) = ascii_lower a @ ascii_lower b"
  by (simp add: ascii_lower_def)

lemma word_in_front:
  assumes "plain_word w" and "list_all is_space b" and "starts w (ascii_lower (m @ b))"
  shows "length w \<le> length m"
proof (rule ccontr)
  assume longer: "\<not> length w \<le> length m"
  have w: "w = take (length w) (ascii_lower (m @ b))" using assms(3) by (simp add: starts_def)
  then have "length m < length (m @ b)" using longer
    by (metis ascii_lower_length length_take min.strict_boundedE not_le min.absorb_iff2 nat_le_linear)
  then have b: "b \<noteq> []" by auto
  have "w ! length m = ascii_lower (m @ b) ! length m" using longer by (metis not_le nth_take w)
  also have "\<dots> = hd b"
    using b assms(2) lower_space [of "hd b"] by (cases b) (auto simp: ascii_lower_def nth_append)
  finally have "is_space (w ! length m)" using b assms(2) by (cases b) auto
  then show False using assms(1) longer by (auto simp: plain_word_def list_all_length)
qed

lemma has_word_cut:
  assumes "plain_word w" "list_all is_space b"
  shows "has_word w fresh (m @ b) \<Longrightarrow> has_word w fresh m"
proof (induction m arbitrary: fresh)
  case Nil
  have "\<not> has_word w f b'" if "list_all is_space b'" for f b'
    using that
  proof (induction b' arbitrary: f)
    case (Cons c cs)
    then have "\<not> starts w (ascii_lower (c # cs))"
      using word_in_front [OF assms(1), of "c # cs" "[]"] assms(1) by (auto simp: plain_word_def)
    then show ?case using Cons by simp
  qed simp
  then show ?case using Nil assms(2) by simp
next
  case (Cons c cs)
  from Cons.prems consider "fresh" "starts w (ascii_lower ((c # cs) @ b))" "word_ends (drop (length w) ((c # cs) @ b))"
    | "has_word w (\<not> is_word c) (cs @ b)" by auto
  then show ?case
  proof cases
    case 1
    have short: "length w \<le> length (c # cs)" using word_in_front [OF assms 1(2)] .
    have "take (length w) (ascii_lower ((c # cs) @ b)) = take (length w) (ascii_lower (c # cs))"
      unfolding lower_text_append using short by (subst take_append) simp
    then have "starts w (ascii_lower (c # cs))" using 1(2) by (simp add: starts_def)
    moreover have "word_ends (drop (length w) (c # cs))"
    proof (cases "drop (length w) (c # cs)")
      case (Cons d ds)
      moreover have "drop (length w) ((c # cs) @ b) = drop (length w) (c # cs) @ b"
        using short by (subst drop_append) simp
      ultimately show ?thesis using 1(3) by (simp only: word_ends_def) simp
    qed (simp add: word_ends_def)
    ultimately show ?thesis using 1(1) by simp
  next
    case 2
    then show ?thesis using Cons.IH by simp
  qed
qed

lemma has_word_mono: "has_word w fresh t \<Longrightarrow> fresh \<longrightarrow> fresh' \<Longrightarrow> has_word w fresh' t"
  by (cases t) auto

lemma has_word_skip:
  assumes "plain_word w" "list_all is_space a" and "has_word w True (a @ t)"
  shows "has_word w True t"
  using assms(2,3)
proof (induction a)
  case (Cons c cs)
  have "\<not> starts w (ascii_lower (c # cs @ t))"
  proof
    assume "starts w (ascii_lower (c # cs @ t))"
    then have "hd w = hd (ascii_lower (c # cs @ t))"
      using assms(1) by (cases w) (auto simp: plain_word_def starts_def ascii_lower_def)
    also have "\<dots> = c" using Cons.prems(1) lower_space [of c] by (auto simp: ascii_lower_def)
    finally show False using assms(1) Cons.prems(1) by (cases w) (auto simp: plain_word_def)
  qed
  then have "has_word w (\<not> is_word c) (cs @ t)" using Cons.prems(2) by simp
  then have "has_word w True (cs @ t)" by (rule has_word_mono) simp
  then show ?case using Cons by simp
qed simp

lemma has_word_trim: "plain_word w \<Longrightarrow> has_word w True t \<Longrightarrow> has_word w True (trim t)"
  using trim_inside [of t] has_word_skip [of w] has_word_cut [of w] by (metis append.assoc)

lemma has_word_after: "has_word w fresh t \<Longrightarrow> has_word w fresh' (l @ 10 # t)"
proof (induction l arbitrary: fresh')
  case Nil
  have "has_word w True t" using Nil by (rule has_word_mono) simp
  then show ?case by (simp add: is_word_def is_digit_def word_le_nat_alt)
qed simp

lemma three_words: "plain_word (js ''where'')" "plain_word (js ''what'')" "plain_word (js ''why'')"
  by (simp_all add: plain_word_def js_def is_space_def word_le_nat_alt)

lemma names_trim: "names_all_three t \<Longrightarrow> names_all_three (trim t)"
  by (simp add: names_all_three_def has_word_trim three_words)

lemma names_after: "names_all_three t \<Longrightarrow> names_all_three (l @ 10 # t)"
  by (auto simp: names_all_three_def intro: has_word_after)

subsection \<open>Verbatim\<close>

text \<open>What is made of a piece of the text.\<close>

definition plan_of :: "jtext \<Rightarrow> jtext" where
  "plan_of q = (if length q > MAX_PLAN_CHARS then trim_right (take MAX_PLAN_CHARS q) @ [10, ELLIPSIS] else q)"

definition found_in :: "jtext \<Rightarrow> jtext \<Rightarrow> bool" where
  "found_in t p = (\<exists>q. sublist q t \<and> names_all_three q \<and> p = plan_of q)"

lemma finish_found:
  assumes "finish_plan block = Some p" "sublist block lines" "names_all_three (join_lines block)"
  shows "found_in (join_lines lines) p"
proof -
  have "sublist (trim (join_lines block)) (join_lines block)"
    using trim_inside [of "join_lines block"] by (metis sublist_def)
  then have "sublist (trim (join_lines block)) (join_lines lines)"
    using join_sublist [OF assms(2)] by (rule sublist_order.order_trans)
  moreover have "p = plan_of (trim (join_lines block))"
    using assms(1) by (auto simp: finish_plan_def plan_of_def Let_def split: if_splits)
  ultimately show ?thesis using names_trim [OF assms(3)] by (auto simp: found_in_def)
qed

lemma block_sublist: "sublist (l # take_block ls) (l # ls)"
  using take_block_prefix by (auto intro!: prefix_imp_sublist)

lemma sublist_tail: "sublist (l # ls) lines \<Longrightarrow> sublist (drop n ls) lines"
  by (metis sublist_order.order_trans sublist_drop drop_Suc_Cons)

lemma announced_found:
  "announced_plan ls = Some (Some p) \<Longrightarrow> sublist ls lines \<Longrightarrow> found_in (join_lines lines) p"
proof (induction ls)
  case (Cons l ls)
  show ?case
  proof (cases "plan_heading l \<and> take_block ls \<noteq> [] \<and> names_all_three (join_lines (take_block ls))")
    case True
    then have "names_all_three (join_lines (l # take_block ls))"
      using names_after by (cases "take_block ls") auto
    then show ?thesis
      using True Cons.prems finish_found [of "l # take_block ls" p lines]
        sublist_order.order_trans [OF block_sublist Cons.prems(2)] by (auto simp: Let_def)
  next
    case False
    then show ?thesis using Cons sublist_tail [OF Cons.prems(2), of 0] by (auto simp: Let_def)
  qed
qed simp

lemma listed_found:
  "listed_plan ls = Some p \<Longrightarrow> sublist ls lines \<Longrightarrow> found_in (join_lines lines) p"
proof (induction ls rule: listed_plan.induct)
  case (2 l ls)
  show ?case
  proof (cases "\<not> list_item l \<and> \<not> table_row l")
    case True
    then show ?thesis using "2.IH"(1) "2.prems" sublist_tail [OF "2.prems"(2), of 0] by auto
  next
    case item: False
    show ?thesis
    proof (cases "names_all_three (join_lines (l # take_block ls))")
      case True
      then show ?thesis
        using item "2.prems" finish_found [OF _ sublist_order.order_trans [OF block_sublist "2.prems"(2)] True]
        by (auto simp: Let_def)
    next
      case False
      then have "listed_plan (drop (length (l # take_block ls)) ls) = Some p"
        using item "2.prems"(1) by (auto simp: Let_def split: if_splits)
      then show ?thesis
        using "2.IH"(2) [OF item refl False] sublist_tail [OF "2.prems"(2)] by blast
    qed
  qed
qed simp

text \<open>A plan found in a text is a piece of it, word for word, that names where, what and why; past four
  thousand characters it is cut there and marked.\<close>

theorem plan_is_verbatim:
  assumes "read_plan (Some t) = Some p"
  shows "\<exists>q. sublist q t \<and> names_all_three q \<and>
    p = (if length q > 4000 then trim_right (take 4000 q) @ [10, ELLIPSIS] else q)"
proof -
  have "found_in (join_lines (split_lf t)) p"
    using assms announced_found [of "split_lf t" p "split_lf t"] listed_found [of "split_lf t" p "split_lf t"]
    by (auto simp: read_plan_def split: if_splits option.splits)
  then show ?thesis by (auto simp: found_in_def plan_of_def MAX_PLAN_CHARS_def)
qed

definition SAMPLE_TEXT :: jtext where
  "SAMPLE_TEXT = js ''ok'' @ [10] @ js ''- where what why''"

lemma sample_plan: "read_plan (Some SAMPLE_TEXT) = Some (js ''- where what why'')"
  by code_simp

theorem plan_is_verbatim_witness:
  "\<exists>q. sublist q SAMPLE_TEXT \<and> names_all_three q \<and>
     js ''- where what why'' = (if length q > 4000 then trim_right (take 4000 q) @ [10, ELLIPSIS] else q)"
  by (rule plan_is_verbatim [OF sample_plan])

end
