(* ===== verification/SessionProtocol.thy ===== *)
theory SessionProtocol
  imports TransactionUndo RunChecks CheckProposals PlanTool PlanText
begin

text \<open>
  The protocol of a session: \<open>session-protocol.ts\<close>, \<open>submit-transaction-tool.ts\<close> and \<open>tool-activity.ts\<close> of
  \<open>sdk/packages/core/src/runtime/atomic/\<close>. Arming it, the boundary every silent turn reaches, the tools that submit
  and check a transaction, the decoration of the session's other tools, and turning it off. What the host and the
  outside give is the record \<open>host\<close> and, at one call, the record \<open>moment\<close>.
\<close>

section \<open>Arming\<close>

definition DEFAULT_MAX_CHANGES :: int where
  "DEFAULT_MAX_CHANGES = 6"

definition DEFAULT_MAX_TRANSACTIONS :: int where
  "DEFAULT_MAX_TRANSACTIONS = 6"

definition DEFAULT_MAX_EMPTY_ATTEMPTS :: nat where
  "DEFAULT_MAX_EMPTY_ATTEMPTS = 1"

definition DEFAULT_MAX_UNSTARTED_ATTEMPTS :: nat where
  "DEFAULT_MAX_UNSTARTED_ATTEMPTS = 6"

definition DEFAULT_SILENT_TURNS_BEFORE_GUARD :: nat where
  "DEFAULT_SILENT_TURNS_BEFORE_GUARD = 3"

text \<open>The configuration, with the options of the session where they outrank it.\<close>

record atomic_config =
  cfg_mode :: "jtext option"
  cfg_max_changes :: "int option"
  cfg_max_transactions :: "int option"
  cfg_propose_check :: "bool option"
  cfg_can_ask :: bool
  cfg_max_proposals :: "nat option"
  cfg_reconsidered_after :: "int option"
  cfg_forgets_reads :: bool
  cfg_carries_stamps :: bool
  cfg_last_words :: "jtext option"

datatype arming = Mode_Off | Not_Armed jtext | Armed jtext bool

definition arm_protocol :: "atomic_config \<Rightarrow> check_oracle option \<Rightarrow> arming" where
  "arm_protocol cfg oc_found =
     (let allowed = (cfg_propose_check cfg \<noteq> Some False);
          can_propose = (oc_found = None \<and> cfg_can_ask cfg \<and> allowed)
      in if opt_default (js ''off'') (cfg_mode cfg) = js ''off'' then Mode_Off
         else if oc_found = None \<and> \<not> can_propose \<and> allowed
         then Not_Armed (js ''Change protocol stood down: nothing in this workspace can be run to judge a change, '' @
                        js ''and there is nobody here to approve one the model proposes. Name a check of your '' @
                        js ''own to have it engage.'')
         else Armed (case oc_found of
                Some oc \<Rightarrow> (js ''Change protocol armed: each attempt is judged by `'' @
                o_label oc @
                js ''` ('' @
                o_reason oc @
                js ''), and an attempt that fails it is put back.'')
              | None \<Rightarrow> if can_propose
                  then (js ''Change protocol armed with nothing to run: the model will propose a check and ask '' @
                       js ''you to approve it. Until one is approved it judges its own work, which is labelled '' @
                       js ''as such on every attempt.'')
                  else (js ''Change protocol armed with no check to run: the model judges its own work, which is '' @
                       js ''the weaker of the two and is labelled as such on every attempt.'')) can_propose)"

definition session_tx_options :: "limits \<Rightarrow> atomic_config \<Rightarrow> check_oracle option \<Rightarrow> bool \<Rightarrow> tx_options" where
  "session_tx_options lims cfg oc_found can_propose =
     \<lparr>opt_max_changes = opt_default DEFAULT_MAX_CHANGES (cfg_max_changes cfg),
      opt_max_transactions = opt_default DEFAULT_MAX_TRANSACTIONS (cfg_max_transactions cfg),
      opt_oracle = oc_found, opt_allow_proposal = can_propose,
      opt_reconsidered_after =
        Some (opt_default DEFAULT_CHECK_RECONSIDERED_AFTER (cfg_reconsidered_after cfg)),
      opt_limits = lims, opt_forgets_reads = cfg_forgets_reads cfg, opt_carries_stamps = cfg_carries_stamps cfg,
      opt_last_words = cfg_last_words cfg\<rparr>"

section \<open>State\<close>

text \<open>\<open>h_lower\<close> is \<open>toLowerCase\<close>, \<open>h_show\<close> the text of a thrown error; the fields after it are what reading a
  proposal needs.\<close>

record host =
  h_ops :: tx_options
  h_sha :: "bytes \<Rightarrow> jtext"
  h_through :: "path \<Rightarrow> bytes \<Rightarrow> entries option"
  h_note :: "jtext \<Rightarrow> (path \<times> bytes) list \<Rightarrow> jtext option"
  h_lower :: "jtext \<Rightarrow> jtext"
  h_show :: "tx_error \<Rightarrow> jtext"
  h_relative :: "jtext \<Rightarrow> jtext"
  h_is_absolute :: "jtext \<Rightarrow> bool"
  h_regex_error :: "jtext \<Rightarrow> jtext option"
  h_windows :: bool
  h_root :: jtext
  h_max_proposals :: "nat option"

text \<open>What running the check gives at a call: on its own, and as the judge; and the clock.\<close>

record moment =
  mo_check :: check_run
  mo_judge :: check_run
  mo_now :: int
  mo_later :: int
  mo_stamp_before :: "path \<Rightarrow> jtext option"
  mo_stamp_after :: "path \<Rightarrow> jtext option"

text \<open>\<open>gate\<close> and \<open>capture\<close> are what \<open>decorateTools\<close> keeps; the gate only where there was a check then.\<close>

record session =
  ctl :: controller
  opening_rules :: "jtext option"
  finished :: bool
  stood_down :: bool
  empty_attempts :: nat
  called_in_transaction :: nat
  unstarted_attempts :: nat
  silent_boundaries :: nat
  submitting :: bool
  planned :: "(nat \<times> jtext) option"
  stalls :: stalled
  check_count :: check_counter
  proposals :: propose_state
  plan_items :: plan_state
  edit_gate :: "(jtext \<times> check_gate) option"
  plan_watch :: plan_capture

definition start_session :: "host \<Rightarrow> int \<Rightarrow> entries \<Rightarrow> revision_log \<Rightarrow> session" where
  "start_session h now es history0 =
     (case open_transaction (h_sha h) (h_ops h) now (new_controller es history0) of (c, prompt) \<Rightarrow>
       \<lparr>ctl = c, opening_rules = Some prompt, finished = False, stood_down = False, empty_attempts = 0,
        called_in_transaction = 0, unstarted_attempts = 0, silent_boundaries = 0, submitting = False, planned = None,
        stalls = new_stalled 0, check_count = new_counter, proposals = new_propose_state,
        plan_items = new_plan_state 0, edit_gate = None, plan_watch = new_capture 0\<rparr>)"

definition take_opening_rules :: "session \<Rightarrow> session \<times> jtext option" where
  "take_opening_rules s = (s\<lparr>opening_rules := None\<rparr>, opening_rules s)"

section \<open>The model's own account\<close>

definition DOUBTS :: "jtext list" where
  "DOUBTS = [js ''could not verify'', js ''couldn't verify'', js ''unable to verify'', js ''cannot verify'',
     js ''can't verify'', js ''could not test'', js ''unable to test'', js ''not able to test'',
     js ''i cannot tell'', js ''i can't tell'', js ''unverified'', js ''not verified'']"

definition FAILURES :: "jtext list" where
  "FAILURES = [js ''still fails'', js ''still failing'', js ''still broken'', js ''did not work'', js ''didn't work'',
     js ''does not work'', js ''doesn't work'', js ''was not able to fix'', js ''could not fix'', js ''couldn't fix'']"

definition read_self_report :: "(jtext \<Rightarrow> jtext) \<Rightarrow> jtext option \<Rightarrow> self_report option" where
  "read_self_report lower text_opt =
     (case text_opt of
        None \<Rightarrow> None
      | Some t \<Rightarrow>
          if t = [] then None
          else if list_ex (\<lambda>p. contains_text p (lower t)) DOUBTS then Some Self_Unsure
          else if list_ex (\<lambda>p. contains_text p (lower t)) FAILURES then Some Self_Failure
          else None)"

section \<open>Settling\<close>

record closed_transaction =
  ct_kept :: bool
  ct_message :: "jtext option"

definition settlement_text :: "jtext option \<Rightarrow> jtext \<Rightarrow> oracle_verdict option \<Rightarrow> jtext \<Rightarrow> jtext" where
  "settlement_text notice message v prompt = join_with [10, 10]
     ((case notice of Some n \<Rightarrow> [n] | None \<Rightarrow> []) @ [message] @
      (case v of Some w \<Rightarrow> if v_output w = [] then [] else [js ''The check said:'' @ 10 # v_output w] | None \<Rightarrow> []) @
      [prompt])"

definition reset_attempts :: "session \<Rightarrow> session" where
  "reset_attempts s =
     s\<lparr>empty_attempts := 0, called_in_transaction := 0, unstarted_attempts := 0, silent_boundaries := 0, planned := None\<rparr>"

definition settle_transaction ::
    "host \<Rightarrow> moment \<Rightarrow> jtext option \<Rightarrow> tx_report \<Rightarrow> session \<Rightarrow> session \<times> (tx_error + closed_transaction)" where
  "settle_transaction h mo notice rep s0 =
     (let s = reset_attempts s0 in
      case settle (h_sha h) (h_through h) (h_note h) (h_ops h) (mo_judge mo) (mo_now mo) (mo_later mo) rep (ctl s) of
        (c, Inl e) \<Rightarrow> (s\<lparr>ctl := c\<rparr>, Inl e)
      | (c, Inr (Kept message v)) \<Rightarrow> (s\<lparr>ctl := c, finished := True\<rparr>, Inr \<lparr>ct_kept = True, ct_message = None\<rparr>)
      | (c, Inr (Not_Kept message v r carried prompt)) \<Rightarrow>
          (case prompt of
             None \<Rightarrow> (s\<lparr>ctl := c, finished := True\<rparr>, Inr \<lparr>ct_kept = False, ct_message = None\<rparr>)
           | Some p \<Rightarrow>
               if p = [] then (s\<lparr>ctl := c, finished := True\<rparr>, Inr \<lparr>ct_kept = False, ct_message = None\<rparr>)
               else (s\<lparr>ctl := c\<rparr>, Inr \<lparr>ct_kept = False, ct_message = Some (settlement_text notice message v p)\<rparr>)))"

text \<open>\<open>judgeStandDown\<close>: a check that cannot be run has no verdict.\<close>

definition judge_stand_down :: "host \<Rightarrow> moment \<Rightarrow> session \<Rightarrow> session \<times> oracle_verdict option" where
  "judge_stand_down h mo s =
     (if oracle_of (h_ops h) (ctl s) = None then (s, None)
      else (case run_check (h_ops h) (mo_check mo) (ctl s) of
              (c, Inr v) \<Rightarrow> (s\<lparr>ctl := c\<rparr>, Some v)
            | (c, Inl e) \<Rightarrow> (s\<lparr>ctl := c\<rparr>, None)))"

section \<open>Judging a submission\<close>

definition failing_of :: "host \<Rightarrow> session \<Rightarrow> oracle_verdict option \<Rightarrow> failing_check option" where
  "failing_of h s unfixed =
     (case unfixed of
        None \<Rightarrow> None
      | Some v \<Rightarrow> Some (case oracle_of (h_ops h) (ctl s) of Some oc \<Rightarrow> o_label oc | None \<Rightarrow> js ''the check'',
                        if v_output v = [] then None else Some (v_output v)))"

definition silent_notice :: "host \<Rightarrow> bool \<Rightarrow> oracle_verdict option \<Rightarrow> session \<Rightarrow> jtext" where
  "silent_notice h untouched unfixed s =
     describe_silent_turn (current (ctl s)) (int (silent_boundaries s)) (int DEFAULT_SILENT_TURNS_BEFORE_GUARD)
       untouched (failing_of h s unfixed)"

definition emit_empty :: "jtext \<Rightarrow> bool \<Rightarrow> session \<Rightarrow> session" where
  "emit_empty message continued s = s\<lparr>ctl := emit (Empty_Submission (current (ctl s)) message continued) (ctl s)\<rparr>"

definition held_open_text :: "host \<Rightarrow> jtext \<Rightarrow> oracle_verdict option \<Rightarrow> session \<Rightarrow> jtext" where
  "held_open_text h notice unfixed s = join_with [10, 10]
     [notice, build_empty_attempt_prompt (current (ctl s)) (opt_max_changes (h_ops h)) (opt_max_transactions (h_ops h))
        (failing_of h s unfixed) (called_in_transaction s = 0)]"

definition plan_for_report :: "jtext option \<Rightarrow> session \<Rightarrow> jtext option" where
  "plan_for_report text_opt s =
     (case read_plan text_opt of
        Some p \<Rightarrow> Some p
      | None \<Rightarrow> (case planned s of
          Some (n, p) \<Rightarrow> if n = current (ctl s) \<and> p \<noteq> [] then Some p else None
        | None \<Rightarrow> None))"

definition close_submission ::
    "host \<Rightarrow> moment \<Rightarrow> jtext option \<Rightarrow> bool \<Rightarrow> jtext option \<Rightarrow> session \<Rightarrow> session \<times> (tx_error + jtext option)" where
  "close_submission h mo text_opt forced notice s =
     (case settle_transaction h mo notice
         \<lparr>rep_plan = plan_for_report text_opt s, rep_account = text_opt,
          rep_self = (if opt_oracle (h_ops h) \<noteq> None then None else read_self_report (h_lower h) text_opt),
          rep_forced = forced\<rparr> s of
        (s', Inl e) \<Rightarrow> (s', Inl e)
      | (s', Inr ct) \<Rightarrow> (s', Inr (ct_message ct)))"

text \<open>An untouched transaction past the guard: the run stops, or the transaction is held open, or it is spent.\<close>

definition empty_submission ::
    "host \<Rightarrow> moment \<Rightarrow> jtext option \<Rightarrow> bool \<Rightarrow> oracle_verdict option \<Rightarrow> session \<Rightarrow> session \<times> (tx_error + jtext option)" where
  "empty_submission h mo text_opt forced unfixed s0 =
     (let never_began = (called_in_transaction s0 = 0);
          s = (if never_began then s0\<lparr>unstarted_attempts := Suc (unstarted_attempts s0)\<rparr>
               else s0\<lparr>empty_attempts := Suc (empty_attempts s0)\<rparr>)
      in if never_began \<and> unstarted_attempts s > DEFAULT_MAX_UNSTARTED_ATTEMPTS
         then (emit_empty (describe_never_started (current (ctl s)) (unstarted_attempts s)) False (s\<lparr>finished := True\<rparr>),
               Inr None)
         else let continued = (never_began \<or> empty_attempts s \<le> DEFAULT_MAX_EMPTY_ATTEMPTS);
                  notice = describe_empty_attempt (current (ctl s)) continued never_began;
                  s' = emit_empty notice continued s
              in if continued then (s', Inr (Some (held_open_text h notice unfixed s')))
                 else close_submission h mo text_opt forced (Some notice) s')"

definition judge_open ::
    "host \<Rightarrow> moment \<Rightarrow> jtext option \<Rightarrow> bool \<Rightarrow> bool \<Rightarrow> bool \<Rightarrow> oracle_verdict option \<Rightarrow> session \<Rightarrow>
     session \<times> (tx_error + jtext option)" where
  "judge_open h mo text_opt forced deliberate untouched unfixed s =
     (if \<not> deliberate \<and> \<not> forced \<and> silent_boundaries s < DEFAULT_SILENT_TURNS_BEFORE_GUARD
      then (s, Inr (Some (silent_notice h untouched unfixed s)))
      else if untouched then empty_submission h mo text_opt forced unfixed s
      else close_submission h mo text_opt forced None s)"

definition judge_submission ::
    "host \<Rightarrow> moment \<Rightarrow> jtext option \<Rightarrow> bool \<Rightarrow> bool \<Rightarrow> session \<Rightarrow> session \<times> (tx_error + jtext option)" where
  "judge_submission h mo text_opt forced deliberate s =
     (if finished s then (s, Inr None)
      else let untouched = is_untouched (h_sha h) (h_ops h) (ctl s) in
        if outcomes (ctl s) = [] \<and> untouched
        then (case judge_stand_down h mo s of
                (s1, None) \<Rightarrow> (s1\<lparr>finished := True\<rparr>, Inr None)
              | (s1, Some v) \<Rightarrow>
                  if v_passed v then (s1\<lparr>finished := True\<rparr>, Inr None)
                  else judge_open h mo text_opt forced deliberate untouched (Some v) s1)
        else judge_open h mo text_opt forced deliberate untouched None s)"

definition on_completion_attempt ::
    "host \<Rightarrow> moment \<Rightarrow> jtext option \<Rightarrow> bool \<Rightarrow> session \<Rightarrow> session \<times> (tx_error + jtext option)" where
  "on_completion_attempt h mo text_opt forced s =
     (if stood_down s \<or> submitting s then (s, Inr None)
      else judge_submission h mo text_opt forced False (s\<lparr>silent_boundaries := Suc (silent_boundaries s)\<rparr>))"

section \<open>The tools\<close>

definition refuse_disengaged :: "jtext \<Rightarrow> jtext" where
  "refuse_disengaged name = (js ''`'' @
                            name @
                            js ''` is not available: the user turned the change protocol off. There are no '' @
                            js ''transactions now -- edit the files directly, and say what you changed.'')"

definition SUBMITTED_AND_SETTLED :: jtext where
  "SUBMITTED_AND_SETTLED = (js ''Submitted, and that settles it: the task is done and this run is over. Say plainly '' @
                           js ''what you changed.'')"

definition not_settled_text :: "jtext \<Rightarrow> jtext" where
  "not_settled_text message = (js ''The transaction could not be settled: '' @
  message @
  js ''. It is still open and your changes are still in place.'')"

definition submitted_account :: "json \<Rightarrow> jtext option" where
  "submitted_account input =
     (case json_member input (js ''account'') of Some (JStr t) \<Rightarrow> said (Some t) | _ \<Rightarrow> None)"

definition submit_tool :: "host \<Rightarrow> moment \<Rightarrow> json \<Rightarrow> session \<Rightarrow> session \<times> jtext" where
  "submit_tool h mo input s =
     (if stood_down s then (s, refuse_disengaged SUBMIT_TRANSACTION_TOOL_NAME)
      else (case judge_submission h mo (submitted_account input) False True (s\<lparr>submitting := True\<rparr>) of
              (s', Inr message) \<Rightarrow> (s'\<lparr>submitting := False\<rparr>, opt_default SUBMITTED_AND_SETTLED message)
            | (s', Inl e) \<Rightarrow> (s'\<lparr>submitting := False\<rparr>, not_settled_text (h_show h e))))"

text \<open>\<open>onRun\<close> of the check's tool.\<close>

definition on_run ::
    "host \<Rightarrow> moment \<Rightarrow> oracle_verdict \<Rightarrow> check_oracle \<Rightarrow> session \<Rightarrow> session \<times> (tx_error + jtext option)" where
  "on_run h mo v oc s0 =
     (case stalled_checked None None (current (ctl s0)) (v_passed v) (stalls s0) of (st, earned) \<Rightarrow>
      let s = s0\<lparr>stalls := st\<rparr> in
      if earned = Stalled_Ok \<or> finished s then (s, Inr None)
      else if earned = Stalled_Nudge then (s, Inr (Some (describe_stalled_check_nudge (st_streak st) (o_label oc))))
      else let notice = describe_stalled_checks (st_streak st) (o_label oc) in
        (case settle_transaction h mo (Some notice)
            \<lparr>rep_plan = (case planned s of Some (n, p) \<Rightarrow> if n = current (ctl s) \<and> p \<noteq> [] then Some p else None | None \<Rightarrow> None),
             rep_account = Some notice, rep_self = None, rep_forced = True\<rparr> s of
           (s', Inl e) \<Rightarrow> (s', Inl e)
         | (s', Inr ct) \<Rightarrow>
             (s', Inr (Some (case ct_message ct of
                Some m \<Rightarrow> m
              | None \<Rightarrow> if ct_kept ct then (notice @
              [10, 10] @
              js ''Judged at that point the check passed, so the task is settled and this run is done.'')
                        else (notice @
                             [10, 10] @
                             js ''That was the last transaction, so there is no next one. Say plainly what you tried '' @
                             js ''and what the check still says.''))))))"

definition session_run_check :: "host \<Rightarrow> moment \<Rightarrow> session \<Rightarrow> session \<times> (tx_error + oracle_verdict)" where
  "session_run_check h mo s =
     (case run_check (h_ops h) (mo_check mo) (ctl s) of (c, x) \<Rightarrow> (s\<lparr>ctl := c\<rparr>, x))"

definition check_tool :: "host \<Rightarrow> moment \<Rightarrow> session \<Rightarrow> session \<times> (tx_error + jtext)" where
  "check_tool h mo s =
     (if stood_down s then (s, Inr (refuse_disengaged RUN_CHECK_TOOL_NAME))
      else (case run_check_tool (h_show h) (session_run_check h mo) (on_run h mo) (opt_allow_proposal (h_ops h))
                  (oracle_of (h_ops h) (ctl s)) (current (ctl s)) (check_count s) s of
              (rc, s', x) \<Rightarrow> (s'\<lparr>check_count := rc\<rparr>, x)))"

definition plan_tool :: "host \<Rightarrow> json \<Rightarrow> session \<Rightarrow> session \<times> jtext" where
  "plan_tool h input s =
     (if stood_down s then (s, refuse_disengaged PLAN_TOOL_NAME)
      else (case plan_call (opt_max_changes (h_ops h)) (current (ctl s)) input (plan_items s) of
              (p, t) \<Rightarrow> (s\<lparr>plan_items := p\<rparr>, t)))"

text \<open>The proposing tool, offered where there is nothing to run and someone to ask.\<close>

definition propose_tool :: "host \<Rightarrow> moment \<Rightarrow> approval \<Rightarrow> json \<Rightarrow> session \<Rightarrow> session \<times> jtext" where
  "propose_tool h mo answer input s =
     (if stood_down s then (s, refuse_disengaged PROPOSE_CHECK_TOOL_NAME)
      else (case propose_check (h_relative h) (h_is_absolute h) (h_regex_error h) (h_windows h) (h_root h)
                  (h_max_proposals h) (h_ops h)
                  (judge_against_base (h_sha h) (h_through h) (h_ops h) (mo_check mo) (mo_stamp_before mo) (mo_stamp_after mo))
                  answer input (proposals s) (ctl s) of
              (ps, c, t) \<Rightarrow> (s\<lparr>proposals := ps, ctl := c\<rparr>, t)))"

section \<open>Decoration\<close>

definition decorate_tools :: "host \<Rightarrow> session \<Rightarrow> session" where
  "decorate_tools h s =
     s\<lparr>edit_gate := map_option (\<lambda>oc. (o_label oc, new_gate (current (ctl s)))) (oracle_of (h_ops h) (ctl s)),
       plan_watch := new_capture (current (ctl s))\<rparr>"

definition signal_call :: "jtext \<Rightarrow> session \<Rightarrow> session" where
  "signal_call name s0 =
     (let s = s0\<lparr>silent_boundaries := 0\<rparr> in
      if name = SUBMIT_TRANSACTION_TOOL_NAME then s
      else s\<lparr>called_in_transaction := Suc (called_in_transaction s)\<rparr>)"

definition pass_gate :: "jtext \<Rightarrow> nat \<Rightarrow> session \<Rightarrow> session \<times> jtext option" where
  "pass_gate name iteration s =
     (case edit_gate s of
        None \<Rightarrow> (s, None)
      | Some (label, g) \<Rightarrow>
          if name = RUN_CHECK_TOOL_NAME then (s\<lparr>edit_gate := Some (label, gate_check_run (current (ctl s)) g)\<rparr>, None)
          else if name \<in> set EDITING_TOOLS
          then (case gate_edit label (current (ctl s)) iteration g of
                  (g', told) \<Rightarrow> (s\<lparr>edit_gate := Some (label, g')\<rparr>, told))
          else (s, None))"

definition signal_change :: "jtext \<Rightarrow> session \<Rightarrow> session" where
  "signal_change name s =
     (if name \<in> set CHANGING_TOOLS then s\<lparr>stalls := stalled_changed (current (ctl s)) (stalls s)\<rparr> else s)"

text \<open>What a plan leaves in the session; the event that tells the host of it is not modelled.\<close>

definition watch_plan :: "message list option \<Rightarrow> session \<Rightarrow> session" where
  "watch_plan messages s =
     (case capture_plan (current (ctl s)) messages (plan_watch s) of
        (pc, None) \<Rightarrow> s\<lparr>plan_watch := pc\<rparr>
      | (pc, Some (p, from_where)) \<Rightarrow> s\<lparr>plan_watch := pc, planned := Some (current (ctl s), p)\<rparr>)"

text \<open>A call of a decorated tool, up to the tool: from the outside in the signal, the gate, the signal of a change
  and the search for a plan. With a text, the call ends there.\<close>

definition enter_tool :: "jtext \<Rightarrow> nat \<Rightarrow> message list option \<Rightarrow> session \<Rightarrow> session \<times> jtext option" where
  "enter_tool name iteration messages s =
     (case pass_gate name iteration (signal_call name s) of
        (s', Some told) \<Rightarrow> (s', Some told)
      | (s', None) \<Rightarrow> (watch_plan messages (signal_change name s'), None))"

section \<open>What a silent turn is told, and turning it off\<close>

definition describe_unstarted_work :: "host \<Rightarrow> session \<Rightarrow> jtext option" where
  "describe_unstarted_work h s =
     (if finished s then None
      else if \<not> is_untouched (h_sha h) (h_ops h) (ctl s) then None
      else Some ((js '' The change protocol is engaged and '' @
                 tx_label (current (ctl s)) @
                 js '' is open with nothing in it:'') @
                 js '' no file has been changed yet. It does not replace your other instructions,'' @
                 (js '' and it cannot advance on prose '' @
                 [EM_DASH] @
                 js '' reading a file, running the check and'') @
                 js '' editing are all tool calls, and one of them is the next thing to do.'' @
                 js '' Start by reading what you are about to change.''))"

definition NOTHING_TO_JUDGE :: disengagement where
  "NOTHING_TO_JUDGE = \<lparr>d_transaction = None, d_verdict = None, d_put_back = None, d_kept = None\<rparr>"

definition files_put_back :: "restore_report \<Rightarrow> nat" where
  "files_put_back r = length (restored r) + length (removed r) + length (recreated r)"

definition FORCED_REPORT :: tx_report where
  "FORCED_REPORT = \<lparr>rep_plan = None, rep_account = None, rep_self = None, rep_forced = True\<rparr>"

definition disengage :: "host \<Rightarrow> moment \<Rightarrow> session \<Rightarrow> session \<times> (tx_error + jtext option)" where
  "disengage h mo s0 =
     (if stood_down s0 then (s0, Inr None)
      else let s = s0\<lparr>stood_down := True\<rparr>; n = current (ctl s) in
        if finished s \<or> is_untouched (h_sha h) (h_ops h) (ctl s)
        then (s, Inr (Some (describe_disengagement NOTHING_TO_JUDGE)))
        else (case settle (h_sha h) (h_through h) (h_note h) (h_ops h) (mo_judge mo) (mo_now mo) (mo_later mo)
                FORCED_REPORT (ctl s) of
           (c, Inl e) \<Rightarrow> (s\<lparr>ctl := c\<rparr>, Inl e)
         | (c, Inr (Kept message v)) \<Rightarrow>
             (s\<lparr>ctl := c\<rparr>, Inr (Some (describe_disengagement
                \<lparr>d_transaction = Some n, d_verdict = Some message, d_put_back = Some 0, d_kept = Some True\<rparr>)))
         | (c, Inr (Not_Kept message v r carried prompt)) \<Rightarrow>
             (s\<lparr>ctl := c\<rparr>, Inr (Some (describe_disengagement
                \<lparr>d_transaction = Some n, d_verdict = Some message, d_put_back = Some (files_put_back r),
                 d_kept = Some False\<rparr>)))))"

end
