(* ===== verification/SessionRuns.thy ===== *)
theory SessionRuns
  imports SessionProtocol
begin

text \<open>
  Any sequence of what can happen to a session, as a machine with an invariant: a session that is neither finished
  nor turned off has a transaction open, within its budget.
\<close>

section \<open>What the operations leave alone\<close>

lemma reset_attempts_fields [simp]:
  "ctl (reset_attempts s) = ctl s" "finished (reset_attempts s) = finished s" "stood_down (reset_attempts s) = stood_down s"
  "submitting (reset_attempts s) = submitting s" "stalls (reset_attempts s) = stalls s"
  "empty_attempts (reset_attempts s) = 0" "unstarted_attempts (reset_attempts s) = 0"
  "called_in_transaction (reset_attempts s) = 0" "silent_boundaries (reset_attempts s) = 0"
  by (simp_all add: reset_attempts_def)

lemma emit_empty_fields [simp]:
  "ctl (emit_empty m b s) = emit (Empty_Submission (current (ctl s)) m b) (ctl s)"
  "finished (emit_empty m b s) = finished s" "stood_down (emit_empty m b s) = stood_down s"
  "submitting (emit_empty m b s) = submitting s" "silent_boundaries (emit_empty m b s) = silent_boundaries s"
  "empty_attempts (emit_empty m b s) = empty_attempts s" "unstarted_attempts (emit_empty m b s) = unstarted_attempts s"
  "called_in_transaction (emit_empty m b s) = called_in_transaction s"
  by (simp_all add: emit_empty_def)

lemma numbered_emit [simp]: "numbered_outcomes ops (emit e c) = numbered_outcomes ops c"
  by (simp add: numbered_outcomes_def)

lemma settle_failed_error:
  assumes "settle_failed sha through note_of ops now elapsed src rep b opened v evidence moved c = (c', Inl e)"
  shows "outcomes c' = outcomes c \<and> base c' = base c \<and> current c' = current c"
  using assms
  by (cases "carries_on sha ops rep opened moved c"; cases "int (current c) \<ge> opt_max_transactions ops")
    (auto simp: settle_failed_def Let_def split: prod.splits sum.splits if_splits)

lemma settle_error:
  assumes "settle sha through note_of ops run now later rep c = (c', Inl e)"
  shows "outcomes c' = outcomes c \<and> base c' = base c \<and> current c' = current c"
proof (cases "base c")
  case None
  then show ?thesis using assms by (simp add: settle_def)
next
  case (Some b)
  let ?c = "emit (Judging_Event (current c) (oracle_of ops c)) c"
  obtain c1 kept v evidence moved where d: "decide ops run rep ?c = (c1, kept, v, evidence, moved)"
    by (metis prod_cases5)
  note same = decide_result(1,2,4) [OF d]
  show ?thesis
  proof (cases kept)
    case True
    then show ?thesis using assms Some d by (simp add: settle_def settle_kept_def Let_def)
  next
    case False
    then have "settle_failed sha through note_of ops later
        (map_option (\<lambda>t. now - t) (opened_at c)) (source_of ops c rep) rep b
        (opt_default b (opened_with c)) v evidence moved c1 = (c', Inl e)"
      using assms Some d by (simp add: settle_def Let_def)
    from settle_failed_error [OF this] same show ?thesis by simp
  qed
qed

text \<open>A transaction is open, within the budget, with the ones before it on record.\<close>

definition open_ok :: "tx_options \<Rightarrow> controller \<Rightarrow> bool" where
  "open_ok ops c = (base c \<noteq> None \<and> numbered_outcomes ops c)"

definition in_budget :: "tx_options \<Rightarrow> controller \<Rightarrow> bool" where
  "in_budget ops c = (int (length (outcomes c)) \<le> max 1 (opt_max_transactions ops))"

lemma open_in_budget: "open_ok ops c \<Longrightarrow> in_budget ops c"
  using numbered_length [of ops c] by (auto simp: open_ok_def in_budget_def numbered_outcomes_def)

text \<open>What a settlement leaves when it opens no other transaction.\<close>

definition reopened :: "settlement \<Rightarrow> bool" where
  "reopened st = (case st of Not_Kept m v r ca (Some p) \<Rightarrow> True | _ \<Rightarrow> False)"

lemma settle_open:
  assumes "settle sha through note_of ops run now later rep c = (c', out)" "open_ok ops c"
  shows "in_budget ops c' \<and> (case out of Inl e \<Rightarrow> open_ok ops c' | Inr st \<Rightarrow> reopened st \<longrightarrow> open_ok ops c')"
proof (cases out)
  case (Inl e)
  with assms settle_error have "outcomes c' = outcomes c \<and> base c' = base c \<and> current c' = current c" by metis
  then have "open_ok ops c'" using assms(2) by (simp add: open_ok_def numbered_outcomes_def)
  then show ?thesis using Inl open_in_budget by simp
next
  case (Inr st)
  have num: "numbered_outcomes ops c" using assms(2) by (simp add: open_ok_def)
  note len = numbered_length [OF num]
  have failed: "failed_outcome c ca c' \<Longrightarrow> map tx_number (outcomes c') = [1..<Suc (current c)] \<and>
      list_all (\<lambda>h. \<not> tx_kept h) (outcomes c') \<and> length (outcomes c') = current c" for ca
    using failed_outcome_append [of c ca c'] num by (simp add: numbered_outcomes_def)
  from assms(1) [unfolded Inr] show ?thesis
    by (rule settle_result)
      (use failed num len Inr in \<open>fastforce simp: open_ok_def in_budget_def reopened_def numbered_outcomes_def
         split: settlement.splits option.splits simp del: upt_Suc\<close>)
qed

section \<open>What does not settle\<close>

definition same_record :: "controller \<Rightarrow> controller \<Rightarrow> bool" where
  "same_record c c' = (outcomes c' = outcomes c \<and> base c' = base c \<and> current c' = current c)"

lemma same_record_refl [simp]: "same_record c c"
  by (simp add: same_record_def)

lemma same_record_trans: "same_record a b \<Longrightarrow> same_record b c \<Longrightarrow> same_record a c"
  by (simp add: same_record_def)

lemma same_open: "same_record c c' \<Longrightarrow> open_ok ops c \<Longrightarrow> open_ok ops c'"
  by (simp add: same_record_def open_ok_def numbered_outcomes_def)

lemma same_budget: "same_record c c' \<Longrightarrow> in_budget ops c \<Longrightarrow> in_budget ops c'"
  by (simp add: same_record_def in_budget_def)

lemma same_run_check: "run_check ops run c = (c', x) \<Longrightarrow> same_record c c'"
  by (auto simp: run_check_def same_record_def split: if_splits option.splits prod.splits
      dest: judge_result(3) judge_result(4) judge_result(6))

lemma same_against_base: "judge_against_base sha through ops run stamp0 stamp1 oc c = (c', x) \<Longrightarrow> same_record c c'"
  by (auto simp: judge_against_base_def carry_stamps_def same_record_def Let_def
      split: option.splits if_splits prod.splits sum.splits)

lemma same_adopt: "adopt_oracle ops oc c = (c', x) \<Longrightarrow> same_record c c'"
  by (auto simp: adopt_oracle_def same_record_def split: if_splits)

lemma same_adopt_proposal: "adopt_proposal ops p oc ps c = (ps', c', t) \<Longrightarrow> same_record c c'"
  by (auto simp: adopt_proposal_def split: prod.splits sum.splits dest!: same_adopt)

lemma same_propose:
  assumes "propose_check relative is_absolute regex_error win dir most ops
    (judge_against_base sha through ops run stamp0 stamp1) answer input ps c = (ps', c', t)"
  shows "same_record c c'"
  using assms
  by (auto simp: propose_check_def Let_def split: if_splits sum.splits approval.splits option.splits prod.splits
      dest!: same_against_base same_adopt_proposal intro: same_record_trans)

section \<open>The invariant\<close>

definition session_ok :: "host \<Rightarrow> session \<Rightarrow> bool" where
  "session_ok h s =
     (in_budget (h_ops h) (ctl s) \<and>
      (\<not> finished s \<and> \<not> stood_down s \<longrightarrow>
         open_ok (h_ops h) (ctl s) \<and> empty_attempts s \<le> DEFAULT_MAX_EMPTY_ATTEMPTS \<and>
         unstarted_attempts s \<le> DEFAULT_MAX_UNSTARTED_ATTEMPTS))"

lemma session_ok_same:
  assumes "session_ok h s" "same_record (ctl s) (ctl s')" "finished s' = finished s" "stood_down s' = stood_down s"
    "empty_attempts s' = empty_attempts s" "unstarted_attempts s' = unstarted_attempts s"
  shows "session_ok h s'"
  using assms same_open same_budget by (auto simp: session_ok_def)

lemma session_ok_finished:
  "in_budget (h_ops h) (ctl s) \<Longrightarrow> finished s \<Longrightarrow> session_ok h s"
  by (simp add: session_ok_def)

lemma settle_transaction_ok:
  assumes "settle_transaction h mo notice rep s = (s', out)" "open_ok (h_ops h) (ctl s)"
  shows "session_ok h s'"
proof -
  obtain c x where st: "settle (h_sha h) (h_through h) (h_note h) (h_ops h) (mo_judge mo) (mo_now mo) (mo_later mo) rep
      (ctl s) = (c, x)" by fastforce
  from settle_open [OF st assms(2)] assms(1) show ?thesis
    by (auto simp: settle_transaction_def st session_ok_def reopened_def Let_def
        split: sum.splits settlement.splits option.splits if_splits)
qed

lemma close_submission_ok:
  assumes "close_submission h mo text_opt forced notice s = (s', out)" "open_ok (h_ops h) (ctl s)"
  shows "session_ok h s'"
  using assms settle_transaction_ok unfolding close_submission_def
  by (auto split: prod.splits sum.splits)

lemma empty_submission_ok:
  assumes "empty_submission h mo text_opt forced unfixed s = (s', out)" "open_ok (h_ops h) (ctl s)" "session_ok h s"
    "\<not> finished s"
  shows "session_ok h s'"
proof -
  have emitted: "open_ok (h_ops h) (emit e (ctl s))" for e
    using assms(2) by (simp add: open_ok_def)
  note budget = open_in_budget [OF emitted]
  let ?never = "called_in_transaction s = 0"
  consider (stop) "?never" "Suc (unstarted_attempts s) > DEFAULT_MAX_UNSTARTED_ATTEMPTS"
    | (hold) "?never \<longrightarrow> \<not> Suc (unstarted_attempts s) > DEFAULT_MAX_UNSTARTED_ATTEMPTS"
        "?never \<or> Suc (empty_attempts s) \<le> DEFAULT_MAX_EMPTY_ATTEMPTS"
    | (spend) "\<not> ?never" "\<not> Suc (empty_attempts s) \<le> DEFAULT_MAX_EMPTY_ATTEMPTS" by metis
  then show ?thesis
  proof cases
    case stop
    then show ?thesis using assms(1) budget by (auto simp: empty_submission_def Let_def session_ok_def)
  next
    case hold
    then show ?thesis
      using assms emitted budget by (auto simp: empty_submission_def Let_def session_ok_def split: if_splits)
  next
    case spend
    then show ?thesis
      using assms(1) emitted by (auto simp: empty_submission_def Let_def dest!: close_submission_ok)
  qed
qed

lemma judge_open_ok:
  assumes "judge_open h mo text_opt forced deliberate untouched unfixed s = (s', out)" "open_ok (h_ops h) (ctl s)"
    "session_ok h s" "\<not> finished s"
  shows "session_ok h s'"
  using assms by (auto simp: judge_open_def split: if_splits intro: empty_submission_ok close_submission_ok)

lemma stand_down_fields:
  assumes "judge_stand_down h mo s = (s', v)"
  shows "same_record (ctl s) (ctl s')" "finished s' = finished s" "stood_down s' = stood_down s"
    "empty_attempts s' = empty_attempts s" "unstarted_attempts s' = unstarted_attempts s"
    "silent_boundaries s' = silent_boundaries s" "called_in_transaction s' = called_in_transaction s"
    "submitting s' = submitting s"
  using assms by (auto simp: judge_stand_down_def split: if_splits prod.splits sum.splits dest: same_run_check)

lemma judge_submission_ok:
  assumes "judge_submission h mo text_opt forced deliberate s = (s', out)" "session_ok h s" "\<not> stood_down s"
  shows "session_ok h s'"
proof (cases "finished s")
  case True
  then show ?thesis using assms by (simp add: judge_submission_def)
next
  case False
  have op: "open_ok (h_ops h) (ctl s)" using assms(2,3) False by (simp add: session_ok_def)
  show ?thesis
  proof (cases "outcomes (ctl s) = [] \<and> is_untouched (h_sha h) (h_ops h) (ctl s)")
    case True
    obtain s1 v where sd: "judge_stand_down h mo s = (s1, v)" by fastforce
    note fields = stand_down_fields [OF sd]
    have ok: "session_ok h s1" by (rule session_ok_same [OF assms(2)]) (simp_all add: fields)
    have op1: "open_ok (h_ops h) (ctl s1)" using same_open [OF fields(1) op] .
    then have budget: "in_budget (h_ops h) (ctl s1)" by (rule open_in_budget)
    show ?thesis
      using assms(1) False True sd ok op1 budget fields(2)
      by (auto simp: judge_submission_def Let_def split: option.splits if_splits
          intro: session_ok_finished judge_open_ok)
  next
    case changed: False
    then show ?thesis using assms(1,2) False op by (auto simp: judge_submission_def Let_def intro: judge_open_ok)
  qed
qed

lemma on_completion_ok:
  assumes "on_completion_attempt h mo text_opt forced s = (s', out)" "session_ok h s"
  shows "session_ok h s'"
proof (cases "stood_down s \<or> submitting s")
  case True
  then show ?thesis using assms by (simp add: on_completion_attempt_def)
next
  case False
  have "session_ok h (s\<lparr>silent_boundaries := Suc (silent_boundaries s)\<rparr>)" using assms(2) by (simp add: session_ok_def)
  then show ?thesis using assms(1) False judge_submission_ok by (fastforce simp: on_completion_attempt_def)
qed

lemma session_ok_flags [simp]:
  "session_ok h (s\<lparr>submitting := b\<rparr>) = session_ok h s" "session_ok h (s\<lparr>check_count := rc\<rparr>) = session_ok h s"
  "session_ok h (s\<lparr>stalls := st\<rparr>) = session_ok h s" "session_ok h (s\<lparr>plan_items := p\<rparr>) = session_ok h s"
  "session_ok h (s\<lparr>opening_rules := r\<rparr>) = session_ok h s"
  by (simp_all add: session_ok_def)

lemma submit_ok:
  assumes "session_ok h s"
  shows "session_ok h (fst (submit_tool h mo input s))"
proof -
  obtain s' out where j: "judge_submission h mo (submitted_account input) False True (s\<lparr>submitting := True\<rparr>) = (s', out)"
    by fastforce
  show ?thesis using judge_submission_ok [OF j] assms by (auto simp: submit_tool_def j split: sum.splits)
qed

lemma on_run_ok:
  assumes "on_run h mo v oc s = (s', out)" "session_ok h s" "\<not> stood_down s"
  shows "session_ok h s'"
proof -
  obtain st earned where st: "stalled_checked None None (current (ctl s)) (v_passed v) (stalls s) = (st, earned)"
    by fastforce
  let ?s = "s\<lparr>stalls := st\<rparr>"
  show ?thesis
  proof (cases "earned = Stalled_Ok \<or> finished s \<or> earned = Stalled_Nudge")
    case True
    then show ?thesis using assms st by (auto simp: on_run_def Let_def split: if_splits)
  next
    case False
    then have "open_ok (h_ops h) (ctl ?s)" using assms(2,3) by (simp add: session_ok_def)
    then show ?thesis
      using assms(1) st False by (auto simp: on_run_def Let_def split: prod.splits sum.splits dest!: settle_transaction_ok)
  qed
qed

lemma check_tool_ok:
  assumes "session_ok h s"
  shows "session_ok h (fst (check_tool h mo s))"
proof (cases "stood_down s")
  case True
  then show ?thesis using assms by (simp add: check_tool_def)
next
  case False
  have run: "session_ok h s1 \<and> \<not> stood_down s1" if "session_run_check h mo s = (s1, x)" for s1 x
    using that assms False
    by (auto simp: session_run_check_def split: prod.splits dest!: same_run_check intro: session_ok_same)
  show ?thesis
    using assms False run
    by (auto simp: check_tool_def run_check_tool_def Let_def split: option.splits if_splits prod.splits sum.splits
        dest!: on_run_ok)
qed

lemma plan_tool_ok: "session_ok h s \<Longrightarrow> session_ok h (fst (plan_tool h input s))"
  by (simp add: plan_tool_def split: prod.split)

lemma propose_tool_ok: "session_ok h s \<Longrightarrow> session_ok h (fst (propose_tool h mo answer input s))"
  by (auto simp: propose_tool_def split: prod.split dest!: same_propose intro: session_ok_same)

lemma enter_tool_fields:
  "enter_tool name i ms s = (s', told) \<Longrightarrow>
   ctl s' = ctl s \<and> finished s' = finished s \<and> stood_down s' = stood_down s \<and>
   empty_attempts s' = empty_attempts s \<and> unstarted_attempts s' = unstarted_attempts s \<and> submitting s' = submitting s"
  by (auto simp: enter_tool_def pass_gate_def signal_call_def signal_change_def watch_plan_def Let_def
      split: prod.splits option.splits if_splits)

lemma enter_tool_ok: "session_ok h s \<Longrightarrow> session_ok h (fst (enter_tool name i ms s))"
  using enter_tool_fields [of name i ms s] session_ok_same [of h s] by (metis prod.collapse same_record_refl)

lemma disengage_ok:
  assumes "session_ok h s"
  shows "session_ok h (fst (disengage h mo s))"
proof (cases "stood_down s \<or> finished s \<or> is_untouched (h_sha h) (h_ops h) (ctl s)")
  case True
  then show ?thesis using assms by (auto simp: disengage_def session_ok_def Let_def)
next
  case False
  then have op: "open_ok (h_ops h) (ctl s)" using assms by (simp add: session_ok_def)
  obtain c x where st: "settle (h_sha h) (h_through h) (h_note h) (h_ops h) (mo_judge mo) (mo_now mo) (mo_later mo)
      FORCED_REPORT (ctl s) = (c, x)" by fastforce
  from settle_open [OF st op] False show ?thesis
    by (auto simp: disengage_def Let_def st session_ok_def split: sum.split settlement.split)
qed

section \<open>Any sequence of events\<close>

text \<open>What can happen to a session between two awaits of its operations. \<open>Tool_Entered\<close> is a call of a decorated
  tool up to the tool itself, \<open>Files_Changed\<close> what a tool, the user or anything else does to the tree.\<close>

datatype session_event =
    Turn_Ended moment "jtext option" bool
  | Submitted moment json
  | Check_Asked moment
  | Plan_Called json
  | Check_Proposed moment approval json
  | Tool_Entered jtext nat "message list option"
  | Files_Changed entries
  | Tools_Decorated
  | Rules_Taken
  | Turned_Off moment

fun session_apply :: "host \<Rightarrow> session_event \<Rightarrow> session \<Rightarrow> session" where
  "session_apply h (Turn_Ended mo t forced) s = fst (on_completion_attempt h mo t forced s)"
| "session_apply h (Submitted mo input) s = fst (submit_tool h mo input s)"
| "session_apply h (Check_Asked mo) s = fst (check_tool h mo s)"
| "session_apply h (Plan_Called input) s = fst (plan_tool h input s)"
| "session_apply h (Check_Proposed mo answer input) s =
     (if opt_allow_proposal (h_ops h) then fst (propose_tool h mo answer input s) else s)"
| "session_apply h (Tool_Entered name i ms) s = fst (enter_tool name i ms s)"
| "session_apply h (Files_Changed es) s = s\<lparr>ctl := (ctl s)\<lparr>disk := es\<rparr>\<rparr>"
| "session_apply h Tools_Decorated s = decorate_tools h s"
| "session_apply h Rules_Taken s = fst (take_opening_rules s)"
| "session_apply h (Turned_Off mo) s = fst (disengage h mo s)"

lemma session_ok_disk [simp]: "session_ok h (s\<lparr>ctl := (ctl s)\<lparr>disk := es\<rparr>\<rparr>) = session_ok h s"
  by (simp add: session_ok_def open_ok_def in_budget_def numbered_outcomes_def)

lemma decorate_tools_ok: "session_ok h s \<Longrightarrow> session_ok h (decorate_tools h s)"
  by (simp add: decorate_tools_def session_ok_def)

lemma take_opening_rules_ok: "session_ok h s \<Longrightarrow> session_ok h (fst (take_opening_rules s))"
  by (simp add: take_opening_rules_def session_ok_def)

lemma session_step_ok: "session_ok h s \<Longrightarrow> session_ok h (session_apply h e s)"
proof (cases e)
  case (Turn_Ended mo t forced)
  assume "session_ok h s"
  then show ?thesis using Turn_Ended on_completion_ok [of h mo t forced s] by (metis prod.collapse session_apply.simps(1))
qed (simp_all add: submit_ok check_tool_ok plan_tool_ok propose_tool_ok enter_tool_ok disengage_ok decorate_tools_ok
  take_opening_rules_ok)

interpretation session_machine: invariant_machine "session_apply h" "session_ok h" for h
  by unfold_locales (rule session_step_ok)

lemma start_ok: "session_ok h (start_session h now files0 history0)"
proof -
  let ?c = "fst (open_transaction (h_sha h) (h_ops h) now (new_controller files0 history0))"
  have "open_ok (h_ops h) ?c" by (simp add: open_ok_def numbered_outcomes_def)
  then show ?thesis
    using open_in_budget [of "h_ops h" ?c] by (auto simp: start_session_def session_ok_def split: prod.split)
qed

lemma session_run_ok: "session_ok h (fold (session_apply h) es (start_session h now files0 history0))"
  by (rule session_machine.run_inv [OF start_ok])


end
