(* ===== verification/SessionEnds.thy ===== *)
theory SessionEnds
  imports SessionRuns
begin

text \<open>
  How a session ends in a workspace that its snapshots cover: its base always holds the files of the start, a session
  that is left to itself ends within a bounded number of turns, and what the tree holds when it does.
\<close>

section \<open>A covered workspace\<close>

definition keeps_covered :: "host \<Rightarrow> path list \<Rightarrow> nat \<Rightarrow> check_run \<Rightarrow> bool" where
  "keeps_covered h A m run =
     (\<forall>oc d. covered (h_sha h) (opt_limits (h_ops h)) A m d \<longrightarrow>
        covered (h_sha h) (opt_limits (h_ops h)) A m (snd (run oc d)))"

definition calm_moment :: "host \<Rightarrow> path list \<Rightarrow> nat \<Rightarrow> moment \<Rightarrow> bool" where
  "calm_moment h A m mo = (keeps_covered h A m (mo_check mo) \<and> keeps_covered h A m (mo_judge mo))"

text \<open>Events after which the workspace is still covered.\<close>

fun calm :: "host \<Rightarrow> path list \<Rightarrow> nat \<Rightarrow> session_event \<Rightarrow> bool" where
  "calm h A m (Turn_Ended mo t forced) = calm_moment h A m mo"
| "calm h A m (Submitted mo input) = calm_moment h A m mo"
| "calm h A m (Check_Asked mo) = calm_moment h A m mo"
| "calm h A m (Check_Proposed mo answer input) = calm_moment h A m mo"
| "calm h A m (Turned_Off mo) = calm_moment h A m mo"
| "calm h A m (Files_Changed es) = covered (h_sha h) (opt_limits (h_ops h)) A m es"
| "calm h A m e = True"

definition holds :: "host \<Rightarrow> path list \<Rightarrow> nat \<Rightarrow> (path \<Rightarrow> bytes option) \<Rightarrow> controller \<Rightarrow> bool" where
  "holds h A m v c = based (h_sha h) (opt_limits (h_ops h)) A m v c"

lemma checked_covered:
  "holds h A m v c \<Longrightarrow> keeps_covered h A m run \<Longrightarrow>
   covered (h_sha h) (opt_limits (h_ops h)) A m (checked_tree (h_ops h) run c)"
  by (auto simp: holds_def based_def keeps_covered_def checked_tree_def split: option.splits)

lemma holds_disk:
  "holds h A m v c \<Longrightarrow> base c' = base c \<Longrightarrow> covered (h_sha h) (opt_limits (h_ops h)) A m (disk c') \<Longrightarrow> holds h A m v c'"
  by (auto simp: holds_def based_def)

lemma holds_emit [simp]: "holds h A m v (emit e c) = holds h A m v c"
  by (simp add: holds_def based_def)

lemma run_check_holds:
  assumes "run_check (h_ops h) run c = (c', x)" "holds h A m v c" "keeps_covered h A m run"
  shows "holds h A m v c'"
proof -
  have "base c' = base c" using same_run_check [OF assms(1)] by (simp add: same_record_def)
  moreover have "disk c' = disk c \<or> (\<exists>oc. disk c' = snd (run oc (disk c)))"
    using assms(1) by (auto simp: run_check_def judge_def note_check_output_def Let_def split: if_splits option.splits prod.splits) (metis snd_conv)+
  moreover have "covered (h_sha h) (opt_limits (h_ops h)) A m (disk c)" using assms(2) by (simp add: holds_def based_def)
  ultimately show ?thesis using holds_disk [OF assms(2)] assms(3) by (auto simp: keeps_covered_def)
qed

lemma against_base_holds:
  assumes "judge_against_base (h_sha h) through (h_ops h) run stamp0 stamp1 oc c = (c', x)" "holds h A m v c"
    "keeps_covered h A m run"
  shows "holds h A m v c'"
proof -
  obtain d0 where d0: "base c = Some (take_snapshot (h_sha h) (opt_limits (h_ops h)) d0)"
    "covered (h_sha h) (opt_limits (h_ops h)) A m d0" "covered (h_sha h) (opt_limits (h_ops h)) A m (disk c)"
    using assms(2) by (auto simp: holds_def based_def)
  from base_check_covered [OF d0, of run oc through stamp0 stamp1] assms(1,3)
  have "covered (h_sha h) (opt_limits (h_ops h)) A m (disk c')" by (auto simp: keeps_covered_def)
  moreover have "base c' = base c" using same_against_base [OF assms(1)] by (simp add: same_record_def)
  ultimately show ?thesis using holds_disk [OF assms(2)] by simp
qed

lemma adopt_holds: "adopt_oracle ops oc c = (c', x) \<Longrightarrow> holds h A m v c \<Longrightarrow> holds h A m v c'"
  by (auto simp: adopt_oracle_def holds_def based_def split: if_splits)

lemma adopt_proposal_holds: "adopt_proposal ops p oc ps c = (ps', c', t) \<Longrightarrow> holds h A m v c \<Longrightarrow> holds h A m v c'"
  by (auto simp: adopt_proposal_def split: prod.splits sum.splits dest!: adopt_holds)

lemma propose_holds:
  assumes "propose_check relative is_absolute regex_error win dir most (h_ops h)
    (judge_against_base (h_sha h) through (h_ops h) run stamp0 stamp1) answer input ps c = (ps', c', t)"
    and "holds h A m v c" "keeps_covered h A m run"
  shows "holds h A m v c'"
  using assms
  by (auto simp: propose_check_def Let_def split: if_splits sum.splits approval.splits option.splits prod.splits
      dest!: against_base_holds [OF _ assms(2,3)] dest: adopt_proposal_holds)

section \<open>The base holds the files of the start\<close>

definition workspace_ok :: "host \<Rightarrow> path list \<Rightarrow> nat \<Rightarrow> (path \<Rightarrow> bytes option) \<Rightarrow> session \<Rightarrow> bool" where
  "workspace_ok h A m v s = (\<not> finished s \<and> \<not> stood_down s \<longrightarrow> holds h A m v (ctl s))"

lemma workspace_okI: "holds h A m v (ctl s) \<Longrightarrow> workspace_ok h A m v s"
  by (simp add: workspace_ok_def)

lemma workspace_finished: "finished s \<Longrightarrow> workspace_ok h A m v s"
  by (simp add: workspace_ok_def)

text \<open>A settlement in a covered workspace never throws. It ends the session or opens the next transaction.\<close>

definition spent :: "settlement \<Rightarrow> bool" where
  "spent st = (case st of Not_Kept m v r ca None \<Rightarrow> True | _ \<Rightarrow> False)"

lemma settle_holds:
  assumes "settle (h_sha h) (h_through h) note_of (h_ops h) run now later rep c = (c', out)" "holds h A m v c"
    "keeps_covered h A m run"
  shows "\<exists>st. out = Inr st \<and> (reopened st \<longrightarrow> holds h A m v c' \<and> length (outcomes c') = Suc (length (outcomes c))) \<and>
    (spent st \<longrightarrow> scan_view (disk c') = v)"
proof -
  obtain st where st: "out = Inr st" and held: "case st of
       Not_Kept msg vd r ca None \<Rightarrow> scan_view (disk c') = v
     | Not_Kept msg vd r ca (Some p) \<Rightarrow> based (h_sha h) (opt_limits (h_ops h)) A m v c'
     | _ \<Rightarrow> True"
    using settle_based [OF assms(2) [unfolded holds_def] checked_covered [OF assms(2,3)] assms(1)] by blast
  have "reopened st \<longrightarrow> length (outcomes c') = Suc (length (outcomes c))"
    using assms(1) unfolding st by (rule settle_result) (auto simp: failed_outcome_def reopened_def)
  then show ?thesis
    using st held by (auto simp: holds_def reopened_def spent_def split: settlement.splits option.splits)
qed

lemma settle_transaction_ends:
  assumes "settle_transaction h mo notice rep s = (s', out)" "holds h A m v (ctl s)" "keeps_covered h A m (mo_judge mo)"
  shows "\<exists>ct. out = Inr ct \<and> stood_down s' = stood_down s \<and> submitting s' = submitting s \<and>
    silent_boundaries s' = 0 \<and> called_in_transaction s' = 0 \<and> unstarted_attempts s' = 0 \<and>
    (finished s' \<or> finished s' = finished s \<and> holds h A m v (ctl s') \<and>
       length (outcomes (ctl s')) = Suc (length (outcomes (ctl s))))"
proof -
  obtain c x where st: "settle (h_sha h) (h_through h) (h_note h) (h_ops h) (mo_judge mo) (mo_now mo) (mo_later mo) rep
      (ctl s) = (c, x)" by fastforce
  obtain y where y: "x = Inr y"
    and re: "reopened y \<longrightarrow> holds h A m v c \<and> length (outcomes c) = Suc (length (outcomes (ctl s)))"
    using settle_holds [OF st assms(2,3)] by blast
  show ?thesis
    using assms(1) re
    by (auto simp: settle_transaction_def st y Let_def reopened_def split: settlement.splits option.splits if_splits)
qed

lemma close_submission_ends:
  assumes "close_submission h mo text_opt forced notice s = (s', out)" "holds h A m v (ctl s)"
    "keeps_covered h A m (mo_judge mo)"
  shows "\<exists>t. out = Inr t \<and> stood_down s' = stood_down s \<and> submitting s' = submitting s \<and>
    silent_boundaries s' = 0 \<and> called_in_transaction s' = 0 \<and> unstarted_attempts s' = 0 \<and>
    (finished s' \<or> finished s' = finished s \<and> holds h A m v (ctl s') \<and>
       length (outcomes (ctl s')) = Suc (length (outcomes (ctl s))))"
proof -
  obtain rep x where st: "settle_transaction h mo notice rep s = (s', x)" "\<forall>ct. x = Inr ct \<longrightarrow> out = Inr (ct_message ct)"
    using assms(1) unfolding close_submission_def by (auto split: prod.splits sum.splits)
  then show ?thesis using settle_transaction_ends [OF st(1) assms(2,3)] by auto
qed

section \<open>A boundary moves the session on\<close>

text \<open>The boundaries that can pass before the open transaction is settled or the session stops: two that are only
  told, then one for each empty attempt that is still allowed, and the last.\<close>

definition waits_left :: "session \<Rightarrow> nat" where
  "waits_left s =
     (DEFAULT_SILENT_TURNS_BEFORE_GUARD - 1 - min (DEFAULT_SILENT_TURNS_BEFORE_GUARD - 1) (silent_boundaries s)) +
     (if called_in_transaction s = 0 then Suc DEFAULT_MAX_UNSTARTED_ATTEMPTS - unstarted_attempts s
      else Suc DEFAULT_MAX_EMPTY_ATTEMPTS - empty_attempts s)"

definition MOST_WAITS :: nat where
  "MOST_WAITS = DEFAULT_SILENT_TURNS_BEFORE_GUARD + DEFAULT_MAX_UNSTARTED_ATTEMPTS"

definition most_transactions :: "host \<Rightarrow> nat" where
  "most_transactions h = nat (max 1 (opt_max_transactions (h_ops h)))"

definition turns_left :: "host \<Rightarrow> session \<Rightarrow> nat" where
  "turns_left h s = MOST_WAITS * (most_transactions h - Suc (length (outcomes (ctl s)))) + waits_left s"

lemmas session_limits = DEFAULT_SILENT_TURNS_BEFORE_GUARD_def DEFAULT_MAX_UNSTARTED_ATTEMPTS_def
  DEFAULT_MAX_EMPTY_ATTEMPTS_def MOST_WAITS_def

lemma waits_left_bounds: "session_ok h s \<Longrightarrow> \<not> finished s \<Longrightarrow> \<not> stood_down s \<Longrightarrow> 0 < waits_left s"
  by (auto simp: session_ok_def waits_left_def session_limits)

lemma waits_left_reset:
  "silent_boundaries s = 0 \<Longrightarrow> called_in_transaction s = 0 \<Longrightarrow> unstarted_attempts s = 0 \<Longrightarrow> waits_left s = MOST_WAITS"
  by (simp add: waits_left_def session_limits)

lemma open_session_room:
  assumes "session_ok h s" "\<not> finished s" "\<not> stood_down s"
  shows "length (outcomes (ctl s)) < most_transactions h"
proof -
  have num: "numbered_outcomes (h_ops h) (ctl s)" using assms by (simp add: session_ok_def open_ok_def)
  then show ?thesis
    using numbered_length [OF num] by (auto simp: numbered_outcomes_def most_transactions_def)
qed

text \<open>Where a settlement leaves the session against where it was.\<close>

definition moved_on :: "host \<Rightarrow> path list \<Rightarrow> nat \<Rightarrow> (path \<Rightarrow> bytes option) \<Rightarrow> session \<Rightarrow> session \<Rightarrow> bool" where
  "moved_on h A m v s s' =
     (stood_down s' = stood_down s \<and> submitting s' = submitting s \<and>
      (finished s' \<or> holds h A m v (ctl s') \<and>
         (length (outcomes (ctl s')) = Suc (length (outcomes (ctl s))) \<and> waits_left s' = MOST_WAITS \<or>
          length (outcomes (ctl s')) = length (outcomes (ctl s)) \<and> waits_left s' < waits_left s)))"

lemma close_moves_on:
  assumes "close_submission h mo text_opt forced notice s = (s', out)" "holds h A m v (ctl s)"
    "keeps_covered h A m (mo_judge mo)"
  shows "(\<exists>t. out = Inr t) \<and> moved_on h A m v s s'"
  using close_submission_ends [OF assms] waits_left_reset [of s'] by (auto simp: moved_on_def)

lemma empty_moves_on:
  assumes "empty_submission h mo text_opt forced unfixed s = (s', out)" "holds h A m v (ctl s)"
    "keeps_covered h A m (mo_judge mo)" "unstarted_attempts s \<le> DEFAULT_MAX_UNSTARTED_ATTEMPTS"
    "empty_attempts s \<le> DEFAULT_MAX_EMPTY_ATTEMPTS"
  shows "(\<exists>t. out = Inr t) \<and> moved_on h A m v s s'"
proof -
  have emitted: "holds h A m v (emit e (ctl s))" for e using assms(2) by simp
  let ?never = "called_in_transaction s = 0"
  consider (stop) "?never" "Suc (unstarted_attempts s) > DEFAULT_MAX_UNSTARTED_ATTEMPTS"
    | (hold) "?never \<longrightarrow> \<not> Suc (unstarted_attempts s) > DEFAULT_MAX_UNSTARTED_ATTEMPTS"
        "?never \<or> Suc (empty_attempts s) \<le> DEFAULT_MAX_EMPTY_ATTEMPTS"
    | (spend) "\<not> ?never" "\<not> Suc (empty_attempts s) \<le> DEFAULT_MAX_EMPTY_ATTEMPTS" by metis
  then show ?thesis
  proof cases
    case stop
    then show ?thesis using assms(1) by (auto simp: empty_submission_def Let_def moved_on_def)
  next
    case hold
    let ?s = "if ?never then s\<lparr>unstarted_attempts := Suc (unstarted_attempts s)\<rparr>
      else s\<lparr>empty_attempts := Suc (empty_attempts s)\<rparr>"
    let ?n = "describe_empty_attempt (current (ctl s)) True ?never"
    have "s' = emit_empty ?n True ?s" "\<exists>t. out = Inr t"
      using assms(1) hold by (simp_all add: empty_submission_def Let_def split: if_splits) blast+
    moreover have "waits_left ?s < waits_left s" using assms(4,5) by (auto simp: waits_left_def session_limits)
    moreover have "waits_left (emit_empty ?n True ?s) = waits_left ?s" by (simp add: waits_left_def)
    moreover have "moved_on h A m v s (emit_empty ?n True ?s) \<longleftrightarrow> finished s \<or> waits_left (emit_empty ?n True ?s) < waits_left s"
      using assms(2) by (simp add: moved_on_def)
    ultimately show ?thesis by simp
  next
    case spend
    let ?n = "describe_empty_attempt (current (ctl s)) False False"
    let ?s = "emit_empty ?n False (s\<lparr>empty_attempts := Suc (empty_attempts s)\<rparr>)"
    have "close_submission h mo text_opt forced (Some ?n) ?s = (s', out)"
      using assms(1) spend by (simp add: empty_submission_def Let_def)
    moreover have "holds h A m v (ctl ?s)" using emitted by simp
    ultimately show ?thesis
      using close_submission_ends [OF _ _ assms(3)] waits_left_reset [of s'] by (fastforce simp: moved_on_def)
  qed
qed

lemma judge_open_moves_on:
  assumes "judge_open h mo text_opt forced deliberate untouched unfixed s = (s', out)" "holds h A m v (ctl s)"
    "keeps_covered h A m (mo_judge mo)" "unstarted_attempts s \<le> DEFAULT_MAX_UNSTARTED_ATTEMPTS"
    "empty_attempts s \<le> DEFAULT_MAX_EMPTY_ATTEMPTS"
  shows "(\<exists>t. out = Inr t) \<and> (moved_on h A m v s s' \<or> s' = s \<and> silent_boundaries s < DEFAULT_SILENT_TURNS_BEFORE_GUARD)"
  using assms(1) empty_moves_on [OF _ assms(2-)] close_moves_on [OF _ assms(2,3)]
  by (auto simp: judge_open_def split: if_splits)

lemma stand_down_holds:
  "judge_stand_down h mo s = (s', x) \<Longrightarrow> holds h A m v (ctl s) \<Longrightarrow> keeps_covered h A m (mo_check mo) \<Longrightarrow>
   holds h A m v (ctl s')"
  by (auto simp: judge_stand_down_def split: if_splits prod.splits sum.splits dest: run_check_holds)

lemma judge_submission_moves_on:
  assumes "judge_submission h mo text_opt forced deliberate s = (s', out)" "holds h A m v (ctl s)" "calm_moment h A m mo"
    "session_ok h s" "\<not> finished s" "\<not> stood_down s"
  shows "(\<exists>t. out = Inr t) \<and>
    (moved_on h A m v s s' \<or>
     same_record (ctl s) (ctl s') \<and> holds h A m v (ctl s') \<and> finished s' = finished s \<and> stood_down s' = stood_down s \<and>
       submitting s' = submitting s \<and> waits_left s' = waits_left s \<and> silent_boundaries s < DEFAULT_SILENT_TURNS_BEFORE_GUARD)"
proof -
  have few: "unstarted_attempts s \<le> DEFAULT_MAX_UNSTARTED_ATTEMPTS" "empty_attempts s \<le> DEFAULT_MAX_EMPTY_ATTEMPTS"
    using assms(4-6) by (simp_all add: session_ok_def)
  have judge: "keeps_covered h A m (mo_judge mo)" and check: "keeps_covered h A m (mo_check mo)"
    using assms(3) by (simp_all add: calm_moment_def)
  show ?thesis
  proof (cases "outcomes (ctl s) = [] \<and> is_untouched (h_sha h) (h_ops h) (ctl s)")
    case True
    obtain s1 vd where sd: "judge_stand_down h mo s = (s1, vd)" by fastforce
    note fields = stand_down_fields [OF sd]
    have held: "holds h A m v (ctl s1)" by (rule stand_down_holds [OF sd assms(2) check])
    have same: "waits_left s1 = waits_left s" using fields by (simp add: waits_left_def)
    have few1: "unstarted_attempts s1 \<le> DEFAULT_MAX_UNSTARTED_ATTEMPTS" "empty_attempts s1 \<le> DEFAULT_MAX_EMPTY_ATTEMPTS"
      using few fields by simp_all
    show ?thesis
    proof (cases "vd = None \<or> v_passed (the vd)")
      case True
      then have "s' = s1\<lparr>finished := True\<rparr>" "out = Inr None"
        using assms(1,5) \<open>outcomes (ctl s) = [] \<and> _\<close> sd by (auto simp: judge_submission_def Let_def split: option.splits)
      then show ?thesis using fields by (simp add: moved_on_def)
    next
      case False
      then have "judge_open h mo text_opt forced deliberate True vd s1 = (s', out)"
        using assms(1,5) \<open>outcomes (ctl s) = [] \<and> _\<close> sd by (auto simp: judge_submission_def Let_def)
      from judge_open_moves_on [OF this held judge few1] held same fields show ?thesis
        by (auto simp: moved_on_def same_record_def)
    qed
  next
    case False
    then have "judge_open h mo text_opt forced deliberate (is_untouched (h_sha h) (h_ops h) (ctl s)) None s = (s', out)"
      using assms(1,5) by (auto simp: judge_submission_def Let_def)
    from judge_open_moves_on [OF this assms(2) judge few] assms(2) show ?thesis by auto
  qed
qed

lemma boundary_moves_on:
  assumes "on_completion_attempt h mo text_opt forced s = (s', out)" "holds h A m v (ctl s)" "calm_moment h A m mo"
    "session_ok h s" "\<not> finished s" "\<not> stood_down s" "\<not> submitting s"
  shows "moved_on h A m v s s'"
proof -
  let ?s = "s\<lparr>silent_boundaries := Suc (silent_boundaries s)\<rparr>"
  have j: "judge_submission h mo text_opt forced False ?s = (s', out)"
    using assms(1,6,7) by (simp add: on_completion_attempt_def)
  have less: "waits_left ?s \<le> waits_left s"
    "Suc (silent_boundaries s) < DEFAULT_SILENT_TURNS_BEFORE_GUARD \<Longrightarrow> waits_left ?s < waits_left s"
    by (auto simp: waits_left_def session_limits)
  have held: "holds h A m v (ctl ?s)" using assms(2) by simp
  have "session_ok h ?s" "\<not> finished ?s" "\<not> stood_down ?s" using assms(4-6) by (simp_all add: session_ok_def)
  from judge_submission_moves_on [OF j held assms(3) this] less show ?thesis
    by (auto simp: moved_on_def same_record_def)
qed

section \<open>Every event\<close>

definition steady :: "host \<Rightarrow> path list \<Rightarrow> nat \<Rightarrow> (path \<Rightarrow> bytes option) \<Rightarrow> session \<Rightarrow> bool" where
  "steady h A m v s = (session_ok h s \<and> workspace_ok h A m v s \<and> \<not> submitting s)"

lemma workspace_same:
  "workspace_ok h A m v s \<Longrightarrow> finished s' = finished s \<Longrightarrow> stood_down s' = stood_down s \<Longrightarrow>
   (holds h A m v (ctl s) \<Longrightarrow> holds h A m v (ctl s')) \<Longrightarrow> workspace_ok h A m v s'"
  by (simp add: workspace_ok_def)

lemma boundary_workspace:
  assumes "calm_moment h A m mo" "session_ok h s" "workspace_ok h A m v s"
  shows "workspace_ok h A m v (fst (on_completion_attempt h mo t forced s)) \<and>
    (\<not> submitting s \<longrightarrow> \<not> submitting (fst (on_completion_attempt h mo t forced s)))"
proof (cases "finished s \<or> stood_down s \<or> submitting s")
  case True
  then show ?thesis
    using assms(3) by (auto simp: on_completion_attempt_def judge_submission_def workspace_ok_def)
next
  case False
  then have "holds h A m v (ctl s)" using assms(3) by (simp add: workspace_ok_def)
  from boundary_moves_on [OF surjective_pairing this assms(1,2)] False show ?thesis
    by (auto simp: moved_on_def workspace_ok_def)
qed

lemma submit_workspace:
  assumes "calm_moment h A m mo" "session_ok h s" "workspace_ok h A m v s"
  shows "workspace_ok h A m v (fst (submit_tool h mo input s)) \<and>
    (\<not> submitting s \<longrightarrow> \<not> submitting (fst (submit_tool h mo input s)))"
proof -
  let ?s = "s\<lparr>submitting := True\<rparr>"
  obtain s' out where j: "judge_submission h mo (submitted_account input) False True ?s = (s', out)" by fastforce
  have "workspace_ok h A m v s'" if "\<not> stood_down s"
  proof (cases "finished s")
    case True
    then show ?thesis using j by (auto simp: judge_submission_def workspace_ok_def)
  next
    case False
    have held: "holds h A m v (ctl ?s)" using assms(3) that False by (simp add: workspace_ok_def)
    from judge_submission_moves_on [OF j held assms(1)] assms(2) False that show ?thesis
      by (auto simp: moved_on_def workspace_ok_def)
  qed
  then show ?thesis using assms(3) by (auto simp: submit_tool_def j workspace_ok_def split: sum.splits)
qed

lemma on_run_workspace:
  assumes "on_run h mo vd oc s = (s', out)" "calm_moment h A m mo" "workspace_ok h A m v s" "\<not> stood_down s"
  shows "workspace_ok h A m v s' \<and> submitting s' = submitting s"
proof -
  have judge: "keeps_covered h A m (mo_judge mo)" using assms(2) by (simp add: calm_moment_def)
  obtain st earned where st: "stalled_checked None None (current (ctl s)) (v_passed vd) (stalls s) = (st, earned)"
    by fastforce
  show ?thesis
  proof (cases "earned = Stalled_Ok \<or> finished s \<or> earned = Stalled_Nudge")
    case True
    then show ?thesis using assms(1,3) st by (auto simp: on_run_def Let_def workspace_ok_def split: if_splits)
  next
    case False
    then have "holds h A m v (ctl (s\<lparr>stalls := st\<rparr>))" using assms(3,4) by (simp add: workspace_ok_def)
    then show ?thesis
      using assms(1) st False
      by (auto simp: on_run_def Let_def workspace_ok_def split: prod.splits sum.splits
          dest!: settle_transaction_ends [OF _ _ judge])
  qed
qed

lemma check_tool_workspace:
  assumes "calm_moment h A m mo" "workspace_ok h A m v s"
  shows "workspace_ok h A m v (fst (check_tool h mo s)) \<and> submitting (fst (check_tool h mo s)) = submitting s"
proof (cases "stood_down s")
  case True
  then show ?thesis using assms by (simp add: check_tool_def)
next
  case False
  have check: "keeps_covered h A m (mo_check mo)" using assms(1) by (simp add: calm_moment_def)
  have run: "workspace_ok h A m v s1 \<and> \<not> stood_down s1 \<and> submitting s1 = submitting s"
    if "session_run_check h mo s = (s1, x)" for s1 x
    using that assms(2) False run_check_holds [OF _ _ check]
    by (auto simp: session_run_check_def workspace_ok_def split: prod.splits)
  have told: "workspace_ok h A m v s2 \<and> submitting s2 = submitting s"
    if "session_run_check h mo s = (s1, x)" "on_run h mo vd oc s1 = (s2, out)" for s1 x vd oc s2 out
    using run [OF that(1)] on_run_workspace [OF that(2) assms(1)] by metis
  have count: "workspace_ok h A m v (s1\<lparr>check_count := rc\<rparr>) = workspace_ok h A m v s1" for s1 rc
    by (simp add: workspace_ok_def)
  show ?thesis
    using False assms(2) count
    by (auto simp: check_tool_def run_check_tool_def Let_def split: option.splits if_splits prod.splits sum.splits
        dest: run told)
qed

lemma propose_tool_workspace:
  assumes "calm_moment h A m mo" "workspace_ok h A m v s"
  shows "workspace_ok h A m v (fst (propose_tool h mo answer input s)) \<and>
    submitting (fst (propose_tool h mo answer input s)) = submitting s"
  using assms
  by (auto simp: propose_tool_def calm_moment_def workspace_ok_def split: prod.splits dest!: propose_holds)

lemma plan_tool_workspace:
  "workspace_ok h A m v s \<Longrightarrow> workspace_ok h A m v (fst (plan_tool h input s)) \<and>
   submitting (fst (plan_tool h input s)) = submitting s"
  by (simp add: plan_tool_def workspace_ok_def split: prod.split)

lemma enter_tool_workspace:
  assumes "workspace_ok h A m v s"
  shows "workspace_ok h A m v (fst (enter_tool name i ms s)) \<and> submitting (fst (enter_tool name i ms s)) = submitting s"
  using assms enter_tool_fields [OF surjective_pairing, of name i ms s] by (simp add: workspace_ok_def)

lemma disengage_workspace:
  "workspace_ok h A m v (fst (disengage h mo s)) \<and> submitting (fst (disengage h mo s)) = submitting s"
  by (auto simp: disengage_def Let_def workspace_ok_def split: prod.split sum.split settlement.split)

lemma plain_events_workspace:
  "workspace_ok h A m v s \<Longrightarrow> workspace_ok h A m v (decorate_tools h s) \<and> submitting (decorate_tools h s) = submitting s"
  "workspace_ok h A m v s \<Longrightarrow> workspace_ok h A m v (fst (take_opening_rules s)) \<and>
   submitting (fst (take_opening_rules s)) = submitting s"
  "workspace_ok h A m v s \<Longrightarrow> covered (h_sha h) (opt_limits (h_ops h)) A m es \<Longrightarrow>
   workspace_ok h A m v (s\<lparr>ctl := (ctl s)\<lparr>disk := es\<rparr>\<rparr>)"
  by (auto simp: decorate_tools_def take_opening_rules_def workspace_ok_def intro: holds_disk)

lemma steady_step:
  assumes "steady h A m v s" "calm h A m e"
  shows "steady h A m v (session_apply h e s)"
proof -
  have ok: "session_ok h s" "workspace_ok h A m v s" "\<not> submitting s" using assms(1) by (simp_all add: steady_def)
  note boundary_workspace [OF _ ok(1,2)] submit_workspace [OF _ ok(1,2)] check_tool_workspace [OF _ ok(2)]
    propose_tool_workspace [OF _ ok(2)] plan_tool_workspace [OF ok(2)] enter_tool_workspace [OF ok(2)]
    disengage_workspace [of h A m v _ s] plain_events_workspace [OF ok(2)]
  then have "workspace_ok h A m v (session_apply h e s) \<and> \<not> submitting (session_apply h e s)"
    using assms(2) ok by (cases e) auto
  then show ?thesis using session_step_ok [OF ok(1), of e] by (simp add: steady_def)
qed

lemma steady_run: "steady h A m v s \<Longrightarrow> list_all (calm h A m) es \<Longrightarrow> steady h A m v (fold (session_apply h) es s)"
  by (induction es arbitrary: s) (auto intro: steady_step)

lemma steady_start:
  assumes "covered (h_sha h) (opt_limits (h_ops h)) A m es0"
  shows "steady h A m (scan_view es0) (start_session h now es0 history0)"
proof -
  let ?c = "fst (open_transaction (h_sha h) (h_ops h) now (new_controller es0 history0))"
  have "holds h A m (scan_view es0) ?c" using assms by (auto simp: holds_def based_def)
  then show ?thesis
    using start_ok [of h now es0 history0]
    by (auto simp: steady_def start_session_def workspace_ok_def split: prod.split)
qed

section \<open>Left to itself, a session ends\<close>

fun turn_ended :: "session_event \<Rightarrow> bool" where
  "turn_ended (Turn_Ended mo t forced) = True"
| "turn_ended e = False"

fun tree_changed :: "session_event \<Rightarrow> bool" where
  "tree_changed (Files_Changed es) = True"
| "tree_changed e = False"

lemma ended_stays:
  assumes "finished s \<or> stood_down s" "turn_ended e \<or> tree_changed e"
  shows "finished (session_apply h e s) \<or> stood_down (session_apply h e s)"
  using assms by (cases e) (auto simp: on_completion_attempt_def judge_submission_def)

lemma turn_leaves_fewer:
  assumes "steady h A m v s" "calm h A m (Turn_Ended mo t forced)" "\<not> finished s" "\<not> stood_down s"
    "s' = session_apply h (Turn_Ended mo t forced) s"
  shows "finished s' \<or> turns_left h s' < turns_left h s"
proof -
  have ok: "session_ok h s" "holds h A m v (ctl s)" "\<not> submitting s"
    using assms(1,3,4) by (simp_all add: steady_def workspace_ok_def)
  have moved: "moved_on h A m v s s'"
    using boundary_moves_on [OF surjective_pairing ok(2) _ ok(1) assms(3,4) ok(3)] assms(2,5) by simp
  show ?thesis
  proof (cases "finished s'")
    case False
    have ok': "session_ok h s'" using session_step_ok [OF ok(1), of "Turn_Ended mo t forced"] assms(5) by simp
    have "\<not> stood_down s'" using moved assms(4) by (simp add: moved_on_def)
    from open_session_room [OF ok' False this] waits_left_bounds [OF ok(1) assms(3,4)] moved False show ?thesis
      by (auto simp: moved_on_def turns_left_def session_limits)
  qed simp
qed

lemma silent_run:
  assumes "steady h A m v s" "list_all (calm h A m) es" "list_all (\<lambda>e. turn_ended e \<or> tree_changed e) es"
    "finished s \<or> stood_down s \<or> turns_left h s \<le> length (filter turn_ended es)"
  shows "finished (fold (session_apply h) es s) \<or> stood_down (fold (session_apply h) es s)"
  using assms
proof (induction es arbitrary: s)
  case Nil
  have "0 < turns_left h s" if "\<not> finished s" "\<not> stood_down s"
    using waits_left_bounds [of h s] that Nil(1) by (simp add: steady_def turns_left_def)
  then show ?case using Nil(4) by (cases "finished s \<or> stood_down s") auto
next
  case (Cons e es)
  let ?s = "session_apply h e s"
  have st: "steady h A m v ?s" using steady_step Cons.prems(1,2) by simp
  have "finished ?s \<or> stood_down ?s \<or> turns_left h ?s \<le> length (filter turn_ended es)"
  proof (cases "finished s \<or> stood_down s")
    case True
    then show ?thesis using ended_stays Cons.prems(3) by auto
  next
    case False
    show ?thesis
    proof (cases "turn_ended e")
      case True
      then obtain mo t forced where e: "e = Turn_Ended mo t forced" by (cases e) auto
      show ?thesis using turn_leaves_fewer [OF Cons.prems(1), of mo t forced ?s] Cons.prems(2,4) False e by auto
    next
      case other: False
      then obtain d where "e = Files_Changed d" using Cons.prems(3) by (cases e) auto
      then have "turns_left h ?s = turns_left h s" by (simp add: turns_left_def waits_left_def)
      then show ?thesis using Cons.prems(4) False other by auto
    qed
  qed
  then show ?case using Cons.IH [OF st] Cons.prems(2,3) by simp
qed

lemma turns_left_most:
  assumes "session_ok h s" "\<not> finished s" "\<not> stood_down s"
  shows "turns_left h s \<le> MOST_WAITS * most_transactions h"
proof -
  have "waits_left s \<le> MOST_WAITS" by (auto simp: waits_left_def session_limits)
  moreover obtain k where "most_transactions h = Suc (length (outcomes (ctl s)) + k)"
    using open_session_room [OF assms] less_imp_Suc_add by metis
  ultimately show ?thesis by (simp add: turns_left_def distrib_left)
qed

text \<open>C11: In a workspace its snapshots cover, whatever has happened to a session, once the model only lets its turns
  end, without another call, nine of them for each transaction allowed end the session, whatever the check says and
  whatever becomes of the files between them.\<close>

theorem silent_session_ends:
  assumes "covered (h_sha h) (opt_limits (h_ops h)) A m es0" "list_all (calm h A m) (es1 @ es2)"
    "list_all (\<lambda>e. turn_ended e \<or> tree_changed e) es2"
    "9 * max 1 (opt_max_transactions (h_ops h)) \<le> int (length (filter turn_ended es2))"
  shows "let s = fold (session_apply h) (es1 @ es2) (start_session h now es0 history0) in finished s \<or> stood_down s"
proof -
  let ?s = "fold (session_apply h) es1 (start_session h now es0 history0)"
  have st: "steady h A m (scan_view es0) ?s" using steady_run [OF steady_start [OF assms(1)]] assms(2) by simp
  have "MOST_WAITS * most_transactions h \<le> length (filter turn_ended es2)"
    using assms(4) by (simp add: most_transactions_def session_limits)
  moreover have "session_ok h ?s" using st by (simp add: steady_def)
  ultimately have "finished ?s \<or> stood_down ?s \<or> turns_left h ?s \<le> length (filter turn_ended es2)"
    using turns_left_most [of h ?s] le_trans by blast
  from silent_run [OF st _ assms(3) this] assms(2) show ?thesis by simp
qed

section \<open>What the tree holds at the end\<close>

text \<open>A settlement that is forced, or the last, carries nothing.\<close>

lemma settle_undoes:
  assumes "settle (h_sha h) (h_through h) note_of (h_ops h) run now later rep c = (c', out)" "holds h A m v c"
    "keeps_covered h A m run" "rep_forced rep \<or> int (current c) \<ge> opt_max_transactions (h_ops h)"
  shows "\<exists>st. out = Inr st \<and> length (outcomes c') = Suc (length (outcomes c)) \<and>
    (if accepted (h_ops h) run rep c then (\<exists>msg vd. st = Kept msg vd) \<and> disk c' = checked_tree (h_ops h) run c
     else (\<exists>msg vd r p. st = Not_Kept msg vd r False p \<and>
         (int (current c) \<ge> opt_max_transactions (h_ops h) \<longleftrightarrow> p = None)) \<and> scan_view (disk c') = v)"
proof -
  obtain st where st: "out = Inr st" and spent: "spent st \<longrightarrow> scan_view (disk c') = v"
    and re: "reopened st \<longrightarrow> holds h A m v c'"
    using settle_holds [OF assms(1-3)] by blast
  have none: "\<not> carry_condition (h_sha h) (h_ops h) run rep c" using assms(4) by (auto simp: carry_condition_def)
  obtain d0 where d0: "covered (h_sha h) (opt_limits (h_ops h)) A m d0" "scan_view d0 = v"
    "base c = Some (take_snapshot (h_sha h) (opt_limits (h_ops h)) d0)"
    using assms(2) by (auto simp: holds_def based_def)
  have undone: "restore_snapshot (h_sha h) (h_through h) (opt_limits (h_ops h)) b (checked_tree (h_ops h) run c) = (d, Inr r) \<Longrightarrow>
      base c = Some b \<Longrightarrow> scan_view d = v" for b d r
    using rollback.restore_result [OF d0(1) checked_covered [OF assms(2,3)], of "h_through h" d "Inr r"] d0(2,3) by auto
  from assms(1) [unfolded st] show ?thesis
    by (rule settle_result) (use st none undone in \<open>auto simp: failed_outcome_def\<close>)
qed

text \<open>C15: In a workspace its snapshots cover all along, turning the protocol off while a transaction has changes
  settles that transaction, once. With a check in force the check decides: where it passes the files stay as it left
  them, else every scanned file is as it was when the session began. With no check in force nothing is asked, and the
  files stay as they are.\<close>

theorem turning_off_decides:
  assumes "covered (h_sha h) (opt_limits (h_ops h)) A m es0" "list_all (calm h A m) es" "calm_moment h A m mo"
    "s = fold (session_apply h) es (start_session h now es0 history0)" "\<not> finished s" "\<not> stood_down s"
    "\<not> is_untouched (h_sha h) (h_ops h) (ctl s)" "disengage h mo s = (s', out)"
  shows "stood_down s' \<and> (\<exists>t. out = Inr (Some t)) \<and>
    length (outcomes (ctl s')) = Suc (length (outcomes (ctl s))) \<and>
    (case oracle_of (h_ops h) (ctl s) of
       Some oc \<Rightarrow>
         if v_passed (fst (mo_judge mo oc (disk (ctl s)))) then disk (ctl s') = snd (mo_judge mo oc (disk (ctl s)))
         else scan_view (disk (ctl s')) = scan_view es0
     | None \<Rightarrow> disk (ctl s') = disk (ctl s))"
proof -
  have "steady h A m (scan_view es0) s" using steady_run [OF steady_start [OF assms(1)] assms(2)] assms(4) by simp
  then have held: "holds h A m (scan_view es0) (ctl s)" using assms(5,6) by (simp add: steady_def workspace_ok_def)
  have judge: "keeps_covered h A m (mo_judge mo)" using assms(3) by (simp add: calm_moment_def)
  obtain c x where st: "settle (h_sha h) (h_through h) (h_note h) (h_ops h) (mo_judge mo) (mo_now mo) (mo_later mo)
      FORCED_REPORT (ctl s) = (c, x)" by fastforce
  have forced: "rep_forced FORCED_REPORT" "judge_self_report (rep_self FORCED_REPORT)"
    by (simp_all add: FORCED_REPORT_def judge_self_report_def)
  with forced settle_undoes [OF st held judge] show ?thesis
    using assms(5-8)
    by (auto simp: disengage_def Let_def st accepted_def checked_tree_def split: if_splits option.splits)
qed

text \<open>C37: In a workspace its snapshots cover all along, the last transaction, with changes and submitted by the model
  with a check in force that fails, is put back, every scanned file as it was when the session began, and the model is
  told that this settles it and the task is done.\<close>

theorem last_failure_reads_done:
  assumes "covered (h_sha h) (opt_limits (h_ops h)) A m es0" "list_all (calm h A m) es" "calm_moment h A m mo"
    "s = fold (session_apply h) es (start_session h now es0 history0)" "\<not> finished s" "\<not> stood_down s"
    "\<not> is_untouched (h_sha h) (h_ops h) (ctl s)" "int (current (ctl s)) \<ge> opt_max_transactions (h_ops h)"
    "oracle_of (h_ops h) (ctl s) = Some oc" "\<not> v_passed (fst (mo_judge mo oc (disk (ctl s))))"
  shows "\<exists>s'. submit_tool h mo input s = (s', SUBMITTED_AND_SETTLED) \<and> finished s' \<and>
    scan_view (disk (ctl s')) = scan_view es0"
proof -
  have "steady h A m (scan_view es0) s" using steady_run [OF steady_start [OF assms(1)] assms(2)] assms(4) by simp
  then have held: "holds h A m (scan_view es0) (ctl s)" using assms(5,6) by (simp add: steady_def workspace_ok_def)
  have judge: "keeps_covered h A m (mo_judge mo)" using assms(3) by (simp add: calm_moment_def)
  let ?s = "s\<lparr>submitting := True\<rparr>"
  let ?t = "submitted_account input"
  define rep where "rep = \<lparr>rep_plan = plan_for_report ?t ?s, rep_account = ?t,
      rep_self = (if opt_oracle (h_ops h) \<noteq> None then None else read_self_report (h_lower h) ?t), rep_forced = False\<rparr>"
  obtain c x where st: "settle (h_sha h) (h_through h) (h_note h) (h_ops h) (mo_judge mo) (mo_now mo) (mo_later mo) rep
      (ctl s) = (c, x)" by fastforce
  have "\<not> accepted (h_ops h) (mo_judge mo) rep (ctl s)" using assms(9,10) by (simp add: accepted_def)
  with settle_undoes [OF st held judge] assms(8) obtain msg vd r where
    x: "x = Inr (Not_Kept msg vd r False None)" and view: "scan_view (disk c) = scan_view es0" by auto
  have "settle_transaction h mo None rep ?s = ((reset_attempts ?s)\<lparr>ctl := c, finished := True\<rparr>, Inr \<lparr>ct_kept = False, ct_message = None\<rparr>)"
    by (simp add: settle_transaction_def st x)
  then have "judge_submission h mo ?t False True ?s = ((reset_attempts ?s)\<lparr>ctl := c, finished := True\<rparr>, Inr None)"
    using assms(5,7) by (simp add: judge_submission_def Let_def judge_open_def close_submission_def rep_def)
  then show ?thesis using assms(6) view by (simp add: submit_tool_def opt_default_def)
qed

section \<open>What a stalled check is told\<close>

definition STILL_OPEN :: jtext where
  "STILL_OPEN = js ''Nothing was rolled back: the transaction is open and your changes are still there. '' @
     js ''Fix what it named and run it again.''"

lemma failed_check_says_open: "\<not> v_passed v \<Longrightarrow> \<exists>a b. describe_check_run v label = a @ STILL_OPEN @ b"
proof -
  assume "\<not> v_passed v"
  then obtain xs where "describe_check_run v label = join_lines xs" "STILL_OPEN \<in> set xs"
    by (auto simp: describe_check_run_def Let_def STILL_OPEN_def)
  then show ?thesis using join_lines_infix by metis
qed

lemma join_with_first: "\<exists>rest. join_with sep (t # ts) = t @ rest"
  by (cases ts) simp_all

text \<open>The failing check that settles a stalled transaction rolls it back, and its answer still says that nothing was
  rolled back, that the transaction is open and that the changes are there.\<close>

lemma stalled_answer_says_open:
  assumes "covered (h_sha h) (opt_limits (h_ops h)) A m es0" "list_all (calm h A m) es" "calm_moment h A m mo"
    "s = fold (session_apply h) es (start_session h now es0 history0)" "\<not> finished s" "\<not> stood_down s"
    "oracle_of (h_ops h) (ctl s) = Some oc" "rc_runs (count_for (current (ctl s)) (check_count s)) < MAX_CHECKS_PER_TRANSACTION"
    "fst (mo_check mo oc (disk (ctl s))) = vd" "\<not> v_passed vd"
    "snd (stalled_checked None None (current (ctl s)) False (stalls s)) = Stalled_Settle"
    "\<And>d. \<not> v_passed (fst (mo_judge mo oc d))"
  shows "\<exists>s' t. check_tool h mo s = (s', Inr t) \<and> (\<exists>a b. t = a @ STILL_OPEN @ b) \<and>
    scan_view (disk (ctl s')) = scan_view es0 \<and> length (outcomes (ctl s')) = Suc (length (outcomes (ctl s)))"
proof -
  have "steady h A m (scan_view es0) s" using steady_run [OF steady_start [OF assms(1)] assms(2)] assms(4) by simp
  then have held: "holds h A m (scan_view es0) (ctl s)" using assms(5,6) by (simp add: steady_def workspace_ok_def)
  have judge: "keeps_covered h A m (mo_judge mo)" and check: "keeps_covered h A m (mo_check mo)"
    using assms(3) by (simp_all add: calm_moment_def)
  have "base (ctl s) \<noteq> None" using held by (auto simp: holds_def based_def)
  then obtain c1 where run: "run_check (h_ops h) (mo_check mo) (ctl s) = (c1, Inr vd)"
    using assms(7,9) by (cases "judge (mo_check mo) oc (ctl s)") (auto simp: run_check_def judge_def split: prod.splits)
  have held1: "holds h A m (scan_view es0) c1" by (rule run_check_holds [OF run held check])
  have same: "same_record (ctl s) c1" by (rule same_run_check [OF run])
  have or: "oracle_of (h_ops h) c1 = Some oc"
    using run assms(7) by (auto simp: run_check_def oracle_of_def judge_def note_check_output_def Let_def split: if_splits option.splits prod.splits)
  let ?s1 = "s\<lparr>ctl := c1\<rparr>"
  obtain st where st: "stalled_checked None None (current c1) False (stalls s) = (st, Stalled_Settle)"
    using assms(11) same
    by (cases "stalled_checked None None (current c1) False (stalls s)") (simp add: same_record_def)
  let ?s2 = "?s1\<lparr>stalls := st\<rparr>"
  let ?notice = "describe_stalled_checks (st_streak st) (o_label oc)"
  define rep where "rep = \<lparr>rep_plan = (case planned ?s2 of
      Some (n, p) \<Rightarrow> if n = current (ctl ?s2) \<and> p \<noteq> [] then Some p else None | None \<Rightarrow> None),
      rep_account = Some ?notice, rep_self = None, rep_forced = True\<rparr>"
  obtain c2 x where settled: "settle (h_sha h) (h_through h) (h_note h) (h_ops h) (mo_judge mo) (mo_now mo) (mo_later mo)
      rep c1 = (c2, x)" by fastforce
  have "\<not> accepted (h_ops h) (mo_judge mo) rep c1" using or assms(12) by (simp add: accepted_def)
  with settle_undoes [OF settled held1 judge] obtain msg w r p where x: "x = Inr (Not_Kept msg w r False p)"
    and view: "scan_view (disk c2) = scan_view es0" "length (outcomes c2) = Suc (length (outcomes c1))"
    by (auto simp: rep_def)
  obtain s3 ct where s3: "settle_transaction h mo (Some ?notice) rep ?s2 = (s3, Inr ct)" "ctl s3 = c2"
    by (cases "p = Some []"; cases p) (simp_all add: settle_transaction_def settled x Let_def)
  obtain t where told: "on_run h mo vd oc ?s1 = (s3, Inr (Some t))"
    using s3 assms(5,10) by (auto simp: on_run_def st rep_def Let_def)
  let ?answer = "join_with [10, 10] (filter (\<lambda>u. u \<noteq> []) [describe_check_run vd (o_label oc), t])"
  let ?rc = "count_for (current (ctl s)) (check_count s)"
  have "check_tool h mo s = (s3\<lparr>check_count := ?rc\<lparr>rc_runs := Suc (rc_runs ?rc)\<rparr>\<rparr>, Inr ?answer)"
    using assms(6-8) told run by (simp add: check_tool_def run_check_tool_def session_run_check_def Let_def)
  moreover have "\<exists>a b. ?answer = a @ STILL_OPEN @ b"
  proof -
    obtain a b where d: "describe_check_run vd (o_label oc) = a @ STILL_OPEN @ b"
      using failed_check_says_open assms(10) by blast
    have "STILL_OPEN \<noteq> []" by (simp add: STILL_OPEN_def js_def)
    then have "\<exists>rest. ?answer = describe_check_run vd (o_label oc) @ rest" using d join_with_first by simp
    then show ?thesis using d by (metis append.assoc)
  qed
  ultimately show ?thesis using view s3(2) same by (auto simp: same_record_def)
qed

section \<open>Two smaller matters\<close>

text \<open>An edit the gate refuses is not searched for a plan.\<close>

lemma refused_edit_states_no_plan:
  assumes "enter_tool name i ms s = (s', Some told)"
  shows "planned s' = planned s \<and> plan_watch s' = plan_watch s"
  using assms
  by (auto simp: enter_tool_def pass_gate_def signal_call_def Let_def split: prod.splits option.splits if_splits)

text \<open>Turned off while nothing was changed, the session is not finished, and what it says of work not yet begun is that
  the protocol is engaged.\<close>

lemma turned_off_says_engaged:
  assumes "\<not> finished s" "\<not> stood_down s" "is_untouched (h_sha h) (h_ops h) (ctl s)"
  shows "describe_unstarted_work h (fst (disengage h mo s)) = describe_unstarted_work h s \<and>
    describe_unstarted_work h s \<noteq> None"
  using assms by (simp add: disengage_def describe_unstarted_work_def Let_def)

section \<open>A session of one transaction\<close>

definition sample_host :: host where
  "sample_host = \<lparr>h_ops = (sample_options (Some SAMPLE_CHECK))\<lparr>opt_max_transactions := 1\<rparr>, h_sha = sample_sha,
     h_through = no_through, h_note = no_note, h_lower = id, h_show = (\<lambda>e. []), h_relative = id,
     h_is_absolute = (\<lambda>p. False), h_regex_error = (\<lambda>p. None), h_windows = False, h_root = [], h_max_proposals = None\<rparr>"

definition sample_moment :: moment where
  "sample_moment = \<lparr>mo_check = sample_run, mo_judge = sample_run, mo_now = 1, mo_later = 2,
     mo_stamp_before = (\<lambda>p. None), mo_stamp_after = (\<lambda>p. None)\<rparr>"

lemma sample_host_fields [simp]:
  "h_sha sample_host = sample_sha" "h_through sample_host = no_through" "h_note sample_host = no_note"
  "h_ops sample_host = (sample_options (Some SAMPLE_CHECK))\<lparr>opt_max_transactions := 1\<rparr>"
  by (simp_all add: sample_host_def)

lemma sample_calm [simp]: "calm_moment sample_host SAMPLE_PATHS 4 sample_moment"
  by (simp add: calm_moment_def keeps_covered_def sample_moment_def sample_run_def)

lemma sample_host_covered:
  "covered (h_sha sample_host) (opt_limits (h_ops sample_host)) SAMPLE_PATHS 4 SAMPLE_START"
  "list_all (calm sample_host SAMPLE_PATHS 4) [Files_Changed SAMPLE_EDITED]"
  by (simp_all add: sample_covered)

definition sample_session :: session where
  "sample_session = fold (session_apply sample_host) [Files_Changed SAMPLE_EDITED]
     (start_session sample_host 0 SAMPLE_START SAMPLE_LOG)"

lemma start_session_fields [simp]:
  "ctl (start_session h now es0 history0) = fst (open_transaction (h_sha h) (h_ops h) now (new_controller es0 history0))"
  "\<not> finished (start_session h now es0 history0)" "\<not> stood_down (start_session h now es0 history0)"
  "check_count (start_session h now es0 history0) = new_counter" "stalls (start_session h now es0 history0) = new_stalled 0"
  by (simp_all add: start_session_def split: prod.split)

lemma sample_session_fields [simp]:
  "\<not> finished sample_session" "\<not> stood_down sample_session" "current (ctl sample_session) = 1"
  "oracle_of (h_ops sample_host) (ctl sample_session) = Some SAMPLE_CHECK" "disk (ctl sample_session) = SAMPLE_EDITED"
  "opened_with (ctl sample_session) = Some (take_snapshot sample_sha DEFAULT_LIMITS SAMPLE_START)"
  "check_count sample_session = new_counter" "stalls sample_session = new_stalled 0"
  by (simp_all add: sample_session_def oracle_of_def)

lemma sample_session_touched [simp]:
  "\<not> is_untouched sample_sha ((sample_options (Some SAMPLE_CHECK))\<lparr>opt_max_transactions := 1\<rparr>) (ctl sample_session)"
  using rollback.compares [OF sample_covered] sample_edited_differs by (auto simp: is_untouched_def)

theorem silent_session_ends_witness:
  "let s = fold (session_apply sample_host) ([Files_Changed SAMPLE_EDITED] @ replicate 9 (Turn_Ended sample_moment None False))
      (start_session sample_host 0 SAMPLE_START SAMPLE_LOG) in finished s \<or> stood_down s"
  by (rule silent_session_ends [OF sample_host_covered(1)])
    (simp add: list.pred_set sample_covered, auto simp: list.pred_set)

theorem turning_off_decides_witness:
  "\<exists>s' t. disengage sample_host sample_moment sample_session = (s', Inr (Some t)) \<and> stood_down s' \<and>
     scan_view (disk (ctl s')) = scan_view SAMPLE_START"
proof -
  obtain s' out where d: "disengage sample_host sample_moment sample_session = (s', out)" by fastforce
  have "\<not> v_passed (fst (mo_judge sample_moment SAMPLE_CHECK (disk (ctl sample_session))))"
    by (simp add: sample_moment_def sample_run_def SAMPLE_VERDICT_def)
  with turning_off_decides [OF sample_host_covered sample_calm sample_session_def _ _ _ d] d sample_session_fields(4)
  show ?thesis by auto
qed

theorem last_failure_reads_done_witness:
  "\<exists>s'. submit_tool sample_host sample_moment JNull sample_session = (s', SUBMITTED_AND_SETTLED) \<and> finished s' \<and>
     scan_view (disk (ctl s')) = scan_view SAMPLE_START"
  by (rule last_failure_reads_done [OF sample_host_covered sample_calm sample_session_def _ _ _ _ sample_session_fields(4)])
    (simp_all add: sample_moment_def sample_run_def SAMPLE_VERDICT_def)

end
