(* ===== verification/JsonText.thy ===== *)
theory JsonText
  imports Json
begin

text \<open>
  \<open>JSON.parse\<close>. A text gives a value, or nothing where the language throws. What a number prints as is the
  argument \<open>num\<close>, from the literal. The bound at the end is what recursive readers of parsed texts rest on: a value
  is no larger than the text it was read from.
\<close>

section \<open>Strings and numbers\<close>

definition json_space :: "16 word \<Rightarrow> bool" where
  "json_space c = (c \<in> {9, 10, 13, 32})"

abbreviation skip_space :: "jtext \<Rightarrow> jtext" where
  "skip_space t \<equiv> dropWhile json_space t"

definition hex_value :: "16 word \<Rightarrow> nat option" where
  "hex_value c =
     (if 48 \<le> c \<and> c \<le> 57 then Some (unat c - 48) else if 65 \<le> c \<and> c \<le> 70 then Some (unat c - 55)
      else if 97 \<le> c \<and> c \<le> 102 then Some (unat c - 87) else None)"

definition escape_value :: "16 word \<Rightarrow> 16 word option" where
  "escape_value c =
     (if c \<in> {34, 92, 47} then Some c else if c = 98 then Some 8 else if c = 102 then Some 12
      else if c = 110 then Some 10 else if c = 114 then Some 13 else if c = 116 then Some 9 else None)"

fun hex_unit :: "16 word \<Rightarrow> 16 word \<Rightarrow> 16 word \<Rightarrow> 16 word \<Rightarrow> 16 word option" where
  "hex_unit a b c d =
     (case (hex_value a, hex_value b, hex_value c, hex_value d) of
        (Some i, Some j, Some k, Some l) \<Rightarrow> Some (word_of_nat (((i * 16 + j) * 16 + k) * 16 + l))
      | _ \<Rightarrow> None)"

text \<open>The rest of a string literal, after its opening quote, with what follows it.\<close>

fun string_body :: "jtext \<Rightarrow> (jtext \<times> jtext) option" where
  "string_body [] = None"
| "string_body (c # r) =
     (if c = 34 then Some ([], r)
      else if c < 32 then None
      else if c \<noteq> 92 then map_option (apfst ((#) c)) (string_body r)
      else (case r of
         [] \<Rightarrow> None
       | e # r1 \<Rightarrow>
           if e = 117
           then (case r1 of
              h1 # h2 # h3 # h4 # r2 \<Rightarrow>
                (case hex_unit h1 h2 h3 h4 of
                   Some u \<Rightarrow> map_option (apfst ((#) u)) (string_body r2)
                 | None \<Rightarrow> None)
            | _ \<Rightarrow> None)
           else (case escape_value e of
                   Some u \<Rightarrow> map_option (apfst ((#) u)) (string_body r1)
                 | None \<Rightarrow> None)))"

definition digits_of :: "jtext \<Rightarrow> jtext \<times> jtext" where
  "digits_of t = (takeWhile is_digit t, dropWhile is_digit t)"

definition int_part :: "jtext \<Rightarrow> (jtext \<times> jtext) option" where
  "int_part t = (case t of
     [] \<Rightarrow> None
   | c # r \<Rightarrow> if c = 48 then Some ([48], r) else if is_digit c then Some (digits_of t) else None)"

definition fraction_part :: "jtext \<Rightarrow> (jtext \<times> jtext) option" where
  "fraction_part t = (case t of
     c # r \<Rightarrow>
       if c = 46 then (case digits_of r of (ds, r') \<Rightarrow> if ds = [] then None else Some (46 # ds, r')) else Some ([], t)
   | [] \<Rightarrow> Some ([], []))"

definition exponent_part :: "jtext \<Rightarrow> (jtext \<times> jtext) option" where
  "exponent_part t = (case t of
     c # r \<Rightarrow>
       if c = 101 \<or> c = 69
       then (let (sign, r1) = (case r of d # r' \<Rightarrow> if d = 43 \<or> d = 45 then ([d], r') else ([], r) | [] \<Rightarrow> ([], []))
             in case digits_of r1 of (ds, r') \<Rightarrow> if ds = [] then None else Some (c # sign @ ds, r'))
       else Some ([], t)
   | [] \<Rightarrow> Some ([], []))"

definition number_body :: "jtext \<Rightarrow> (jtext \<times> jtext) option" where
  "number_body t =
     (let (sign, t0) = (case t of c # r \<Rightarrow> if c = 45 then ([45], r) else ([], t) | [] \<Rightarrow> ([], []))
      in case int_part t0 of
           None \<Rightarrow> None
         | Some (ds, t1) \<Rightarrow>
             (case fraction_part t1 of
                None \<Rightarrow> None
              | Some (fs, t2) \<Rightarrow>
                  (case exponent_part t2 of None \<Rightarrow> None | Some (es, t3) \<Rightarrow> Some (sign @ ds @ fs @ es, t3))))"

definition json_word :: "jtext \<Rightarrow> (json \<times> jtext) option" where
  "json_word t =
     (if take 4 t = js ''true'' then Some (JBool True, drop 4 t)
      else if take 5 t = js ''false'' then Some (JBool False, drop 5 t)
      else if take 4 t = js ''null'' then Some (JNull, drop 4 t) else None)"

section \<open>Values\<close>

text \<open>A member that comes again takes its last value, at its first place; array indices come first.\<close>

definition own_members :: "(jtext \<times> json) list \<Rightarrow> (jtext \<times> json) list" where
  "own_members ms = enumeration_order (fold (\<lambda>(k, v) acc. AList.update k v acc) ms [])"

text \<open>Each test of a length holds whenever it is reached: what is left is shorter (\<open>json_rests\<close>).\<close>

function (sequential) json_value :: "(jtext \<Rightarrow> jtext) \<Rightarrow> jtext \<Rightarrow> (json \<times> jtext) option"
  and json_items :: "(jtext \<Rightarrow> jtext) \<Rightarrow> jtext \<Rightarrow> (json list \<times> jtext) option"
  and json_members :: "(jtext \<Rightarrow> jtext) \<Rightarrow> jtext \<Rightarrow> ((jtext \<times> json) list \<times> jtext) option" where
  "json_value num t =
     (case skip_space t of
        [] \<Rightarrow> None
      | c # r \<Rightarrow>
          if c = 34 then map_option (apfst JStr) (string_body r)
          else if c = 91
          then (case skip_space r of
                  [] \<Rightarrow> None
                | d # r' \<Rightarrow> if d = 93 then Some (JArr [], r')
                            else if length r < length t then map_option (apfst JArr) (json_items num r) else None)
          else if c = 123
          then (case skip_space r of
                  [] \<Rightarrow> None
                | d # r' \<Rightarrow> if d = 125 then Some (JObj [], r')
                            else if length r < length t
                            then map_option (apfst (JObj \<circ> own_members)) (json_members num r) else None)
          else (case json_word (c # r) of
                  Some x \<Rightarrow> Some x
                | None \<Rightarrow> map_option (apfst (JNum \<circ> num)) (number_body (c # r))))"
| "json_items num t =
     (case json_value num t of
        None \<Rightarrow> None
      | Some (v, r) \<Rightarrow>
          (case skip_space r of
             [] \<Rightarrow> None
           | c # r' \<Rightarrow>
               if c = 93 then Some ([v], r')
               else if c = 44 \<and> length r' < length t then map_option (apfst ((#) v)) (json_items num r') else None))"
| "json_members num t =
     (case skip_space t of
        [] \<Rightarrow> None
      | q # r \<Rightarrow>
          if q \<noteq> 34 then None
          else (case string_body r of
             None \<Rightarrow> None
           | Some (k, r1) \<Rightarrow>
               (case skip_space r1 of
                  [] \<Rightarrow> None
                | c # r2 \<Rightarrow>
                    if c \<noteq> 58 \<or> \<not> length r2 < length t then None
                    else (case json_value num r2 of
                       None \<Rightarrow> None
                     | Some (v, r3) \<Rightarrow>
                         (case skip_space r3 of
                            [] \<Rightarrow> None
                          | d # r4 \<Rightarrow>
                              if d = 125 then Some ([(k, v)], r4)
                              else if d = 44 \<and> length r4 < length t
                              then map_option (apfst ((#) (k, v))) (json_members num r4) else None)))))"
  by pat_completeness auto

termination
  by (relation "measure (\<lambda>x. case x of
        Inl (num, t) \<Rightarrow> 2 * length t
      | Inr (Inl (num, t)) \<Rightarrow> Suc (2 * length t)
      | Inr (Inr (num, t)) \<Rightarrow> Suc (2 * length t))") auto

lemmas [simp del] = json_value.simps json_items.simps json_members.simps

definition json_parse :: "(jtext \<Rightarrow> jtext) \<Rightarrow> jtext \<Rightarrow> json option" where
  "json_parse num t =
     (case json_value num t of
        None \<Rightarrow> None
      | Some (v, r) \<Rightarrow> if skip_space r = [] then Some v else None)"

section \<open>A value is no larger than its text\<close>

fun bulk :: "json \<Rightarrow> nat" where
  "bulk (JStr t) = Suc (length t)"
| "bulk (JArr vs) = Suc (sum_list (map bulk vs))"
| "bulk (JObj ms) = Suc (sum_list (map (\<lambda>m. bulk (snd m)) ms))"
| "bulk v = 1"

lemma skip_space_shorter: "skip_space t = c # r \<Longrightarrow> length r < length t"
  by (metis length_Cons length_dropWhile_le less_eq_Suc_le)

lemma string_body_bound: "string_body t = Some (s, r) \<Longrightarrow> length s + length r < length t"
proof (induction t arbitrary: s r rule: string_body.induct)
  case (2 c t)
  consider (close) "c = 34" | (plain) "c \<noteq> 34" "\<not> c < 32" "c \<noteq> 92" | (escape) "c = 92"
    using "2.prems" by (auto split: if_splits)
  then show ?case
  proof cases
    case plain
    with "2.prems" obtain s' where "string_body t = Some (s', r)" "s = c # s'" by auto
    with "2.IH"(1) plain show ?thesis by fastforce
  next
    case escape
    with "2.prems" obtain e u where t: "t = e # u" by (auto split: list.splits)
    show ?thesis
    proof (cases "e = 117")
      case True
      with "2.prems" escape t obtain a b d f w where u: "u = a # b # d # f # w" by (auto split: list.splits)
      with "2.prems" escape t True obtain x where x: "hex_unit a b d f = Some x" by (auto split: option.splits)
      with "2.prems" escape t True u obtain s' where "string_body w = Some (s', r)" "s = x # s'" by auto
      with "2.IH"(2) escape t True u x show ?thesis by fastforce
    next
      case False
      with "2.prems" escape t obtain x where x: "escape_value e = Some x" by (auto split: option.splits)
      with "2.prems" escape t False obtain s' where "string_body u = Some (s', r)" "s = x # s'" by auto
      with "2.IH"(3) escape t False x show ?thesis by fastforce
    qed
  qed (use "2.prems" in auto)
qed simp

lemma digits_of_length: "digits_of t = (ds, r) \<Longrightarrow> length ds + length r = length t"
  by (metis Pair_inject digits_of_def length_append takeWhile_dropWhile_id)

lemma digits_of_starts: "digits_of (c # t) = (ds, r) \<Longrightarrow> is_digit c \<Longrightarrow> length r \<le> length t"
  by (auto simp: digits_of_def length_dropWhile_le)

lemma int_part_bound: "int_part t = Some (ds, r) \<Longrightarrow> length r < length t"
  by (auto simp: int_part_def le_imp_less_Suc split: list.splits if_splits dest: digits_of_starts)

lemma fraction_part_bound: "fraction_part t = Some (ds, r) \<Longrightarrow> length r \<le> length t"
  by (auto simp: fraction_part_def split: list.splits if_splits prod.splits dest: digits_of_length)

lemma exponent_part_bound: "exponent_part t = Some (ds, r) \<Longrightarrow> length r \<le> length t"
  by (auto simp: exponent_part_def Let_def split: list.splits if_splits prod.splits dest!: digits_of_length)

lemma number_body_bound: "number_body t = Some (ds, r) \<Longrightarrow> length r < length t"
  by (auto simp: number_body_def Let_def split: list.splits if_splits option.splits prod.splits
      dest!: int_part_bound fraction_part_bound exponent_part_bound)

lemma json_word_bound: "json_word t = Some (v, r) \<Longrightarrow> length r < length t \<and> bulk v = 1"
  by (cases t) (auto simp: json_word_def js_def split: if_splits)

lemma sum_update:
  "sum_list (map (\<lambda>m. bulk (snd m)) (AList.update k v ms)) \<le> bulk v + sum_list (map (\<lambda>m. bulk (snd m)) ms)"
  by (induction ms) auto

lemma sum_filters:
  "sum_list (map f (filter P xs)) + sum_list (map f (filter (\<lambda>x. \<not> P x) xs)) = (sum_list (map f xs) :: nat)"
  by (induction xs) auto

lemma sum_enumeration:
  "sum_list (map (\<lambda>m. bulk (snd m)) (enumeration_order ms)) = sum_list (map (\<lambda>m. bulk (snd m)) ms)"
proof -
  have "mset (sort_key g xs) = mset xs" for g :: "jtext \<times> json \<Rightarrow> nat" and xs by simp
  then have "sum_list (map f (sort_key g xs)) = (sum_list (map f xs) :: nat)" for f and g :: "jtext \<times> json \<Rightarrow> nat" and xs
    by (metis mset_map sum_mset_sum_list)
  then show ?thesis by (simp add: enumeration_order_def sum_filters)
qed

lemma sum_fold_update:
  "sum_list (map (\<lambda>m. bulk (snd m)) (fold (\<lambda>(k, v) acc. AList.update k v acc) ms acc)) \<le>
   sum_list (map (\<lambda>m. bulk (snd m)) ms) + sum_list (map (\<lambda>m. bulk (snd m)) acc)"
proof (induction ms arbitrary: acc)
  case (Cons m ms)
  obtain k v where "m = (k, v)" by fastforce
  then show ?case using Cons [of "AList.update k v acc"] sum_update [of k v acc] by simp
qed simp

lemma own_members_bound:
  "sum_list (map (\<lambda>m. bulk (snd m)) (own_members ms)) \<le> sum_list (map (\<lambda>m. bulk (snd m)) ms)"
  using sum_fold_update [of ms "[]"] by (simp add: own_members_def sum_enumeration)

lemma json_rests:
  "json_value num t = Some (v, r) \<Longrightarrow> length r + bulk v \<le> length t"
  "json_items num t = Some (vs, r) \<Longrightarrow> Suc (length r + sum_list (map bulk vs)) \<le> length t"
  "json_members num t = Some (ms, r) \<Longrightarrow> Suc (length r + sum_list (map (\<lambda>m. bulk (snd m)) ms)) \<le> length t"
proof (induction num t and num t and num t arbitrary: v r and vs r and ms r
    rule: json_value_json_items_json_members.induct)
  case (1 num t)
  note here = 1(3) [unfolded json_value.simps [of num t]]
  obtain c u where u: "skip_space t = c # u" using here by (auto split: list.splits)
  note less = skip_space_shorter [OF u]
  consider (quoted) "c = 34" | (arr) "c = 91" | (obj) "c = 123" | (other) "c \<noteq> 34" "c \<noteq> 91" "c \<noteq> 123" by blast
  then show ?case
  proof cases
    case quoted
    then show ?thesis using here u less by (auto dest: string_body_bound)
  next
    case arr
    then obtain d w where w: "skip_space u = d # w" using here u by (auto split: list.splits)
    show ?thesis
    proof (cases "d = 93")
      case True
      then show ?thesis using here u less arr w skip_space_shorter [OF w] by auto
    next
      case False
      then obtain vs where "json_items num u = Some (vs, r)" "v = JArr vs" using here u less arr w by auto
      with 1(1) [OF u _ arr w False less] arr less show ?thesis by simp
    qed
  next
    case obj
    then obtain d w where w: "skip_space u = d # w" using here u by (auto split: list.splits)
    show ?thesis
    proof (cases "d = 125")
      case True
      then show ?thesis using here u less obj w skip_space_shorter [OF w] by auto
    next
      case False
      then obtain ms where "json_members num u = Some (ms, r)" "v = JObj (own_members ms)" using here u less obj w by auto
      with 1(2) [OF u _ _ obj w False less] obj less own_members_bound [of ms] show ?thesis by simp
    qed
  next
    case other
    have "length (c # u) \<le> length t" by (metis u length_dropWhile_le)
    then show ?thesis
      using here u other by (auto split: option.splits dest!: json_word_bound number_body_bound)
  qed
next
  case (2 num t)
  note here = 2(3) [unfolded json_items.simps [of num t]]
  obtain v u where v: "json_value num t = Some (v, u)" using here by (auto split: option.splits)
  with here obtain c w where w: "skip_space u = c # w" by (auto split: list.splits)
  note less = skip_space_shorter [OF w]
  have vb: "length u + bulk v \<le> length t" using 2(1) [OF v] .
  show ?case
  proof (cases "c = 93")
    case True
    then show ?thesis using here v w vb less by auto
  next
    case False
    then obtain us where "json_items num w = Some (us, r)" "vs = v # us" "c = 44 \<and> length w < length t"
      using here v w by (auto split: if_splits)
    with 2(2) [OF v refl w False] vb less show ?thesis by simp
  qed
next
  case (3 num t)
  note here = 3(3) [unfolded json_members.simps [of num t]]
  obtain u where u: "skip_space t = 34 # u" using here by (auto split: list.splits if_splits)
  with here obtain k r1 where k: "string_body u = Some (k, r1)" by (auto split: option.splits)
  with here u obtain r2 where r2: "skip_space r1 = 58 # r2" and l2: "length r2 < length t"
    by (auto split: list.splits if_splits)
  with here u k obtain v r3 where v: "json_value num r2 = Some (v, r3)" by (auto split: option.splits if_splits)
  with here u k r2 obtain d r4 where r4: "skip_space r3 = d # r4" by (auto split: list.splits if_splits)
  note less = skip_space_shorter [OF u] skip_space_shorter [OF r2] skip_space_shorter [OF r4] string_body_bound [OF k]
  have vb: "length r3 + bulk v \<le> length r2" by (rule 3(1) [OF u _ k refl r2 _ v]) (use l2 in auto)
  show ?case
  proof (cases "d = 125")
    case True
    then show ?thesis using here u k r2 l2 v r4 vb less by auto
  next
    case False
    then obtain us where "json_members num r4 = Some (us, r)" "ms = (k, v) # us" "d = 44 \<and> length r4 < length t"
      using here u k r2 l2 v r4 by (auto split: if_splits)
    with 3(2) [OF u _ k refl r2 _ v refl r4 False] vb less l2 show ?thesis by simp
  qed
qed

lemma json_parse_bulk: "json_parse num t = Some v \<Longrightarrow> bulk v \<le> length t"
  by (auto simp: json_parse_def split: option.splits if_splits dest!: json_rests(1))

end
