(* ===== verification/Patterns.thy ===== *)
theory Patterns
  imports Text
begin

text \<open>
  Regular expressions of the form \<open>\b...\b\<close> with the flag \<open>i\<close>, as far as the components use them: between two
  boundaries a body, which is what it can match at the start of a text, the lengths in the order the engine tries them.
  A letter of a body stands for itself in both cases; without the flag \<open>u\<close> no letter beyond ASCII matches one of ASCII.
\<close>

type_synonym body = "jtext \<Rightarrow> nat list"

definition word_unit :: "16 word \<Rightarrow> bool" where
  "word_unit c = ((48 \<le> c \<and> c \<le> 57) \<or> (65 \<le> c \<and> c \<le> 90) \<or> (97 \<le> c \<and> c \<le> 122) \<or> c = 95)"

definition boundary :: "16 word option \<Rightarrow> 16 word option \<Rightarrow> bool" where
  "boundary before after =
     ((case before of Some c \<Rightarrow> word_unit c | None \<Rightarrow> False) \<noteq> (case after of Some c \<Rightarrow> word_unit c | None \<Rightarrow> False))"

definition unit_at :: "nat \<Rightarrow> jtext \<Rightarrow> 16 word option" where
  "unit_at i t = (if i < length t then Some (t ! i) else None)"

definition literal :: "jtext \<Rightarrow> body" where
  "literal p t = (if ascii_lower (take (length p) t) = p then [length p] else [])"

definition either :: "jtext list \<Rightarrow> body" where
  "either ps t = concat (map (\<lambda>p. literal p t) ps)"

text \<open>\<open>\bBODY\b\<close> at the start of a text, with the unit before it.\<close>

definition match_at :: "body \<Rightarrow> 16 word option \<Rightarrow> jtext \<Rightarrow> nat option" where
  "match_at b before t =
     (if boundary before (unit_at 0 t)
      then List.find (\<lambda>n. 0 < n \<and> boundary (unit_at (n - 1) t) (unit_at n t)) (b t)
      else None)"

text \<open>\<open>test\<close>, and the number of matches of \<open>match\<close> with the flag \<open>g\<close>; \<open>skip\<close> is what is left of the last match.\<close>

fun pattern_test :: "body \<Rightarrow> 16 word option \<Rightarrow> jtext \<Rightarrow> bool" where
  "pattern_test b before [] = False"
| "pattern_test b before (c # cs) = (match_at b before (c # cs) \<noteq> None \<or> pattern_test b (Some c) cs)"

fun pattern_count :: "body \<Rightarrow> nat \<Rightarrow> 16 word option \<Rightarrow> jtext \<Rightarrow> nat" where
  "pattern_count b skip before [] = 0"
| "pattern_count b (Suc k) before (c # cs) = pattern_count b k (Some c) cs"
| "pattern_count b 0 before (c # cs) =
     (case match_at b before (c # cs) of
        None \<Rightarrow> pattern_count b 0 (Some c) cs
      | Some n \<Rightarrow> Suc (pattern_count b (n - 1) (Some c) cs))"

lemma match_at_Some:
  "match_at b before t = Some n \<Longrightarrow> n \<in> set (b t) \<and> 0 < n \<and> boundary before (unit_at 0 t) \<and>
   boundary (unit_at (n - 1) t) (unit_at n t)"
  by (auto simp: match_at_def find_Some_iff split: if_splits)

lemma pattern_count_le: "pattern_count b k before t \<le> length t"
  by (induction b k before t rule: pattern_count.induct) (auto split: option.splits)

lemma pattern_test_count: "pattern_test b before t \<longleftrightarrow> 0 < pattern_count b 0 before t"
  by (induction t arbitrary: before) (auto split: option.splits)

end
