(* ===== verification/Doubles.thy ===== *)
theory Doubles
  imports Complex_Main Text
begin

text \<open>
  Positive numbers of the language where a quotient is taken: a double is the rational it stands for, and an operation
  is the exact one followed by \<open>double\<close>, the nearest double with ties to the even mantissa. The counts the components
  divide are below \<open>2 ^ 53\<close>, so no result leaves the normal range.
\<close>

definition two_to :: "int \<Rightarrow> rat" where
  "two_to e = (if e \<ge> 0 then 2 ^ nat e else 1 / 2 ^ nat (- e))"

text \<open>The power of two at or below a positive rational.\<close>

definition exponent_of :: "rat \<Rightarrow> int" where
  "exponent_of q =
     (case quotient_of q of (a, b) \<Rightarrow>
        let e = int (floorlog 2 (nat a)) - int (floorlog 2 (nat b)) in if q < two_to e then e - 1 else e)"

definition round_even :: "rat \<Rightarrow> int" where
  "round_even x =
     (let n = \<lfloor>x\<rfloor>; r = x - of_int n
      in if r < 1 / 2 then n else if r > 1 / 2 then n + 1 else if even n then n else n + 1)"

definition double :: "rat \<Rightarrow> rat" where
  "double q =
     (if q = 0 then 0
      else let e = exponent_of q - 52 in of_int (round_even (q * two_to (- e))) * two_to e)"

text \<open>\<open>toFixed(2)\<close> of a number that is not negative.\<close>

definition to_fixed_2 :: "rat \<Rightarrow> jtext" where
  "to_fixed_2 x =
     (let n = nat \<lfloor>x * 100 + 1 / 2\<rfloor>; d = n mod 100
      in decimal (n div 100) @ 46 # [digit (d div 10), digit (d mod 10)])"

lemma round_even_close: "\<bar>of_int (round_even x) - x\<bar> \<le> 1 / 2"
proof -
  have "of_int \<lfloor>x\<rfloor> \<le> x" "x < of_int \<lfloor>x\<rfloor> + 1" by linarith+
  then show ?thesis by (simp add: round_even_def Let_def)
qed

lemma two_to_positive [simp]: "0 < two_to e"
  by (simp add: two_to_def)

lemma two_to_minus: "two_to (- e) * two_to e = 1"
  by (simp add: two_to_def)

text \<open>A double is within half a unit of its last place.\<close>

lemma double_close: "\<bar>double q - q\<bar> \<le> two_to (exponent_of q - 53)"
proof (cases "q = 0")
  case False
  let ?e = "exponent_of q - 52"
  let ?x = "q * two_to (- ?e)"
  have "q = ?x * two_to ?e" using two_to_minus [of ?e] by (simp add: mult.assoc)
  then have "double q - q = (of_int (round_even ?x) - ?x) * two_to ?e"
    using False by (simp add: double_def Let_def left_diff_distrib)
  then have "\<bar>double q - q\<bar> = \<bar>of_int (round_even ?x) - ?x\<bar> * two_to ?e"
    by (simp add: abs_mult less_imp_le)
  also have "\<dots> \<le> 1 / 2 * two_to ?e" by (intro mult_right_mono round_even_close) (simp add: less_imp_le)
  also have "1 / 2 * two_to ?e = two_to (exponent_of q - 53)"
    by (auto simp: two_to_def nat_diff_distrib power_diff nat_add_distrib field_simps power_Suc [symmetric]
        simp del: power_Suc)
  finally show ?thesis .
qed (simp add: double_def less_imp_le)

end
