(* ===== verification/Struggle.thy ===== *)
theory Struggle
  imports JsonText Patterns Doubles PlanTool
begin

text \<open>
  The struggle detector: \<open>sdk/packages/core/src/runtime/safety/struggle-detector.ts\<close>, with \<open>editorFilePath\<close> of
  \<open>sdk/packages/shared/src/tools/editor-input.ts\<close>. It counts failed calls, two lexicons in the model's reasoning and
  the attempts the change protocol threw away, and answers a nudge or an offer; the feed drives it from the events of
  a run. The class is the record \<open>detector\<close>.
\<close>

section \<open>The operating point\<close>

definition STRUGGLE_WINDOW :: nat where
  "STRUGGLE_WINDOW = 10"

definition STRUGGLE_FAILED_CALLS :: nat where
  "STRUGGLE_FAILED_CALLS = 6"

definition STRUGGLE_DISTRESS_HITS :: nat where
  "STRUGGLE_DISTRESS_HITS = 2"

definition STRUGGLE_MIN_ITERATION :: nat where
  "STRUGGLE_MIN_ITERATION = 20"

definition STRUGGLE_MAX_PER_TASK :: nat where
  "STRUGGLE_MAX_PER_TASK = 2"

definition STRUGGLE_EDIT_STREAK :: nat where
  "STRUGGLE_EDIT_STREAK = 3"

definition STRUGGLE_FAILED_TRANSACTIONS :: nat where
  "STRUGGLE_FAILED_TRANSACTIONS = 2"

text \<open>A threshold as the host gives it; \<open>NaN\<close> and the infinities are no integers, so they fall back like \<open>None\<close>.\<close>

record struggle_thresholds =
  th_window :: "rat option"
  th_failed_calls :: "rat option"
  th_distress_hits :: "rat option"
  th_min_iteration :: "rat option"
  th_max_per_task :: "rat option"
  th_edit_streak :: "rat option"
  th_failed_transactions :: "rat option"

definition NO_THRESHOLDS :: struggle_thresholds where
  "NO_THRESHOLDS = \<lparr>th_window = None, th_failed_calls = None, th_distress_hits = None, th_min_iteration = None,
     th_max_per_task = None, th_edit_streak = None, th_failed_transactions = None\<rparr>"

definition positive :: "rat option \<Rightarrow> nat \<Rightarrow> nat" where
  "positive given fallback =
     (case given of
        Some q \<Rightarrow> if snd (quotient_of q) = 1 \<and> q > 0 then nat (fst (quotient_of q)) else fallback
      | None \<Rightarrow> fallback)"

record struggle_limits =
  lim_window :: nat
  lim_failed_calls :: nat
  lim_distress_hits :: nat
  lim_min_iteration :: nat
  lim_max_per_task :: nat
  lim_edit_streak :: nat
  lim_failed_transactions :: nat

definition resolve_struggle_thresholds :: "struggle_thresholds \<Rightarrow> struggle_limits" where
  "resolve_struggle_thresholds given =
     \<lparr>lim_window = positive (th_window given) STRUGGLE_WINDOW,
      lim_failed_calls = positive (th_failed_calls given) STRUGGLE_FAILED_CALLS,
      lim_distress_hits = positive (th_distress_hits given) STRUGGLE_DISTRESS_HITS,
      lim_min_iteration = positive (th_min_iteration given) STRUGGLE_MIN_ITERATION,
      lim_max_per_task = positive (th_max_per_task given) STRUGGLE_MAX_PER_TASK,
      lim_edit_streak = positive (th_edit_streak given) STRUGGLE_EDIT_STREAK,
      lim_failed_transactions = positive (th_failed_transactions given) STRUGGLE_FAILED_TRANSACTIONS\<rparr>"

section \<open>The lexicons\<close>

definition I_AM :: "jtext list" where
  "I_AM = [js ''i '' @ [39] @ js ''m'', js ''i m'', js ''i'' @ [39] @ js ''m'', js ''im'']"

definition DISTRESS :: "body list" where
  "DISTRESS =
     [either (map (\<lambda>i. i @ js '' confusing myself'') I_AM), either (map (\<lambda>i. i @ js '' confused'') I_AM),
      either [js ''keeps failing'', js ''keep failing''], either (map (\<lambda>i. i @ js '' stuck'') I_AM),
      either (map (\<lambda>i. i @ js '' not sure'') I_AM), literal (js ''that makes no sense''), literal (js ''regressing'')]"

text \<open>\<open>hmm+\<close>: as many as there are, then fewer.\<close>

definition hmm :: body where
  "hmm t =
     (let k = length (takeWhile (\<lambda>c. c = 109) (drop 2 (ascii_lower t)))
      in if ascii_lower (take 2 t) = js ''hm'' then rev (map (\<lambda>i. 2 + i) [1..<Suc k]) else [])"

definition HEDGING :: "body list" where
  "HEDGING =
     [literal (js ''wait''), hmm, literal (js ''let me reconsider''), literal (js ''dead end''),
      literal (js ''in circles''), literal (js ''unexpected'')]"

definition count_hits :: "jtext \<Rightarrow> body list \<Rightarrow> bool \<Rightarrow> nat" where
  "count_hits t patterns global_flag =
     sum_list (map (\<lambda>b. if global_flag then pattern_count b 0 None t else of_bool (pattern_test b None t)) patterns)"

fun space_runs :: "bool \<Rightarrow> jtext \<Rightarrow> nat" where
  "space_runs inside [] = 0"
| "space_runs inside (c # cs) =
     (if is_space c then (if inside then 0 else 1) + space_runs True cs else space_runs False cs)"

definition word_count :: "jtext \<Rightarrow> nat" where
  "word_count t = (if trim t = [] then 0 else Suc (space_runs False (trim t)))"

definition rate :: "nat \<Rightarrow> nat \<Rightarrow> rat option" where
  "rate hedging word_total = (if word_total = 0 then None else Some (double (of_nat (hedging * 1000) / of_nat word_total)))"

section \<open>Refusals\<close>

definition NO_MESSAGE :: jtext where
  "NO_MESSAGE = js ''the call did not succeed''"

text \<open>The error of a result's own record, where it is a text with something in it.\<close>

definition own_error :: "json \<Rightarrow> jtext option" where
  "own_error v = (case json_member v (js ''error'') of
     Some (JStr t) \<Rightarrow> if trim t \<noteq> [] then Some t else None
   | _ \<Rightarrow> None)"

lemma sum_member: "v \<in> set vs \<Longrightarrow> (f v :: nat) \<le> sum_list (map f vs)"
  by (induction vs) auto

lemma trim_left_length: "length (trim_left t) \<le> length t"
  by (simp add: trim_left_def length_dropWhile_le)

lemma trim_length: "length (trim t) \<le> length t"
  using trim_left_length [of "rev (trim_left t)"] trim_left_length [of t] by (simp add: trim_def)

function (sequential) refusal_in :: "(jtext \<Rightarrow> jtext) \<Rightarrow> json \<Rightarrow> jtext option" where
  "refusal_in num (JArr []) = None"
| "refusal_in num (JArr (v # vs)) =
     (case refusal_in num v of
        None \<Rightarrow> None
      | Some first \<Rightarrow> if None \<in> set (map (refusal_in num) vs) then None else Some first)"
| "refusal_in num (JStr t) =
     (if trim t = [] \<or> hd (trim t) \<noteq> 123 \<and> hd (trim t) \<noteq> 91 then None
      else (case json_parse num (trim t) of Some v \<Rightarrow> refusal_in num v | None \<Rightarrow> None))"
| "refusal_in num (JObj ms) =
     (let err = own_error (JObj ms); success = map_of ms (js ''success'')
      in if success = Some (JBool False) then Some (opt_default NO_MESSAGE err)
         else if err \<noteq> None \<and> success \<noteq> Some (JBool True) then err
         else (case map_of ms (js ''result'') of
                 Some v \<Rightarrow> if success = None then refusal_in num v else None
               | None \<Rightarrow> None))"
| "refusal_in num v = None"
  by pat_completeness auto

termination
proof (relation "measure (\<lambda>(num, v). bulk v)")
  fix num t v
  assume "json_parse num (trim t) = Some v"
  then show "((num, v), (num, JStr t)) \<in> measure (\<lambda>(num, v). bulk v)"
    using json_parse_bulk [of num "trim t" v] trim_length [of t] by simp
next
  fix num :: "jtext \<Rightarrow> jtext" and ms :: "(jtext \<times> json) list" and v
  assume "map_of ms (js ''result'') = Some v"
  then have "bulk v \<le> sum_list (map (\<lambda>m. bulk (snd m)) ms)"
    using sum_member [of "(js ''result'', v)" ms "\<lambda>m. bulk (snd m)"] by (simp add: map_of_SomeD)
  then show "((num, v), (num, JObj ms)) \<in> measure (\<lambda>(num, v). bulk v)" by simp
next
  fix num :: "jtext \<Rightarrow> jtext" and v u :: json and vs
  assume "u \<in> set vs"
  then show "((num, u), (num, JArr (v # vs))) \<in> measure (\<lambda>(num, v). bulk v)"
    using sum_member [of u vs bulk] by simp
qed simp_all

section \<open>What it says\<close>

definition MULTIPLICATION_SIGN :: "16 word" where
  "MULTIPLICATION_SIGN = 0xD7"

record struggle_signals =
  sg_iteration :: int
  sg_failed_calls :: nat
  sg_distress :: nat
  sg_hedging_ratio :: "rat option"

definition describe_struggle :: "struggle_signals \<Rightarrow> struggle_limits \<Rightarrow> jtext" where
  "describe_struggle signals limits = join_with [32]
     ((js ''Over your last '' @
      decimal (lim_window limits) @
      js '' turns: '' @
      decimal (sg_failed_calls signals) @
      js '' tool call'' @
      (if sg_failed_calls signals = 1 then [] else js ''s'') @
      js '' came back as failures or refusals.'') #
      (if sg_distress signals \<ge> lim_distress_hits limits
       then [(js ''Your own reasoning said so '' @
             decimal (sg_distress signals) @
             js '' times over the same turns '' @
             [EM_DASH] @
             js '' stuck, confused, or that something keeps failing.'')]
       else []) @
      (case sg_hedging_ratio signals of
         Some r \<Rightarrow> if r \<ge> 1
                   then [(js ''You are hedging at '' @
                         to_fixed_2 r @
                         [MULTIPLICATION_SIGN] @
                         js '' the rate you opened this run with, and a run that is converging hedges less as it '' @
                         js ''goes, not the same or more.'')]
                   else []
       | None \<Rightarrow> []))"

definition describe_edit_streak :: "nat \<Rightarrow> jtext option \<Rightarrow> jtext" where
  "describe_edit_streak streak last_refusal = join_with [32]
     ([(js ''Your last '' @
       decimal streak @
       js '' attempts to change a file were all refused or failed, one after another, with '' @
       js ''nothing landing in between.'')] @
      (case last_refusal of
         Some t \<Rightarrow> if trim t \<noteq> [] then [(js ''The most recent said: '' @
         trim t)] else []
       | None \<Rightarrow> []) @
      [(js ''Repeating an edit that was refused does not make it land; the reading of the file '' @
       js ''that produced it is what has to change.'')])"

definition describe_failed_transactions :: "nat \<Rightarrow> nat \<Rightarrow> nat \<Rightarrow> jtext" where
  "describe_failed_transactions lost discarded unchanged = join_with [32]
     [(decimal lost @
      js '' of this task's attempts have been thrown away: '' @
      decimal discarded @
      js '' put back after failing the check, '' @
      decimal unchanged @
      js '' submitted with nothing changed.''),
      (js ''Each one was a whole attempt rather than a turn, and the reading of the problem '' @
      js ''that produced them has not changed between them.'')]"

section \<open>The detector\<close>

record iteration_record =
  ir_iteration :: int
  ir_failed_calls :: nat
  ir_distress :: nat
  ir_hedging :: nat
  ir_words :: nat

datatype struggle_reason = Failures | Edit_Streak | Transactions_Lost

datatype struggle_verdict =
    Quiet
  | Nudge struggle_reason jtext "struggle_signals option" "jtext list"
  | Suggest jtext struggle_signals

record detector =
  dt_limits :: struggle_limits
  dt_history :: "iteration_record list"
  dt_baseline :: "rat option"
  dt_baseline_hedging :: nat
  dt_baseline_words :: nat
  dt_fired_in_task :: nat
  dt_fired_in_transaction :: bool
  dt_transaction :: nat
  dt_last_fired :: "jtext option"
  dt_last_nudge :: "jtext option"
  dt_edit_streak :: nat
  dt_discarded :: nat
  dt_empty :: nat
  dt_last_refusal :: "jtext option"
  dt_changed :: "jtext list"

definition new_detector :: "struggle_thresholds \<Rightarrow> detector" where
  "new_detector given =
     \<lparr>dt_limits = resolve_struggle_thresholds given, dt_history = [], dt_baseline = None, dt_baseline_hedging = 0,
      dt_baseline_words = 0, dt_fired_in_task = 0, dt_fired_in_transaction = False, dt_transaction = 0,
      dt_last_fired = None, dt_last_nudge = None, dt_edit_streak = 0, dt_discarded = 0, dt_empty = 0,
      dt_last_refusal = None, dt_changed = []\<rparr>"

definition note_file_changed :: "jtext \<Rightarrow> detector \<Rightarrow> detector" where
  "note_file_changed p d = (if p \<in> set (dt_changed d) then d else d\<lparr>dt_changed := dt_changed d @ [p]\<rparr>)"

text \<open>\<open>recordFor\<close>; the record it returns is the last one.\<close>

definition record_for :: "int \<Rightarrow> detector \<Rightarrow> detector" where
  "record_for i d =
     (if dt_history d \<noteq> [] \<and> ir_iteration (last (dt_history d)) = i then d
      else let hs = dt_history d @ [\<lparr>ir_iteration = i, ir_failed_calls = 0, ir_distress = 0, ir_hedging = 0, ir_words = 0\<rparr>]
           in d\<lparr>dt_history := drop (length hs - 2 * lim_window (dt_limits d)) hs\<rparr>)"

definition change_last :: "(iteration_record \<Rightarrow> iteration_record) \<Rightarrow> detector \<Rightarrow> detector" where
  "change_last f d = d\<lparr>dt_history := butlast (dt_history d) @ [f (last (dt_history d))]\<rparr>"

definition absorb_baseline :: "int \<Rightarrow> detector \<Rightarrow> detector" where
  "absorb_baseline i d =
     (if i > int (lim_window (dt_limits d)) then d
      else let opening = filter (\<lambda>e. ir_iteration e \<le> int (lim_window (dt_limits d))) (dt_history d);
               h = sum_list (map ir_hedging opening);
               w = sum_list (map ir_words opening)
           in d\<lparr>dt_baseline_hedging := h, dt_baseline_words := w, dt_baseline := rate h w\<rparr>)"

definition note_turn :: "int \<Rightarrow> jtext option \<Rightarrow> detector \<Rightarrow> detector" where
  "note_turn i reasoning d0 =
     (let d = record_for i d0; t = opt_default [] reasoning
      in if t = [] then d
         else absorb_baseline i (change_last (\<lambda>r. r\<lparr>ir_distress := ir_distress r + count_hits t DISTRESS False,
                ir_hedging := ir_hedging r + count_hits t HEDGING True, ir_words := ir_words r + word_count t\<rparr>) d))"

definition EDIT_TOOLS :: "jtext list" where
  "EDIT_TOOLS = [js ''editor'', js ''apply_patch'']"

definition note_tool_outcome :: "int \<Rightarrow> bool \<Rightarrow> jtext option \<Rightarrow> jtext option \<Rightarrow> detector \<Rightarrow> detector" where
  "note_tool_outcome i failed tool refusal d0 =
     (let d = (case tool of
                 Some t \<Rightarrow> if t \<in> set EDIT_TOOLS
                           then (if failed then d0\<lparr>dt_edit_streak := Suc (dt_edit_streak d0), dt_last_refusal := refusal\<rparr>
                                 else d0\<lparr>dt_edit_streak := 0, dt_last_refusal := None\<rparr>)
                           else d0
               | None \<Rightarrow> d0)
      in if \<not> failed then record_for i d
         else change_last (\<lambda>r. r\<lparr>ir_failed_calls := Suc (ir_failed_calls r)\<rparr>) (record_for i d))"

datatype transaction_end = Attempt_Kept | Attempt_Discarded | Attempt_Empty

definition note_transaction_outcome :: "transaction_end \<Rightarrow> detector \<Rightarrow> detector" where
  "note_transaction_outcome e d =
     (case e of
        Attempt_Discarded \<Rightarrow> d\<lparr>dt_discarded := Suc (dt_discarded d)\<rparr>
      | Attempt_Empty \<Rightarrow> d\<lparr>dt_empty := Suc (dt_empty d)\<rparr>
      | Attempt_Kept \<Rightarrow> d)"

definition note_compacted :: "detector \<Rightarrow> detector" where
  "note_compacted d = d\<lparr>dt_history := [], dt_edit_streak := 0, dt_last_refusal := None, dt_last_nudge := None\<rparr>"

definition note_transaction :: "nat \<Rightarrow> detector \<Rightarrow> detector" where
  "note_transaction n d =
     (if n = dt_transaction d then d
      else d\<lparr>dt_transaction := n, dt_fired_in_transaction := False, dt_edit_streak := 0, dt_last_refusal := None,
             dt_last_nudge := None\<rparr>)"

definition in_window :: "int \<Rightarrow> detector \<Rightarrow> iteration_record list" where
  "in_window i d = filter (\<lambda>r. ir_iteration r > i - int (lim_window (dt_limits d))) (dt_history d)"

definition signals_at :: "int \<Rightarrow> detector \<Rightarrow> struggle_signals" where
  "signals_at i d =
     (let window = in_window i d;
          current_rate = rate (sum_list (map ir_hedging window)) (sum_list (map ir_words window))
      in \<lparr>sg_iteration = i, sg_failed_calls = sum_list (map ir_failed_calls window),
          sg_distress = sum_list (map ir_distress window),
          sg_hedging_ratio = (case (dt_baseline d, current_rate) of
             (Some b, Some c) \<Rightarrow> if b > 0 then Some (double (c / b)) else None
           | _ \<Rightarrow> None)\<rparr>)"

definition reason_name :: "struggle_reason \<Rightarrow> jtext" where
  "reason_name r = (case r of Failures \<Rightarrow> js ''failures'' | Edit_Streak \<Rightarrow> js ''edit-streak''
     | Transactions_Lost \<Rightarrow> js ''transactions'')"

definition nudge_once ::
    "struggle_reason \<Rightarrow> jtext \<Rightarrow> jtext \<Rightarrow> struggle_signals option \<Rightarrow> detector \<Rightarrow> detector \<times> struggle_verdict" where
  "nudge_once reason key message signals d =
     (let full = reason_name reason @ 58 # key
      in if dt_last_nudge d = Some full then (d, Quiet)
         else (d\<lparr>dt_last_nudge := Some full\<rparr>, Nudge reason message signals (dt_changed d)))"

definition nudge_at_count :: "struggle_signals \<Rightarrow> detector \<Rightarrow> detector \<times> struggle_verdict" where
  "nudge_at_count signals d =
     (if lim_failed_calls (dt_limits d) \<le> 1 \<or> sg_failed_calls signals < lim_failed_calls (dt_limits d) - 1 then (d, Quiet)
      else nudge_once Failures (102 # decimal (sg_failed_calls signals)) (describe_struggle signals (dt_limits d))
             (Some signals) d)"

definition edit_streak_verdict :: "detector \<Rightarrow> detector \<times> struggle_verdict" where
  "edit_streak_verdict d =
     (if dt_edit_streak d < lim_edit_streak (dt_limits d) \<or> dt_edit_streak d mod lim_edit_streak (dt_limits d) \<noteq> 0
      then (d, Quiet)
      else nudge_once Edit_Streak (101 # decimal (dt_edit_streak d))
             (describe_edit_streak (dt_edit_streak d) (dt_last_refusal d)) None d)"

definition thrown_away :: "detector \<Rightarrow> nat" where
  "thrown_away d = dt_discarded d + dt_empty d"

definition thrown_away_verdict :: "detector \<Rightarrow> detector \<times> struggle_verdict" where
  "thrown_away_verdict d =
     (if thrown_away d < lim_failed_transactions (dt_limits d) \<or>
         thrown_away d mod lim_failed_transactions (dt_limits d) \<noteq> 0
      then (d, Quiet)
      else nudge_once Transactions_Lost (116 # decimal (thrown_away d))
             (describe_failed_transactions (thrown_away d) (dt_discarded d) (dt_empty d)) None d)"

definition diagnosis_key :: "bool \<Rightarrow> bool \<Rightarrow> detector \<Rightarrow> jtext" where
  "diagnosis_key lexical no_decay d =
     (if lexical then js ''d'' else []) @ (if no_decay then js ''h'' else []) @ 124 # join_with [0] (sort (dt_changed d))"

text \<open>The last part of \<open>inspect\<close>: the offer.\<close>

definition inspect_window :: "int \<Rightarrow> detector \<Rightarrow> detector \<times> struggle_verdict" where
  "inspect_window i d =
     (let signals = signals_at i d;
          lexical = (sg_distress signals \<ge> lim_distress_hits (dt_limits d));
          no_decay = (case sg_hedging_ratio signals of Some r \<Rightarrow> r \<ge> 1 | None \<Rightarrow> False);
          key = diagnosis_key lexical no_decay d
      in if sg_failed_calls signals < lim_failed_calls (dt_limits d) \<or> dt_fired_in_task d \<ge> lim_max_per_task (dt_limits d)
         then nudge_at_count signals d
         else if \<not> lexical \<and> \<not> no_decay then nudge_at_count signals d
         else if Some key = dt_last_fired d then nudge_at_count signals d
         else (d\<lparr>dt_last_fired := Some key, dt_fired_in_transaction := True, dt_fired_in_task := Suc (dt_fired_in_task d)\<rparr>,
               Suggest (describe_struggle signals (dt_limits d)) signals))"

definition inspect_struggle :: "int \<Rightarrow> detector \<Rightarrow> detector \<times> struggle_verdict" where
  "inspect_struggle i d =
     (if dt_fired_in_transaction d then (d, Quiet)
      else case edit_streak_verdict d of
        (d1, Quiet) \<Rightarrow>
          (case thrown_away_verdict d1 of
             (d2, Quiet) \<Rightarrow> if i < int (lim_min_iteration (dt_limits d2)) then (d2, Quiet) else inspect_window i d2
           | told \<Rightarrow> told)
      | told \<Rightarrow> told)"

section \<open>The feed\<close>

definition STRUGGLE_CHANGING_TOOLS :: "jtext list" where
  "STRUGGLE_CHANGING_TOOLS = [js ''editor'', js ''apply_patch'', js ''restore_file'']"

definition EDITOR_FILE_PATH_ARG :: jtext where
  "EDITOR_FILE_PATH_ARG = js ''file_path''"

definition editor_file_path :: "json \<Rightarrow> jtext option" where
  "editor_file_path input =
     (case json_member input EDITOR_FILE_PATH_ARG of
        Some (JStr (c # cs)) \<Rightarrow> Some (c # cs)
      | _ \<Rightarrow> (case json_member input (js ''path'') of Some (JStr (c # cs)) \<Rightarrow> Some (c # cs) | _ \<Rightarrow> None))"

text \<open>The events the feed reads; any other is \<open>Other_Event\<close>.\<close>

datatype agent_event =
    Iteration_Started int
  | Tool_Started "jtext option" json
  | Reasoning_Ended "jtext option" "jtext option"
  | Text_Ended "jtext option"
  | Tool_Ended "jtext option" "jtext option" json
  | Iteration_Ended int
  | Other_Event

record struggle_feed =
  fd_detector :: detector
  fd_iteration :: int
  fd_saw_reasoning :: bool

definition new_feed :: "detector \<Rightarrow> struggle_feed" where
  "new_feed d = \<lparr>fd_detector = d, fd_iteration = 0, fd_saw_reasoning = False\<rparr>"

definition inspected :: "int \<Rightarrow> detector \<Rightarrow> struggle_feed \<Rightarrow> struggle_feed \<times> struggle_verdict" where
  "inspected i d f = (case inspect_struggle i d of (d', v) \<Rightarrow> (f\<lparr>fd_detector := d'\<rparr>, v))"

text \<open>\<open>observe\<close>; what is published is the verdict, unless it is \<open>Quiet\<close>.\<close>

definition observe :: "(jtext \<Rightarrow> jtext) \<Rightarrow> agent_event \<Rightarrow> struggle_feed \<Rightarrow> struggle_feed \<times> struggle_verdict" where
  "observe num e f =
     (case e of
        Iteration_Started i \<Rightarrow> (f\<lparr>fd_iteration := i\<rparr>, Quiet)
      | Tool_Started name input \<Rightarrow>
          (case (name, editor_file_path input) of
             (Some n, Some p) \<Rightarrow>
               if n \<in> set STRUGGLE_CHANGING_TOOLS then (f\<lparr>fd_detector := note_file_changed p (fd_detector f)\<rparr>, Quiet) else (f, Quiet)
           | _ \<Rightarrow> (f, Quiet))
      | Reasoning_Ended reasoning shown \<Rightarrow>
          (let t = (case reasoning of Some r \<Rightarrow> r | None \<Rightarrow> opt_default [] shown);
               f' = f\<lparr>fd_saw_reasoning := (fd_saw_reasoning f \<or> trim t \<noteq> [])\<rparr>
           in inspected (fd_iteration f) (note_turn (fd_iteration f) (Some t) (fd_detector f)) f')
      | Text_Ended shown \<Rightarrow>
          if fd_saw_reasoning f then (f, Quiet)
          else inspected (fd_iteration f) (note_turn (fd_iteration f) (Some (opt_default [] shown)) (fd_detector f)) f
      | Tool_Ended name err output \<Rightarrow>
          (let refusal = (case err of Some t \<Rightarrow> Some t | None \<Rightarrow> refusal_in num output)
           in inspected (fd_iteration f)
                (note_tool_outcome (fd_iteration f) (refusal \<noteq> None) name refusal (fd_detector f)) f)
      | Iteration_Ended i \<Rightarrow> inspected i (fd_detector f) f
      | Other_Event \<Rightarrow> (f, Quiet))"

end
