(* ===== verification/StruggleRuns.thy ===== *)
theory StruggleRuns
  imports Struggle
begin

text \<open>
  What the struggle detector says over a run: how often it offers, what an offer rests on, and how it repeats itself.
\<close>

section \<open>Runs\<close>

text \<open>The detector's operations as calls; a run keeps what each inspection answered.\<close>

datatype struggle_call =
    Turn_Noted int "jtext option"
  | Outcome_Noted int bool "jtext option" "jtext option"
  | Attempt_Noted transaction_end
  | Compacted
  | Transaction_Opened nat
  | File_Noted jtext
  | Inspected int

fun struggle_step :: "struggle_call \<Rightarrow> detector \<times> struggle_verdict list \<Rightarrow> detector \<times> struggle_verdict list" where
  "struggle_step (Turn_Noted i r) (d, told) = (note_turn i r d, told)"
| "struggle_step (Outcome_Noted i failed tool refusal) (d, told) = (note_tool_outcome i failed tool refusal d, told)"
| "struggle_step (Attempt_Noted e) (d, told) = (note_transaction_outcome e d, told)"
| "struggle_step Compacted (d, told) = (note_compacted d, told)"
| "struggle_step (Transaction_Opened n) (d, told) = (note_transaction n d, told)"
| "struggle_step (File_Noted p) (d, told) = (note_file_changed p d, told)"
| "struggle_step (Inspected i) (d, told) = (case inspect_struggle i d of (d', v) \<Rightarrow> (d', told @ [v]))"

definition struggle_run :: "struggle_thresholds \<Rightarrow> struggle_call list \<Rightarrow> detector \<times> struggle_verdict list" where
  "struggle_run given cs = fold struggle_step cs (new_detector given, [])"

fun is_offer :: "struggle_verdict \<Rightarrow> bool" where
  "is_offer (Suggest m s) = True"
| "is_offer v = False"

section \<open>What each operation leaves alone\<close>

lemma record_for_fields [simp]:
  "dt_limits (record_for i d) = dt_limits d" "dt_fired_in_task (record_for i d) = dt_fired_in_task d"
  "dt_fired_in_transaction (record_for i d) = dt_fired_in_transaction d"
  "dt_transaction (record_for i d) = dt_transaction d"
  by (simp_all add: record_for_def Let_def)

lemma change_last_fields [simp]:
  "dt_limits (change_last f d) = dt_limits d" "dt_fired_in_task (change_last f d) = dt_fired_in_task d"
  "dt_fired_in_transaction (change_last f d) = dt_fired_in_transaction d"
  "dt_transaction (change_last f d) = dt_transaction d"
  by (simp_all add: change_last_def)

lemma absorb_baseline_fields [simp]:
  "dt_limits (absorb_baseline i d) = dt_limits d" "dt_fired_in_task (absorb_baseline i d) = dt_fired_in_task d"
  "dt_fired_in_transaction (absorb_baseline i d) = dt_fired_in_transaction d"
  "dt_history (absorb_baseline i d) = dt_history d" "dt_transaction (absorb_baseline i d) = dt_transaction d"
  by (simp_all add: absorb_baseline_def Let_def)

lemma note_turn_fields [simp]:
  "dt_limits (note_turn i r d) = dt_limits d" "dt_fired_in_task (note_turn i r d) = dt_fired_in_task d"
  "dt_fired_in_transaction (note_turn i r d) = dt_fired_in_transaction d"
  "dt_transaction (note_turn i r d) = dt_transaction d"
  by (simp_all add: note_turn_def Let_def)

lemma note_outcome_fields [simp]:
  "dt_limits (note_tool_outcome i failed tool refusal d) = dt_limits d"
  "dt_fired_in_task (note_tool_outcome i failed tool refusal d) = dt_fired_in_task d"
  "dt_fired_in_transaction (note_tool_outcome i failed tool refusal d) = dt_fired_in_transaction d"
  "dt_transaction (note_tool_outcome i failed tool refusal d) = dt_transaction d"
  by (auto simp: note_tool_outcome_def Let_def split: option.split)

lemma note_attempt_fields [simp]:
  "dt_limits (note_transaction_outcome e d) = dt_limits d" "dt_history (note_transaction_outcome e d) = dt_history d"
  "dt_fired_in_task (note_transaction_outcome e d) = dt_fired_in_task d"
  "dt_fired_in_transaction (note_transaction_outcome e d) = dt_fired_in_transaction d"
  "dt_transaction (note_transaction_outcome e d) = dt_transaction d"
  by (auto simp: note_transaction_outcome_def split: transaction_end.split)

lemma note_others_fields [simp]:
  "dt_limits (note_compacted d) = dt_limits d" "dt_fired_in_task (note_compacted d) = dt_fired_in_task d"
  "dt_fired_in_transaction (note_compacted d) = dt_fired_in_transaction d" "dt_history (note_compacted d) = []"
  "dt_transaction (note_compacted d) = dt_transaction d"
  "dt_limits (note_transaction n d) = dt_limits d" "dt_fired_in_task (note_transaction n d) = dt_fired_in_task d"
  "dt_history (note_transaction n d) = dt_history d"
  "dt_limits (note_file_changed p d) = dt_limits d" "dt_fired_in_task (note_file_changed p d) = dt_fired_in_task d"
  "dt_history (note_file_changed p d) = dt_history d"
  "dt_fired_in_transaction (note_file_changed p d) = dt_fired_in_transaction d"
  "dt_transaction (note_file_changed p d) = dt_transaction d"
  by (simp_all add: note_compacted_def note_transaction_def note_file_changed_def)

text \<open>Two detectors that differ only in what was last said.\<close>

definition said_only :: "detector \<Rightarrow> detector \<Rightarrow> bool" where
  "said_only d d' = (\<exists>x. d' = d\<lparr>dt_last_nudge := x\<rparr>)"

lemma said_only_refl: "said_only d d"
  unfolding said_only_def by (rule exI [of _ "dt_last_nudge d"]) simp

lemma said_only_trans: "said_only a b \<Longrightarrow> said_only b c \<Longrightarrow> said_only a c"
  by (auto simp: said_only_def)

lemma nudge_once_said: "nudge_once r k m s d = (d', v) \<Longrightarrow> said_only d d' \<and> \<not> is_offer v"
  using said_only_refl [of d] by (auto simp: nudge_once_def said_only_def Let_def split: if_splits)

lemma verdicts_said:
  "edit_streak_verdict d = (d', v) \<Longrightarrow> said_only d d' \<and> \<not> is_offer v"
  "thrown_away_verdict d = (d', v) \<Longrightarrow> said_only d d' \<and> \<not> is_offer v"
  "nudge_at_count s d = (d', v) \<Longrightarrow> said_only d d' \<and> \<not> is_offer v"
  using said_only_refl
  by (auto simp: edit_streak_verdict_def thrown_away_verdict_def nudge_at_count_def split: if_splits dest: nudge_once_said)

lemma said_only_fields:
  "said_only d d' \<Longrightarrow> dt_limits d' = dt_limits d \<and> dt_history d' = dt_history d \<and>
   dt_fired_in_task d' = dt_fired_in_task d \<and> dt_fired_in_transaction d' = dt_fired_in_transaction d \<and>
   dt_transaction d' = dt_transaction d \<and> signals_at i d' = signals_at i d"
  by (auto simp: said_only_def signals_at_def in_window_def)

text \<open>An inspection that offers has passed every test; any other only changes what was said last.\<close>

lemma inspect_window_cases:
  assumes "inspect_window i d = (d', v)"
  obtains
    (offer) "v = Suggest (describe_struggle (signals_at i d) (dt_limits d)) (signals_at i d)"
      "lim_failed_calls (dt_limits d) \<le> sg_failed_calls (signals_at i d)"
      "dt_fired_in_task d < lim_max_per_task (dt_limits d)"
      "sg_distress (signals_at i d) \<ge> lim_distress_hits (dt_limits d) \<or>
       (\<exists>r. sg_hedging_ratio (signals_at i d) = Some r \<and> r \<ge> 1)"
      "dt_fired_in_task d' = Suc (dt_fired_in_task d)" "dt_fired_in_transaction d'" "dt_limits d' = dt_limits d"
      "dt_history d' = dt_history d" "dt_transaction d' = dt_transaction d"
  | (other) "\<not> is_offer v" "said_only d d'"
proof -
  let ?s = "signals_at i d"
  let ?l = "sg_distress ?s \<ge> lim_distress_hits (dt_limits d)"
  let ?n = "case sg_hedging_ratio ?s of Some r \<Rightarrow> r \<ge> 1 | None \<Rightarrow> False"
  let ?quiet = "sg_failed_calls ?s < lim_failed_calls (dt_limits d) \<or> dt_fired_in_task d \<ge> lim_max_per_task (dt_limits d) \<or>
     \<not> ?l \<and> \<not> ?n \<or> Some (diagnosis_key ?l ?n d) = dt_last_fired d"
  show thesis
  proof (cases ?quiet)
    case True
    then have "nudge_at_count ?s d = (d', v)"
      using assms by (simp add: inspect_window_def Let_def split: if_splits)
    then show thesis using other verdicts_said(3) by blast
  next
    case False
    then have "v = Suggest (describe_struggle ?s (dt_limits d)) ?s"
      "d' = d\<lparr>dt_last_fired := Some (diagnosis_key ?l ?n d), dt_fired_in_transaction := True,
             dt_fired_in_task := Suc (dt_fired_in_task d)\<rparr>"
      using assms by (auto simp: inspect_window_def Let_def split: if_splits)
    with False show thesis by (intro offer) (auto split: option.splits)
  qed
qed

lemma inspect_cases:
  assumes "inspect_struggle i d = (d', v)"
  obtains
    (offer) "v = Suggest (describe_struggle (signals_at i d) (dt_limits d)) (signals_at i d)"
      "\<not> dt_fired_in_transaction d" "int (lim_min_iteration (dt_limits d)) \<le> i"
      "lim_failed_calls (dt_limits d) \<le> sg_failed_calls (signals_at i d)"
      "dt_fired_in_task d < lim_max_per_task (dt_limits d)"
      "sg_distress (signals_at i d) \<ge> lim_distress_hits (dt_limits d) \<or>
       (\<exists>r. sg_hedging_ratio (signals_at i d) = Some r \<and> r \<ge> 1)"
      "dt_fired_in_task d' = Suc (dt_fired_in_task d)" "dt_fired_in_transaction d'" "dt_limits d' = dt_limits d"
      "dt_history d' = dt_history d" "dt_transaction d' = dt_transaction d"
  | (other) "\<not> is_offer v" "said_only d d'"
proof (cases "dt_fired_in_transaction d")
  case True
  then show thesis using assms other said_only_refl by (auto simp: inspect_struggle_def)
next
  case False
  obtain d1 v1 where e: "edit_streak_verdict d = (d1, v1)" by fastforce
  obtain d2 v2 where t: "thrown_away_verdict d1 = (d2, v2)" by fastforce
  note said = verdicts_said(1) [OF e] verdicts_said(2) [OF t]
  show thesis
  proof (cases "v1 = Quiet \<and> v2 = Quiet \<and> \<not> i < int (lim_min_iteration (dt_limits d2))")
    case True
    then have w: "inspect_window i d2 = (d', v)" using assms False e t by (simp add: inspect_struggle_def)
    have d2: "said_only d d2" using said said_only_trans by blast
    note f = said_only_fields [OF d2]
    show thesis
      using w
    proof (rule inspect_window_cases)
      assume "\<not> is_offer v" "said_only d2 d'"
      then show thesis using other d2 said_only_trans by blast
    qed (use True f False in \<open>auto intro!: offer\<close>)
  next
    case other_cases: False
    then have "(d' = d1 \<and> v = v1) \<or> (d' = d2 \<and> (v = v2 \<or> v = Quiet))"
      using assms False e t by (auto simp: inspect_struggle_def split: struggle_verdict.splits if_splits)
    then show thesis using other said said_only_trans by (metis is_offer.simps(2))
  qed
qed

section \<open>How often it offers\<close>

definition offers_ok :: "struggle_thresholds \<Rightarrow> detector \<times> struggle_verdict list \<Rightarrow> bool" where
  "offers_ok given x = (case x of (d, told) \<Rightarrow>
     dt_limits d = resolve_struggle_thresholds given \<and> length (filter is_offer told) = dt_fired_in_task d \<and>
     dt_fired_in_task d \<le> lim_max_per_task (dt_limits d))"

lemma offers_step: "offers_ok given x \<Longrightarrow> offers_ok given (struggle_step c x)"
proof (cases "(c, x)" rule: struggle_step.cases)
  case (7 i d told)
  assume "offers_ok given x"
  moreover obtain d' v where v: "inspect_struggle i d = (d', v)" by fastforce
  ultimately show ?thesis
    using 7 by (auto simp: offers_ok_def elim!: inspect_cases dest: said_only_fields)
qed (auto simp: offers_ok_def)

interpretation struggle_machine: invariant_machine struggle_step "offers_ok given" for given
  by unfold_locales (rule offers_step)

lemma new_detector_limits [simp]:
  "dt_limits (new_detector given) = resolve_struggle_thresholds given" "dt_fired_in_task (new_detector given) = 0"
  "dt_history (new_detector given) = []"
  by (simp_all add: new_detector_def)

text \<open>C38: A run never offers help more often than its task allows.\<close>

theorem offers_bounded:
  "length (filter is_offer (snd (struggle_run given cs))) \<le> lim_max_per_task (resolve_struggle_thresholds given)"
  using struggle_machine.run_inv [of given "(new_detector given, [])" cs]
  by (auto simp: struggle_run_def offers_ok_def split: prod.splits)

text \<open>Once it has offered, it is silent until another transaction opens.\<close>

fun opens_other :: "nat \<Rightarrow> struggle_call \<Rightarrow> bool" where
  "opens_other n (Transaction_Opened m) = (m \<noteq> n)"
| "opens_other n c = False"

lemma silent_after_offer:
  assumes "dt_fired_in_transaction d" "list_all (\<lambda>c. \<not> opens_other (dt_transaction d) c) cs"
  shows "\<exists>d' k. fold struggle_step cs (d, told) = (d', told @ replicate k Quiet)"
  using assms
proof (induction cs arbitrary: d told)
  case Nil
  then show ?case by (auto intro: exI [of _ 0])
next
  case (Cons c cs)
  have "\<exists>d1 k1. struggle_step c (d, told) = (d1, told @ replicate k1 Quiet) \<and> dt_fired_in_transaction d1 \<and>
      dt_transaction d1 = dt_transaction d"
  proof (cases c)
    case (Inspected i)
    then show ?thesis using Cons.prems(1) by (auto simp: inspect_struggle_def intro: exI [of _ 1])
  qed (use Cons.prems in \<open>auto simp: note_transaction_def intro: exI [of _ 0]\<close>)
  then obtain d1 k1 where step: "struggle_step c (d, told) = (d1, told @ replicate k1 Quiet)"
    "dt_fired_in_transaction d1" "dt_transaction d1 = dt_transaction d" by blast
  with Cons.IH [of d1 "told @ replicate k1 Quiet"] Cons.prems(2) obtain d' k where
    "fold struggle_step cs (d1, told @ replicate k1 Quiet) = (d', (told @ replicate k1 Quiet) @ replicate k Quiet)"
    by auto
  then show ?case using step(1) by (auto simp: replicate_add [symmetric])
qed

section \<open>What it counts\<close>

text \<open>What a call adds, as a record of its own.\<close>

fun contribution :: "struggle_call \<Rightarrow> iteration_record list" where
  "contribution (Turn_Noted i r) =
     (let t = opt_default [] r
      in [\<lparr>ir_iteration = i, ir_failed_calls = 0, ir_distress = (if t = [] then 0 else count_hits t DISTRESS False),
           ir_hedging = (if t = [] then 0 else count_hits t HEDGING True), ir_words = (if t = [] then 0 else word_count t)\<rparr>])"
| "contribution (Outcome_Noted i failed tool refusal) =
     [\<lparr>ir_iteration = i, ir_failed_calls = of_bool failed, ir_distress = 0, ir_hedging = 0, ir_words = 0\<rparr>]"
| "contribution c = []"

text \<open>All that was added since the context was last compacted.\<close>

fun evidence_step :: "struggle_call \<Rightarrow> iteration_record list \<Rightarrow> iteration_record list" where
  "evidence_step Compacted ev = []"
| "evidence_step c ev = ev @ contribution c"

definition evidence :: "struggle_call list \<Rightarrow> iteration_record list" where
  "evidence cs = fold evidence_step cs []"

definition sum_after :: "(iteration_record \<Rightarrow> nat) \<Rightarrow> int \<Rightarrow> iteration_record list \<Rightarrow> nat" where
  "sum_after g b rs = sum_list (map g (filter (\<lambda>r. ir_iteration r > b) rs))"

lemma sum_after_append [simp]: "sum_after g b (rs @ rs') = sum_after g b rs + sum_after g b rs'"
  by (simp add: sum_after_def)

lemma sum_after_simps [simp]:
  "sum_after g b [] = 0" "sum_after g b (r # rs) = (if ir_iteration r > b then g r else 0) + sum_after g b rs"
  by (simp_all add: sum_after_def)

definition COUNTS :: "(iteration_record \<Rightarrow> nat) set" where
  "COUNTS = {ir_failed_calls, ir_distress, ir_hedging, ir_words}"

text \<open>The history holds all that a window ending at \<open>cur\<close> or later can see.\<close>

definition tracks :: "detector \<Rightarrow> iteration_record list \<Rightarrow> int \<Rightarrow> bool" where
  "tracks d ev cur =
     (length (dt_history d) \<le> 2 * lim_window (dt_limits d) \<and> sorted_wrt (<) (map ir_iteration (dt_history d)) \<and>
      (\<forall>r\<in>set (dt_history d). ir_iteration r \<le> cur) \<and>
      (\<forall>g\<in>COUNTS. \<forall>b. b \<ge> cur - 2 * int (lim_window (dt_limits d)) \<longrightarrow>
         sum_after g b (dt_history d) = sum_after g b ev))"

lemma tracks_later: "tracks d ev cur \<Longrightarrow> cur \<le> i \<Longrightarrow> tracks d ev i"
  by (fastforce simp: tracks_def)

lemma sorted_gap: "sorted_wrt (<) (xs @ [x :: int]) \<Longrightarrow> j < length xs \<Longrightarrow> xs ! j \<le> x - int (length xs - j)"
proof (induction xs arbitrary: j)
  case (Cons y ys)
  show ?case
  proof (cases j)
    case 0
    show ?thesis
    proof (cases ys)
      case Nil
      then show ?thesis using 0 Cons.prems by simp
    next
      case (Cons z zs)
      then have "ys ! 0 \<le> x - int (length ys)" using Cons.IH [of 0] Cons.prems(1) by simp
      moreover have "y < ys ! 0" using Cons Cons.prems(1) by simp
      ultimately show ?thesis using 0 by simp
    qed
  next
    case (Suc k)
    then show ?thesis using Cons.IH [of k] Cons.prems by simp
  qed
qed simp

lemma sum_after_zero: "(\<And>r. r \<in> set rs \<Longrightarrow> ir_iteration r \<le> b) \<Longrightarrow> sum_after g b rs = 0"
  by (simp add: sum_after_def filter_False leD)

lemma record_for_tracks:
  assumes "tracks d ev i" "0 < lim_window (dt_limits d)"
  shows "tracks (record_for i d) ev i \<and> dt_history (record_for i d) \<noteq> [] \<and> ir_iteration (last (dt_history (record_for i d))) = i"
proof (cases "dt_history d \<noteq> [] \<and> ir_iteration (last (dt_history d)) = i")
  case True
  then show ?thesis using assms(1) by (simp add: record_for_def)
next
  case False
  let ?h = "dt_history d" and ?w = "lim_window (dt_limits d)"
  let ?r = "\<lparr>ir_iteration = i, ir_failed_calls = 0, ir_distress = 0, ir_hedging = 0, ir_words = 0\<rparr>"
  let ?n = "Suc (length ?h) - 2 * ?w"
  have h: "dt_history (record_for i d) = drop ?n ?h @ [?r]"
    using False assms by (auto simp: record_for_def Let_def tracks_def)
  have before: "ir_iteration r < i" if r: "r \<in> set ?h" for r
  proof -
    obtain hs x where h: "?h = hs @ [x]" using r by (cases "dt_history d" rule: rev_cases) auto
    then have "ir_iteration r \<le> ir_iteration (last ?h)"
      using that assms(1) by (auto simp: tracks_def sorted_wrt_append less_imp_le)
    moreover have "ir_iteration (last ?h) \<le> i" using assms(1) h by (auto simp: tracks_def)
    ultimately show ?thesis using False that by fastforce
  qed
  have sorted: "sorted_wrt (<) (map ir_iteration ?h @ [i])"
    using assms(1) before by (auto simp: tracks_def sorted_wrt_append)
  have dropped: "ir_iteration r \<le> i - 2 * int ?w" if r: "r \<in> set (take ?n ?h)" for r
  proof -
    obtain j where j: "j < ?n" "j < length ?h" "r = ?h ! j" using r by (auto simp: in_set_conv_nth)
    then have "ir_iteration r \<le> i - int (length ?h - j)" using sorted_gap [OF sorted, of j] by simp
    moreover have "2 * ?w \<le> length ?h - j" using j by linarith
    ultimately show ?thesis by linarith
  qed
  have "sum_after g b ?h = sum_after g b (drop ?n ?h)" if "b \<ge> i - 2 * int ?w" for g b
    using sum_after_zero [of "take ?n ?h" b g] dropped that sum_after_append [of g b "take ?n ?h" "drop ?n ?h"]
    by fastforce
  moreover have "sorted_wrt (<) (map ir_iteration (drop ?n ?h @ [?r]))"
  proof -
    have m: "map ir_iteration (drop ?n ?h @ [?r]) = drop ?n (map ir_iteration ?h @ [i])"
      using assms(2) by (simp add: drop_map)
    show ?thesis by (subst m) (rule sorted_wrt_drop [OF sorted])
  qed
  ultimately show ?thesis
    using assms h before by (auto simp: tracks_def COUNTS_def less_imp_le dest: in_set_dropD)
qed

lemma change_last_tracks:
  assumes "tracks d ev i" "dt_history d \<noteq> []" "ir_iteration (last (dt_history d)) = i"
    "\<And>x. ir_iteration (f x) = ir_iteration x" "\<And>g x. g \<in> COUNTS \<Longrightarrow> g (f x) = g x + g r" "ir_iteration r = i"
  shows "tracks (change_last f d) (ev @ [r]) i"
proof -
  obtain hs x where h: "dt_history d = hs @ [x]" using assms(2) by (metis append_butlast_last_id)
  then have c: "dt_history (change_last f d) = hs @ [f x]" by (simp add: change_last_def)
  have "ir_iteration x = i" using assms(3) h by simp
  then have "sum_after g b (hs @ [f x]) = sum_after g b (ev @ [r])"
    if "g \<in> COUNTS" "b \<ge> i - 2 * int (lim_window (dt_limits d))" for g b
  proof -
    have "sum_after g b (hs @ [x]) = sum_after g b ev" using assms(1) h that by (simp add: tracks_def)
    then show ?thesis using assms(4,6) assms(5) [OF that(1), of x] \<open>ir_iteration x = i\<close> by auto
  qed
  then show ?thesis using assms(1,4) h c by (auto simp: tracks_def)
qed

lemma note_outcome_tracks:
  assumes "tracks d ev i" "0 < lim_window (dt_limits d)"
  shows "tracks (note_tool_outcome i failed tool refusal d) (ev @ contribution (Outcome_Noted i failed tool refusal)) i"
proof -
  obtain d1 where n: "note_tool_outcome i failed tool refusal d =
      (if \<not> failed then record_for i d1 else change_last (\<lambda>r. r\<lparr>ir_failed_calls := Suc (ir_failed_calls r)\<rparr>) (record_for i d1))"
    and d1: "dt_history d1 = dt_history d" "dt_limits d1 = dt_limits d"
    by (rule that [of "case tool of
                 Some t \<Rightarrow> if t \<in> set EDIT_TOOLS
                           then (if failed then d\<lparr>dt_edit_streak := Suc (dt_edit_streak d), dt_last_refusal := refusal\<rparr>
                                 else d\<lparr>dt_edit_streak := 0, dt_last_refusal := None\<rparr>)
                           else d
               | None \<Rightarrow> d"]) (auto simp: note_tool_outcome_def Let_def split: option.split)
  have "tracks d1 ev i" using assms(1) d1 by (simp add: tracks_def)
  note here = record_for_tracks [OF this] assms(2) d1(2)
  let ?c = "\<lparr>ir_iteration = i, ir_failed_calls = of_bool failed, ir_distress = 0, ir_hedging = 0, ir_words = 0\<rparr>"
  show ?thesis
  proof (cases failed)
    case True
    have "tracks (change_last (\<lambda>r. r\<lparr>ir_failed_calls := Suc (ir_failed_calls r)\<rparr>) (record_for i d1)) (ev @ [?c]) i"
      by (rule change_last_tracks) (use here True in \<open>auto simp: COUNTS_def\<close>)
    then show ?thesis using True n by simp
  next
    case False
    have e: "note_tool_outcome i failed tool refusal d = record_for i d1" using n False by simp
    show ?thesis unfolding e using here False by (auto simp: tracks_def COUNTS_def)
  qed
qed

lemma note_turn_tracks:
  assumes "tracks d ev i" "0 < lim_window (dt_limits d)"
  shows "tracks (note_turn i r d) (ev @ contribution (Turn_Noted i r)) i"
proof (cases "opt_default [] r = []")
  case True
  then show ?thesis
    using record_for_tracks [OF assms] by (auto simp: note_turn_def tracks_def COUNTS_def)
next
  case False
  let ?t = "opt_default [] r"
  let ?c = "\<lparr>ir_iteration = i, ir_failed_calls = 0, ir_distress = count_hits ?t DISTRESS False,
     ir_hedging = count_hits ?t HEDGING True, ir_words = word_count ?t\<rparr>"
  let ?f = "\<lambda>x. x\<lparr>ir_distress := ir_distress x + count_hits ?t DISTRESS False,
     ir_hedging := ir_hedging x + count_hits ?t HEDGING True, ir_words := ir_words x + word_count ?t\<rparr>"
  have "tracks (change_last ?f (record_for i d)) (ev @ [?c]) i"
    using record_for_tracks [OF assms] by (intro change_last_tracks) (auto simp: COUNTS_def)
  then show ?thesis using False by (simp add: note_turn_def Let_def tracks_def)
qed

fun call_iteration :: "struggle_call \<Rightarrow> int option" where
  "call_iteration (Turn_Noted i r) = Some i"
| "call_iteration (Outcome_Noted i failed tool refusal) = Some i"
| "call_iteration (Inspected i) = Some i"
| "call_iteration c = None"

text \<open>The iterations of a run never go back, and end at or before \<open>cur\<close>.\<close>

definition in_order :: "struggle_call list \<Rightarrow> int \<Rightarrow> bool" where
  "in_order cs cur = sorted (concat (map (\<lambda>c. case call_iteration c of Some i \<Rightarrow> [i] | None \<Rightarrow> []) cs) @ [cur])"

lemma in_order_snoc:
  "in_order (cs @ [c]) cur \<longleftrightarrow>
   (case call_iteration c of Some i \<Rightarrow> in_order cs i \<and> i \<le> cur | None \<Rightarrow> in_order cs cur)"
  by (fastforce simp: in_order_def sorted_append split: option.split)

lemma run_tracks:
  assumes "0 < lim_window (resolve_struggle_thresholds given)" "in_order cs cur"
  shows "tracks (fst (struggle_run given cs)) (evidence cs) cur \<and>
    dt_limits (fst (struggle_run given cs)) = resolve_struggle_thresholds given"
  using assms(2)
proof (induction cs arbitrary: cur rule: rev_induct)
  case Nil
  then show ?case by (simp add: struggle_run_def evidence_def tracks_def)
next
  case (snoc c cs)
  obtain d told where run: "struggle_run given cs = (d, told)" by fastforce
  have ev: "evidence (cs @ [c]) = evidence_step c (evidence cs)" by (simp add: evidence_def)
  have again: "struggle_run given (cs @ [c]) = struggle_step c (d, told)" using run by (simp add: struggle_run_def)
  show ?case
  proof (cases "call_iteration c")
    case None
    then have "tracks d (evidence cs) cur" "dt_limits d = resolve_struggle_thresholds given"
      using snoc run by (simp_all add: in_order_snoc)
    then show ?thesis unfolding ev again using None by (cases c) (auto simp: tracks_def)
  next
    case (Some i)
    then have i: "in_order cs i" "i \<le> cur" using snoc.prems by (simp_all add: in_order_snoc)
    have d: "tracks d (evidence cs) i" "dt_limits d = resolve_struggle_thresholds given" using snoc.IH [OF i(1)] run by simp_all
    have w: "0 < lim_window (dt_limits d)" using assms(1) d(2) by simp
    have "tracks (fst (struggle_step c (d, told))) (evidence_step c (evidence cs)) i"
    proof (cases c)
      case (Inspected j)
      obtain d' v where v: "inspect_struggle j d = (d', v)" by fastforce
      have "dt_history d' = dt_history d \<and> dt_limits d' = dt_limits d"
        using v by (rule inspect_cases) (auto dest: said_only_fields)
      then show ?thesis using d(1) v Inspected by (simp add: tracks_def)
    qed (use Some d w note_turn_tracks note_outcome_tracks in auto)
    moreover have "dt_limits (fst (struggle_step c (d, told))) = dt_limits d"
      by (cases c) (auto split: prod.split elim!: inspect_cases dest: said_only_fields)
    ultimately show ?thesis unfolding ev again using tracks_later i(2) d(2) by metis
  qed
qed

lemma limits_positive:
  "0 < lim_window (resolve_struggle_thresholds given)" "0 < lim_edit_streak (resolve_struggle_thresholds given)"
  "0 < lim_failed_transactions (resolve_struggle_thresholds given)"
proof -
  have "0 < positive x n" if "0 < n" for x n
  proof -
    have "0 < fst (quotient_of q)" if "snd (quotient_of q) = 1" "q > 0" for q
      using that by (cases "quotient_of q") (auto dest: quotient_of_div)
    then show ?thesis using that by (auto simp: positive_def split: option.split)
  qed
  then show "0 < lim_window (resolve_struggle_thresholds given)" "0 < lim_edit_streak (resolve_struggle_thresholds given)"
    "0 < lim_failed_transactions (resolve_struggle_thresholds given)"
    by (simp_all add: resolve_struggle_thresholds_def STRUGGLE_WINDOW_def STRUGGLE_EDIT_STREAK_def STRUGGLE_FAILED_TRANSACTIONS_def)
qed

lemma signals_counts:
  assumes "in_order cs i"
  shows "sg_failed_calls (signals_at i (fst (struggle_run given cs))) =
      sum_after ir_failed_calls (i - int (lim_window (resolve_struggle_thresholds given))) (evidence cs) \<and>
    sg_distress (signals_at i (fst (struggle_run given cs))) =
      sum_after ir_distress (i - int (lim_window (resolve_struggle_thresholds given))) (evidence cs)"
  using run_tracks [OF limits_positive(1) assms]
  by (simp add: signals_at_def Let_def in_window_def sum_after_def [symmetric] tracks_def COUNTS_def)


definition LOSING_GROUND :: jtext where
  "LOSING_GROUND = js ''regressing''"

lemma losing_ground_counts:
  "LOSING_GROUND \<noteq> []" "count_hits LOSING_GROUND DISTRESS False = 1" "count_hits LOSING_GROUND HEDGING True = 0"
  "word_count LOSING_GROUND = 1"
  by code_simp+

definition EARNED_CALLS :: "struggle_call list" where
  "EARNED_CALLS = replicate 2 (Turn_Noted 20 (Some LOSING_GROUND)) @ replicate 6 (Outcome_Noted 20 True None None)"

lemma standard_limits:
  "resolve_struggle_thresholds NO_THRESHOLDS =
     \<lparr>lim_window = 10, lim_failed_calls = 6, lim_distress_hits = 2, lim_min_iteration = 20, lim_max_per_task = 2,
      lim_edit_streak = 3, lim_failed_transactions = 2\<rparr>"
  by code_simp

lemma earned_run:
  "struggle_run NO_THRESHOLDS EARNED_CALLS =
     ((new_detector NO_THRESHOLDS)\<lparr>dt_history := [\<lparr>ir_iteration = 20, ir_failed_calls = 6, ir_distress = 2, ir_hedging = 0,
        ir_words = 2\<rparr>]\<rparr>, [])"
  by (simp add: struggle_run_def EARNED_CALLS_def numeral_eq_Suc note_turn_def note_tool_outcome_def record_for_def change_last_def
      absorb_baseline_def new_detector_def standard_limits losing_ground_counts Let_def)


section \<open>How it repeats itself\<close>

lemma keys_differ: "reason_name Edit_Streak @ 58 # k \<noteq> reason_name Transactions_Lost @ 58 # k'"
  by (simp add: reason_name_def js_def)

definition streak_nudge :: "detector \<Rightarrow> struggle_verdict" where
  "streak_nudge d = Nudge Edit_Streak (describe_edit_streak (dt_edit_streak d) (dt_last_refusal d)) None (dt_changed d)"

definition lost_nudge :: "detector \<Rightarrow> struggle_verdict" where
  "lost_nudge d = Nudge Transactions_Lost (describe_failed_transactions (thrown_away d) (dt_discarded d) (dt_empty d)) None
     (dt_changed d)"

text \<open>The streak is what was told last.\<close>

definition streak_told :: "detector \<Rightarrow> bool" where
  "streak_told d = (dt_last_nudge d = Some (reason_name Edit_Streak @ 58 # 101 # decimal (dt_edit_streak d)))"

definition both_due :: "detector \<Rightarrow> bool" where
  "both_due d = (\<not> dt_fired_in_transaction d \<and>
     lim_edit_streak (dt_limits d) \<le> dt_edit_streak d \<and> dt_edit_streak d mod lim_edit_streak (dt_limits d) = 0 \<and>
     lim_failed_transactions (dt_limits d) \<le> thrown_away d \<and> thrown_away d mod lim_failed_transactions (dt_limits d) = 0)"

lemma said_only_same:
  "said_only d d' \<Longrightarrow> both_due d' = both_due d \<and> streak_nudge d' = streak_nudge d \<and> lost_nudge d' = lost_nudge d"
  by (auto simp: said_only_def both_due_def streak_nudge_def lost_nudge_def thrown_away_def)

lemma both_due_tells:
  assumes "both_due d" "inspect_struggle i d = (d', v)"
  shows "v = (if streak_told d then lost_nudge d else streak_nudge d) \<and> said_only d d' \<and> streak_told d' = (\<not> streak_told d)"
proof (cases "streak_told d")
  case True
  then have "edit_streak_verdict d = (d, Quiet)"
    using assms(1) by (simp add: both_due_def edit_streak_verdict_def nudge_once_def streak_told_def)
  moreover have "dt_last_nudge d \<noteq> Some (reason_name Transactions_Lost @ 58 # k)" for k
    using True keys_differ by (simp add: streak_told_def)
  moreover have "reason_name Transactions_Lost @ 58 # k \<noteq> reason_name Edit_Streak @ 58 # k'" for k k'
    using keys_differ by metis
  ultimately show ?thesis
    using assms True
    by (auto simp: both_due_def inspect_struggle_def thrown_away_verdict_def nudge_once_def Let_def said_only_def
        lost_nudge_def streak_told_def)
next
  case False
  then show ?thesis
    using assms
    by (auto simp: both_due_def inspect_struggle_def edit_streak_verdict_def nudge_once_def Let_def said_only_def
        streak_nudge_def streak_told_def)
qed

abbreviation inspections :: "nat \<Rightarrow> int \<Rightarrow> detector \<Rightarrow> detector" where
  "inspections n i d \<equiv> ((\<lambda>d. fst (inspect_struggle i d)) ^^ n) d"

lemma inspections_tell:
  assumes "both_due d"
  shows "said_only d (inspections n i d) \<and> streak_told (inspections n i d) = (streak_told d = even n)"
proof (induction n)
  case (Suc n)
  have "both_due (inspections n i d)" using Suc assms said_only_same by blast
  from both_due_tells [OF this surjective_pairing, of i] Suc show ?case
    by (auto intro: said_only_trans)
qed (simp add: said_only_refl)

text \<open>C39: While a transaction has had no offer and both a streak of refused edits and a number of lost attempts are due
  to be told, inspections tell the two by turns, the streak first unless it was what was told last, without end and
  although nothing new has happened in between.\<close>

theorem two_reasons_alternate:
  assumes "both_due d"
  shows "snd (inspect_struggle i (inspections n i d)) = (if streak_told d = even n then lost_nudge d else streak_nudge d)"
proof -
  note n = inspections_tell [OF assms, of n i]
  then have "both_due (inspections n i d)" using assms said_only_same by blast
  from both_due_tells [OF this surjective_pairing, of i] n said_only_same [of d "inspections n i d"]
  show ?thesis by auto
qed

lemma two_reasons_alternate_witness:
  "\<exists>d. both_due d \<and> dt_edit_streak d = 3 \<and> thrown_away d = 2 \<and>
     snd (inspect_struggle 1 (inspections 4 1 d)) = streak_nudge d \<and> snd (inspect_struggle 1 (inspections 5 1 d)) = lost_nudge d"
proof -
  let ?d = "(new_detector NO_THRESHOLDS)\<lparr>dt_edit_streak := 3, dt_discarded := 2\<rparr>"
  have due: "both_due ?d" "thrown_away ?d = 2"
    by (simp_all add: both_due_def thrown_away_def new_detector_def standard_limits)
  have "\<not> streak_told ?d" by (simp add: streak_told_def new_detector_def)
  with two_reasons_alternate [OF due(1), of 1 4] two_reasons_alternate [OF due(1), of 1 5] due
  show ?thesis by (intro exI [of _ ?d]) simp
qed

end
