(* ===== verification/WorkerStruggle.thy ===== *)
theory WorkerStruggle
  imports StruggleRuns
begin

text \<open>
  The struggle layer of a delegated worker: \<open>worker-struggle.ts\<close> and \<open>worker-struggle-stop.ts\<close> of
  \<open>sdk/packages/core/src/runtime/safety/\<close>, \<open>reasoningHitBudget\<close> of \<open>extensions/context/capped-thinking.ts\<close>, and what
  carries its message to the model, \<open>runtime/escalation/struggle-offer.ts\<close>. The abort controller is the reason it was
  aborted with, if it was; who listens to a stop is told the same reason and is left out.
\<close>

section \<open>A budget of thinking\<close>

definition BUDGET_MESSAGE_TAIL_MARGIN_CHARS :: nat where
  "BUDGET_MESSAGE_TAIL_MARGIN_CHARS = 400"

definition collapse_whitespace :: "jtext \<Rightarrow> jtext" where
  "collapse_whitespace t = trim (flatten_spaces t)"

text \<open>\<open>split("\n")\<close>, and \<open>slice(-n)\<close>.\<close>

fun newline_parts :: "jtext \<Rightarrow> jtext list" where
  "newline_parts [] = [[]]"
| "newline_parts (c # cs) =
     (if c = 10 then [] # newline_parts cs
      else (case newline_parts cs of l # ls \<Rightarrow> (c # l) # ls | [] \<Rightarrow> [[c]]))"

definition tail_of :: "nat \<Rightarrow> jtext \<Rightarrow> jtext" where
  "tail_of n t = drop (length t - n) t"

definition budget_message_marker :: "jtext \<Rightarrow> jtext" where
  "budget_message_marker message =
     fold (\<lambda>line marker. let collapsed = collapse_whitespace line
        in if length collapsed > length marker then collapsed else marker) (newline_parts message) []"

definition ends_with_budget_message :: "jtext \<Rightarrow> jtext \<Rightarrow> bool" where
  "ends_with_budget_message thinking message =
     (let marker = budget_message_marker message
      in marker \<noteq> [] \<and>
         contains_text marker (collapse_whitespace (tail_of (length marker + BUDGET_MESSAGE_TAIL_MARGIN_CHARS) thinking)))"

definition GENERIC_BUDGET_ADMISSION :: body where
  "GENERIC_BUDGET_ADMISSION = either
     [a @ js '' '' @ b @ js '' '' @ c @ js '' budget''.
        a \<leftarrow> [js ''used'', js ''exhausted'', js ''spent'', js ''run out of'', js ''ran out of'', js ''reached''],
        b \<leftarrow> [js ''my'', js ''the''], c \<leftarrow> [js ''thinking'', js ''reasoning'']]"

definition reasoning_hit_budget :: "jtext \<Rightarrow> jtext option \<Rightarrow> bool" where
  "reasoning_hit_budget thinking budget_message =
     (let message = trim (opt_default [] budget_message)
      in if message \<noteq> [] then ends_with_budget_message thinking message
         else pattern_test GENERIC_BUDGET_ADMISSION None (tail_of (BUDGET_MESSAGE_TAIL_MARGIN_CHARS * 2) thinking))"

section \<open>What a worker is told\<close>

definition WORKER_STRUGGLE_MIN_ITERATION :: int where
  "WORKER_STRUGGLE_MIN_ITERATION = 8"

definition WORKER_NUDGE_AFTER_ITERATIONS :: int where
  "WORKER_NUDGE_AFTER_ITERATIONS = 20"

definition WORKER_BUDGET_WINDOW :: int where
  "WORKER_BUDGET_WINDOW = 6"

definition WORKER_BUDGET_TURNS_TO_NUDGE :: int where
  "WORKER_BUDGET_TURNS_TO_NUDGE = 3"

definition WORKER_BUDGET_TURNS_TO_STOP :: int where
  "WORKER_BUDGET_TURNS_TO_STOP = 2"

definition WORKER_STRUGGLE_GRACE_ITERATIONS :: int where
  "WORKER_STRUGGLE_GRACE_ITERATIONS = 2"

definition WORKER_STRUGGLE_THRESHOLDS :: struggle_thresholds where
  "WORKER_STRUGGLE_THRESHOLDS = NO_THRESHOLDS\<lparr>th_min_iteration := Some (of_int WORKER_STRUGGLE_MIN_ITERATION)\<rparr>"

datatype worker_reason = Struggling | Non_Progress | Thinking_Budget

definition worker_reason_name :: "worker_reason \<Rightarrow> jtext" where
  "worker_reason_name r =
     (case r of Struggling \<Rightarrow> js ''struggle'' | Non_Progress \<Rightarrow> js ''non-progress'' | Thinking_Budget \<Rightarrow> js ''thinking-budget'')"

definition describe_worker_nudge :: "worker_reason option \<Rightarrow> jtext" where
  "describe_worker_nudge reason =
     (let measured = (case reason of
            Some Thinking_Budget \<Rightarrow> (js ''Your thinking has run out its whole budget on turn after turn, and each time you '' @
            js ''have gone back for one more probe instead of answering.'')
          | Some Struggling \<Rightarrow> js ''Your recent calls keep coming back refused or failing.''
          | _ \<Rightarrow> js ''You have spent many turns on this without converging.'')
      in join_lines
        [(measured @
         js '' You are a background worker: you cannot hand this to an expert or split it '' @
         js ''further, and the turns left before this task is stopped for you are few.''),
         [],
         (js ''Commit what you have now. Write your final answer as a SUMMARY of what you found '' @
         [EM_DASH] @
         js '' what you are sure of, what you are not, and anything still open '' @
         [EM_DASH] @
         js '' rather than taking another probe at the same thing. A partial finding you report '' @
         js ''is worth more than a complete one the stop throws away.'')])"

definition WORKER_STRUGGLE_STOP_PREFIX :: jtext where
  "WORKER_STRUGGLE_STOP_PREFIX = js ''Stopped by the struggle supervisor''"

definition is_worker_struggle_stop :: "jtext option \<Rightarrow> bool" where
  "is_worker_struggle_stop reason =
     (take (length WORKER_STRUGGLE_STOP_PREFIX) (opt_default [] reason) = WORKER_STRUGGLE_STOP_PREFIX)"

definition describe_worker_stop :: "worker_reason \<Rightarrow> nat option \<Rightarrow> jtext" where
  "describe_worker_stop reason spent =
     (let what = (case reason of
            Thinking_Budget \<Rightarrow> (js ''its thinking ran out its whole budget on '' @
            (case spent of Some n \<Rightarrow> decimal n | None \<Rightarrow> js ''several'') @
            js '' more turn'' @
            (if spent = Some 1 then [] else js ''s'') @
            js '' after it was told to commit a SUMMARY of what it had, and it went back for another '' @
            js ''probe each time'')
          | Struggling \<Rightarrow> js ''its calls kept coming back refused or failing after it was told to commit a SUMMARY''
          | Non_Progress \<Rightarrow> js ''it kept going without converging after it was told to commit a SUMMARY'')
      in (WORKER_STRUGGLE_STOP_PREFIX @
         js '' ('' @
         worker_reason_name reason @
         js ''): '' @
         what @
         js ''.''))"

section \<open>The supervisor\<close>

record worker_options =
  wo_thresholds :: "struggle_thresholds option"
  wo_nudge_after :: "int option"
  wo_budget_message :: "jtext option"
  wo_window :: "int option"
  wo_to_nudge :: "int option"
  wo_to_stop :: "int option"
  wo_grace :: "int option"
  wo_nudge_message :: "jtext option"

definition NO_WORKER_OPTIONS :: worker_options where
  "NO_WORKER_OPTIONS = \<lparr>wo_thresholds = None, wo_nudge_after = None, wo_budget_message = None, wo_window = None,
     wo_to_nudge = None, wo_to_stop = None, wo_grace = None, wo_nudge_message = None\<rparr>"

text \<open>\<open>Math.round\<close> of half a cap, which is an integer.\<close>

definition worker_struggle_options :: "int option \<Rightarrow> int option" where
  "worker_struggle_options max_iterations =
     (case max_iterations of
        Some n \<Rightarrow> if n \<le> 0 then None else Some (max WORKER_STRUGGLE_MIN_ITERATION ((n + 1) div 2))
      | None \<Rightarrow> None)"

definition delegated_options :: "int option \<Rightarrow> jtext option \<Rightarrow> worker_options" where
  "delegated_options max_iterations budget_message =
     NO_WORKER_OPTIONS\<lparr>wo_nudge_after := worker_struggle_options max_iterations,
       wo_budget_message := (if opt_default [] budget_message = [] then None else budget_message)\<rparr>"

datatype worker_phase = Watching | Nudged | Stopped

record worker =
  wk_feed :: struggle_feed
  wk_phase :: worker_phase
  wk_iteration :: int
  wk_nudged_at :: "int option"
  wk_spent_now :: bool
  wk_spent :: "int list"
  wk_pending :: "jtext option"
  wk_transitions :: "(worker_phase \<times> worker_reason) list"
  wk_aborted :: "jtext option"

definition new_worker :: "worker_options \<Rightarrow> worker" where
  "new_worker opts =
     \<lparr>wk_feed = new_feed (new_detector (opt_default WORKER_STRUGGLE_THRESHOLDS (wo_thresholds opts))),
      wk_phase = Watching, wk_iteration = 0, wk_nudged_at = None, wk_spent_now = False, wk_spent = [],
      wk_pending = None, wk_transitions = [], wk_aborted = None\<rparr>"

definition worker_nudge :: "worker_options \<Rightarrow> worker_reason \<Rightarrow> worker \<Rightarrow> worker" where
  "worker_nudge opts reason w =
     (if wk_phase w \<noteq> Watching then w
      else w\<lparr>wk_phase := Nudged, wk_nudged_at := Some (wk_iteration w),
             wk_pending := Some (opt_default (describe_worker_nudge (Some reason)) (wo_nudge_message opts)),
             wk_transitions := wk_transitions w @ [(Nudged, reason)]\<rparr>)"

definition worker_stop :: "worker_reason \<Rightarrow> nat \<Rightarrow> worker \<Rightarrow> worker" where
  "worker_stop reason spent w =
     (if wk_phase w \<noteq> Nudged then w
      else w\<lparr>wk_phase := Stopped, wk_transitions := wk_transitions w @ [(Stopped, reason)],
             wk_aborted := (case wk_aborted w of Some t \<Rightarrow> Some t | None \<Rightarrow> Some (describe_worker_stop reason (Some spent)))\<rparr>)"

definition spent_after :: "int \<Rightarrow> worker \<Rightarrow> nat" where
  "spent_after i w = length (filter (\<lambda>k. k > i) (wk_spent w))"

definition judge_iteration :: "worker_options \<Rightarrow> worker \<Rightarrow> worker" where
  "judge_iteration opts w =
     (if wk_phase w = Watching
      then if int (spent_after (wk_iteration w - opt_default WORKER_BUDGET_WINDOW (wo_window opts)) w) \<ge>
                opt_default WORKER_BUDGET_TURNS_TO_NUDGE (wo_to_nudge opts)
           then worker_nudge opts Thinking_Budget w
           else if wk_iteration w \<ge> opt_default WORKER_NUDGE_AFTER_ITERATIONS (wo_nudge_after opts)
           then worker_nudge opts Non_Progress w
           else w
      else (case (wk_phase w, wk_nudged_at w) of
              (Nudged, Some n) \<Rightarrow>
                (let after = spent_after (n + opt_default WORKER_STRUGGLE_GRACE_ITERATIONS (wo_grace opts)) w
                 in if int after \<ge> opt_default WORKER_BUDGET_TURNS_TO_STOP (wo_to_stop opts)
                    then worker_stop Thinking_Budget after w else w)
            | _ \<Rightarrow> w))"

definition close_iteration :: "worker_options \<Rightarrow> worker \<Rightarrow> worker" where
  "close_iteration opts w =
     judge_iteration opts
       (w\<lparr>wk_spent := (if wk_spent_now w then wk_spent w @ [wk_iteration w] else wk_spent w), wk_spent_now := False\<rparr>)"

text \<open>A block of reasoning that ran out of its budget.\<close>

definition spends :: "worker_options \<Rightarrow> agent_event \<Rightarrow> bool" where
  "spends opts e = (case e of
     Reasoning_Ended reasoning shown \<Rightarrow>
       reasoning_hit_budget (case reasoning of Some r \<Rightarrow> r | None \<Rightarrow> opt_default [] shown) (wo_budget_message opts)
   | _ \<Rightarrow> False)"

definition worker_mark :: "worker_options \<Rightarrow> agent_event \<Rightarrow> worker \<Rightarrow> worker" where
  "worker_mark opts e w =
     (case e of
        Iteration_Started i \<Rightarrow> w\<lparr>wk_iteration := i, wk_spent_now := False\<rparr>
      | _ \<Rightarrow> if spends opts e then w\<lparr>wk_spent_now := True\<rparr> else w)"

definition worker_feed :: "(jtext \<Rightarrow> jtext) \<Rightarrow> worker_options \<Rightarrow> agent_event \<Rightarrow> worker \<Rightarrow> worker" where
  "worker_feed num opts e w =
     (case observe num e (wk_feed w) of
        (f, v) \<Rightarrow> if v = Quiet then w\<lparr>wk_feed := f\<rparr> else worker_nudge opts Struggling (w\<lparr>wk_feed := f\<rparr>))"

definition worker_observe :: "(jtext \<Rightarrow> jtext) \<Rightarrow> worker_options \<Rightarrow> agent_event \<Rightarrow> worker \<Rightarrow> worker" where
  "worker_observe num opts e w0 =
     (let w = worker_feed num opts e (worker_mark opts e w0)
      in case e of Iteration_Ended i \<Rightarrow> close_iteration opts (w\<lparr>wk_iteration := i\<rparr>) | _ \<Rightarrow> w)"

definition worker_rearm :: "worker \<Rightarrow> worker" where
  "worker_rearm w =
     (if wk_phase w = Watching then w
      else w\<lparr>wk_phase := Watching, wk_nudged_at := None, wk_spent := [], wk_spent_now := False, wk_aborted := None\<rparr>)"

section \<open>Delivery\<close>

definition ESCALATE_TOOL_NAME :: jtext where
  "ESCALATE_TOOL_NAME = js ''escalate''"

definition SPAWN_AGENT_TOOL_NAME :: jtext where
  "SPAWN_AGENT_TOOL_NAME = js ''spawn_agent''"

definition describe_escalation_offer :: "jtext \<Rightarrow> nat \<Rightarrow> jtext" where
  "describe_escalation_offer diagnosis remaining = join_lines
     [(js ''This run does not look like it is converging. '' @
      diagnosis),
      [],
      (js ''You can hand this to the expert with `'' @
      ESCALATE_TOOL_NAME @
      js ''` '' @
      [EM_DASH] @
      js '' a second, stronger model that takes the task over, edits, and hands back. '' @
      (if remaining = 1 then js ''You have one escalation left'' else js ''You have '' @ decimal remaining @ js '' escalations left'') @
      js '', and each one costs real money or somebody else's hardware.''),
      [],
      (js ''It is your call and nothing is being taken away from you: keep going if you have '' @
      js ''something specific you have not tried. But spending four more turns on what the '' @
      js ''last ten turns did costs more than the escalation would, and the expert exists to '' @
      js ''be used.'')]"

record nudge_input =
  ni_diagnosis :: jtext
  ni_complexity :: "jtext list"
  ni_high :: bool
  ni_broken :: bool
  ni_reason :: "struggle_reason option"
  ni_can_delegate :: bool
  ni_remaining :: int

definition describe_escalation_nudge :: "nudge_input \<Rightarrow> jtext" where
  "describe_escalation_nudge ni =
     (let streak = (ni_reason ni = Some Edit_Streak);
          because = (if streak then js ''You have now been refused the same way three times over''
            else if ni_broken ni then js ''The file is broken end to end rather than in one place''
            else js ''This is dense code, and dense code is where a second reading is worth most'')
      in join_lines
        (ni_diagnosis ni #
         (if ni_complexity ni \<noteq> [] then [] # ni_complexity ni else []) @
         (if ni_can_delegate ni
          then [[], if ni_reason ni = Some Transactions_Lost
                then (js ''Those attempts were spent on one reading of the problem. `'' @
                     SPAWN_AGENT_TOOL_NAME @
                     js ''` gives a piece of it to a subagent that reads it from nothing '' @
                     [EM_DASH] @
                     js '' the part you are least sure of is the part worth handing over, and you keep the '' @
                     js ''attempt you are in.'')
                else (js ''`'' @
                     SPAWN_AGENT_TOOL_NAME @
                     js ''` hands a self-contained piece of this to a subagent that starts without what you '' @
                     js ''have already assumed. It costs you no attempt and no budget; what comes back is a '' @
                     js ''report, not an edit.'')]
          else []) @
         (if (streak \<or> ni_high ni \<or> ni_broken ni) \<and> ni_remaining ni > 0
          then [[], (because @
                    js ''. `'' @
                    ESCALATE_TOOL_NAME @
                    js ''` hands this change to the expert '' @
                    [EM_DASH] @
                    js '' a second, stronger model that takes it over, edits, and hands back '' @
                    [EM_DASH] @
                    js '' and '' @
                    (if ni_remaining ni = 1 then js ''you have one left'' else js ''you have '' @ decimal (nat (ni_remaining ni)) @ js '' left'') @
                    js ''. Nothing is being taken away from you: keep going if you have something specific '' @
                    js ''you have not tried yet, and take it if what you have is another attempt at what has '' @
                    js ''already been refused.'')]
          else [])))"

definition attach_entry :: "jtext \<Rightarrow> json \<Rightarrow> json option" where
  "attach_entry suggestion entry =
     (case entry of
        JObj ms \<Rightarrow>
          if map_of ms (js ''success'') = Some (JBool False) then None
          else (case map_of ms (js ''result'') of
                  Some (JStr r) \<Rightarrow> Some (JObj (AList.update (js ''result'') (JStr (r @ [10, 10] @ suggestion)) ms))
                | _ \<Rightarrow> None)
      | _ \<Rightarrow> None)"

text \<open>The entries from the last to the first.\<close>

fun attach_first :: "jtext \<Rightarrow> json list \<Rightarrow> json list option" where
  "attach_first suggestion [] = None"
| "attach_first suggestion (v # vs) =
     (case attach_entry suggestion v of
        Some v' \<Rightarrow> Some (v' # vs)
      | None \<Rightarrow> map_option ((#) v) (attach_first suggestion vs))"

definition with_suggestion_attached :: "json \<Rightarrow> jtext \<Rightarrow> json option" where
  "with_suggestion_attached result suggestion =
     (case result of
        JStr t \<Rightarrow> Some (JStr (t @ [10, 10] @ suggestion))
      | JArr vs \<Rightarrow> map_option (\<lambda>us. JArr (rev us)) (attach_first suggestion (rev vs))
      | _ \<Rightarrow> None)"

text \<open>A result of a wrapped tool, with what is held: what the model gets, and what is held after.\<close>

definition with_struggle_suggestion :: "jtext \<Rightarrow> json \<Rightarrow> jtext option \<Rightarrow> json \<times> jtext option" where
  "with_struggle_suggestion name result pending =
     (if name = ESCALATE_TOOL_NAME \<or> name = SPAWN_AGENT_TOOL_NAME then (result, pending)
      else case pending of
        None \<Rightarrow> (result, pending)
      | Some suggestion \<Rightarrow>
          if suggestion = [] then (result, pending)
          else (case with_suggestion_attached result suggestion of
                  None \<Rightarrow> (result, pending)
                | Some delivered \<Rightarrow> (delivered, None)))"

end
