(* ===== verification/WorkerRuns.thy ===== *)
theory WorkerRuns
  imports WorkerStruggle
begin

text \<open>
  When a worker is stopped: what a stop rests on, and that a worker which spends its thinking budget on every turn is
  stopped early. And how a held message reaches the model.
\<close>

section \<open>A worker's turns\<close>

type_synonym worker_turn = "int \<times> agent_event list"

fun inside :: "agent_event \<Rightarrow> bool" where
  "inside (Iteration_Started i) = False"
| "inside (Iteration_Ended i) = False"
| "inside e = True"

definition turn_events :: "worker_turn \<Rightarrow> agent_event list" where
  "turn_events x = Iteration_Started (fst x) # snd x @ [Iteration_Ended (fst x)]"

definition worker_run :: "(jtext \<Rightarrow> jtext) \<Rightarrow> worker_options \<Rightarrow> worker_turn list \<Rightarrow> worker \<Rightarrow> worker" where
  "worker_run num opts turns w = fold (worker_observe num opts) (concat (map turn_events turns)) w"

definition turn_spent :: "worker_options \<Rightarrow> worker_turn \<Rightarrow> bool" where
  "turn_spent opts x = list_ex (spends opts) (snd x)"

text \<open>Within a turn nothing happens to a worker but a first nudge.\<close>

definition nudged_only :: "worker \<Rightarrow> worker \<Rightarrow> bool" where
  "nudged_only w w' =
     (wk_iteration w' = wk_iteration w \<and> wk_spent w' = wk_spent w \<and> wk_aborted w' = wk_aborted w \<and>
      (wk_phase w' = wk_phase w \<and> wk_nudged_at w' = wk_nudged_at w \<or>
       wk_phase w = Watching \<and> wk_phase w' = Nudged \<and> wk_nudged_at w' = Some (wk_iteration w)))"

lemma nudged_only_refl [simp]: "nudged_only w w"
  by (simp add: nudged_only_def)

lemma nudged_only_trans: "nudged_only a b \<Longrightarrow> nudged_only b c \<Longrightarrow> nudged_only a c"
  by (auto simp: nudged_only_def)

lemma worker_nudge_only: "nudged_only w (worker_nudge opts r w) \<and> wk_spent_now (worker_nudge opts r w) = wk_spent_now w"
  by (simp add: nudged_only_def worker_nudge_def)

lemma worker_feed_only: "nudged_only w (worker_feed num opts e w) \<and> wk_spent_now (worker_feed num opts e w) = wk_spent_now w"
proof -
  obtain f v where o: "observe num e (wk_feed w) = (f, v)" by fastforce
  then show ?thesis
    by (cases "v = Quiet") (simp_all add: worker_feed_def nudged_only_def worker_nudge_def)
qed

lemma observe_inside:
  assumes "inside e"
  shows "nudged_only w (worker_observe num opts e w) \<and>
    wk_spent_now (worker_observe num opts e w) = (wk_spent_now w \<or> spends opts e)"
proof -
  have o: "worker_observe num opts e w = worker_feed num opts e (worker_mark opts e w)"
    using assms by (cases e) (simp_all add: worker_observe_def)
  have m: "nudged_only w (worker_mark opts e w)" "wk_spent_now (worker_mark opts e w) = (wk_spent_now w \<or> spends opts e)"
    using assms by (cases e; simp add: worker_mark_def nudged_only_def)+
  show ?thesis using worker_feed_only [of "worker_mark opts e w" num opts e] m nudged_only_trans unfolding o by metis
qed

lemma observe_all_inside:
  "list_all inside es \<Longrightarrow> nudged_only w (fold (worker_observe num opts) es w) \<and>
     wk_spent_now (fold (worker_observe num opts) es w) = (wk_spent_now w \<or> list_ex (spends opts) es)"
proof (induction es arbitrary: w)
  case (Cons e es)
  have "inside e" "list_all inside es" using Cons.prems by simp_all
  then show ?case
    using Cons.IH [of "worker_observe num opts e w"] observe_inside [of e w num opts]
      nudged_only_trans [of w "worker_observe num opts e w" "fold (worker_observe num opts) es (worker_observe num opts e w)"]
    by auto
qed simp

lemma turn_closes:
  assumes "list_all inside es"
  obtains w1 where "fold (worker_observe num opts) (turn_events (i, es)) w = close_iteration opts w1"
    "wk_iteration w1 = i" "wk_spent_now w1 = turn_spent opts (i, es)" "wk_spent w1 = wk_spent w"
    "wk_aborted w1 = wk_aborted w"
    "wk_phase w1 = wk_phase w \<and> wk_nudged_at w1 = wk_nudged_at w \<or>
     wk_phase w = Watching \<and> wk_phase w1 = Nudged \<and> wk_nudged_at w1 = Some i"
proof -
  let ?a = "worker_observe num opts (Iteration_Started i) w"
  let ?b = "fold (worker_observe num opts) es ?a"
  let ?c = "worker_feed num opts (Iteration_Ended i) ?b"
  have a: "?a = worker_feed num opts (Iteration_Started i) (w\<lparr>wk_iteration := i, wk_spent_now := False\<rparr>)"
    by (simp add: worker_observe_def worker_mark_def)
  have start: "nudged_only (w\<lparr>wk_iteration := i, wk_spent_now := False\<rparr>) ?a \<and> \<not> wk_spent_now ?a"
    unfolding a using worker_feed_only [of "w\<lparr>wk_iteration := i, wk_spent_now := False\<rparr>" num opts "Iteration_Started i"]
    by simp
  have last: "fold (worker_observe num opts) (turn_events (i, es)) w = close_iteration opts (?c\<lparr>wk_iteration := i\<rparr>)"
    by (simp add: turn_events_def worker_observe_def worker_mark_def spends_def)
  have c: "nudged_only (w\<lparr>wk_iteration := i, wk_spent_now := False\<rparr>) ?c" "wk_spent_now ?c = list_ex (spends opts) es"
    using start observe_all_inside [OF assms, of ?a num opts] worker_feed_only [of ?b num opts "Iteration_Ended i"]
      nudged_only_trans [of _ ?a ?b] nudged_only_trans [of _ ?b ?c] by auto
  show thesis
    by (rule that [OF last]) (use c in \<open>auto simp: nudged_only_def turn_spent_def\<close>)
qed

section \<open>What a stop rests on\<close>

definition spent_turns :: "worker_options \<Rightarrow> worker_turn list \<Rightarrow> int list" where
  "spent_turns opts turns = map fst (filter (turn_spent opts) turns)"

abbreviation grace_of :: "worker_options \<Rightarrow> int" where
  "grace_of opts \<equiv> opt_default WORKER_STRUGGLE_GRACE_ITERATIONS (wo_grace opts)"

abbreviation to_stop_of :: "worker_options \<Rightarrow> int" where
  "to_stop_of opts \<equiv> opt_default WORKER_BUDGET_TURNS_TO_STOP (wo_to_stop opts)"

definition stop_earned :: "worker_options \<Rightarrow> worker_turn list \<Rightarrow> worker \<Rightarrow> bool" where
  "stop_earned opts turns w =
     (wk_spent w = spent_turns opts turns \<and>
      (case wk_phase w of
         Watching \<Rightarrow> wk_nudged_at w = None \<and> wk_aborted w = None
       | Nudged \<Rightarrow> (\<exists>n\<in>fst ` set turns. wk_nudged_at w = Some n) \<and> wk_aborted w = None
       | Stopped \<Rightarrow> (\<exists>n\<in>fst ` set turns. wk_nudged_at w = Some n \<and>
           to_stop_of opts \<le> int (length (filter (\<lambda>k. k > n + grace_of opts) (spent_turns opts turns)))) \<and>
           is_worker_struggle_stop (wk_aborted w)))"

lemma stop_text: "is_worker_struggle_stop (Some (describe_worker_stop r n))"
  by (simp add: is_worker_struggle_stop_def describe_worker_stop_def)

lemma close_earned:
  assumes "stop_earned opts turns w" "wk_iteration w1 = i" "wk_spent_now w1 = turn_spent opts x" "fst x = i"
    "wk_spent w1 = wk_spent w" "wk_aborted w1 = wk_aborted w"
    "wk_phase w1 = wk_phase w \<and> wk_nudged_at w1 = wk_nudged_at w \<or>
     wk_phase w = Watching \<and> wk_phase w1 = Nudged \<and> wk_nudged_at w1 = Some i"
  shows "stop_earned opts (turns @ [x]) (close_iteration opts w1)"
proof -
  have spent: "(if wk_spent_now w1 then wk_spent w1 @ [wk_iteration w1] else wk_spent w1) = spent_turns opts (turns @ [x])"
    using assms(1-5) by (auto simp: stop_earned_def spent_turns_def)
  let ?w = "w1\<lparr>wk_spent := spent_turns opts (turns @ [x]), wk_spent_now := False\<rparr>"
  have close: "close_iteration opts w1 = judge_iteration opts ?w" by (simp add: close_iteration_def spent)
  consider (watching) "wk_phase w1 = Watching" "wk_nudged_at w1 = None" "wk_aborted w1 = None"
    | (nudged) n where "wk_phase w1 = Nudged" "n \<in> fst ` set (turns @ [x])" "wk_nudged_at w1 = Some n" "wk_aborted w1 = None"
    | (stopped) n where "wk_phase w1 = Stopped" "n \<in> fst ` set turns" "wk_nudged_at w1 = Some n"
        "to_stop_of opts \<le> int (length (filter (\<lambda>k. k > n + grace_of opts) (spent_turns opts turns)))"
        "is_worker_struggle_stop (wk_aborted w1)"
    using assms by (cases "wk_phase w") (auto simp: stop_earned_def)
  then show ?thesis
  proof cases
    case watching
    then show ?thesis
      using assms(2,4) by (auto simp: close judge_iteration_def worker_nudge_def stop_earned_def)
  next
    case nudged
    then show ?thesis
      using stop_text
      by (auto simp: close judge_iteration_def worker_stop_def stop_earned_def spent_after_def Let_def)
  next
    case stopped
    have "spent_turns opts (turns @ [x]) = spent_turns opts turns @ spent_turns opts [x]" by (simp add: spent_turns_def)
    then show ?thesis
      using stopped by (auto simp: close judge_iteration_def stop_earned_def)
  qed
qed

lemma run_earned:
  "list_all (\<lambda>x. list_all inside (snd x)) turns \<Longrightarrow> stop_earned opts turns (worker_run num opts turns (new_worker opts))"
proof (induction turns rule: rev_induct)
  case Nil
  then show ?case by (simp add: worker_run_def stop_earned_def new_worker_def spent_turns_def)
next
  case (snoc x turns)
  let ?w = "worker_run num opts turns (new_worker opts)"
  have run: "worker_run num opts (turns @ [x]) (new_worker opts) = fold (worker_observe num opts) (turn_events (fst x, snd x)) ?w"
    by (simp add: worker_run_def)
  have "list_all inside (snd x)" "stop_earned opts turns ?w" using snoc by simp_all
  from this(1) show ?case
    by (rule turn_closes [where num = num and opts = opts and i = "fst x" and w = ?w])
      (use close_earned [OF \<open>stop_earned opts turns ?w\<close>, of _ "fst x" x] run in auto)
qed


section \<open>A worker that never stops thinking\<close>

definition burning :: "nat \<Rightarrow> worker \<Rightarrow> bool" where
  "burning k w =
     (wk_spent w = [1..int k] \<and>
      (case wk_phase w of
         Watching \<Rightarrow> k < 3
       | Nudged \<Rightarrow> (\<exists>n. wk_nudged_at w = Some n \<and> 1 \<le> n \<and> n \<le> 3 \<and> n \<le> int k \<and> int k < n + 4)
       | Stopped \<Rightarrow> True))"

definition plain_options :: "worker_options \<Rightarrow> bool" where
  "plain_options opts = (wo_window opts = None \<and> wo_to_nudge opts = None \<and> wo_to_stop opts = None \<and> wo_grace opts = None)"

lemma upto_after: "0 \<le> m \<Longrightarrow> length (filter (\<lambda>j. j > m) [1..int k]) = nat (int k - m)"
proof (induction k)
  case (Suc k)
  have "[1..int (Suc k)] = [1..int k] @ [int (Suc k)]" by (simp add: upto_rec2)
  then show ?case using Suc by auto
qed simp

lemma close_burning:
  assumes "plain_options opts" "burning k w" "wk_iteration w1 = int (Suc k)" "wk_spent_now w1" "wk_spent w1 = wk_spent w"
    "wk_phase w1 = wk_phase w \<and> wk_nudged_at w1 = wk_nudged_at w \<or>
     wk_phase w = Watching \<and> wk_phase w1 = Nudged \<and> wk_nudged_at w1 = Some (int (Suc k))"
  shows "burning (Suc k) (close_iteration opts w1)"
proof -
  have up: "[1..int (Suc k)] = [1..int k] @ [int (Suc k)]" by (simp add: upto_rec2)
  let ?w = "w1\<lparr>wk_spent := [1..int (Suc k)], wk_spent_now := False\<rparr>"
  have close: "close_iteration opts w1 = judge_iteration opts ?w"
    using assms(2-5) up by (simp add: close_iteration_def burning_def)
  have plain: "opt_default WORKER_BUDGET_WINDOW (wo_window opts) = 6" "opt_default WORKER_BUDGET_TURNS_TO_NUDGE (wo_to_nudge opts) = 3"
    "to_stop_of opts = 2" "grace_of opts = 2"
    using assms(1)
    by (simp_all add: plain_options_def WORKER_BUDGET_WINDOW_def WORKER_BUDGET_TURNS_TO_NUDGE_def
        WORKER_BUDGET_TURNS_TO_STOP_def WORKER_STRUGGLE_GRACE_ITERATIONS_def)
  consider (watching) "wk_phase w1 = Watching" "k < 3"
    | (nudged) n where "wk_phase w1 = Nudged" "wk_nudged_at w1 = Some n" "1 \<le> n" "n \<le> 3" "n \<le> int (Suc k)" "int k < n + 4"
    | (stopped) "wk_phase w1 = Stopped"
    using assms(2,6) by (cases "wk_phase w") (auto simp: burning_def)
  then show ?thesis
  proof cases
    case watching
    have "spent_after (int (Suc k) - 6) ?w = Suc k"
    proof -
      have "filter (\<lambda>j. j > int (Suc k) - 6) [1..int (Suc k)] = [1..int (Suc k)]"
        using watching(2) by (intro filter_True) auto
      then show ?thesis by (simp add: spent_after_def)
    qed
    then show ?thesis
      using watching assms(3) by (auto simp: close judge_iteration_def plain worker_nudge_def burning_def)
  next
    case nudged
    have "spent_after (n + 2) ?w = nat (int (Suc k) - (n + 2))"
      using upto_after [of "n + 2" "Suc k"] nudged(3) by (simp add: spent_after_def)
    then show ?thesis
      using nudged by (auto simp: close judge_iteration_def plain worker_stop_def burning_def Let_def)
  next
    case stopped
    then show ?thesis by (simp add: close judge_iteration_def burning_def)
  qed
qed

lemma run_burning:
  assumes "plain_options opts" "list_all (\<lambda>x. list_all inside (snd x) \<and> turn_spent opts x) turns"
    "map fst turns = [1..int (length turns)]"
  shows "burning (length turns) (worker_run num opts turns (new_worker opts))"
  using assms(2,3)
proof (induction turns rule: rev_induct)
  case Nil
  then show ?case by (simp add: worker_run_def burning_def new_worker_def)
next
  case (snoc x turns)
  let ?w = "worker_run num opts turns (new_worker opts)"
  have "[1..int (length (turns @ [x]))] = [1..int (length turns)] @ [int (Suc (length turns))]" by (simp add: upto_rec2)
  then have order: "map fst turns = [1..int (length turns)]" "fst x = int (Suc (length turns))"
    using snoc.prems(2) by simp_all
  have b: "burning (length turns) ?w" using snoc.IH snoc.prems(1) order(1) by simp
  have run: "worker_run num opts (turns @ [x]) (new_worker opts) = fold (worker_observe num opts) (turn_events (fst x, snd x)) ?w"
    by (simp add: worker_run_def)
  have "list_all inside (snd x)" "turn_spent opts x" using snoc.prems(1) by simp_all
  from this(1) show ?case
    by (rule turn_closes [where num = num and opts = opts and i = "fst x" and w = ?w])
      (use close_burning [OF assms(1) b] order(2) run \<open>turn_spent opts x\<close> in \<open>auto simp: turn_spent_def\<close>)
qed

lemma burning_stopped: "burning k w \<Longrightarrow> 7 \<le> k \<Longrightarrow> wk_phase w = Stopped"
  by (cases "wk_phase w") (auto simp: burning_def)

text \<open>C17: A delegated worker that spends its thinking budget on each of its turns is stopped by the end of the seventh,
  whatever else happens in them, wherever the other nudges fall and whatever budget message its server has.\<close>

theorem burning_worker_is_stopped:
  assumes "list_all (\<lambda>x. list_all inside (snd x) \<and> turn_spent (delegated_options cap message) x) turns"
    "map fst turns = [1..int (length turns)]" "7 \<le> length turns"
  shows "wk_phase (worker_run num (delegated_options cap message) turns (new_worker (delegated_options cap message))) = Stopped"
proof (rule burning_stopped [OF _ assms(3)])
  show "burning (length turns) (worker_run num (delegated_options cap message) turns (new_worker (delegated_options cap message)))"
    by (rule run_burning) (use assms in \<open>simp_all add: plain_options_def delegated_options_def NO_WORKER_OPTIONS_def\<close>)
qed

section \<open>What is held reaches the model\<close>

fun deliver_all :: "(jtext \<times> json) list \<Rightarrow> jtext option \<Rightarrow> json list \<times> jtext option" where
  "deliver_all [] pending = ([], pending)"
| "deliver_all ((name, result) # rs) pending =
     (case with_struggle_suggestion name result pending of
        (r, p) \<Rightarrow> (case deliver_all rs p of (out, p') \<Rightarrow> (r # out, p')))"

lemma nothing_held: "deliver_all rs None = (map snd rs, None)"
  by (induction rs) (auto simp: with_struggle_suggestion_def)

text \<open>A result that can carry a message: of a tool that is not excluded, a text or a list in which an entry that did not
  fail has a text for its result.\<close>

definition entry_carries :: "json \<Rightarrow> bool" where
  "entry_carries v = (\<exists>ms r. v = JObj ms \<and> map_of ms (js ''success'') \<noteq> Some (JBool False) \<and>
     map_of ms (js ''result'') = Some (JStr r))"

definition can_carry :: "jtext \<times> json \<Rightarrow> bool" where
  "can_carry x = (fst x \<noteq> js ''escalate'' \<and> fst x \<noteq> js ''spawn_agent'' \<and>
     ((\<exists>t. snd x = JStr t) \<or> (\<exists>vs. snd x = JArr vs \<and> list_ex entry_carries vs)))"

text \<open>A result with a message put on it: behind the text, or behind that of the last entry that can carry it.\<close>

definition carries_message :: "json \<Rightarrow> jtext \<Rightarrow> json \<Rightarrow> bool" where
  "carries_message result message delivered =
     ((\<exists>t. result = JStr t \<and> delivered = JStr (t @ [10, 10] @ message)) \<or>
      (\<exists>vs ms ws r. result = JArr (vs @ JObj ms # ws) \<and> entry_carries (JObj ms) \<and> \<not> list_ex entry_carries ws \<and>
         map_of ms (js ''result'') = Some (JStr r) \<and>
         delivered = JArr (vs @ JObj (AList.update (js ''result'') (JStr (r @ [10, 10] @ message)) ms) # ws)))"

lemma attach_entry_iff:
  "attach_entry m v = Some u \<longleftrightarrow> (\<exists>ms r. v = JObj ms \<and> entry_carries v \<and> map_of ms (js ''result'') = Some (JStr r) \<and>
     u = JObj (AList.update (js ''result'') (JStr (r @ [10, 10] @ m)) ms))"
  by (cases v) (auto simp: attach_entry_def entry_carries_def split: option.splits json.splits if_splits)

lemma attach_entry_none: "attach_entry m v = None \<longleftrightarrow> \<not> entry_carries v"
  by (cases v) (auto simp: attach_entry_def entry_carries_def split: option.splits json.splits if_splits)

lemma attach_first_none: "attach_first m vs = None \<longleftrightarrow> \<not> list_ex entry_carries vs"
proof (induction vs)
  case (Cons v vs)
  then show ?case using attach_entry_none [of m v] by (cases "attach_entry m v") auto
qed simp

lemma attach_first_some:
  "attach_first m vs = Some us \<Longrightarrow> \<exists>xs v u ys. vs = xs @ v # ys \<and> us = xs @ u # ys \<and> \<not> list_ex entry_carries xs \<and>
     attach_entry m v = Some u"
proof (induction vs arbitrary: us)
  case (Cons v vs)
  show ?case
  proof (cases "attach_entry m v")
    case None
    with Cons.prems obtain us' where u: "attach_first m vs = Some us'" "us = v # us'" by auto
    from Cons.IH [OF u(1)] obtain xs w u ys where "vs = xs @ w # ys" "us' = xs @ u # ys" "\<not> list_ex entry_carries xs"
      "attach_entry m w = Some u" by blast
    with u(2) None show ?thesis
      by (intro exI [of _ "v # xs"] exI [of _ w] exI [of _ u] exI [of _ ys]) (simp add: attach_entry_none)
  next
    case (Some u)
    with Cons.prems show ?thesis by (intro exI [of _ "[]"] exI [of _ v] exI [of _ u] exI [of _ vs]) simp
  qed
qed simp

lemma attached_some: "with_suggestion_attached result m = Some out \<Longrightarrow> carries_message result m out"
proof (cases result)
  case (JArr vs)
  assume "with_suggestion_attached result m = Some out"
  then obtain us where us: "attach_first m (rev vs) = Some us" "out = JArr (rev us)"
    using JArr by (auto simp: with_suggestion_attached_def)
  from attach_first_some [OF us(1)] obtain xs v u ys where x: "rev vs = xs @ v # ys" "us = xs @ u # ys"
    "\<not> list_ex entry_carries xs" "attach_entry m v = Some u" by blast
  from x(4) obtain ms r where e: "v = JObj ms" "entry_carries v" "map_of ms (js ''result'') = Some (JStr r)"
    "u = JObj (AList.update (js ''result'') (JStr (r @ [10, 10] @ m)) ms)"
    by (auto simp: attach_entry_iff)
  have vs: "vs = rev ys @ v # rev xs" using x(1) by (metis append.assoc append_Cons append_Nil rev.simps(2) rev_append rev_rev_ident)
  have "\<not> list_ex entry_carries (rev xs)" using x(3) by (simp add: list_ex_iff)
  moreover have "out = JArr (rev ys @ u # rev xs)" using us(2) x(2) by simp
  ultimately show ?thesis
    unfolding carries_message_def using JArr vs e by blast
qed (auto simp: with_suggestion_attached_def carries_message_def)

lemma attached_none: "with_suggestion_attached result m = None \<longleftrightarrow>
    \<not> ((\<exists>t. result = JStr t) \<or> (\<exists>vs. result = JArr vs \<and> list_ex entry_carries vs))"
  by (cases result) (auto simp: with_suggestion_attached_def attach_first_none list_ex_iff)

lemma cannot_carry: "\<not> can_carry (name, result) \<Longrightarrow> with_struggle_suggestion name result (Some m) = (result, Some m)"
  using attached_none [of result m]
  by (auto simp: can_carry_def with_struggle_suggestion_def ESCALATE_TOOL_NAME_def SPAWN_AGENT_TOOL_NAME_def)

lemma does_carry:
  assumes "can_carry (name, result)" "m \<noteq> []"
  obtains out where "with_struggle_suggestion name result (Some m) = (out, None)" "carries_message result m out"
proof -
  obtain out where out: "with_suggestion_attached result m = Some out"
    using assms(1) attached_none [of result m] by (auto simp: can_carry_def)
  show thesis
    by (rule that [OF _ attached_some [OF out]])
      (use assms out in \<open>auto simp: can_carry_def with_struggle_suggestion_def ESCALATE_TOOL_NAME_def SPAWN_AGENT_TOOL_NAME_def\<close>)
qed

text \<open>C40: A held message is put on the first result that can carry it and is then owed no more; where none can, it is
  still owed. Every other result reaches the model as it is. A result can carry it if its tool is not \<open>escalate\<close> or
  \<open>spawn_agent\<close> and it is a text, or a list with an entry that did not fail and has a text; of those the last has it put
  behind its text.\<close>

theorem message_delivered_once:
  assumes "message \<noteq> []" "deliver_all rs (Some message) = (out, pending)"
  shows "case find_index can_carry rs of
      None \<Rightarrow> out = map snd rs \<and> pending = Some message
    | Some k \<Rightarrow> pending = None \<and> (\<exists>delivered. carries_message (snd (rs ! k)) message delivered \<and>
        out = (map snd rs)[k := delivered])"
  using assms(2)
proof (induction rs arbitrary: out pending)
  case (Cons x rs)
  obtain name result where x: "x = (name, result)" by fastforce
  show ?case
  proof (cases "can_carry x")
    case True
    then obtain r where r: "with_struggle_suggestion name result (Some message) = (r, None)" "carries_message result message r"
      using assms(1) x does_carry by metis
    then have "out = r # map snd rs" "pending = None" using Cons.prems x by (auto simp: nothing_held)
    then show ?thesis using r True x by auto
  next
    case False
    then have w: "with_struggle_suggestion name result (Some message) = (result, Some message)" using x cannot_carry by simp
    obtain out' where out: "deliver_all rs (Some message) = (out', pending)" "out = result # out'"
      using Cons.prems x w by (auto split: prod.splits)
    note ih = Cons.IH [OF out(1)]
    have f: "find_index can_carry (x # rs) = map_option Suc (find_index can_carry rs)" using False by simp
    show ?thesis
    proof (cases "find_index can_carry rs")
      case None
      show ?thesis
        using ih [unfolded None option.case] out(2) x unfolding f None option.map option.case by simp
    next
      case (Some k)
      show ?thesis
        using ih [unfolded Some option.case] out(2) x unfolding f Some option.map option.case by auto
    qed
  qed
qed simp

section \<open>Concrete turns\<close>

definition BURNT :: jtext where
  "BURNT = js ''I have used my thinking budget''"

lemma burnt_spends: "turn_spent (delegated_options cap None) (i, [Reasoning_Ended (Some BURNT) None])"
proof -
  have "reasoning_hit_budget BURNT None" by code_simp
  then show ?thesis
    by (simp add: turn_spent_def spends_def delegated_options_def NO_WORKER_OPTIONS_def)
qed

definition burnt_turns :: "worker_turn list" where
  "burnt_turns = map (\<lambda>i. (i, [Reasoning_Ended (Some BURNT) None])) [1..7]"

lemma burnt_turns_facts:
  "list_all (\<lambda>x. list_all inside (snd x) \<and> turn_spent (delegated_options None None) x) burnt_turns"
  "map fst burnt_turns = [1..int (length burnt_turns)]" "7 \<le> length burnt_turns"
  using burnt_spends by (auto simp: burnt_turns_def list.pred_map list.pred_set o_def)

lemma burning_worker_is_stopped_witness:
  "wk_phase (worker_run id (delegated_options None None) burnt_turns (new_worker (delegated_options None None))) = Stopped"
  by (rule burning_worker_is_stopped [OF burnt_turns_facts])


lemma message_delivered_once_witness:
  "deliver_all [(js ''read_files'', JNull), (js ''editor'', JStr [33])] (Some BURNT) =
     ([JNull, JStr (33 # [10, 10] @ BURNT)], None)"
proof -
  let ?rs = "[(js ''read_files'', JNull), (js ''editor'', JStr [33])]"
  obtain out pending where d: "deliver_all ?rs (Some BURNT) = (out, pending)" by fastforce
  have k: "find_index can_carry ?rs = Some 1" by (simp add: can_carry_def js_def)
  have "BURNT \<noteq> []" by (simp add: BURNT_def js_def)
  from message_delivered_once [OF this d, unfolded k option.case] obtain delivered where
    "pending = None" "carries_message (JStr [33]) BURNT delivered" "out = [JNull, delivered]" by auto
  then show ?thesis using d by (auto simp: carries_message_def)
qed

end
