(* ===== verification/Spec2Isabelle.thy ===== *)
theory Spec2Isabelle
  imports PatchOrder PatchDistance PlacementRuns RevisionHistory RunQueue EventLog PendingPromptRuns Admission SlotGate
    Mistakes FileLocks LoopRuns TransactionSteps SessionEnds WorkerRuns
begin

text \<open>
  \<^bold>\<open>The program.\<close> A coding agent: a session takes prompts, runs an agent's turns against a language
  model, executes the tools the model calls, and hands work to further agents. The core of it is the
  TypeScript package \<open>sdk/packages/core\<close>; all paths below are under \<open>sdk/packages/core/src\<close>. This
  development models the parts of that core that decide, count, queue, remember and edit; the parts
  that only carry data between a network, a disk or a screen are left out.

  \<^bold>\<open>How the parts interact.\<close> A prompt waits in the session's queue (\<open>PendingPrompts\<close>) or, when it
  comes through the hub, in the hub's run queue (\<open>RunQueue\<close>), whose events the event log keeps
  (\<open>EventLog\<close>). A run's tool calls pass the repeated-call guard (\<open>LoopDetection\<close>) and the mistake
  tracker (\<open>Mistakes\<close>), which may stop it. A write goes through the file locks (\<open>FileLocks\<close>), is made
  by an executor such as \<open>apply_patch\<close> (\<open>PatchParser\<close>, \<open>PatchApply\<close>), is entered in the read receipts
  (\<open>ReadReceipts\<close>) and becomes a revision of the file (\<open>Revisions\<close>). A delegated agent is placed on a
  node (\<open>Placement\<close>, \<open>PlacementQueue\<close>), admitted by the engine's headroom (\<open>Admission\<close>) and takes a
  slot of its endpoint (\<open>SlotGate\<close>).

  Around all of that stands the change protocol. A session that edits works in transactions: the workspace is
  captured (\<open>Snapshot\<close>), the model plans (\<open>PlanTool\<close>, \<open>PlanText\<close>), edits under a gate that wants the
  check run first (\<open>RunChecks\<close>) and submits; a check (\<open>Checks\<close>), found in the workspace or proposed by the
  model and approved by the user (\<open>CheckProposals\<close>), decides whether the changes are kept, and what is
  not kept is rolled back. \<open>Transactions\<close> is the controller of that cycle, \<open>Protocol\<close> the texts the model
  reads, \<open>SessionProtocol\<close> what a session does at the boundary of each turn. A struggle detector
  (\<open>Struggle\<close>) reads the same events and offers help; for a delegated worker a supervisor stands in the
  place of the user and stops it (\<open>WorkerStruggle\<close>).

  \<^bold>\<open>Conventions.\<close> A string is a list of 16-bit code units (\<open>jtext\<close>), a \<open>Map\<close> whose order is observed
  is an association list, one that is only looked up is a partial function. A closure or a class is a
  record, an operation a function of the record that returns it changed, an \<open>await\<close> is the boundary
  between two operations, and a run is a list of operations folded over the initial state, so every
  interleaving of the operations at those boundaries is a run. An exception is the left side of a sum. What the
  code takes from outside (Unicode tables, \<open>sha256\<close>, Node's \<open>path\<close>, a clock, what the file system
  answers) is a parameter.

  \<^bold>\<open>The theories.\<close>
  \<^item> \<open>Prelude\<close>, \<open>Text\<close>, \<open>Json\<close>: lists and options, the interface \<open>invariant_machine\<close> of a state machine
    with an invariant, JavaScript strings, JSON values and \<open>JSON.stringify\<close>.
  \<^item> \<open>Placement\<close>, \<open>PlacementQueue\<close>, \<open>PlacementRuns\<close>: \<open>extensions/tools/team/agent-placement.ts\<close> and
    \<open>agent-placement-queue.ts\<close>. The choice of a node, the queue of agents that wait for one with its
    leases, drains and cancellations, and its runs. Occupancy is exact and bounded, every request is
    in one place, a drain keeps the order of arrival, no agent waits while nothing runs.
  \<^item> \<open>Admission\<close>: \<open>extensions/tools/team/agent-admission.ts\<close>. Rounds of admissions within the headroom
    the engine named, and two ways in which overlapping or unbounded rounds escape it.
  \<^item> \<open>SlotGate\<close>: \<open>extensions/tools/team/agent-slot-gate.ts\<close>. The bounded gate refines a line of agents
    of which the first ones run; on the uncapped gate one agent at a time tries.
  \<^item> \<open>RunQueue\<close>, \<open>EventLog\<close>: \<open>hub/server/hub-run-queue.ts\<close>, \<open>hub-event-log.ts\<close>. Admission, recovery and
    pruning of runs as a table of rows; sequence numbers, paging and sweeps of events.
  \<^item> \<open>PendingPrompts\<close>, \<open>PendingPromptRuns\<close>: \<open>runtime/turn-queue/pending-prompt-service.ts\<close>. The queue of
    prompts, steering, merged recaps, the drain with its rejections; prompts are kept and sent one
    at a time.
  \<^item> \<open>LoopDetection\<close>, \<open>LoopRuns\<close>, \<open>Mistakes\<close>: \<open>runtime/safety/loop-detection.ts\<close>, \<open>mistake-tracker.ts\<close>.
    Every tally and verdict with its text; a stop is earned by the call's own history, and a failing
    call is stopped.
  \<^item> \<open>FileLocks\<close>: \<open>extensions/tools/executors/file-locks.ts\<close>. Promise chains per path; one writer at a time.
  \<^item> \<open>Revisions\<close>, \<open>RevisionHistory\<close>: \<open>runtime/atomic/file-revisions.ts\<close>. The log of versions of each file
    with shared contents counted by reference, caps, compaction and the spellings of a number.
  \<^item> \<open>PatchContext\<close>, \<open>PatchParser\<close>, \<open>PatchApply\<close>: \<open>extensions/tools/executors/apply-patch-parser.ts\<close>,
    \<open>apply-patch.ts\<close>, \<open>line-endings.ts\<close>, \<open>bom.ts\<close>. The parser as two partial functions (a loop that
    never returns is \<open>None\<close>), the search for a hunk's place, chunks and writes. \<open>PatchDistance\<close>: the
    edit distance is least. \<open>PatchRuns\<close>: which patches return. \<open>PatchHunks\<close>, \<open>PatchResults\<close>,
    \<open>PatchOrder\<close>: a hunk is replaced, a refused patch writes nothing, chunks do not overlap, a file with
    one line ending keeps it. Every write and removal may fail, and a write may leave the file torn.
  \<^item> \<open>ReadReceipts\<close>: \<open>extensions/tools/executors/read-receipts.ts\<close>. What the model has seen of each file,
    characterised by the history of reads and writes.
  \<^item> \<open>Snapshot\<close>, \<open>Undo\<close>, \<open>Tidy\<close>: \<open>runtime/atomic/snapshot.ts\<close>. Capture, comparison and rollback of a
    workspace within the limits of size and count. Where both scans cover it a rollback is exact; a file
    the capture skipped can be removed; well-formed workspaces stay so.
  \<^item> \<open>Protocol\<close>, \<open>Transactions\<close>, \<open>TransactionRuns\<close>, \<open>TransactionUndo\<close>, \<open>TransactionSteps\<close>:
    \<open>runtime/atomic/protocol.ts\<close>, \<open>transaction-controller.ts\<close>, \<open>transaction-runner.ts\<close>. A task as a loop over
    transactions with attempts of the model as a parameter: its budget, the frozen check, when work is
    carried, and that an exhausted task leaves the files as they were.
  \<^item> \<open>Checks\<close>, \<open>CheckProposals\<close>, \<open>RunChecks\<close>: \<open>runtime/atomic/oracle.ts\<close>, \<open>proposal.ts\<close>,
    \<open>propose-check-tool.ts\<close>, \<open>run-check-tool.ts\<close>, \<open>stalled-checks.ts\<close>, \<open>check-first-edits.ts\<close>. Which check
    a workspace has, the verdict of a run, how a proposed one comes into force, when checks without a
    change close the transaction and which edits wait for a check.
  \<^item> \<open>PlanTool\<close>, \<open>PlanText\<close>: \<open>runtime/atomic/plan-tool.ts\<close>, \<open>plan-text.ts\<close>, \<open>plan-capture.ts\<close>. The plan as a
    list of items with the record of what became of each, and plans found in prose, word for word.
  \<^item> \<open>SessionProtocol\<close>, \<open>SessionRuns\<close>, \<open>SessionEnds\<close>: \<open>runtime/atomic/session-protocol.ts\<close>,
    \<open>submit-transaction-tool.ts\<close>. The session around the controller as a machine of events: what holds in
    every order of them, that a session that falls silent is over after nine turns for each of its
    transactions, and what turning the protocol off decides.
  \<^item> \<open>JsonText\<close>, \<open>Patterns\<close>, \<open>Doubles\<close>: the language below the struggle layer: \<open>JSON.parse\<close>, the regular
    expressions of words between word boundaries, the rounding of a quotient to a double and \<open>toFixed(2)\<close>.
  \<^item> \<open>Struggle\<close>, \<open>StruggleRuns\<close>: \<open>runtime/safety/struggle-detector.ts\<close>. Thresholds, lexicons, window,
    texts and the feed; offers are bounded and rest on the evidence since the last compaction, and two
    reasons that are due displace each other.
  \<^item> \<open>WorkerStruggle\<close>, \<open>WorkerRuns\<close>: \<open>runtime/safety/worker-struggle.ts\<close>, \<open>worker-struggle-stop.ts\<close>,
    \<open>runtime/escalation/struggle-offer.ts\<close> and \<open>reasoningHitBudget\<close> of
    \<open>extensions/context/capped-thinking.ts\<close>. A stop rests on a nudge and on turns that ran out of their
    budget after it, a worker that burns every turn is stopped by the seventh, a held message reaches the
    model once.

  \<^bold>\<open>Bounds and fuel.\<close> No definition uses fuel. The loops of the sources that advance are recursive over
  what is left or have a measure; the two that may not are partial functions. Numbers that the code
  counts with stay far below \<open>2 ^ 53\<close> and are naturals or integers; the two quotients of the struggle
  detector are rationals rounded to a double; numbers that come from outside keep the language's
  infinities where the code tests for them. The nine turns of \<open>silent_session_ends\<close> and the seven of
  \<open>burning_worker_is_stopped\<close> follow from the constants of the sources.

  \<^bold>\<open>Not modelled.\<close> The turn loop of the agent, the session host and its orchestration, the providers
  of models, sockets, processes and databases, and all user interfaces: their work is I/O, and what
  they decide is decided in the parts above. The generated model catalog is data. Of the modelled files are
  left out: in the patch executor the scan of what no longer parses and of its delimiters, the revisions it
  captures and reads from a base; the tool that restores a file; how a check's process is wrapped and its
  environment; the listeners of a worker's stop. The editor, \<open>sed\<close> and \<open>awk\<close> tools and context
  compaction are logic of the same kind as what is here and have no model: the first three are interpreters
  of three more editing languages, each as large as the patch executor, and compaction rewrites messages
  a model has written.
\<close>

end
